(* ===== verification/Prelude.thy ===== *)
theory Prelude
  imports Complex_Main "HOL-Library.Word" "HOL-Library.Monad_Syntax" "HOL-Library.Sublist"
    "HOL-Library.Signed_Division"
begin

text \<open>
  What every component shares and no component owns: bytes and C++ strings, the
  big-endian 16-bit length field of the chat frame, decimal printing and parsing
  (\<open>std::to_string\<close>, \<open>std::stoi\<close>, \<open>std::from_chars\<close>, \<open>strtol\<close>), searching in strings,
  and the collections of simplification rules the component proofs use.

  A \<open>std::string\<close> is a \<^typ>\<open>string\<close>: an Isabelle character has eight bits, so it is a
  \<open>char\<close> of the program. A \<open>std::uint8_t\<close> is an 8-bit word; the two conversions are
  written out, as the source does when it copies a payload into a string.
\<close>

unbundle bit_operations_syntax

named_theorems io_defs \<open>primitive calls, unfolded when a run is evaluated\<close>
named_theorems bytes_simps \<open>encoding of lengths and characters\<close>

lemma take_drop_append [simp]: "take n xs @ drop n xs @ ys = xs @ ys"
  by (metis append_assoc append_take_drop_id)

section \<open>Bytes and characters\<close>

type_synonym byte = "8 word"
type_synonym u16 = "16 word"
type_synonym u32 = "32 word"
type_synonym u64 = "64 word"

lemma unat_byte_less [simp]: "unat (b :: byte) < 256"
  using unsigned_less [of b] by simp

definition byte_of_char :: "char \<Rightarrow> byte" where
  "byte_of_char c = of_char c"

definition char_of_byte :: "byte \<Rightarrow> char" where
  "char_of_byte b = char_of (unat b)"

abbreviation bytes_of :: "string \<Rightarrow> byte list" where
  "bytes_of s \<equiv> List.map byte_of_char s"

abbreviation chars_of :: "byte list \<Rightarrow> string" where
  "chars_of bs \<equiv> List.map char_of_byte bs"

lemma unat_byte_of_char: "unat (byte_of_char c) = of_char c"
proof -
  have "(of_char c :: nat) < 256" by simp
  moreover have "byte_of_char c = word_of_nat (of_char c)"
    by (simp add: byte_of_char_def of_nat_of_char)
  ultimately show ?thesis by (simp add: unat_of_nat)
qed

lemma char_of_byte_of_char [simp, bytes_simps]: "char_of_byte (byte_of_char c) = c"
  by (simp add: char_of_byte_def unat_byte_of_char)

lemma byte_of_char_of_byte [simp, bytes_simps]: "byte_of_char (char_of_byte b) = b"
proof -
  have "unat b < 256" by (rule unat_byte_less)
  then have "unat (byte_of_char (char_of_byte b)) = unat b"
    by (simp add: unat_byte_of_char char_of_byte_def)
  then show ?thesis by (simp only: word_unat_eq_iff)
qed

lemma char_byte_comp [simp]:
  "char_of_byte \<circ> byte_of_char = id" "byte_of_char \<circ> char_of_byte = id"
  by (auto simp: fun_eq_iff)

lemma chars_of_bytes_of [simp]: "chars_of (bytes_of s) = s"
  by (simp add: map_idI)

lemma bytes_of_chars_of [simp]: "bytes_of (chars_of bs) = bs"
  by (simp add: map_idI)

lemma byte_of_char_eq_iff [simp]: "byte_of_char c = byte_of_char d \<longleftrightarrow> c = d"
  by (metis char_of_byte_of_char)

lemma char_of_byte_eq_iff [simp]: "char_of_byte a = char_of_byte b \<longleftrightarrow> a = b"
  by (metis byte_of_char_of_byte)

text \<open>What evaluates the conversions on literals.\<close>

lemmas char_eval = char_of_byte_def byte_of_char_def char_of_def bit_iff_odd

section \<open>The 16-bit big-endian length\<close>

text \<open>
  \<open>static_cast<std::uint8_t>((n >> 8) & 0xFF)\<close>, \<open>static_cast<std::uint8_t>(n & 0xFF)\<close> and
  \<open>(static_cast<std::size_t>(hi) << 8) | lo\<close>, as every version of the frame codec writes
  them.
\<close>

definition be16_hi :: "nat \<Rightarrow> byte" where
  "be16_hi n = word_of_nat (drop_bit 8 n AND 0xFF)"

definition be16_lo :: "nat \<Rightarrow> byte" where
  "be16_lo n = word_of_nat (n AND 0xFF)"

definition be16_value :: "byte \<Rightarrow> byte \<Rightarrow> nat" where
  "be16_value hi lo = push_bit 8 (unat hi) OR unat lo"

lemma and_255: "(n::nat) AND 255 = n mod 256"
proof -
  have "n AND mask 8 = take_bit 8 n" by (simp add: take_bit_eq_mask)
  then show ?thesis by (simp add: mask_eq_exp_minus_1 take_bit_eq_mod)
qed

lemma unat_be16_hi [bytes_simps]: "unat (be16_hi n) = n div 256 mod 256"
  by (simp add: be16_hi_def and_255 drop_bit_eq_div unat_of_nat)

lemma unat_be16_lo [bytes_simps]: "unat (be16_lo n) = n mod 256"
  by (simp add: be16_lo_def and_255 unat_of_nat)

lemma be16_value_eq [bytes_simps]: "be16_value hi lo = unat hi * 256 + unat lo"
proof -
  have lo: "unat lo < 2 ^ 8" by simp
  have "push_bit 8 (unat hi) AND unat lo = 0"
  proof (rule bit_eqI)
    fix n :: nat
    have "\<not> bit (unat lo) n" if "8 \<le> n"
    proof -
      have "(2::nat) ^ 8 \<le> 2 ^ n" using that by (intro power_increasing) auto
      with lo have "unat lo < 2 ^ n" by (rule less_le_trans)
      then show ?thesis by (simp add: bit_iff_odd)
    qed
    then show "bit (push_bit 8 (unat hi) AND unat lo) n = bit 0 n"
      by (auto simp: bit_and_iff bit_push_bit_iff)
  qed
  then have "push_bit 8 (unat hi) OR unat lo = push_bit 8 (unat hi) + unat lo"
    by (rule disjunctive_add_eq_or [symmetric])
  then show ?thesis by (simp add: be16_value_def push_bit_eq_mult)
qed

lemma be16_eval:
  "be16_hi n = word_of_nat (n div 256 mod 256)" "be16_lo n = word_of_nat (n mod 256)"
  by (simp_all add: be16_hi_def be16_lo_def and_255 drop_bit_eq_div)

lemma be16_value_less: "be16_value hi lo < 65536"
proof -
  have "unat hi < 256" "unat lo < 256" by simp_all
  then show ?thesis unfolding be16_value_eq by linarith
qed

text \<open>Encoding then decoding a length reduces it modulo \<open>65536\<close>: nothing is lost up to 65535.\<close>

lemma be16_roundtrip_mod: "be16_value (be16_hi n) (be16_lo n) = n mod 65536"
proof -
  have "n mod (256 * 256) = 256 * (n div 256 mod 256) + n mod 256"
    by (rule mod_mult2_eq)
  then show ?thesis by (simp add: be16_value_eq unat_be16_hi unat_be16_lo)
qed

lemma be16_roundtrip [simp]: "n \<le> 0xFFFF \<Longrightarrow> be16_value (be16_hi n) (be16_lo n) = n"
  by (simp add: be16_roundtrip_mod)

lemma be16_of_value [simp]:
  "be16_hi (be16_value hi lo) = hi" "be16_lo (be16_value hi lo) = lo"
proof -
  have b: "unat hi < 256" "unat lo < 256" by simp_all
  then have "unat (be16_hi (be16_value hi lo)) = unat hi"
    and "unat (be16_lo (be16_value hi lo)) = unat lo"
    by (simp_all add: unat_be16_hi unat_be16_lo be16_value_eq)
  then show "be16_hi (be16_value hi lo) = hi" "be16_lo (be16_value hi lo) = lo"
    by (simp_all only: word_unat_eq_iff)
qed

section \<open>Decimal numbers\<close>

definition digit_char :: "nat \<Rightarrow> char" where
  "digit_char d = char_of (48 + d)"

definition digit_value :: "char \<Rightarrow> nat" where
  "digit_value c = of_char c - 48"

definition is_digit :: "char \<Rightarrow> bool" where
  "is_digit c \<longleftrightarrow> 48 \<le> (of_char c :: nat) \<and> (of_char c :: nat) \<le> 57"

text \<open>The white space \<open>strtol\<close> and \<open>operator>>\<close> skip: space, \<open>\\t \\n \\v \\f \\r\<close>.\<close>

definition is_space :: "char \<Rightarrow> bool" where
  "is_space c \<longleftrightarrow> (of_char c :: nat) = 32 \<or> (9 \<le> (of_char c :: nat) \<and> (of_char c :: nat) \<le> 13)"

text \<open>\<open>std::to_string\<close>, and the integer conversions of \<open>std::format\<close>.\<close>

fun show_nat :: "nat \<Rightarrow> string" where
  "show_nat n = (if n < 10 then [digit_char n] else show_nat (n div 10) @ [digit_char (n mod 10)])"

definition show_int :: "int \<Rightarrow> string" where
  "show_int i = (if i < 0 then ''-'' @ show_nat (nat (- i)) else show_nat (nat i))"

declare show_nat.simps [simp del]

definition decimal :: "string \<Rightarrow> nat" where
  "decimal ds = foldl (\<lambda>a c. a * 10 + digit_value c) 0 ds"

text \<open>
  \<open>strtol(s, &end, 10)\<close> before its range check: the value and how many characters were
  used, \<^const>\<open>None\<close> when there is no digit to convert (\<open>end == s\<close>).
\<close>

definition strtol10 :: "string \<Rightarrow> (int \<times> nat) option" where
  "strtol10 s =
     (let sp = takeWhile is_space s;
          r = drop (List.length sp) s;
          neg = (r \<noteq> [] \<and> hd r = CHR ''-'');
          sg = (if r \<noteq> [] \<and> (hd r = CHR ''-'' \<or> hd r = CHR ''+'') then 1 else 0);
          ds = takeWhile is_digit (drop sg r)
      in if ds = [] then None
         else Some ((if neg then - int (decimal ds) else int (decimal ds)),
                    List.length sp + sg + List.length ds))"

text \<open>
  \<open>std::stoi(s, &pos)\<close>: throws \<open>invalid_argument\<close> where nothing converts and
  \<open>out_of_range\<close> where the value does not fit an \<open>int\<close>. \<open>std::stoll\<close> has the 64-bit range.
\<close>

datatype conv_error = Invalid_argument | Out_of_range

definition stoi :: "string \<Rightarrow> conv_error + int \<times> nat" where
  "stoi s = (case strtol10 s of None \<Rightarrow> Inl Invalid_argument
     | Some (v, p) \<Rightarrow> if v < - (2 ^ 31) \<or> 2 ^ 31 \<le> v then Inl Out_of_range else Inr (v, p))"

text \<open>
  \<open>std::atoi(s)\<close>: glibc's \<open>(int) strtol(s, NULL, 10)\<close>, which is 0 where nothing converts,
  saturates at the 64-bit range and keeps the low 32 bits.
\<close>

definition atoi :: "string \<Rightarrow> int" where
  "atoi s = (case strtol10 s of None \<Rightarrow> 0
     | Some (v, _) \<Rightarrow> sint (word_of_int (max (- (2 ^ 63)) (min (2 ^ 63 - 1) v)) :: 32 word))"

text \<open>
  \<open>std::from_chars\<close> on an unsigned 64-bit target, with the callers' test that the whole text
  was used: digits only, no sign and no space, in range.
\<close>

definition from_chars_u64 :: "string \<Rightarrow> nat option" where
  "from_chars_u64 s =
     (if s \<noteq> [] \<and> list_all is_digit s \<and> decimal s < 2 ^ 64 then Some (decimal s) else None)"

text \<open>The same on an \<open>int\<close>: a leading \<open>-\<close> is accepted, a \<open>+\<close> is not.\<close>

definition from_chars_int :: "string \<Rightarrow> int option" where
  "from_chars_int s =
     (let neg = (s \<noteq> [] \<and> hd s = CHR ''-'');
          ds = (if neg then tl s else s);
          v = (if neg then - int (decimal ds) else int (decimal ds))
      in if ds \<noteq> [] \<and> list_all is_digit ds \<and> - (2 ^ 31) \<le> v \<and> v < 2 ^ 31 then Some v else None)"

lemma digit_char_props [simp]:
  assumes "d < 10"
  shows "of_char (digit_char d) = 48 + d" "is_digit (digit_char d)" "digit_value (digit_char d) = d"
    "\<not> is_space (digit_char d)"
  using assms by (simp_all add: digit_char_def is_digit_def digit_value_def is_space_def)

lemma decimal_snoc: "decimal (ds @ [c]) = decimal ds * 10 + digit_value c"
  by (simp add: decimal_def)

lemma show_nat_digits [simp]: "list_all is_digit (show_nat n)"
proof (induction n rule: show_nat.induct)
  case (1 n)
  then show ?case by (cases "n < 10") (simp_all add: show_nat.simps [of n])
qed

lemma show_nat_not_Nil [simp]: "show_nat n \<noteq> []"
  by (simp add: show_nat.simps [of n])

lemma decimal_show_nat [simp]: "decimal (show_nat n) = n"
proof (induction n rule: show_nat.induct)
  case (1 n)
  show ?case
  proof (cases "n < 10")
    case True
    then show ?thesis by (simp add: show_nat.simps [of n] decimal_def)
  next
    case False
    with 1 show ?thesis by (simp add: show_nat.simps [of n] decimal_snoc)
  qed
qed

lemma is_digit_not_special:
  assumes "is_digit c"
  shows "\<not> is_space c" "c \<noteq> CHR ''-''" "c \<noteq> CHR ''+''"
  using assms by (auto simp: is_digit_def is_space_def)

lemma show_nat_hd [simp]:
  "\<not> is_space (hd (show_nat n))" "hd (show_nat n) \<noteq> CHR ''-''" "hd (show_nat n) \<noteq> CHR ''+''"
proof -
  have "is_digit (hd (show_nat n))"
    using show_nat_digits [of n] by (metis list.pred_set hd_in_set show_nat_not_Nil)
  then show "\<not> is_space (hd (show_nat n))" "hd (show_nat n) \<noteq> CHR ''-''"
    "hd (show_nat n) \<noteq> CHR ''+''" by (simp_all add: is_digit_not_special)
qed

lemma takeWhile_space_show_nat [simp]: "takeWhile is_space (show_nat n) = []"
  by (metis show_nat_hd(1) show_nat_not_Nil takeWhile_eq_Nil_iff)

lemma takeWhile_digit_show_nat [simp]: "takeWhile is_digit (show_nat n) = show_nat n"
  using show_nat_digits [of n] by (simp add: takeWhile_eq_all_conv list.pred_set)

lemma strtol10_show_nat: "strtol10 (show_nat n) = Some (int n, List.length (show_nat n))"
  by (simp add: strtol10_def)

lemma strtol10_show_int: "strtol10 (show_int i) = Some (i, List.length (show_int i))"
proof (cases "i < 0")
  case True
  have "takeWhile is_space (CHR ''-'' # show_nat n) = []" for n
    by (simp add: is_space_def)
  with True show ?thesis by (simp add: show_int_def strtol10_def)
next
  case False
  then show ?thesis by (simp add: show_int_def strtol10_show_nat)
qed

text \<open>Printing an \<open>int\<close> and parsing it back is the identity.\<close>

lemma stoi_show_int:
  "- (2 ^ 31) \<le> i \<Longrightarrow> i < 2 ^ 31 \<Longrightarrow> stoi (show_int i) = Inr (i, List.length (show_int i))"
  by (simp add: stoi_def strtol10_show_int)

lemma from_chars_u64_show_nat: "n < 2 ^ 64 \<Longrightarrow> from_chars_u64 (show_nat n) = Some n"
  by (simp add: from_chars_u64_def)

section \<open>Searching in strings\<close>

text \<open>\<open>s.find(c)\<close>, \<open>s.rfind(c)\<close> (\<^const>\<open>None\<close> is \<open>npos\<close>), \<open>s.starts_with(p)\<close>.\<close>

fun find_from :: "'a \<Rightarrow> 'a list \<Rightarrow> nat option" where
  "find_from c [] = None"
| "find_from c (x # xs) = (if x = c then Some 0 else map_option Suc (find_from c xs))"

fun rfind :: "'a \<Rightarrow> 'a list \<Rightarrow> nat option" where
  "rfind c [] = None"
| "rfind c (x # xs) = (case rfind c xs of Some i \<Rightarrow> Some (Suc i)
     | None \<Rightarrow> if x = c then Some 0 else None)"

definition starts_with :: "string \<Rightarrow> string \<Rightarrow> bool" where
  "starts_with s p = (take (List.length p) s = p)"

lemma find_from_None: "find_from c xs = None \<longleftrightarrow> c \<notin> set xs"
  by (induction xs) auto

lemma find_from_append: "c \<notin> set xs \<Longrightarrow> find_from c (xs @ c # ys) = Some (List.length xs)"
  by (induction xs) auto

lemma find_from_Some:
  "find_from c xs = Some i \<Longrightarrow> i < List.length xs \<and> xs ! i = c \<and> c \<notin> set (take i xs)"
proof (induction xs arbitrary: i)
  case Nil
  then show ?case by simp
next
  case (Cons x xs)
  then show ?case by (cases i) (auto split: if_splits)
qed

lemma rfind_None: "rfind c xs = None \<longleftrightarrow> c \<notin> set xs"
  by (induction xs) (auto split: option.splits)

lemma rfind_append: "c \<notin> set ys \<Longrightarrow> rfind c (xs @ c # ys) = Some (List.length xs)"
proof (induction xs)
  case Nil
  then have "rfind c ys = None" by (simp add: rfind_None)
  then show ?case by simp
next
  case (Cons x xs)
  then show ?case by simp
qed

lemma starts_with_append [simp]: "starts_with (p @ s) p"
  by (simp add: starts_with_def)

end
