(* ===== verification/Sys.thy ===== *)
theory Sys
  imports Prelude
begin

text \<open>
  The boundary of the program: system calls, the clock, flags other threads or signal
  handlers set, and output. The kernel is not under \<open>src/\<close>, so it is a parameter of every
  definition: a run starts with the list of answers the kernel is going to give, each call
  takes the next answer, and the run's trace records the calls with their answers. A
  definition that asks for an answer when none is left is still blocked in that call, which
  is \<^const>\<open>None\<close>. Quantifying over the answers quantifies over every behaviour of the kernel;
  what a theorem relies on is a named hypothesis on the answers (\<open>honest\<close> below).

  A \<open>for (;;)\<close> or \<open>while\<close> loop around system calls is \<open>loop\<close>, a partial function into
  option: it unfolds like the C++ loop, and not returning is \<^const>\<open>None\<close>.
\<close>

section \<open>Answers, output and calls\<close>

text \<open>
  An answer is what the C interface gives back: the return value, \<open>errno\<close> where it is
  negative, the bytes written to the caller's buffer, and the ready events of
  \<open>poll\<close>/\<open>epoll_wait\<close> as (slot or token, event mask).
\<close>

record answer =
  rv :: int
  eno :: int
  dat :: "byte list"
  evs :: "(nat \<times> u32) list"

abbreviation EINTR :: int where "EINTR \<equiv> 4"
abbreviation EAGAIN :: int where "EAGAIN \<equiv> 11"
abbreviation EINPROGRESS :: int where "EINPROGRESS \<equiv> 115"

abbreviation POLLIN :: u32 where "POLLIN \<equiv> 1"
abbreviation POLLOUT :: u32 where "POLLOUT \<equiv> 4"
abbreviation POLLERR :: u32 where "POLLERR \<equiv> 8"
abbreviation POLLHUP :: u32 where "POLLHUP \<equiv> 16"

text \<open>\<open>std::error_code\<close>: the system category with an \<open>errno\<close>, or a \<open>std::errc\<close> condition.\<close>

datatype errc = Errc_io_error | Errc_connection_reset | Errc_message_size | Errc_protocol_error

datatype error_code = System_error int | Generic_error errc

text \<open>
  A printed line or an error string is a list of pieces: text, \<open>std::strerror(e)\<close> of an error
  number, \<open>strsignal(n)\<close> or \<open>error_code::message()\<close> (tables of the C library, kept symbolic), and a
  floating-point number printed with two decimals.
\<close>

datatype piece = Txt string | StrError int | StrSignal int | ErrorCode error_code | Fixed2 rat

type_synonym msg = "piece list"

datatype stream = Stdout | Stderr

text \<open>
  The calls, with the arguments the code passes. \<open>So_error\<close> is \<open>getsockopt(SO_ERROR)\<close>, its
  return value standing for the error read; \<open>Setfl fd flags nonblock\<close> is
  \<open>fcntl(F_SETFL, flags)\<close>, with \<open>O_NONBLOCK\<close> added where the last argument says so;
  \<open>Load_flag\<close> and \<open>Store\<close> read and write an atomic another thread or a signal handler shares. \<open>Fs_read_file\<close>
  opens a file and reads all of it. The \<open>Hub_\<close> calls
  are the operations of a thread on the registry it shares with the other threads, \<open>Spawn\<close>
  starts a thread with the function and the arguments given, \<open>Otel\<close> is a call into opentelemetry-cpp.
  \<open>Mem_read\<close> and \<open>Mem_write\<close> move bytes at an offset of a shared mapping; \<open>Tm_settime fd interval value\<close> is
  in nanoseconds. The \<open>Proc_seccomp_\<close> calls are libseccomp's. \<open>Net_ip_option\<close> is \<open>setsockopt(IPPROTO_IP)\<close>.
\<close>

datatype net_call =
    Net_socket | Net_reuseaddr int | Net_inet_pton string | Net_bind int string int
  | Net_listen int nat | Net_accept int | Net_connect int string int | Net_so_error int
  | Net_rcvtimeo int int int | Net_shutdown int | Net_getsockname int | Net_getaddrinfo string string
  | Net_nodelay int | Net_socket_udp | Net_ip_option int string "string list" | Net_sendto int "byte list" string int

datatype ev_call =
    Ev_poll "(int \<times> u32) list" int | Ev_epoll_create | Ev_epoll_add int nat u32
  | Ev_epoll_mod int nat u32 | Ev_epoll_del int | Ev_epoll_wait nat
  | Ev_getfl int | Ev_setfl int int bool | Ev_signalfd

datatype proc_call =
    Proc_fork | Proc_execv string "string list" | Proc_exit int | Proc_waitpid int
  | Proc_kill int int | Proc_sigwait | Proc_block_signals | Proc_unblock_signals
  | Proc_wait_for int | Proc_join string | Proc_install_handlers | Proc_capbset_drop nat | Proc_no_new_privs | Proc_spawn string "string list" int
  | Proc_getpid | Proc_nproc | Proc_setaffinity int | Proc_yield
  | Proc_seccomp_init int | Proc_seccomp_allow string | Proc_seccomp_load | Proc_seccomp_release

datatype fs_call =
    Fs_readlink_self nat | Fs_create_directories string | Fs_open_dir string
  | Fs_directory_iterator string | Fs_inotify_init | Fs_inotify_add int string u32
  | Fs_landlock_version | Fs_landlock_create u64 | Fs_landlock_add int int u64
  | Fs_landlock_restrict int | Fs_getenv string | Fs_read_file string
  | Fs_open_rdwr string bool | Fs_ftruncate int nat | Fs_fstat int | Fs_open_rdonly string

datatype hub_call =
    Hub_add nat int string bool | Hub_remove nat | Hub_broadcast "nat option" bool string string
  | Hub_shutdown_all

datatype tm_call =
    Tm_getres | Tm_nanosleep int | Tm_timerfd | Tm_settime int int int | Tm_random

datatype mem_call =
    Mem_mmap int nat | Mem_munmap nat | Mem_read nat nat | Mem_write nat "byte list"
  | Mem_futex_wait int int | Mem_futex_wake
  | Mem_mq_open string | Mem_mq_send int "byte list" int | Mem_mq_receive int nat int | Mem_mq_close int | Mem_mq_unlink string

text \<open>
  Pipes, children and the files around them. \<open>Pc_pipe2\<close> answers with the two descriptors in slots 0 and 1
  of \<open>evs\<close>. \<open>Pc_spawnp cmd out err\<close> is \<open>posix_spawnp\<close> with an empty signal mask and, where they are not
  negative, \<open>out\<close> and \<open>err\<close> as the child's output; its answer is the pid, or -1 with the error it
  returns. \<open>waitid\<close> fills \<open>si_code\<close>, \<open>si_status\<close> and \<open>si_pid\<close> in slots 0, 1 and 2 of \<open>evs\<close>; the flag says
  \<open>WNOHANG\<close>. \<open>Pc_stat\<close> answers with \<open>st_mode\<close> in slot 0; \<open>Pc_lseek fd off from_start\<close>.
\<close>

datatype pipe_call =
    Pc_pipe2 | Pc_spawnp "string list" int int | Pc_pidfd_open int | Pc_pidfd_signal int int
  | Pc_waitid_pidfd int | Pc_waitid int bool | Pc_block "int list" | Pc_signalfd "int list"
  | Pc_open_append string | Pc_open_fifo string | Pc_mkfifo string | Pc_stat string
  | Pc_lseek int int bool | Pc_splice int int nat | Pc_sigaction int string

text \<open>
  The control socket of a supervisor. \<open>Cc_waitpid\<close> leaves the status word in slot 0 of \<open>evs\<close>; \<open>Cc_peercred\<close>
  the uid and the pid in slots 0 and 1. \<open>Cc_recvmsg\<close> answers with the control messages as slots: the
  type and the descriptor of the first \<open>SOL_SOCKET\<close> message with type \<open>SCM_RIGHTS\<close>, if there is one, is
  slot 0. \<open>Cc_lock\<close>, \<open>Cc_unlock\<close>, \<open>Cc_notify_all\<close> and the two waits are the mutex and the condition
  variable; \<open>Cc_wait_for ms flag\<close> answers whether the flag was set.
\<close>

datatype ctl_call =
    Cc_open_log string | Cc_unlink string | Cc_socket | Cc_bind int string | Cc_connect int string
  | Cc_peercred int | Cc_sendmsg int "byte list" int | Cc_recvmsg int nat | Cc_pread int nat nat
  | Cc_setpgid | Cc_dup2 int int | Cc_execvp "string list" | Cc_waitpid int
  | Cc_lock | Cc_unlock | Cc_notify_all | Cc_wait_for int string | Cc_wait string

text \<open>
  A chat room: the operations of a connection's thread on the list of clients, each under its mutex, and
  \<open>request_stop\<close> on a thread, which runs the callback the thread registered. \<open>Rc_remove\<close> answers with the
  name of the client.
\<close>

datatype room_call =
    Rc_add int int | Rc_set_name int string | Rc_remove int | Rc_broadcast "byte list" int | Rc_request_stop int

datatype call =
    Read int nat | Write int "byte list" | Recv int nat | Send int "byte list" | Close int
  | Net net_call | Ev ev_call | Proc proc_call | Fs fs_call | Hub hub_call
  | Clock_ns | Time | Sleep_ms int | Load_flag string | Store string int
  | Print stream msg | Fflush stream | Otel string msg | Tm tm_call | Mem mem_call
  | Pipe pipe_call | Ctl ctl_call | Room room_call

abbreviation "Socket \<equiv> Net Net_socket"
abbreviation "Reuseaddr fd \<equiv> Net (Net_reuseaddr fd)"
abbreviation "Inet_pton h \<equiv> Net (Net_inet_pton h)"
abbreviation "Bind fd h p \<equiv> Net (Net_bind fd h p)"
abbreviation "Listen fd n \<equiv> Net (Net_listen fd n)"
abbreviation "Accept fd \<equiv> Net (Net_accept fd)"
abbreviation "Connect fd h p \<equiv> Net (Net_connect fd h p)"
abbreviation "So_error fd \<equiv> Net (Net_so_error fd)"
abbreviation "Rcvtimeo fd s us \<equiv> Net (Net_rcvtimeo fd s us)"
abbreviation "Poll fds ms \<equiv> Ev (Ev_poll fds ms)"
abbreviation "Getfl fd \<equiv> Ev (Ev_getfl fd)"
abbreviation "Setfl fd fl nb \<equiv> Ev (Ev_setfl fd fl nb)"
abbreviation "Install_handlers \<equiv> Proc Proc_install_handlers"
abbreviation "Spawn f args n \<equiv> Proc (Proc_spawn f args n)"

record world =
  script :: "answer list"
  trace :: "(call \<times> answer option) list"

text \<open>Answers and starting points written out: success with a value, with bytes, a failure.\<close>

definition returned :: "int \<Rightarrow> answer" where
  "returned n = \<lparr>rv = n, eno = 0, dat = [], evs = []\<rparr>"

definition gave :: "byte list \<Rightarrow> answer" where
  "gave bs = \<lparr>rv = int (List.length bs), eno = 0, dat = bs, evs = []\<rparr>"

definition failed :: "int \<Rightarrow> answer" where
  "failed e = \<lparr>rv = -1, eno = e, dat = [], evs = []\<rparr>"

definition answering :: "answer list \<Rightarrow> world" where
  "answering s = \<lparr>script = s, trace = []\<rparr>"

text \<open>A call whose answer the code looks at, and one whose answer it ignores.\<close>

definition sys :: "call \<Rightarrow> world \<Rightarrow> (answer \<times> world) option" where
  "sys c w = (case script w of [] \<Rightarrow> None
     | a # s \<Rightarrow> Some (a, w\<lparr>script := s, trace := trace w @ [(c, Some a)]\<rparr>))"

definition emit :: "call \<Rightarrow> world \<Rightarrow> world" where
  "emit c w = w\<lparr>trace := trace w @ [(c, None)]\<rparr>"

definition println :: "stream \<Rightarrow> msg \<Rightarrow> world \<Rightarrow> world" where
  [io_defs]: "println st m = emit (Print st m)"

lemma answer_sel [simp]:
  "rv (returned n) = n" "rv (gave bs) = int (List.length bs)" "rv (failed e) = -1"
  "eno (returned n) = 0" "eno (gave bs) = 0" "eno (failed e) = e"
  "dat (returned n) = []" "dat (gave bs) = bs" "dat (failed e) = []"
  "script (answering s) = s" "trace (answering s) = []"
  by (simp_all add: returned_def gave_def failed_def answering_def)

text \<open>A run from a written-out world is evaluated by these rules.\<close>

lemma sys_eval [io_defs]:
  "sys c \<lparr>script = a # s, trace = t\<rparr> = Some (a, \<lparr>script = s, trace = t @ [(c, Some a)]\<rparr>)"
  "sys c \<lparr>script = [], trace = t\<rparr> = None"
  by (simp_all add: sys_def)

lemma emit_eval [io_defs]: "emit c \<lparr>script = s, trace = t\<rparr> = \<lparr>script = s, trace = t @ [(c, None)]\<rparr>"
  by (simp add: emit_def)

lemma answering_eval [io_defs]: "answering s = \<lparr>script = s, trace = []\<rparr>"
  by (rule answering_def)

text \<open>
  The bytes an answer put into the buffer: as many as the return value says; a byte the
  answer does not spell out is 0.
\<close>

definition filled :: "answer \<Rightarrow> byte list" where
  "filled a = take (nat (rv a)) (dat a @ replicate (nat (rv a)) 0)"

lemma length_filled [simp]: "List.length (filled a) = nat (rv a)"
  by (simp add: filled_def)

lemma filled_gave [simp]: "filled (gave bs) = bs"
  by (simp add: filled_def)

lemma filled_nonpos [simp]: "rv a \<le> 0 \<Longrightarrow> filled a = []"
  by (simp add: filled_def)

text \<open>What \<open>poll\<close> reported for its \<open>i\<close>-th descriptor.\<close>

definition revents :: "nat \<Rightarrow> answer \<Rightarrow> u32" where
  "revents i a = (case map_of (evs a) i of Some m \<Rightarrow> m | None \<Rightarrow> 0)"

section \<open>Loops\<close>

datatype ('s, 'r) ctl = Continue 's | Break 'r

partial_function (option) loop ::
  "('s \<Rightarrow> world \<Rightarrow> (('s, 'r) ctl \<times> world) option) \<Rightarrow> 's \<Rightarrow> world \<Rightarrow> ('r \<times> world) option" where
  "loop body s w = do {
     (c, w1) \<leftarrow> body s w;
     (case c of Continue s1 \<Rightarrow> loop body s1 w1 | Break r \<Rightarrow> Some (r, w1)) }"

declare loop.simps [code]

lemma io_bind_Some [simp]:
  "(Option.bind m (\<lambda>(a, w). f a w)) = Some x \<longleftrightarrow> (\<exists>a w. m = Some (a, w) \<and> f a w = Some x)"
  by (simp add: bind_eq_Some_conv)

lemma io_bind_None:
  "(Option.bind m (\<lambda>(a, w). f a w)) = None \<longleftrightarrow>
    m = None \<or> (\<exists>a w. m = Some (a, w) \<and> f a w = None)"
  by (cases m) auto

text \<open>\<open>if (auto r = m(); !r) return std::unexpected(r.error());\<close> and the rest with the value.\<close>

definition io_try :: "(('e + 'a) \<times> world) option \<Rightarrow> ('a \<Rightarrow> world \<Rightarrow> (('e + 'b) \<times> world) option) \<Rightarrow>
    (('e + 'b) \<times> world) option" where
  "io_try m f = do { (r, w) \<leftarrow> m; (case r of Inl e \<Rightarrow> Some (Inl e, w) | Inr x \<Rightarrow> f x w) }"

lemma io_try_Some:
  "io_try m f = Some (r, w') \<longleftrightarrow> (\<exists>e. m = Some (Inl e, w') \<and> r = Inl e) \<or>
     (\<exists>x w1. m = Some (Inr x, w1) \<and> f x w1 = Some (r, w'))"
  by (auto simp: io_try_def split: sum.split_asm)

lemma io_try_run [simp]:
  "io_try (Some (Inl e, w)) f = Some (Inl e, w)" "io_try (Some (Inr x, w)) f = f x w"
  "io_try None f = None"
  by (simp_all add: io_try_def)

lemma io_try_unit [simp]: "io_try m (\<lambda>_ w. Some (Inr (), w)) = m"
  by (cases m) (auto simp: io_try_def split: sum.split)

text \<open>How a branching computation came to its result: \<open>run_cases\<close> takes a run apart.\<close>

named_theorems run_cases

lemma case_sum_Some [run_cases]:
  "(case s of Inl x \<Rightarrow> f x | Inr y \<Rightarrow> g y) = Some z \<longleftrightarrow>
     (\<exists>x. s = Inl x \<and> f x = Some z) \<or> (\<exists>y. s = Inr y \<and> g y = Some z)"
  by (cases s) simp_all

lemma case_option_Some [run_cases]:
  "(case s of None \<Rightarrow> m | Some y \<Rightarrow> g y) = Some z \<longleftrightarrow>
     (s = None \<and> m = Some z) \<or> (\<exists>y. s = Some y \<and> g y = Some z)"
  by (cases s) simp_all

lemma if_Some [run_cases]:
  "(if b then m else n) = Some z \<longleftrightarrow> (b \<and> m = Some z) \<or> (\<not> b \<and> n = Some z)"
  by simp

declare io_try_Some [run_cases]

text \<open>One turn of a loop, and the two ways it can go.\<close>

lemma loop_Break: "body s w = Some (Break r, w1) \<Longrightarrow> loop body s w = Some (r, w1)"
  by (subst loop.simps) simp

lemma loop_Continue: "body s w = Some (Continue s1, w1) \<Longrightarrow> loop body s w = loop body s1 w1"
  by (subst loop.simps) simp

lemma loop_blocked: "body s w = None \<Longrightarrow> loop body s w = None"
  by (subst loop.simps) simp

text \<open>Partial correctness: an invariant of the turns gives the result its property.\<close>

lemma loop_rule:
  assumes run: "loop body s w = Some (r, w')"
    and init: "I s w"
    and cont: "\<And>s w s1 w1. I s w \<Longrightarrow> body s w = Some (Continue s1, w1) \<Longrightarrow> I s1 w1"
    and brk: "\<And>s w r w1. I s w \<Longrightarrow> body s w = Some (Break r, w1) \<Longrightarrow> Q r w1"
  shows "Q r w'"
proof -
  have *: "b = body \<longrightarrow> I s w \<longrightarrow> (case x of (r, w') \<Rightarrow> Q r w')" if "loop b s w = Some x" for b s w x
  proof (rule loop.raw_induct [where P = "\<lambda>b s w x. b = body \<longrightarrow> I s w \<longrightarrow> (case x of (r, w') \<Rightarrow> Q r w')",
        OF _ that])
    fix lp b s w x
    assume IH: "\<And>b s w x. lp b s w = Some x \<Longrightarrow> b = body \<longrightarrow> I s w \<longrightarrow> (case x of (r, w') \<Rightarrow> Q r w')"
      and eq: "(do { (c, w1) \<leftarrow> b s w;
                 (case c of Continue s1 \<Rightarrow> lp b s1 w1 | Break r \<Rightarrow> Some (r, w1)) }) = Some x"
    show "b = body \<longrightarrow> I s w \<longrightarrow> (case x of (r, w') \<Rightarrow> Q r w')"
    proof (intro impI)
      assume b: "b = body" and I: "I s w"
      from eq b obtain c w1 where c: "body s w = Some (c, w1)"
        and k: "(case c of Continue s1 \<Rightarrow> lp b s1 w1 | Break r \<Rightarrow> Some (r, w1)) = Some x"
        by auto
      show "case x of (r, w') \<Rightarrow> Q r w'"
      proof (cases c)
        case (Continue s1)
        with k have "lp b s1 w1 = Some x" by simp
        from IH [OF this] b cont [OF I c [unfolded Continue]] show ?thesis by blast
      next
        case (Break r1)
        with k brk [OF I c [unfolded Break]] show ?thesis by auto
      qed
    qed
  qed
  from * [OF run] init show ?thesis by simp
qed

text \<open>Total correctness: a measure that each turn decreases, from states whose turn is answered.\<close>

lemma loop_returns:
  assumes "I s w"
    and "\<And>s w. I s w \<Longrightarrow> \<exists>c w1. body s w = Some (c, w1)"
    and "\<And>s w s1 w1. I s w \<Longrightarrow> body s w = Some (Continue s1, w1) \<Longrightarrow> I s1 w1 \<and> m s1 w1 < (m s w :: nat)"
  shows "\<exists>r w'. loop body s w = Some (r, w')"
  using assms(1)
proof (induction "m s w" arbitrary: s w rule: less_induct)
  case less
  from assms(2) [OF less.prems] obtain c w1 where c: "body s w = Some (c, w1)" by blast
  show ?case
  proof (cases c)
    case (Continue s1)
    with c assms(3) [OF less.prems] have "I s1 w1" "m s1 w1 < m s w" by auto
    with less.hyps c Continue show ?thesis by (simp add: loop_Continue)
  next
    case (Break r)
    with c show ?thesis by (simp add: loop_Break)
  qed
qed

section \<open>What happened between two points of a run\<close>

definition later :: "world \<Rightarrow> world \<Rightarrow> bool" where
  "later w w' \<longleftrightarrow> prefix (trace w) (trace w') \<and> suffix (script w') (script w)"

definition since :: "world \<Rightarrow> world \<Rightarrow> (call \<times> answer option) list" where
  "since w w' = drop (List.length (trace w)) (trace w')"

lemma later_refl [simp]: "later w w"
  by (simp add: later_def)

lemma since_refl [simp]: "since w w = []"
  by (simp add: since_def)

lemma later_trans [trans]: "later w w1 \<Longrightarrow> later w1 w2 \<Longrightarrow> later w w2"
  by (auto simp: later_def intro: prefix_order.trans suffix_order.trans)

lemma since_trans:
  "later w w1 \<Longrightarrow> later w1 w2 \<Longrightarrow> since w w2 = since w w1 @ since w1 w2"
  by (auto simp: later_def since_def prefix_def)

lemma trace_since: "later w w' \<Longrightarrow> trace w' = trace w @ since w w'"
  by (auto simp: later_def since_def prefix_def)

lemma sys_SomeE:
  assumes "sys c w = Some (a, w1)"
  shows "later w w1" "since w w1 = [(c, Some a)]" "script w = a # script w1"
  using assms by (auto simp: sys_def later_def since_def suffix_def split: list.splits)

lemma sys_None_iff: "sys c w = None \<longleftrightarrow> script w = []"
  by (simp add: sys_def split: list.split)

lemma emit_later [simp]: "later w (emit c w)" "since w (emit c w) = [(c, None)]"
  "script (emit c w) = script w"
  by (simp_all add: emit_def later_def since_def)

lemma println_later [simp]: "later w (println st m w)"
  "since w (println st m w) = [(Print st m, None)]" "script (println st m w) = script w"
  by (simp_all add: println_def)

lemma since_emit [simp]: "later w w1 \<Longrightarrow> since w (emit c w1) = since w w1 @ [(c, None)]"
  using since_trans [of w w1 "emit c w1"] by simp

lemma later_emit [simp, intro]: "later w w1 \<Longrightarrow> later w (emit c w1)"
  by (blast intro: later_trans emit_later(1))

lemma since_println [simp]: "later w w1 \<Longrightarrow> since w (println st m w1) = since w w1 @ [(Print st m, None)]"
  by (simp add: println_def)

lemma later_println [simp, intro]: "later w w1 \<Longrightarrow> later w (println st m w1)"
  by (simp add: println_def)

text \<open>A call answered after \<open>w\<close>.\<close>

lemma sys_after:
  assumes "later w v" "sys c v = Some (a, v')"
  shows "later w v'" "since w v' = since w v @ [(c, Some a)]"
  using assms(1) sys_SomeE [OF assms(2)] since_trans [of w v v'] by (auto intro: later_trans)

text \<open>
  Straight-line code is run symbolically: after \<open>straight\<close> every state on the way is the first
  one with a shorter script and a longer trace.
\<close>

named_theorems straight

lemma sys_Some_iff [straight]:
  "sys c w = Some (a, w1) \<longleftrightarrow>
     (\<exists>s. script w = a # s \<and> w1 = w\<lparr>script := s, trace := trace w @ [(c, Some a)]\<rparr>)"
  by (auto simp: sys_def split: list.splits)

lemma since_update [straight]: "since w (w\<lparr>script := s, trace := trace w @ t\<rparr>) = t"
  "since w (w\<lparr>trace := trace w @ t\<rparr>) = t"
  by (simp_all add: since_def)

lemma later_update [straight]:
  "later w (w\<lparr>script := s, trace := trace w @ t\<rparr>) \<longleftrightarrow> suffix s (script w)"
  "later w (w\<lparr>trace := trace w @ t\<rparr>)"
  by (simp_all add: later_def)

declare emit_def [straight] println_def [straight] suffix_Cons [straight]

section \<open>Which calls a routine can make\<close>

text \<open>
  \<open>only P w0 w\<close>: since \<open>w0\<close> only calls satisfying \<open>P\<close> were made; \<open>keeps P w0 m\<close>: so it is at
  the end of \<open>m\<close>, if \<open>m\<close> ends. One rule per construct, collected in \<open>keeps_intros\<close>, so that a
  routine's rule is one \<open>auto\<close> over its body.
\<close>

definition only :: "(call \<Rightarrow> bool) \<Rightarrow> world \<Rightarrow> world \<Rightarrow> bool" where
  "only P w0 w \<longleftrightarrow> later w0 w \<and> list_all (P \<circ> fst) (since w0 w)"

definition keeps :: "(call \<Rightarrow> bool) \<Rightarrow> world \<Rightarrow> ('a \<times> world) option \<Rightarrow> bool" where
  "keeps P w0 m \<longleftrightarrow> (\<forall>r w. m = Some (r, w) \<longrightarrow> only P w0 w)"

named_theorems keeps_intros

lemma keepsD: "keeps P w0 m \<Longrightarrow> m = Some (r, w) \<Longrightarrow> only P w0 w"
  by (simp add: keeps_def)

lemma onlyD: "only P w0 w \<Longrightarrow> later w0 w" "only P w0 w \<Longrightarrow> list_all (P \<circ> fst) (since w0 w)"
  by (simp_all add: only_def)

lemma only_refl [simp, keeps_intros]: "only P w w"
  by (simp add: only_def)

lemma only_emit [keeps_intros]: "only P w0 w \<Longrightarrow> P c \<Longrightarrow> only P w0 (emit c w)"
  by (simp add: only_def)

lemma only_println [keeps_intros]: "only P w0 w \<Longrightarrow> P (Print st m) \<Longrightarrow> only P w0 (println st m w)"
  by (simp add: println_def only_emit)

lemma keeps_Some [keeps_intros]: "only P w0 w \<Longrightarrow> keeps P w0 (Some (r, w))"
  by (simp add: keeps_def)

lemma keeps_sys [keeps_intros]: "only P w0 w \<Longrightarrow> P c \<Longrightarrow> keeps P w0 (sys c w)"
  by (auto simp: keeps_def only_def sys_after)

lemma keeps_bind [keeps_intros]:
  "keeps P w0 m \<Longrightarrow> (\<And>a w. only P w0 w \<Longrightarrow> keeps P w0 (f a w)) \<Longrightarrow>
    keeps P w0 (Option.bind m (\<lambda>(a, w). f a w))"
  by (auto simp: keeps_def)

lemma keeps_io_try [keeps_intros]:
  "keeps P w0 m \<Longrightarrow> (\<And>a w. only P w0 w \<Longrightarrow> keeps P w0 (f a w)) \<Longrightarrow> keeps P w0 (io_try m f)"
  by (auto simp: keeps_def io_try_Some)

lemma keeps_if [keeps_intros]:
  "(b \<Longrightarrow> keeps P w0 m) \<Longrightarrow> (\<not> b \<Longrightarrow> keeps P w0 n) \<Longrightarrow> keeps P w0 (if b then m else n)"
  by simp

lemma keeps_Let [keeps_intros]: "keeps P w0 (f x) \<Longrightarrow> keeps P w0 (Let x f)"
  by simp

lemma keeps_case_sum [keeps_intros]:
  "(\<And>x. s = Inl x \<Longrightarrow> keeps P w0 (f x)) \<Longrightarrow> (\<And>y. s = Inr y \<Longrightarrow> keeps P w0 (g y)) \<Longrightarrow>
    keeps P w0 (case s of Inl x \<Rightarrow> f x | Inr y \<Rightarrow> g y)"
  by (cases s) simp_all

lemma keeps_case_option [keeps_intros]:
  "(s = None \<Longrightarrow> keeps P w0 m) \<Longrightarrow> (\<And>y. s = Some y \<Longrightarrow> keeps P w0 (g y)) \<Longrightarrow>
    keeps P w0 (case s of None \<Rightarrow> m | Some y \<Rightarrow> g y)"
  by (cases s) simp_all

lemma keeps_case_prod [keeps_intros]:
  "(\<And>x y. p = (x, y) \<Longrightarrow> keeps P w0 (g x y)) \<Longrightarrow> keeps P w0 (case p of (x, y) \<Rightarrow> g x y)"
  by (cases p) simp

lemma keeps_None [simp, keeps_intros]: "keeps P w0 None"
  by (simp add: keeps_def)

lemma keeps_case_prod_app [keeps_intros]:
  "(\<And>x y. p = (x, y) \<Longrightarrow> keeps P w0 (g x y w)) \<Longrightarrow> keeps P w0 ((case p of (x, y) \<Rightarrow> g x y) w)"
  by (cases p) simp

lemma keeps_loop [keeps_intros]:
  assumes "only P w0 w" and "\<And>s w. only P w0 w \<Longrightarrow> keeps P w0 (body s w)"
  shows "keeps P w0 (loop body s w)"
  unfolding keeps_def
proof (intro allI impI)
  fix r w1
  assume "loop body s w = Some (r, w1)"
  then show "only P w0 w1"
    by (rule loop_rule [where I = "\<lambda>s. only P w0" and Q = "\<lambda>r. only P w0"])
      (auto intro: assms dest: keepsD [OF assms(2)])
qed

text \<open>A projection of the trace that no call of a routine contributes to is empty.\<close>

definition proj :: "(call \<Rightarrow> 'b list) \<Rightarrow> (call \<times> answer option) list \<Rightarrow> 'b list" where
  "proj f t = concat (List.map (f \<circ> fst) t)"

lemma proj_simps [simp]:
  "proj f [] = []" "proj f (e # t) = f (fst e) @ proj f t" "proj f (t @ u) = proj f t @ proj f u"
  by (simp_all add: proj_def)

lemma proj_Nil: "list_all ((\<lambda>c. f c = []) \<circ> fst) t \<Longrightarrow> proj f t = []"
  by (induction t) auto

section \<open>Bytes sent and received\<close>

text \<open>
  The bytes the kernel took from the program's writes on a descriptor, and the bytes it gave
  to its reads, in order.
\<close>

definition accepted_by :: "int \<Rightarrow> call \<times> answer option \<Rightarrow> byte list" where
  "accepted_by fd e = (case e of
       (Write f bs, Some a) \<Rightarrow> if f = fd then take (nat (rv a)) bs else []
     | (Send f bs, Some a) \<Rightarrow> if f = fd then take (nat (rv a)) bs else []
     | _ \<Rightarrow> [])"

definition accepted :: "int \<Rightarrow> (call \<times> answer option) list \<Rightarrow> byte list" where
  "accepted fd t = concat (List.map (accepted_by fd) t)"

definition received_by :: "int \<Rightarrow> call \<times> answer option \<Rightarrow> byte list" where
  "received_by fd e = (case e of
       (Read f n, Some a) \<Rightarrow> if f = fd then filled a else []
     | (Recv f n, Some a) \<Rightarrow> if f = fd then filled a else []
     | _ \<Rightarrow> [])"

definition received :: "int \<Rightarrow> (call \<times> answer option) list \<Rightarrow> byte list" where
  "received fd t = concat (List.map (received_by fd) t)"

text \<open>
  What read(2), write(2), recv(2) and send(2) document and the code relies on: they never
  report more bytes than they were given.
\<close>

definition honest_event :: "call \<times> answer option \<Rightarrow> bool" where
  "honest_event e = (case e of
       (Write f bs, Some a) \<Rightarrow> rv a \<le> int (List.length bs)
     | (Send f bs, Some a) \<Rightarrow> rv a \<le> int (List.length bs)
     | (Read f n, Some a) \<Rightarrow> rv a \<le> int n
     | (Recv f n, Some a) \<Rightarrow> rv a \<le> int n
     | _ \<Rightarrow> True)"

definition honest :: "(call \<times> answer option) list \<Rightarrow> bool" where
  "honest t \<longleftrightarrow> list_all honest_event t"

lemma accepted_simps [simp]:
  "accepted fd [] = []" "accepted fd (e # t) = accepted_by fd e @ accepted fd t"
  "accepted fd (t @ u) = accepted fd t @ accepted fd u"
  by (simp_all add: accepted_def)

lemma received_simps [simp]:
  "received fd [] = []" "received fd (e # t) = received_by fd e @ received fd t"
  "received fd (t @ u) = received fd t @ received fd u"
  by (simp_all add: received_def)

lemma honest_simps [simp]:
  "honest []" "honest (e # t) \<longleftrightarrow> honest_event e \<and> honest t" "honest (t @ u) \<longleftrightarrow> honest t \<and> honest u"
  by (simp_all add: honest_def)

lemma io_event_simps [simp]:
  "accepted_by fd (Write f bs, Some a) = (if f = fd then take (nat (rv a)) bs else [])"
  "accepted_by fd (Send f bs, Some a) = (if f = fd then take (nat (rv a)) bs else [])"
  "accepted_by fd (Read f n, x) = []" "accepted_by fd (Recv f n, x) = []"
  "received_by fd (Read f n, Some a) = (if f = fd then filled a else [])"
  "received_by fd (Recv f n, Some a) = (if f = fd then filled a else [])"
  "received_by fd (Write f bs, x) = []" "received_by fd (Send f bs, x) = []"
  "accepted_by fd (c, None) = []" "received_by fd (c, None) = []" "honest_event (c, None)"
  "honest_event (Write f bs, Some a) \<longleftrightarrow> rv a \<le> int (List.length bs)"
  "honest_event (Send f bs, Some a) \<longleftrightarrow> rv a \<le> int (List.length bs)"
  "honest_event (Read f n, Some a) \<longleftrightarrow> rv a \<le> int n"
  "honest_event (Recv f n, Some a) \<longleftrightarrow> rv a \<le> int n"
  by (simp_all add: accepted_by_def received_by_def honest_event_def split: call.splits)

definition transfers :: "call \<Rightarrow> bool" where
  "transfers c = (case c of Read _ _ \<Rightarrow> True | Write _ _ \<Rightarrow> True | Recv _ _ \<Rightarrow> True | Send _ _ \<Rightarrow> True
     | _ \<Rightarrow> False)"

lemma transfers_simps [simp]:
  "transfers (Read f n)" "transfers (Write f bs)" "transfers (Recv f n)" "transfers (Send f bs)"
  "\<not> transfers (Close f)" "\<not> transfers (Net nc)" "\<not> transfers (Ev e)" "\<not> transfers (Proc p)"
  "\<not> transfers (Fs fc)" "\<not> transfers (Hub h)" "\<not> transfers Clock_ns" "\<not> transfers Time"
  "\<not> transfers (Sleep_ms i)" "\<not> transfers (Load_flag s)" "\<not> transfers (Store s j)" "\<not> transfers (Print st m)"
  "\<not> transfers (Fflush st)" "\<not> transfers (Otel s m)" "\<not> transfers (Tm tc)" "\<not> transfers (Mem mc)" "\<not> transfers (Pipe pc)" "\<not> transfers (Ctl cc)" "\<not> transfers (Room rc)"
  by (simp_all add: transfers_def)

lemma no_transfer [simp]:
  assumes "\<not> transfers c"
  shows "accepted_by fd (c, x) = []" "received_by fd (c, x) = []" "honest_event (c, x)"
  using assms by (auto simp: accepted_by_def received_by_def honest_event_def transfers_def
    split: call.splits option.splits)

lemma no_transfers:
  assumes "list_all ((\<lambda>c. \<not> transfers c) \<circ> fst) t"
  shows "accepted fd t = []" "received fd t = []" "honest t"
  using assms by (induction t) auto

text \<open>
  A kernel that delivers a byte string to a reader in pieces of its choice: each answer is a
  non-empty piece or an interruption the reader retries, and the last one is a piece.
\<close>

definition interrupted :: "answer \<Rightarrow> bool" where
  "interrupted a \<longleftrightarrow> rv a < 0 \<and> eno a = EINTR"

fun delivers :: "answer list \<Rightarrow> byte list \<Rightarrow> bool" where
  "delivers [] bs \<longleftrightarrow> bs = []"
| "delivers (a # as) bs \<longleftrightarrow>
     (if interrupted a then as \<noteq> [] \<and> bs \<noteq> [] \<and> delivers as bs
      else 0 < rv a \<and> take (nat (rv a)) bs = filled a \<and> delivers as (drop (nat (rv a)) bs))"

section \<open>The interface of a write-everything and of a read-exactly routine\<close>

text \<open>
  Every program of the repository has its own loop around write(2) or send(2). \<open>ok\<close> tells
  which results mean success. What its callers rely on is that success means every byte was
  accepted, in order, and that a failure leaves a prefix accepted.
\<close>

locale byte_writer =
  fixes write_all :: "int \<Rightarrow> byte list \<Rightarrow> world \<Rightarrow> ('r \<times> world) option"
    and ok :: "'r \<Rightarrow> bool"
  assumes writer_later: "write_all fd bs w = Some (r, w') \<Longrightarrow> later w w'"
    and writer_prefix: "write_all fd bs w = Some (r, w') \<Longrightarrow> honest (since w w') \<Longrightarrow>
      prefix (accepted fd (since w w')) bs"
    and writer_all: "write_all fd bs w = Some (r, w') \<Longrightarrow> honest (since w w') \<Longrightarrow> ok r \<Longrightarrow>
      accepted fd (since w w') = bs"
begin

text \<open>A header and then a body, the shape of every frame writer.\<close>

lemma two_writes:
  assumes "write_all fd b1 w = Some (r1, w1)" "write_all fd b2 w1 = Some (r2, w2)" "ok r1"
    and "honest (since w w2)"
  shows "later w w2" "prefix (accepted fd (since w w2)) (b1 @ b2)"
    "ok r2 \<Longrightarrow> accepted fd (since w w2) = b1 @ b2"
proof -
  have l: "later w w1" "later w1 w2" using assms writer_later by blast+
  then show "later w w2" by (rule later_trans)
  have s: "since w w2 = since w w1 @ since w1 w2" using l by (rule since_trans)
  with assms have h: "honest (since w w1)" "honest (since w1 w2)" by simp_all
  have "accepted fd (since w w1) = b1" using writer_all assms(1,3) h by blast
  moreover have "prefix (accepted fd (since w1 w2)) b2" using writer_prefix assms(2) h by blast
  ultimately show "prefix (accepted fd (since w w2)) (b1 @ b2)" by (simp add: s)
  assume "ok r2"
  with assms(2) h have "accepted fd (since w1 w2) = b2" using writer_all by blast
  with \<open>accepted fd (since w w1) = b1\<close> show "accepted fd (since w w2) = b1 @ b2" by (simp add: s)
qed

end

locale exact_reader =
  fixes read_all :: "int \<Rightarrow> nat \<Rightarrow> world \<Rightarrow> (('e + byte list) \<times> world) option"
  assumes reader_later: "read_all fd n w = Some (r, w') \<Longrightarrow> later w w'"
    and reader_exact: "read_all fd n w = Some (Inr bs, w') \<Longrightarrow> honest (since w w') \<Longrightarrow>
      received fd (since w w') = bs \<and> List.length bs = n"

text \<open>A reader that also retries interrupted calls, so that any division into pieces is read.\<close>

locale byte_reader = exact_reader +
  assumes reader_chunks: "delivers as bs \<Longrightarrow> script w = as @ s \<Longrightarrow>
      \<exists>w'. read_all fd (List.length bs) w = Some (Inr bs, w') \<and> script w' = s"

end
