(* ===== verification/Proto.thy ===== *)
theory Proto
  imports Sys
begin

text \<open>
  The chat frame of the capstone fleet: \<open>proto.hpp\<close> and \<open>proto.cpp\<close> of
  \<open>examples/41-capstone-fleet\<close>. A frame is the magic \<open>CH\<close>, a version, a type, a big-endian
  16-bit length and the payload; it is written and read with blocking calls that may move
  any number of bytes. The lemmas show that the two directions are inverse whatever pieces
  the kernel moves, and what each failure leaves behind.
\<close>

section \<open>Constants and the frame\<close>

definition kMagic0 :: byte where "kMagic0 = 67"
definition kMagic1 :: byte where "kMagic1 = 72"
definition kVersion :: byte where "kVersion = 1"
definition kJoin :: byte where "kJoin = 1"
definition kMsg :: byte where "kMsg = 2"
definition kDeliver :: byte where "kDeliver = 3"

record frame =
  ftype :: byte
  payload :: "byte list"

section \<open>Blocking loops\<close>

text \<open>The loop state of \<open>write_all\<close> is \<open>off\<close>; of \<open>read_all\<close> it is the part of the buffer already
  filled, whose length is \<open>off\<close>.\<close>

definition proto_write_all_turn ::
  "int \<Rightarrow> byte list \<Rightarrow> nat \<Rightarrow> world \<Rightarrow> ((nat, error_code + unit) ctl \<times> world) option" where
  "proto_write_all_turn fd data off w =
     (if off < List.length data then do {
        (n, w) \<leftarrow> sys (Write fd (drop off data)) w;
        if rv n < 0 then
          if eno n = EINTR then Some (Continue off, w)
          else Some (Break (Inl (System_error (eno n))), w)
        else if rv n = 0 then Some (Break (Inl (Generic_error Errc_io_error)), w)
        else Some (Continue (off + nat (rv n)), w) }
      else Some (Break (Inr ()), w))"

definition proto_write_all :: "int \<Rightarrow> byte list \<Rightarrow> world \<Rightarrow> ((error_code + unit) \<times> world) option" where
  "proto_write_all fd data = loop (proto_write_all_turn fd data) 0"

definition proto_read_all_turn ::
  "int \<Rightarrow> nat \<Rightarrow> byte list \<Rightarrow> world \<Rightarrow> ((byte list, error_code + byte list) ctl \<times> world) option" where
  "proto_read_all_turn fd len buf w =
     (if List.length buf < len then do {
        (n, w) \<leftarrow> sys (Read fd (len - List.length buf)) w;
        if rv n < 0 then
          if eno n = EINTR then Some (Continue buf, w)
          else Some (Break (Inl (System_error (eno n))), w)
        else if rv n = 0 then Some (Break (Inl (Generic_error Errc_connection_reset)), w)
        else Some (Continue (buf @ filled n), w) }
      else Some (Break (Inr buf), w))"

definition proto_read_all :: "int \<Rightarrow> nat \<Rightarrow> world \<Rightarrow> ((error_code + byte list) \<times> world) option" where
  "proto_read_all fd len = loop (proto_read_all_turn fd len) []"

section \<open>Frames\<close>

definition proto_header :: "frame \<Rightarrow> byte list" where
  "proto_header f = [kMagic0, kMagic1, kVersion, ftype f,
     be16_hi (List.length (payload f)), be16_lo (List.length (payload f))]"

definition proto_write_frame :: "int \<Rightarrow> frame \<Rightarrow> world \<Rightarrow> ((error_code + unit) \<times> world) option" where
  "proto_write_frame fd f w =
     (if List.length (payload f) > 0xFFFF then Some (Inl (Generic_error Errc_message_size), w)
      else io_try (proto_write_all fd (proto_header f) w) (\<lambda>_ w.
        if payload f \<noteq> [] then io_try (proto_write_all fd (payload f) w) (\<lambda>_ w. Some (Inr (), w))
        else Some (Inr (), w)))"

definition proto_read_frame :: "int \<Rightarrow> world \<Rightarrow> ((error_code + frame) \<times> world) option" where
  "proto_read_frame fd w = io_try (proto_read_all fd 6 w) (\<lambda>hdr w.
     if hdr ! 0 \<noteq> kMagic0 \<or> hdr ! 1 \<noteq> kMagic1 \<or> hdr ! 2 \<noteq> kVersion
     then Some (Inl (Generic_error Errc_protocol_error), w)
     else let len = be16_value (hdr ! 4) (hdr ! 5)
          in if len > 0 then io_try (proto_read_all fd len w)
               (\<lambda>p w. Some (Inr \<lparr>ftype = hdr ! 3, payload = p\<rparr>, w))
             else Some (Inr \<lparr>ftype = hdr ! 3, payload = []\<rparr>, w))"

text \<open>The DELIVER payload; \<open>split_deliver\<close> leaves its out-parameters alone where it returns
  false, which is \<^const>\<open>None\<close> here.\<close>

definition proto_deliver_payload :: "string \<Rightarrow> string \<Rightarrow> byte list" where
  "proto_deliver_payload nick text = bytes_of nick @ [0] @ bytes_of text"

definition proto_split_deliver :: "byte list \<Rightarrow> (string \<times> string) option" where
  "proto_split_deliver p = (case find_from 0 p of
     None \<Rightarrow> None
   | Some i \<Rightarrow> Some (chars_of (take i p), chars_of (drop (i + 1) p)))"

section \<open>The loops meet the reader and writer interfaces\<close>

lemma proto_write_all_spec:
  assumes "proto_write_all fd data w = Some (r, w')"
  shows "later w w' \<and> (honest (since w w') \<longrightarrow>
    prefix (accepted fd (since w w')) data \<and> (r = Inr () \<longrightarrow> accepted fd (since w w') = data))"
  using assms unfolding proto_write_all_def
proof (rule loop_rule [where I = "\<lambda>off v. later w v \<and>
    (honest (since w v) \<longrightarrow> off \<le> List.length data \<and> accepted fd (since w v) = take off data)"],
    goal_cases)
  case 1
  show ?case by simp
next
  case (2 off v off' v')
  then obtain a where a: "sys (Write fd (drop off data)) v = Some (a, v')" and "off < List.length data"
    and o: "off' = off \<and> rv a < 0 \<or> off' = off + nat (rv a) \<and> 0 < rv a"
    by (auto simp: proto_write_all_turn_def proto_read_all_turn_def split: if_splits)
  have "later w v'" and *: "since w v' = since w v @ [(Write fd (drop off data), Some a)]"
    using 2 sys_after [OF _ a, of w] by simp_all
  with 2 o show ?case by (auto simp: take_add)
next
  case (3 off v r v')
  show ?case
  proof (cases "off < List.length data")
    case True
    with 3 obtain a where a: "sys (Write fd (drop off data)) v = Some (a, v')" and r: "r \<noteq> Inr ()"
      and "rv a \<le> 0" by (auto simp: proto_write_all_turn_def split: if_splits)
    have "later w v'" and "since w v' = since w v @ [(Write fd (drop off data), Some a)]"
      using 3 sys_after [OF _ a, of w] by simp_all
    with 3 r \<open>rv a \<le> 0\<close> show ?thesis by (auto simp: take_is_prefix)
  next
    case False
    with 3 show ?thesis by (auto simp: proto_write_all_turn_def)
  qed
qed

interpretation proto_w: byte_writer proto_write_all "\<lambda>r. r = Inr ()"
  by unfold_locales (auto dest: proto_write_all_spec)

lemma proto_read_all_spec:
  assumes "proto_read_all fd n w = Some (r, w')"
  shows "later w w' \<and> (honest (since w w') \<longrightarrow>
    (case r of Inl e \<Rightarrow> List.length (received fd (since w w')) < n
     | Inr bs \<Rightarrow> received fd (since w w') = bs \<and> List.length bs = n))"
  using assms unfolding proto_read_all_def
proof (rule loop_rule [where I = "\<lambda>buf v. later w v \<and>
    (honest (since w v) \<longrightarrow> List.length buf \<le> n \<and> received fd (since w v) = buf)"], goal_cases)
  case 1
  show ?case by simp
next
  case (2 buf v buf' v')
  then obtain a where a: "sys (Read fd (n - List.length buf)) v = Some (a, v')"
    and "List.length buf < n" and o: "buf' = buf @ filled a"
    by (auto simp: proto_write_all_turn_def proto_read_all_turn_def split: if_splits)
  have "later w v'" and *: "since w v' = since w v @ [(Read fd (n - List.length buf), Some a)]"
    using 2 sys_after [OF _ a, of w] by simp_all
  with 2 o \<open>List.length buf < n\<close> show ?case by auto
next
  case (3 buf v r v')
  show ?case
  proof (cases "List.length buf < n")
    case True
    with 3 obtain a e where a: "sys (Read fd (n - List.length buf)) v = Some (a, v')" and r: "r = Inl e"
      and "filled a = []" by (auto simp: proto_read_all_turn_def split: if_splits)
    moreover have "later w v'" and "since w v' = since w v @ [(Read fd (n - List.length buf), Some a)]"
      using 3 sys_after [OF _ a, of w] by simp_all
    ultimately show ?thesis using 3 True by auto
  next
    case False
    with 3 show ?thesis by (auto simp: proto_read_all_turn_def)
  qed
qed

text \<open>Any pieces, any interruptions: \<open>read_all\<close> assembles the bytes and stops exactly there.\<close>

lemma proto_read_loop_chunks:
  assumes "delivers as bs" "script w = as @ s" "n = List.length buf + List.length bs"
  shows "\<exists>w'. loop (proto_read_all_turn fd n) buf w = Some (Inr (buf @ bs), w') \<and> script w' = s"
  using assms
proof (induction "as" arbitrary: bs buf w)
  case Nil
  then show ?case by (subst loop.simps) (simp add: proto_read_all_turn_def)
next
  case (Cons a "as")
  let ?w = "w\<lparr>script := as @ s, trace := trace w @ [(Read fd (n - List.length buf), Some a)]\<rparr>"
  from Cons.prems have bs: "bs \<noteq> []" by (cases "interrupted a") (auto simp: filled_def)
  with Cons.prems(2,3) have turn: "proto_read_all_turn fd n buf w =
     (if rv a < 0 then if eno a = EINTR then Some (Continue buf, ?w)
        else Some (Break (Inl (System_error (eno a))), ?w)
      else if rv a = 0 then Some (Break (Inl (Generic_error Errc_connection_reset)), ?w)
      else Some (Continue (buf @ filled a), ?w))"
    by (simp add: proto_read_all_turn_def sys_def)
  show ?case
  proof (cases "interrupted a")
    case True
    with Cons.prems turn Cons.IH [of bs ?w buf] show ?thesis
      by (simp add: interrupted_def loop_Continue)
  next
    case False
    with Cons.prems have a: "0 < rv a" "take (nat (rv a)) bs = filled a"
      "delivers as (drop (nat (rv a)) bs)" by simp_all
    then have bs': "filled a @ drop (nat (rv a)) bs = bs" by (metis append_take_drop_id)
    then have "n = List.length (buf @ filled a) + List.length (drop (nat (rv a)) bs)"
      using Cons.prems(3) by (metis append.assoc length_append)
    from Cons.IH [OF a(3) _ this, of ?w] turn a bs' show ?thesis
      by (simp add: loop_Continue)
  qed
qed

interpretation proto_r: byte_reader proto_read_all
proof unfold_locales
  fix "as" bs s fd and w :: world
  assume "delivers as bs" "script w = as @ s"
  then show "\<exists>w'. proto_read_all fd (List.length bs) w = Some (Inr bs, w') \<and> script w' = s"
    using proto_read_loop_chunks [of "as" bs w s _ "[]" fd] by (simp add: proto_read_all_def)
qed (auto dest: proto_read_all_spec)

text \<open>They make no call but reads, and writes, on their descriptor.\<close>

lemma proto_read_all_keeps [keeps_intros]:
  "only P w0 w \<Longrightarrow> (\<And>n. P (Read fd n)) \<Longrightarrow> keeps P w0 (proto_read_all fd len w)"
  unfolding proto_read_all_def proto_read_all_turn_def by (intro keeps_intros)

lemma proto_write_all_keeps [keeps_intros]:
  "only P w0 w \<Longrightarrow> (\<And>bs. P (Write fd bs)) \<Longrightarrow> keeps P w0 (proto_write_all fd data w)"
  unfolding proto_write_all_def proto_write_all_turn_def by (intro keeps_intros)

lemma proto_read_frame_keeps [keeps_intros]:
  "only P w0 w \<Longrightarrow> (\<And>n. P (Read fd n)) \<Longrightarrow> keeps P w0 (proto_read_frame fd w)"
  unfolding proto_read_frame_def by (intro keeps_intros)

lemma proto_write_frame_keeps [keeps_intros]:
  "only P w0 w \<Longrightarrow> (\<And>bs. P (Write fd bs)) \<Longrightarrow> keeps P w0 (proto_write_frame fd f w)"
  unfolding proto_write_frame_def by (intro keeps_intros)

section \<open>Frames on the wire\<close>

definition proto_encode :: "frame \<Rightarrow> byte list" where
  "proto_encode f = proto_header f @ payload f"

lemma length_proto_header [simp]: "List.length (proto_header f) = 6"
  by (simp add: proto_header_def)

lemma proto_header_nth [simp]:
  "proto_header f ! 0 = kMagic0" "proto_header f ! Suc 0 = kMagic1" "proto_header f ! 2 = kVersion"
  "proto_header f ! 3 = ftype f" "proto_header f ! 4 = be16_hi (List.length (payload f))"
  "proto_header f ! 5 = be16_lo (List.length (payload f))"
  by (simp_all add: proto_header_def)

lemma proto_write_frame_spec:
  assumes "proto_write_frame fd f w = Some (r, w')"
  shows "later w w'"
    and "honest (since w w') \<Longrightarrow> prefix (accepted fd (since w w')) (proto_encode f)"
    and "honest (since w w') \<Longrightarrow> r = Inr () \<Longrightarrow>
      accepted fd (since w w') = proto_encode f \<and> List.length (payload f) \<le> 0xFFFF"
proof -
  have "later w w' \<and> (honest (since w w') \<longrightarrow> prefix (accepted fd (since w w')) (proto_encode f) \<and>
    (r = Inr () \<longrightarrow> accepted fd (since w w') = proto_encode f \<and> List.length (payload f) \<le> 0xFFFF))"
  proof (cases "List.length (payload f) > 0xFFFF")
    case True
    with assms show ?thesis by (auto simp: proto_write_frame_def)
  next
    case small: False
    with assms consider
        (stop) e where "proto_write_all fd (proto_header f) w = Some (Inl e, w')" "r = Inl e"
      | (empty) "proto_write_all fd (proto_header f) w = Some (Inr (), w')" "r = Inr ()" "payload f = []"
      | (body) w1 where "proto_write_all fd (proto_header f) w = Some (Inr (), w1)"
          "proto_write_all fd (payload f) w1 = Some (r, w')"
      by (cases "payload f = []"; cases r) (auto simp: proto_write_frame_def io_try_Some)
    then show ?thesis
    proof cases
      case stop
      with proto_write_all_spec [OF stop(1)] show ?thesis by (simp add: proto_encode_def)
    next
      case empty
      with proto_write_all_spec [OF empty(1)] small show ?thesis by (simp add: proto_encode_def)
    next
      case body
      note two = proto_w.two_writes [OF body(1,2) refl, folded proto_encode_def]
      have "later w w'"
        using proto_write_all_spec [OF body(1)] proto_write_all_spec [OF body(2)]
        by (blast intro: later_trans)
      with two small show ?thesis by simp
    qed
  qed
  then show "later w w'"
    and "honest (since w w') \<Longrightarrow> prefix (accepted fd (since w w')) (proto_encode f)"
    and "honest (since w w') \<Longrightarrow> r = Inr () \<Longrightarrow>
      accepted fd (since w w') = proto_encode f \<and> List.length (payload f) \<le> 0xFFFF"
    by blast+
qed

lemma list6_eq: "List.length xs = 6 \<Longrightarrow> xs = [xs ! 0, xs ! 1, xs ! 2, xs ! 3, xs ! 4, xs ! 5]"
  by (rule nth_equalityI) (auto simp: less_Suc_eq numeral_eq_Suc)

lemma header_of_bytes:
  assumes "List.length hdr = 6" "hdr ! 0 = kMagic0" "hdr ! 1 = kMagic1" "hdr ! 2 = kVersion"
    and "be16_value (hdr ! 4) (hdr ! 5) = List.length p"
  shows "proto_header \<lparr>ftype = hdr ! 3, payload = p\<rparr> = hdr"
  using list6_eq [OF assms(1)] assms(2-4) by (simp add: proto_header_def assms(5) [symmetric])

lemma proto_read_frame_spec:
  assumes "proto_read_frame fd w = Some (r, w')"
  shows "later w w'"
    and "r = Inr f \<Longrightarrow> honest (since w w') \<Longrightarrow>
      received fd (since w w') = proto_encode f \<and> List.length (payload f) \<le> 0xFFFF"
proof -
  have "later w w' \<and> (r = Inr f \<longrightarrow> honest (since w w') \<longrightarrow>
      received fd (since w w') = proto_encode f \<and> List.length (payload f) \<le> 0xFFFF)"
  proof -
    from assms consider
        (stop) h where "proto_read_all fd 6 w = Some (h, w')" "\<forall>g. r \<noteq> Inr g"
      | (empty) hdr where "proto_read_all fd 6 w = Some (Inr hdr, w')" "hdr ! 0 = kMagic0" "hdr ! 1 = kMagic1"
          "hdr ! 2 = kVersion" "be16_value (hdr ! 4) (hdr ! 5) = List.length ([] :: byte list)"
          "r = Inr \<lparr>ftype = hdr ! 3, payload = []\<rparr>"
      | (body) hdr w1 p where "proto_read_all fd 6 w = Some (Inr hdr, w1)" "hdr ! 0 = kMagic0"
          "hdr ! 1 = kMagic1" "hdr ! 2 = kVersion"
          "proto_read_all fd (be16_value (hdr ! 4) (hdr ! 5)) w1 = Some (p, w')"
          "r = (case p of Inl e \<Rightarrow> Inl e | Inr p \<Rightarrow> Inr \<lparr>ftype = hdr ! 3, payload = p\<rparr>)"
      by (auto simp: proto_read_frame_def io_try_Some Let_def split: if_splits)
    then show ?thesis
    proof cases
      case stop
      with proto_read_all_spec [OF stop(1)] show ?thesis by simp
    next
      case empty
      with proto_read_all_spec [OF empty(1)] header_of_bytes [OF _ empty(2-5)] show ?thesis
        by (auto simp: proto_encode_def)
    next
      case body
      note sh = proto_read_all_spec [OF body(1)] and sb = proto_read_all_spec [OF body(5)]
      moreover have "since w w' = since w w1 @ since w1 w'" using sh sb by (simp add: since_trans)
      moreover have "be16_value (hdr ! 4) (hdr ! 5) \<le> 0xFFFF"
        using be16_value_less [of "hdr ! 4" "hdr ! 5"] by simp
      ultimately show ?thesis using body(6) header_of_bytes [OF _ body(2-4)]
        by (auto simp: proto_encode_def intro: later_trans split: sum.split_asm)
    qed
  qed
  then show "later w w'"
    and "r = Inr f \<Longrightarrow> honest (since w w') \<Longrightarrow>
      received fd (since w w') = proto_encode f \<and> List.length (payload f) \<le> 0xFFFF"
    by blast+
qed

text \<open>No encoding is a prefix of another, so a byte stream is cut into frames in one way.\<close>

abbreviation small_frame :: "frame \<Rightarrow> bool" where
  "small_frame f \<equiv> List.length (payload f) \<le> 0xFFFF"

text \<open>The header of a whole and of an incomplete encoding, as an incremental reader looks at it.\<close>

lemma proto_encode_bytes:
  "proto_encode f = [67, 72, 1, ftype f, be16_hi (List.length (payload f)), be16_lo (List.length (payload f))] @ payload f"
  by (simp add: proto_encode_def proto_header_def kMagic0_def kMagic1_def kVersion_def)

lemma proto_whole_header:
  assumes "small_frame f" and "b = proto_encode f @ rest"
  shows "b ! 0 = 67" "b ! 1 = 72" "b ! 2 = 1" "b ! 3 = ftype f" "be16_value (b ! 4) (b ! 5) = List.length (payload f)"
    "List.length b = 6 + List.length (payload f) + List.length rest" "take (List.length (payload f)) (drop 6 b) = payload f"
    "drop (6 + List.length (payload f)) b = rest"
proof -
  have "drop (6 + List.length (payload f)) b = drop (List.length (payload f)) (drop 6 b)"
    by (simp add: add.commute)
  then show "b ! 0 = 67" "b ! 1 = 72" "b ! 2 = 1" "b ! 3 = ftype f" "be16_value (b ! 4) (b ! 5) = List.length (payload f)"
    "List.length b = 6 + List.length (payload f) + List.length rest" "take (List.length (payload f)) (drop 6 b) = payload f"
    "drop (6 + List.length (payload f)) b = rest"
    using assms by (simp_all add: proto_encode_bytes)
qed

lemma proto_part_header:
  assumes "small_frame f" and "strict_prefix b (proto_encode f)" and "6 \<le> List.length b"
  shows "b ! 0 = 67" "b ! 1 = 72" "b ! 2 = 1" "be16_value (b ! 4) (b ! 5) = List.length (payload f)"
    "List.length b < 6 + List.length (payload f)"
proof -
  from assms(2) obtain z where z: "proto_encode f = b @ z" "z \<noteq> []" by (auto simp: strict_prefix_def prefix_def)
  have nth: "b ! i = proto_encode f ! i" if "i < List.length b" for i using that z by (simp add: nth_append)
  from assms(3) have "b ! 0 = proto_encode f ! 0" "b ! 1 = proto_encode f ! 1" "b ! 2 = proto_encode f ! 2"
    "b ! 4 = proto_encode f ! 4" "b ! 5 = proto_encode f ! 5" by (auto intro!: nth)
  then show "b ! 0 = 67" "b ! 1 = 72" "b ! 2 = 1" "be16_value (b ! 4) (b ! 5) = List.length (payload f)"
    using assms(1) by (simp_all add: proto_encode_bytes)
  show "List.length b < 6 + List.length (payload f)"
    using arg_cong [OF z(1), of List.length] z(2) by (simp add: proto_encode_bytes flip: length_greater_0_conv)
qed

lemma proto_encode_cancel:
  assumes "proto_encode f @ x = proto_encode g @ y" "small_frame f" "small_frame g"
  shows "f = g \<and> x = y"
proof -
  from assms(1) have h: "proto_header f = proto_header g" and r: "payload f @ x = payload g @ y"
    by (auto simp: proto_encode_def proto_header_def)
  from h have "ftype f = ftype g" "be16_value (be16_hi (List.length (payload f))) (be16_lo (List.length (payload f)))
      = be16_value (be16_hi (List.length (payload g))) (be16_lo (List.length (payload g)))"
    by (simp_all add: proto_header_def)
  with assms(2,3) r show ?thesis by (simp add: frame.equality)
qed

lemma proto_frames_unique:
  assumes "concat (List.map proto_encode fs) @ x = concat (List.map proto_encode gs) @ y"
    and "list_all small_frame fs" "list_all small_frame gs"
    and "\<forall>f. \<not> prefix (proto_encode f) x" "\<forall>f. \<not> prefix (proto_encode f) y"
  shows "fs = gs"
  using assms
proof (induction fs arbitrary: gs)
  case Nil
  then show ?case
  proof (cases gs)
    case (Cons g gs')
    with Nil(1) have "x = proto_encode g @ (concat (List.map proto_encode gs') @ y)" by simp
    then have "prefix (proto_encode g) x" by (rule prefixI)
    with Nil(4) show ?thesis by blast
  qed simp
next
  case (Cons f fs)
  then show ?case
  proof (cases gs)
    case Nil
    with Cons.prems(1) have "y = proto_encode f @ (concat (List.map proto_encode fs) @ x)" by simp
    then have "prefix (proto_encode f) y" by (rule prefixI)
    with Cons.prems(5) show ?thesis by blast
  next
    case (Cons g gs')
    with Cons.prems have "f = g \<and> concat (List.map proto_encode fs) @ x = concat (List.map proto_encode gs') @ y"
      by (intro proto_encode_cancel) simp_all
    with Cons Cons.prems Cons.IH [of gs'] show ?thesis by simp
  qed
qed

text \<open>Where the reader fails, what it consumed holds no complete frame.\<close>

lemma prefix_encode_len:
  assumes "prefix (proto_encode f) (hdr @ rest)" "List.length hdr = 6"
  shows "hdr = proto_header f" "be16_value (hdr ! 4) (hdr ! 5) \<le> List.length rest"
proof -
  from assms have "prefix (proto_header f) hdr"
    by (auto simp: proto_encode_def prefix_def append_eq_append_conv_if split: if_splits)
  with assms(2) show h: "hdr = proto_header f"
    by (metis append_Nil2 append_eq_conv_conj length_proto_header prefix_def take_all_iff order_refl)
  have "List.length (payload f) \<le> List.length rest"
    using assms(1) prefix_length_le [OF assms(1)] assms(2) by (simp add: proto_encode_def)
  moreover have "be16_value (hdr ! 4) (hdr ! 5) \<le> List.length (payload f)"
    by (simp add: h be16_roundtrip_mod)
  ultimately show "be16_value (hdr ! 4) (hdr ! 5) \<le> List.length rest" by simp
qed

lemma proto_read_frame_error:
  assumes "proto_read_frame fd w = Some (Inl e, w')" "honest (since w w')"
  shows "\<not> prefix (proto_encode f) (received fd (since w w'))"
proof -
  from assms(1) consider
      (short) e where "proto_read_all fd 6 w = Some (Inl e, w')"
    | (magic) hdr where "proto_read_all fd 6 w = Some (Inr hdr, w')"
        "hdr ! 0 \<noteq> kMagic0 \<or> hdr ! 1 \<noteq> kMagic1 \<or> hdr ! 2 \<noteq> kVersion"
    | (body) hdr w1 e where "proto_read_all fd 6 w = Some (Inr hdr, w1)"
        "proto_read_all fd (be16_value (hdr ! 4) (hdr ! 5)) w1 = Some (Inl e, w')"
    by (auto simp: proto_read_frame_def io_try_Some Let_def split: if_splits)
  then show ?thesis
  proof cases
    case short
    with proto_read_all_spec [OF short] assms(2) have "List.length (received fd (since w w')) < 6" by simp
    then show ?thesis by (auto dest: prefix_length_le simp: proto_encode_def)
  next
    case magic
    with proto_read_all_spec [OF magic(1)] assms(2) have "received fd (since w w') = hdr @ []"
      "List.length hdr = 6" by simp_all
    with magic(2) show ?thesis
      using prefix_encode_len(1) [of f hdr "[]"] by (metis One_nat_def proto_header_nth(1-3))
  next
    case body
    have l: "since w w' = since w w1 @ since w1 w'"
      using proto_read_all_spec [OF body(1)] proto_read_all_spec [OF body(2)] by (simp add: since_trans)
    with proto_read_all_spec [OF body(1)] proto_read_all_spec [OF body(2)] assms(2)
    have "received fd (since w w1) = hdr" "List.length hdr = 6"
      "List.length (received fd (since w1 w')) < be16_value (hdr ! 4) (hdr ! 5)" by simp_all
    with l show ?thesis using prefix_encode_len(2) [of f hdr "received fd (since w1 w')"] by auto
  qed
qed

lemma proto_read_frame_chunks:
  assumes h: "delivers hs (proto_header f)" and b: "delivers ps (payload f)"
    and len: "List.length (payload f) \<le> 0xFFFF" and sc: "script w = hs @ ps @ s"
  shows "\<exists>w'. proto_read_frame fd w = Some (Inr f, w') \<and> script w' = s"
proof -
  from proto_r.reader_chunks [OF h sc, of fd] obtain w1
    where w1: "proto_read_all fd 6 w = Some (Inr (proto_header f), w1)" "script w1 = ps @ s" by auto
  from proto_r.reader_chunks [OF b w1(2), of fd] obtain w2
    where w2: "proto_read_all fd (List.length (payload f)) w1 = Some (Inr (payload f), w2)" "script w2 = s"
    by auto
  show ?thesis
  proof (cases "payload f = []")
    case True
    with b have "ps = []" by (cases ps) (auto simp: filled_def split: if_splits)
    with True w1 len show ?thesis by (simp add: proto_read_frame_def)
  next
    case False
    with w1 w2 len show ?thesis by (simp add: proto_read_frame_def)
  qed
qed

lemma proto_split_deliver_payload:
  "CHR 0x00 \<notin> set nick \<Longrightarrow> proto_split_deliver (proto_deliver_payload nick text) = Some (nick, text)"
proof -
  assume n: "CHR 0x00 \<notin> set nick"
  have "byte_of_char (CHR 0x00) = 0" by (simp add: byte_of_char_def)
  then have "byte_of_char c \<noteq> 0" if "c \<in> set nick" for c
    using n that byte_of_char_eq_iff [of c "CHR 0x00"] by auto
  then have "0 \<notin> set (bytes_of nick)" by auto
  then show ?thesis
    by (simp add: proto_split_deliver_def proto_deliver_payload_def find_from_append)
qed

lemma proto_split_deliver_Some:
  assumes "proto_split_deliver p = Some (nick, text)"
  shows "CHR 0x00 \<notin> set nick \<and> p = proto_deliver_payload nick text"
proof -
  from assms obtain i where i: "find_from 0 p = Some i" "nick = chars_of (take i p)"
    "text = chars_of (drop (i + 1) p)"
    by (auto simp: proto_split_deliver_def run_cases)
  from find_from_Some [OF i(1)] have "i < List.length p" "p ! i = 0" "0 \<notin> set (take i p)" by simp_all
  moreover then have "p = take i p @ [0] @ drop (i + 1) p" by (metis append_Cons append_Nil id_take_nth_drop Suc_eq_plus1)
  moreover have "char_of_byte b \<noteq> CHR 0x00" if "b \<noteq> 0" for b
  proof -
    have "byte_of_char (CHR 0x00) = 0" by (simp add: byte_of_char_def)
    then have "char_of_byte 0 = CHR 0x00" by (metis char_of_byte_of_char)
    with that show ?thesis by (metis char_of_byte_eq_iff)
  qed
  then have "CHR 0x00 \<notin> set (chars_of bs)" if "0 \<notin> set bs" for bs
    using that by (metis (no_types, lifting) imageE list.set_map)
  ultimately show ?thesis unfolding i proto_deliver_payload_def bytes_of_chars_of by blast
qed

text \<open>Where the magic or the version is wrong the reader stops after the header.\<close>

lemma proto_read_frame_bad_header:
  assumes "delivers hs hdr" "List.length hdr = 6" "script w = hs @ s"
    and "hdr ! 0 \<noteq> kMagic0 \<or> hdr ! 1 \<noteq> kMagic1 \<or> hdr ! 2 \<noteq> kVersion"
  shows "\<exists>w'. proto_read_frame fd w = Some (Inl (Generic_error Errc_protocol_error), w') \<and> script w' = s"
proof -
  from proto_r.reader_chunks [OF assms(1,3), of fd] assms(2) obtain w1
    where "proto_read_all fd 6 w = Some (Inr hdr, w1)" "script w1 = s" by auto
  with assms(4) show ?thesis by (auto simp: proto_read_frame_def)
qed

text \<open>The write loop returns once the kernel has answered as many uninterrupted writes as there
  are bytes, however few bytes each takes.\<close>

definition uninterrupted :: "answer list \<Rightarrow> nat" where
  "uninterrupted s = List.length (filter (\<lambda>a. \<not> interrupted a) s)"

lemma proto_write_all_returns_from:
  assumes "List.length data - off \<le> uninterrupted (script w)"
  shows "\<exists>r w'. loop (proto_write_all_turn fd data) off w = Some (r, w')"
proof (rule loop_returns [where I = "\<lambda>off w. List.length data - off \<le> uninterrupted (script w)"
      and m = "\<lambda>_ w. List.length (script w)"], goal_cases)
  case 1
  show ?case by (rule assms)
next
  case (2 off v)
  then show ?case
    by (cases "script v") (auto simp: proto_write_all_turn_def sys_def uninterrupted_def)
next
  case (3 off v off' v')
  then obtain a where "script v = a # script v'" "off' = off + nat (rv a)" "rv a > 0 \<or> interrupted a"
    by (auto simp: proto_write_all_turn_def interrupted_def dest: sys_SomeE split: if_splits)
  moreover have "\<not> interrupted a \<longrightarrow> 0 < nat (rv a)" using calculation by (auto simp: interrupted_def)
  moreover have "interrupted a \<longrightarrow> nat (rv a) = 0" by (auto simp: interrupted_def)
  ultimately show ?case using 3(1)
    by (cases "interrupted a") (simp_all add: uninterrupted_def)
qed

text \<open>What evaluates a closed run of this component.\<close>

lemmas proto_eval = proto_write_frame_def proto_write_all_def proto_write_all_turn_def
  proto_read_frame_def proto_read_all_def proto_read_all_turn_def loop.simps io_defs
  proto_header_def kMagic0_def kMagic1_def kVersion_def kJoin_def kMsg_def kDeliver_def
  be16_eval be16_value_eq interrupted_def

section \<open>Properties\<close>

text \<open>C4: A frame written successfully and read back by a peer arrives unchanged, whatever
  pieces the two kernels move and however often the calls are interrupted.\<close>

theorem proto_frame_roundtrip:
  assumes "proto_write_frame fd f w = Some (Inr (), w1)" and "honest (since w w1)"
    and "delivers hs (take 6 (accepted fd (since w w1)))"
    and "delivers ps (drop 6 (accepted fd (since w w1)))"
    and "script v = hs @ ps @ s"
  shows "\<exists>v'. proto_read_frame fd' v = Some (Inr f, v') \<and> script v' = s"
proof -
  from proto_write_frame_spec(3) [OF assms(1,2)] have "accepted fd (since w w1) = proto_encode f"
    and "List.length (payload f) \<le> 0xFFFF" by simp_all
  with assms(3-5) show ?thesis
    by (intro proto_read_frame_chunks) (simp_all add: proto_encode_def)
qed

theorem proto_frame_roundtrip_witness:
  "\<exists>v'. proto_read_frame 9 (answering [gave [67], failed EINTR, gave [72, 1, 2, 0, 2], gave [104], gave [105]])
     = Some (Inr \<lparr>ftype = kMsg, payload = [104, 105]\<rparr>, v') \<and> script v' = []"
proof (rule proto_frame_roundtrip)
  let ?s = "[returned 2, failed EINTR, returned 4, returned 1, returned 1]"
  let ?t = "[(Write 7 [67, 72, 1, 2, 0, 2], Some (returned 2)), (Write 7 [1, 2, 0, 2], Some (failed EINTR)),
    (Write 7 [1, 2, 0, 2], Some (returned 4)), (Write 7 [104, 105], Some (returned 1)),
    (Write 7 [105], Some (returned 1))]"
  show "proto_write_frame 7 \<lparr>ftype = kMsg, payload = [104, 105]\<rparr> (answering ?s)
    = Some (Inr (), \<lparr>script = [], trace = ?t\<rparr>)"
    by (simp add: proto_eval)
  have s: "since (answering ?s) \<lparr>script = [], trace = ?t\<rparr> = ?t"
    by (simp add: since_def answering_def)
  show "honest (since (answering ?s) \<lparr>script = [], trace = ?t\<rparr>)"
    by (simp add: s)
  show "delivers [gave [67], failed EINTR, gave [72, 1, 2, 0, 2]]
      (take 6 (accepted 7 (since (answering ?s) \<lparr>script = [], trace = ?t\<rparr>)))"
    by (simp add: s interrupted_def)
  show "delivers [gave [104], gave [105]]
      (drop 6 (accepted 7 (since (answering ?s) \<lparr>script = [], trace = ?t\<rparr>)))"
    by (simp add: s interrupted_def)
  show "script (answering [gave [67], failed EINTR, gave [72, 1, 2, 0, 2], gave [104], gave [105]])
    = [gave [67], failed EINTR, gave [72, 1, 2, 0, 2]] @ [gave [104], gave [105]] @ []"
    by (simp add: answering_def)
qed

text \<open>C6: Writing a frame puts exactly its encoding on the wire, refuses a payload above 65535
  bytes before anything is sent, and leaves a prefix of the encoding where a write fails.\<close>

theorem proto_write_frame_wire:
  assumes "proto_write_frame fd f w = Some (r, w')" and "honest (since w w')"
  shows "prefix (accepted fd (since w w')) (proto_encode f) \<and>
    (r = Inr () \<longrightarrow> accepted fd (since w w') = proto_encode f) \<and>
    (\<not> small_frame f \<longrightarrow> r = Inl (Generic_error Errc_message_size) \<and> w' = w)"
  using proto_write_frame_spec [OF assms(1)] assms by (auto simp: proto_write_frame_def)

theorem proto_write_frame_wire_witness:
  "accepted 7 [(Write 7 [67, 72, 1, 2, 0, 1], Some (returned 6)), (Write 7 [104], Some (returned 1))]
     = proto_encode \<lparr>ftype = kMsg, payload = [104]\<rparr>"
proof -
  let ?s = "[returned 6, returned 1]"
  let ?t = "[(Write 7 [67, 72, 1, 2, 0, 1], Some (returned 6)), (Write 7 [104], Some (returned 1))]"
  have run: "proto_write_frame 7 \<lparr>ftype = kMsg, payload = [104]\<rparr> (answering ?s)
    = Some (Inr (), \<lparr>script = [], trace = ?t\<rparr>)"
    by (simp add: proto_eval)
  have s: "since (answering ?s) \<lparr>script = [], trace = ?t\<rparr> = ?t"
    by (simp add: since_def answering_def)
  have h: "honest (since (answering ?s) \<lparr>script = [], trace = ?t\<rparr>)"
    by (simp add: s)
  show ?thesis using proto_write_frame_wire [OF run h] by (simp add: s)
qed

text \<open>Reading consumes exactly the encoding of the frame it returns, and where it fails the
  bytes it consumed contain no complete frame.\<close>

lemma proto_read_frame_sound:
  assumes "proto_read_frame fd w = Some (r, w')" and "honest (since w w')"
  shows "case r of
     Inr f \<Rightarrow> received fd (since w w') = proto_encode f \<and> small_frame f
   | Inl e \<Rightarrow> (\<forall>f. \<not> prefix (proto_encode f) (received fd (since w w')))"
  using assms proto_read_frame_spec(2) [OF assms(1)] proto_read_frame_error [of fd w _ w']
  by (auto split: sum.split)

text \<open>
  A header with a wrong magic or version is refused after exactly six bytes, whatever the
  length field says: no payload byte is waited for.\<close>

lemma proto_read_frame_refuses:
  assumes "delivers hs hdr" and "List.length hdr = 6" and "script w = hs @ s"
    and "hdr ! 0 \<noteq> kMagic0 \<or> hdr ! 1 \<noteq> kMagic1 \<or> hdr ! 2 \<noteq> kVersion"
  shows "\<exists>w'. proto_read_frame fd w = Some (Inl (Generic_error Errc_protocol_error), w') \<and> script w' = s"
  using assms by (rule proto_read_frame_bad_header)

text \<open>\<open>split_deliver\<close> accepts exactly the payloads \<open>deliver_payload\<close> builds from a nick without
  NUL, and gives back that nick and text.\<close>

lemma proto_split_deliver_iff:
  "proto_split_deliver p = Some (nick, text) \<longleftrightarrow>
     CHR 0x00 \<notin> set nick \<and> p = proto_deliver_payload nick text"
proof
  assume "CHR 0x00 \<notin> set nick \<and> p = proto_deliver_payload nick text"
  then show "proto_split_deliver p = Some (nick, text)" by (simp add: proto_split_deliver_payload)
next
  assume "proto_split_deliver p = Some (nick, text)"
  then show "CHR 0x00 \<notin> set nick \<and> p = proto_deliver_payload nick text"
    by (rule proto_split_deliver_Some)
qed

text \<open>\<open>write_all\<close> terminates: as soon as the kernel has answered as many uninterrupted calls as
  there are bytes, the loop has returned, with success or with an error.\<close>

lemma proto_write_all_returns:
  assumes "List.length data \<le> uninterrupted (script w)"
  shows "\<exists>r w'. proto_write_all fd data w = Some (r, w')"
  using proto_write_all_returns_from [of data 0 w fd] assms by (simp add: proto_write_all_def)

end
