(* ===== verification/Chatterd.thy ===== *)
theory Chatterd
  imports Proto
begin

text \<open>
  The chat daemon of the capstone fleet, \<open>chatterd.cpp\<close> of \<open>examples/41-capstone-fleet\<close>,
  one function of the source per definition: the sockets, the thread that serves a client, the
  thread that bridges to the peer node, the accept loop, and the two test clients. Each runs
  in one thread, so the operations it performs on the shared hub are calls in its trace; what
  the hub does with the calls of all threads is the theory \<open>Hub\<close>.
\<close>

section \<open>The owning descriptor and TCP helpers\<close>

text \<open>\<open>Fd::reset\<close>, which the destructor runs where a descriptor goes out of scope.\<close>

definition fd_reset :: "int \<Rightarrow> world \<Rightarrow> world" where
  "fd_reset fd w = (if 0 \<le> fd then emit (Close fd) w else w)"

text \<open>\<open>static_cast<std::uint16_t>(port)\<close>.\<close>

definition port_u16 :: "int \<Rightarrow> int" where
  "port_u16 port = port mod 65536"

definition chatterd_listen_tcp :: "string \<Rightarrow> int \<Rightarrow> world \<Rightarrow> ((msg + int) \<times> world) option" where
  "chatterd_listen_tcp host port w = do {
     (s, w) \<leftarrow> sys Socket w;
     let sock = rv s;
     if sock < 0 then Some (Inl [Txt ''socket: '', StrError (eno s)], fd_reset sock w)
     else do {
       let w = emit (Reuseaddr sock) w;
       (p, w) \<leftarrow> sys (Inet_pton host) w;
       if rv p \<noteq> 1 then Some (Inl [Txt (host @ '': not an IPv4 address'')], fd_reset sock w)
       else do {
         (b, w) \<leftarrow> sys (Bind sock host (port_u16 port)) w;
         if rv b < 0 then Some (Inl [Txt ''bind: '', StrError (eno b)], fd_reset sock w)
         else do {
           (l, w) \<leftarrow> sys (Listen sock 16) w;
           if rv l < 0 then Some (Inl [Txt ''listen: '', StrError (eno l)], fd_reset sock w)
           else Some (Inr sock, w) } } } }"

definition chatterd_connect_tcp ::
  "string \<Rightarrow> int \<Rightarrow> int \<Rightarrow> world \<Rightarrow> ((msg + int) \<times> world) option" where
  "chatterd_connect_tcp host port timeout_ms w = do {
     (s, w) \<leftarrow> sys Socket w;
     let sock = rv s;
     if sock < 0 then Some (Inl [Txt ''socket: '', StrError (eno s)], fd_reset sock w)
     else do {
       (p, w) \<leftarrow> sys (Inet_pton host) w;
       if rv p \<noteq> 1 then Some (Inl [Txt (host @ '': not an IPv4 address'')], fd_reset sock w)
       else do {
         (flags, w) \<leftarrow> sys (Getfl sock) w;
         let w = emit (Setfl sock (rv flags) True) w;
         (c, w) \<leftarrow> sys (Connect sock host (port_u16 port)) w;
         if rv c < 0 then
           if eno c \<noteq> EINPROGRESS then Some (Inl [StrError (eno c)], fd_reset sock w)
           else do {
             (pr, w) \<leftarrow> sys (Poll [(sock, POLLOUT)] timeout_ms) w;
             if rv pr \<le> 0 then Some (Inl [Txt ''i/o timeout''], fd_reset sock w)
             else do {
               (e, w) \<leftarrow> sys (So_error sock) w;
               if rv e \<noteq> 0 then Some (Inl [StrError (rv e)], fd_reset sock w)
               else Some (Inr sock, emit (Setfl sock (rv flags) False) w) } }
         else Some (Inr sock, emit (Setfl sock (rv flags) False) w) } } }"

section \<open>The thread that serves one client\<close>

text \<open>
  \<open>pc\<close> is the address \<open>make_shared<PeerConn>\<close> returned; the fields of the connection are
  complete before \<open>hub.add\<close>, so they are arguments of that call. The span and the trace id
  are opentelemetry's.
\<close>

definition handle_client_turn ::
  "int \<Rightarrow> nat \<Rightarrow> string \<Rightarrow> bool \<Rightarrow> string \<Rightarrow> bool \<Rightarrow> unit \<Rightarrow> world \<Rightarrow> ((unit, unit) ctl \<times> world) option" where
  "handle_client_turn fd pc nick is_bridge node enabled _ w = do {
     (f, w) \<leftarrow> proto_read_frame fd w;
     (case f of
       Inl _ \<Rightarrow> Some (Break (), w)
     | Inr f \<Rightarrow>
         if ftype f \<noteq> kMsg then Some (Continue (), w)
         else do {
           let text = chars_of (payload f);
           let w = emit (Otel ''StartSpan chatterd.deliver''
                 [Txt nick, Txt (show_nat (List.length text)), Txt node,
                  Txt (if is_bridge then ''true'' else ''false'')]) w;
           let w = emit (Hub (Hub_broadcast (Some pc) True nick text)) w;
           let w = emit (Otel ''SetStatus'' [Txt ''Ok'']) w;
           if enabled then do {
             (hex, w) \<leftarrow> sys (Otel ''trace_id'' []) w;
             let w = println Stdout [Txt (''chatterd: trace_id='' @ chars_of (dat hex)
               @ '' node='' @ node @ '' from='' @ nick)] w;
             Some (Continue (), emit (Otel ''End'' []) (emit (Fflush Stdout) w)) }
           else Some (Continue (), emit (Otel ''End'' []) w) }) }"

definition handle_client ::
  "int \<Rightarrow> nat \<Rightarrow> string \<Rightarrow> bool \<Rightarrow> world \<Rightarrow> (unit \<times> world) option" where
  "handle_client fd pc node enabled w = do {
     (first, w) \<leftarrow> proto_read_frame fd w;
     (case first of
       Inl _ \<Rightarrow> Some ((), emit (Close fd) w)
     | Inr f \<Rightarrow>
         if ftype f \<noteq> kJoin then Some ((), emit (Close fd) w)
         else do {
           let nick = chars_of (payload f);
           let is_bridge = starts_with nick ''bridge@'';
           let w = emit (Hub (Hub_add pc fd nick is_bridge)) w;
           (_, w) \<leftarrow> loop (handle_client_turn fd pc nick is_bridge node enabled) () w;
           Some ((), emit (Close fd) (emit (Hub (Hub_remove pc)) w)) }) }"

section \<open>The bridge to the peer node\<close>

definition bridge_frame_turn :: "int \<Rightarrow> string \<Rightarrow> unit \<Rightarrow> world \<Rightarrow> ((unit, unit) ctl \<times> world) option" where
  "bridge_frame_turn conn peer_node _ w = do {
     (f, w) \<leftarrow> proto_read_frame conn w;
     (case f of
       Inl _ \<Rightarrow> Some (Break (), w)
     | Inr f \<Rightarrow>
         if ftype f \<noteq> kDeliver then Some (Continue (), w)
         else (case proto_split_deliver (payload f) of
           None \<Rightarrow> Some (Continue (), w)
         | Some (nick, text) \<Rightarrow>
             let nick = (if find_from (CHR ''@'') nick = None then nick @ ''@'' @ peer_node else nick)
             in Some (Continue (), emit (Hub (Hub_broadcast None False nick text)) w))) }"

definition bridge_turn ::
  "string \<Rightarrow> string \<Rightarrow> int \<Rightarrow> string \<Rightarrow> string \<Rightarrow> unit \<Rightarrow> world \<Rightarrow> ((unit, unit) ctl \<times> world) option" where
  "bridge_turn peer_addr host port local_node peer_node _ w = do {
     (sg, w) \<leftarrow> sys (Load_flag ''signal'') w;
     if rv sg \<noteq> 0 then Some (Break (), w)
     else do {
       (conn, w) \<leftarrow> chatterd_connect_tcp host port 3000 w;
       (case conn of
         Inl _ \<Rightarrow> Some (Continue (), emit (Sleep_ms 300) w)
       | Inr conn \<Rightarrow> do {
           let bridge_nick = ''bridge@'' @ local_node;
           (r, w) \<leftarrow> proto_write_frame conn \<lparr>ftype = kJoin, payload = bytes_of bridge_nick\<rparr> w;
           (case r of
             Inl _ \<Rightarrow> Some (Continue (), fd_reset conn (emit (Sleep_ms 300) w))
           | Inr _ \<Rightarrow> do {
               let w = println Stderr [Txt (''chatterd: bridge connected peer='' @ peer_addr
                 @ '' as='' @ bridge_nick)] w;
               (_, w) \<leftarrow> loop (bridge_frame_turn conn peer_node) () (emit (Fflush Stderr) w);
               let w = println Stderr [Txt (''chatterd: bridge disconnected peer='' @ peer_addr
                 @ '' (retrying)'')] w;
               Some (Continue (), fd_reset conn (emit (Sleep_ms 300) (emit (Fflush Stderr) w))) }) }) } }"

definition bridge_worker :: "string \<Rightarrow> string \<Rightarrow> string \<Rightarrow> world \<Rightarrow> (unit \<times> world) option" where
  "bridge_worker peer_addr local_node peer_node w =
     (case rfind (CHR '':'') peer_addr of
       None \<Rightarrow> Some ((), w)
     | Some colon \<Rightarrow>
         let host = take colon peer_addr; port = atoi (drop (colon + 1) peer_addr)
         in loop (bridge_turn peer_addr host port local_node peer_node) () w)"

section \<open>The accept loop\<close>

definition chatterd_serve_turn :: "int \<Rightarrow> string \<Rightarrow> unit \<Rightarrow> world \<Rightarrow> ((unit, int) ctl \<times> world) option" where
  "chatterd_serve_turn lfd node _ w = do {
     (sg, w) \<leftarrow> sys (Load_flag ''signal'') w;
     if rv sg \<noteq> 0 then Some (Break 0, fd_reset lfd (println Stderr [Txt ''chatterd: shutdown''] w))
     else do {
       (pr, w) \<leftarrow> sys (Poll [(lfd, POLLIN)] 200) w;
       if rv pr < 0 then
         if eno pr = EINTR then Some (Continue (), w)
         else Some (Break 1, fd_reset lfd (println Stderr [Txt ''chatterd: poll: '', StrError (eno pr)] w))
       else if rv pr = 0 then Some (Continue (), w)
       else do {
         (cfd, w) \<leftarrow> sys (Accept lfd) w;
         if rv cfd < 0 then Some (Continue (), w)
         else Some (Continue (), emit (Spawn ''handle_client'' [node] (rv cfd)) w) } } }"

definition chatterd_serve ::
  "string \<Rightarrow> int \<Rightarrow> string \<Rightarrow> string \<Rightarrow> string \<Rightarrow> world \<Rightarrow> (int \<times> world) option" where
  "chatterd_serve host port node peer peer_node_in w = do {
     (lfd, w) \<leftarrow> chatterd_listen_tcp host port w;
     (case lfd of
       Inl e \<Rightarrow> Some (1, println Stderr (Txt (''chatterd: listen '' @ host @ '':'' @ show_int port @ '': '') # e) w)
     | Inr lfd \<Rightarrow> do {
         let w = println Stderr [Txt (''chatterd: listening on '' @ host @ '':'' @ show_int port
           @ '' node='' @ node)] w;
         let w = emit Install_handlers (emit (Fflush Stderr) w);
         let w = (if peer \<noteq> [] then
             let peer_node = (if peer_node_in = [] then ''remote'' else peer_node_in)
             in emit (Spawn ''bridge_worker'' [peer, node, peer_node] 0) w
           else w);
         loop (chatterd_serve_turn lfd node) () w }) }"

section \<open>The test clients\<close>

definition chatterd_send ::
  "string \<Rightarrow> int \<Rightarrow> string \<Rightarrow> string \<Rightarrow> int \<Rightarrow> world \<Rightarrow> (int \<times> world) option" where
  "chatterd_send host port nick text timeout_ms w = do {
     (conn, w) \<leftarrow> chatterd_connect_tcp host port timeout_ms w;
     (case conn of
       Inl e \<Rightarrow> Some (1, println Stderr (Txt (''chatterd: send: dial '' @ host @ '':'' @ show_int port @ '': '') # e) w)
     | Inr conn \<Rightarrow> do {
         (r, w) \<leftarrow> proto_write_frame conn \<lparr>ftype = kJoin, payload = bytes_of nick\<rparr> w;
         (case r of
           Inl e \<Rightarrow> Some (1, fd_reset conn (println Stderr [Txt ''chatterd: send: join: '', ErrorCode e] w))
         | Inr _ \<Rightarrow> do {
             (r, w) \<leftarrow> proto_write_frame conn \<lparr>ftype = kMsg, payload = bytes_of text\<rparr> w;
             (case r of
               Inl e \<Rightarrow> Some (1, fd_reset conn (println Stderr [Txt ''chatterd: send: msg: '', ErrorCode e] w))
             | Inr _ \<Rightarrow> Some (0, fd_reset conn (println Stdout
                 [Txt (''chatterd: sent nick='' @ nick @ '' text='' @ text)] (emit (Sleep_ms 150) w)))) }) }) }"

definition chatterd_listen_turn :: "int \<Rightarrow> unit \<Rightarrow> world \<Rightarrow> ((unit, int) ctl \<times> world) option" where
  "chatterd_listen_turn conn _ w = do {
     (f, w) \<leftarrow> proto_read_frame conn w;
     (case f of
       Inl _ \<Rightarrow> Some (Break 1, println Stderr [Txt ''chatterd: listen timeout''] w)
     | Inr f \<Rightarrow>
         if ftype f \<noteq> kDeliver then Some (Continue (), w)
         else (case proto_split_deliver (payload f) of
           None \<Rightarrow> Some (Continue (), w)
         | Some (from_nick, text) \<Rightarrow>
             Some (Break 0, println Stdout [Txt (''chatterd: received from='' @ from_nick @ '' text='' @ text)] w))) }"

definition chatterd_listen :: "string \<Rightarrow> int \<Rightarrow> string \<Rightarrow> int \<Rightarrow> world \<Rightarrow> (int \<times> world) option" where
  "chatterd_listen host port nick timeout_ms w = do {
     (conn, w) \<leftarrow> chatterd_connect_tcp host port 3000 w;
     (case conn of
       Inl e \<Rightarrow> Some (1, println Stderr (Txt (''chatterd: listen: dial '' @ host @ '':'' @ show_int port @ '': '') # e) w)
     | Inr conn \<Rightarrow> do {
         (r, w) \<leftarrow> proto_write_frame conn \<lparr>ftype = kJoin, payload = bytes_of nick\<rparr> w;
         (case r of
           Inl e \<Rightarrow> Some (1, fd_reset conn (println Stderr [Txt ''chatterd: listen: join: '', ErrorCode e] w))
         | Inr _ \<Rightarrow> do {
             let w = emit (Rcvtimeo conn (timeout_ms sdiv 1000) ((timeout_ms smod 1000) * 1000)) w;
             (rc, w) \<leftarrow> loop (chatterd_listen_turn conn) () w;
             Some (rc, fd_reset conn w) }) }) }"

section \<open>What each routine can do\<close>

lemma only_fd_reset [keeps_intros]: "only P w0 w \<Longrightarrow> P (Close fd) \<Longrightarrow> only P w0 (fd_reset fd w)"
  by (simp add: fd_reset_def only_emit)

definition connect_call :: "call \<Rightarrow> bool" where
  "connect_call c = (case c of Net _ \<Rightarrow> True | Ev _ \<Rightarrow> True | Close _ \<Rightarrow> True | _ \<Rightarrow> False)"

lemma chatterd_connect_tcp_keeps [keeps_intros]:
  "only P w0 w \<Longrightarrow> (\<And>c. connect_call c \<Longrightarrow> P c) \<Longrightarrow> keeps P w0 (chatterd_connect_tcp host port ms w)"
  unfolding chatterd_connect_tcp_def Let_def
  by (intro keeps_intros; simp add: connect_call_def)

lemma chatterd_listen_tcp_keeps [keeps_intros]:
  "only P w0 w \<Longrightarrow> (\<And>c. connect_call c \<Longrightarrow> P c) \<Longrightarrow> keeps P w0 (chatterd_listen_tcp host port w)"
  unfolding chatterd_listen_tcp_def Let_def
  by (intro keeps_intros; simp add: connect_call_def)

text \<open>The operations a thread performs on the hub, and the descriptors it closes.\<close>

definition hub_op :: "call \<Rightarrow> hub_call list" where
  "hub_op c = (case c of Hub h \<Rightarrow> [h] | _ \<Rightarrow> [])"

definition closed_fd :: "call \<Rightarrow> int list" where
  "closed_fd c = (case c of Close fd \<Rightarrow> [fd] | _ \<Rightarrow> [])"

abbreviation hub_ops :: "(call \<times> answer option) list \<Rightarrow> hub_call list" where
  "hub_ops \<equiv> proj hub_op"

abbreviation closes :: "(call \<times> answer option) list \<Rightarrow> int list" where
  "closes \<equiv> proj closed_fd"

lemma hub_op_simps [simp]:
  "hub_op (Hub h) = [h]" "hub_op (Read fd n) = []" "hub_op (Write fd bs) = []" "hub_op (Close fd) = []"
  "hub_op (Otel os om) = []" "hub_op (Print st m) = []" "hub_op (Fflush st) = []" "hub_op (Sleep_ms ms) = []"
  "hub_op (Load_flag s) = []" "hub_op (Net nc) = []" "hub_op (Ev e) = []"
  "closed_fd (Hub h) = []" "closed_fd (Read fd n) = []" "closed_fd (Write fd bs) = []" "closed_fd (Close fd) = [fd]"
  "closed_fd (Otel os om) = []" "closed_fd (Print st m) = []" "closed_fd (Fflush st) = []" "closed_fd (Sleep_ms ms) = []"
  "closed_fd (Load_flag s) = []" "closed_fd (Net nc) = []" "closed_fd (Ev e) = []"
  "closed_fd (Proc p) = []" "hub_op (Proc p) = []" "closed_fd (Recv fd n) = []" "closed_fd (Send fd bs) = []"
  "hub_op (Store s j) = []" "hub_op (Recv fd n) = []" "hub_op (Send fd bs) = []" "closed_fd (Store s j) = []"
  "hub_op (Tm tc) = []" "closed_fd (Tm tc) = []" "hub_op (Mem mc) = []" "closed_fd (Mem mc) = []"
  by (simp_all add: hub_op_def closed_fd_def)

lemma proto_read_frame_projs:
  assumes "proto_read_frame fd w = Some (r, w')"
  shows "hub_ops (since w w') = []" "closes (since w w') = []"
  using keepsD [OF proto_read_frame_keeps [where P = "\<lambda>c. hub_op c = [] \<and> closed_fd c = []", OF only_refl] assms]
  by (auto dest!: onlyD(2) intro!: proj_Nil simp: list_all_iff)

section \<open>The client thread\<close>

text \<open>
  The hub operations of a client that sent the frames \<open>j # ms\<close>: register, one broadcast per MSG,
  unregister; none unless the first frame is JOIN.
\<close>

definition client_broadcast :: "nat \<Rightarrow> string \<Rightarrow> frame \<Rightarrow> hub_call list" where
  "client_broadcast pc nick f =
     (if ftype f = kMsg then [Hub_broadcast (Some pc) True nick (chars_of (payload f))] else [])"

fun client_hub_ops :: "int \<Rightarrow> nat \<Rightarrow> frame list \<Rightarrow> hub_call list" where
  "client_hub_ops fd pc [] = []"
| "client_hub_ops fd pc (j # ms) =
     (if ftype j \<noteq> kJoin then []
      else (let nick = chars_of (payload j) in
        Hub_add pc fd nick (starts_with nick ''bridge@'')
        # concat (List.map (client_broadcast pc nick) ms) @ [Hub_remove pc]))"

text \<open>The frames the wire carried, and what was read after them: nothing complete.\<close>

definition wire :: "int \<Rightarrow> frame list \<Rightarrow> world \<Rightarrow> world \<Rightarrow> bool" where
  "wire fd fs w w' \<longleftrightarrow> later w w' \<and> closes (since w w') = [] \<and>
     (honest (since w w') \<longrightarrow> received fd (since w w') = concat (List.map proto_encode fs) \<and>
       list_all small_frame fs)"

lemma wire_refl [simp]: "wire fd [] w w"
  by (simp add: wire_def)

lemma wire_frame:
  assumes "wire fd fs w w1" "proto_read_frame fd w1 = Some (Inr f, w2)"
  shows "wire fd (fs @ [f]) w w2" "hub_ops (since w w2) = hub_ops (since w w1)"
proof -
  have l: "later w1 w2" and r: "honest (since w1 w2) \<Longrightarrow> received fd (since w1 w2) = proto_encode f \<and> small_frame f"
    using proto_read_frame_spec [OF assms(2)] by auto
  with assms(1) have "since w w2 = since w w1 @ since w1 w2"
    by (intro since_trans) (simp_all add: wire_def)
  with assms(1) l r proto_read_frame_projs [OF assms(2)]
  show "wire fd (fs @ [f]) w w2" "hub_ops (since w w2) = hub_ops (since w w1)"
    by (auto simp: wire_def intro: later_trans)
qed

definition frames_received :: "int \<Rightarrow> frame list \<Rightarrow> (call \<times> answer option) list \<Rightarrow> bool" where
  "frames_received fd fs t \<longleftrightarrow> list_all small_frame fs \<and> (\<exists>rest. received fd t = concat (List.map proto_encode fs) @ rest \<and>
     (\<forall>f. \<not> prefix (proto_encode f) rest))"

definition wire_end :: "int \<Rightarrow> frame list \<Rightarrow> world \<Rightarrow> world \<Rightarrow> bool" where
  "wire_end fd fs w w' \<longleftrightarrow> later w w' \<and> closes (since w w') = [] \<and>
     (honest (since w w') \<longrightarrow> frames_received fd fs (since w w'))"

lemma wire_error:
  assumes "wire fd fs w w1" "proto_read_frame fd w1 = Some (Inl e, w2)"
  shows "wire_end fd fs w w2" "hub_ops (since w w2) = hub_ops (since w w1)"
proof -
  have l: "later w1 w2" using proto_read_frame_spec [OF assms(2)] by auto
  with assms(1) have s: "since w w2 = since w w1 @ since w1 w2"
    by (intro since_trans) (simp_all add: wire_def)
  with assms(1) l proto_read_frame_projs [OF assms(2)] proto_read_frame_error [OF assms(2)]
  show "wire_end fd fs w w2"
    unfolding wire_end_def frames_received_def wire_def
    by (auto intro: later_trans intro!: exI [of _ "received fd (since w1 w2)"])
  show "hub_ops (since w w2) = hub_ops (since w w1)"
    using s proto_read_frame_projs [OF assms(2)] by simp
qed

text \<open>Nothing at all is left over: the empty rest begins with no frame.\<close>

lemma no_frame_in_Nil [simp]: "proto_encode f \<noteq> []"
  by (simp add: proto_encode_def proto_header_def)

lemma wire_emit [simp]:
  assumes "wire fd fs w w1" "\<not> transfers c" "closed_fd c = []"
  shows "wire fd fs w (emit c w1)"
  using assms by (auto simp: wire_def)

text \<open>
  A thread that consumes the frames of a connection until the connection ends: each turn reads
  one frame and performs the hub operations \<open>ops\<close> of that frame, and only a failed read leaves
  the loop. The client thread and the bridge thread are both of this kind.
\<close>

locale frame_consumer =
  fixes turn :: "unit \<Rightarrow> world \<Rightarrow> ((unit, unit) ctl \<times> world) option"
    and fd :: int
    and ops :: "frame \<Rightarrow> hub_call list"
  assumes turn_break: "turn u w1 = Some (Break r, w2) \<Longrightarrow> \<exists>e. proto_read_frame fd w1 = Some (Inl e, w2)"
    and turn_frame: "turn u w1 = Some (Continue v, w2) \<Longrightarrow>
      \<exists>f w3. proto_read_frame fd w1 = Some (Inr f, w3) \<and> later w3 w2 \<and>
        hub_ops (since w3 w2) = ops f \<and> received fd (since w3 w2) = [] \<and> closes (since w3 w2) = []"
begin

lemma consumed_frame:
  assumes "turn u w1 = Some (Continue v, w2)" "wire fd fs w w1"
  shows "\<exists>f. wire fd (fs @ [f]) w w2 \<and> hub_ops (since w w2) = hub_ops (since w w1) @ ops f"
proof -
  from turn_frame [OF assms(1)] obtain f w3 where f: "proto_read_frame fd w1 = Some (Inr f, w3)"
    and w3: "later w3 w2" "hub_ops (since w3 w2) = ops f" "received fd (since w3 w2) = []" "closes (since w3 w2) = []"
    by blast
  note wf = wire_frame [OF assms(2) f]
  then have "later w w3" by (simp add: wire_def)
  with w3(1) have l: "later w w2" "since w w2 = since w w3 @ since w3 w2"
    using later_trans [of w w3 w2] since_trans [of w w3 w2] by simp_all
  have "wire fd (fs @ [f]) w w2"
    using wf(1) w3 l unfolding wire_def by simp
  moreover have "hub_ops (since w w2) = hub_ops (since w w1) @ ops f"
    using wf(2) w3 l(2) by simp
  ultimately show ?thesis by blast
qed

lemma consumed_all:
  assumes "loop turn u w1 = Some (v, w')" "wire fd fs w w1"
  shows "\<exists>ms. wire_end fd (fs @ ms) w w' \<and>
    hub_ops (since w w') = hub_ops (since w w1) @ concat (List.map ops ms)"
proof (rule loop_rule [OF assms(1), where I = "\<lambda>_ v. \<exists>ms. wire fd (fs @ ms) w v \<and>
    hub_ops (since w v) = hub_ops (since w w1) @ concat (List.map ops ms)"], goal_cases)
  case 1
  from assms(2) show ?case by (intro exI [of _ "[]"]) simp
next
  case (2 s v s' v')
  then obtain ms where ms: "wire fd (fs @ ms) w v"
    "hub_ops (since w v) = hub_ops (since w w1) @ concat (List.map ops ms)" by blast
  from consumed_frame [OF 2(2) ms(1)] obtain f where "wire fd ((fs @ ms) @ [f]) w v'"
    "hub_ops (since w v') = hub_ops (since w v) @ ops f" by blast
  with ms(2) show ?case by (intro exI [of _ "ms @ [f]"]) simp
next
  case (3 s v r v')
  then obtain ms where ms: "wire fd (fs @ ms) w v"
    "hub_ops (since w v) = hub_ops (since w w1) @ concat (List.map ops ms)" by blast
  from turn_break [OF 3(2)] obtain e where "proto_read_frame fd v = Some (Inl e, v')" by blast
  from wire_error [OF ms(1) this] ms(2) show ?case by auto
qed

end

lemma sys_since: "sys c w = Some (a, w') \<Longrightarrow> later w w'" "sys c w = Some (a, w') \<Longrightarrow> since w w' = [(c, Some a)]"
  using sys_SomeE by blast+

interpretation client: frame_consumer "handle_client_turn fd pc nick br node en" fd "client_broadcast pc nick"
  for fd pc nick br node en
proof (unfold_locales, goal_cases)
  case (1 u w1 r w2)
  then show ?case by (auto simp: handle_client_turn_def Let_def run_cases)
next
  case (2 u w1 v w2)
  then obtain f w3 where f: "proto_read_frame fd w1 = Some (Inr f, w3)"
    by (auto simp: handle_client_turn_def run_cases)
  show ?case
  proof (intro exI conjI, rule f)
    show "later w3 w2" "hub_ops (since w3 w2) = client_broadcast pc nick f"
      "received fd (since w3 w2) = []" "closes (since w3 w2) = []"
      using 2 f by (auto simp: handle_client_turn_def client_broadcast_def Let_def run_cases straight split: if_splits)
  qed
qed

text \<open>What the bridge does with a frame: a DELIVER is broadcast under a nick that names a node.\<close>

definition bridge_broadcast :: "string \<Rightarrow> frame \<Rightarrow> hub_call list" where
  "bridge_broadcast peer_node f =
     (if ftype f \<noteq> kDeliver then []
      else (case proto_split_deliver (payload f) of
        None \<Rightarrow> []
      | Some (nick, text) \<Rightarrow> [Hub_broadcast None False
          (if CHR ''@'' \<in> set nick then nick else nick @ ''@'' @ peer_node) text]))"

interpretation bridge: frame_consumer "bridge_frame_turn conn peer_node" conn "bridge_broadcast peer_node"
  for conn peer_node
proof (unfold_locales, goal_cases)
  case (1 u w1 r w2)
  then show ?case by (auto simp: bridge_frame_turn_def Let_def run_cases)
next
  case (2 u w1 v w2)
  then obtain f w3 where f: "proto_read_frame conn w1 = Some (Inr f, w3)"
    by (auto simp: bridge_frame_turn_def run_cases)
  show ?case
  proof (intro exI conjI, rule f)
    show "later w3 w2" "hub_ops (since w3 w2) = bridge_broadcast peer_node f"
      "received conn (since w3 w2) = []" "closes (since w3 w2) = []"
      using 2 f by (auto simp: bridge_frame_turn_def bridge_broadcast_def Let_def run_cases find_from_None)
  qed
qed

text \<open>The whole thread: what it did to the hub is decided by the frames it was sent.\<close>

lemma handle_client_trace:
  assumes "handle_client fd pc node en w = Some (u, w')"
  shows "\<exists>fs. later w w' \<and> closes (since w w') = [fd] \<and>
    (honest (since w w') \<longrightarrow> frames_received fd fs (since w w')) \<and>
    hub_ops (since w w') = client_hub_ops fd pc fs"
proof -
  from assms obtain r w1 where r: "proto_read_frame fd w = Some (r, w1)"
    by (auto simp: handle_client_def)
  show ?thesis
  proof (cases "\<exists>j. r = Inr j \<and> ftype j = kJoin")
    case True
    then obtain j where j: "proto_read_frame fd w = Some (Inr j, w1)" "ftype j = kJoin" using r by auto
    let ?nick = "chars_of (payload j)"
    let ?br = "starts_with ?nick ''bridge@''"
    let ?w2 = "emit (Hub (Hub_add pc fd ?nick ?br)) w1"
    note wj = wire_frame [OF wire_refl j(1), simplified]
    from assms j obtain v w3 where l: "loop (handle_client_turn fd pc ?nick ?br node en) () ?w2 = Some (v, w3)"
      and w': "w' = emit (Close fd) (emit (Hub (Hub_remove pc)) w3)"
      by (auto simp: handle_client_def Let_def)
    have "wire fd [j] w ?w2" "hub_ops (since w ?w2) = [Hub_add pc fd ?nick ?br]"
      using wj by (auto simp: wire_def)
    from client.consumed_all [OF l this(1)] this(2) obtain ms where "wire_end fd (j # ms) w w3"
      "hub_ops (since w w3) = Hub_add pc fd ?nick ?br # concat (List.map (client_broadcast pc ?nick) ms)" by auto
    with w' j(2) show ?thesis
      by (intro exI [of _ "j # ms"]) (auto simp: wire_end_def frames_received_def Let_def)
  next
    case False
    with assms r have w': "w' = emit (Close fd) w1" by (auto simp: handle_client_def run_cases Let_def)
    show ?thesis
    proof (cases r)
      case (Inl e)
      with wire_error [OF wire_refl, of fd w e w1] r w' show ?thesis
        by (intro exI [of _ "[]"]) (auto simp: wire_end_def frames_received_def)
    next
      case (Inr j)
      with wire_frame [OF wire_refl, of fd w j w1] r w' False show ?thesis
        by (intro exI [of _ "[j]"]) (auto simp: wire_def frames_received_def)
    qed
  qed
qed

section \<open>Sockets\<close>

text \<open>The sockets the kernel created.\<close>

definition opened_by :: "call \<times> answer option \<Rightarrow> int list" where
  "opened_by e = (case e of (c, Some a) \<Rightarrow> if c = Socket \<and> 0 \<le> rv a then [rv a] else [] | _ \<Rightarrow> [])"

definition opened :: "(call \<times> answer option) list \<Rightarrow> int list" where
  "opened t = concat (List.map opened_by t)"

lemma opened_simps [simp]:
  "opened [] = []" "opened (e # t) = opened_by e @ opened t" "opened (t @ u) = opened t @ opened u"
  "opened_by (c, Some a) = (if c = Socket \<and> 0 \<le> rv a then [rv a] else [])" "opened_by (c, None) = []"
  by (simp_all add: opened_def opened_by_def)

lemma chatterd_connect_tcp_sockets:
  "chatterd_connect_tcp host port ms w = Some (r, w') \<Longrightarrow>
    (case r of Inl e \<Rightarrow> closes (since w w') = opened (since w w')
     | Inr fd \<Rightarrow> 0 \<le> fd \<and> opened (since w w') = [fd] \<and> closes (since w w') = [])"
  by (auto simp: chatterd_connect_tcp_def fd_reset_def Let_def run_cases straight)

lemma chatterd_listen_tcp_sockets:
  "chatterd_listen_tcp host port w = Some (r, w') \<Longrightarrow>
    (case r of Inl e \<Rightarrow> closes (since w w') = opened (since w w')
     | Inr fd \<Rightarrow> 0 \<le> fd \<and> opened (since w w') = [fd] \<and> closes (since w w') = [])"
  by (auto simp: chatterd_listen_tcp_def fd_reset_def Let_def run_cases straight)

lemma chatterd_connect_tcp_later: "chatterd_connect_tcp host port ms w = Some (r, w') \<Longrightarrow> later w w'"
  using keepsD [OF chatterd_connect_tcp_keeps [where P = "\<lambda>_. True", OF only_refl]] onlyD(1) by blast

section \<open>The bridge thread\<close>

text \<open>The only hub operations of a bridge: a broadcast that excludes nobody, leaves the bridges
  out, and whose nick names a node.\<close>

definition bridge_call :: "string \<Rightarrow> call \<Rightarrow> bool" where
  "bridge_call peer_node c \<longleftrightarrow> (\<forall>h. c = Hub h \<longrightarrow>
     (\<exists>nick text. h = Hub_broadcast None False nick text \<and> CHR ''@'' \<in> set nick))"

lemma bridge_call_simps [simp]:
  "bridge_call pn (Read fd n)" "bridge_call pn (Write fd bs)" "bridge_call pn (Close fd)"
  "bridge_call pn (Load_flag s)" "bridge_call pn (Sleep_ms i)" "bridge_call pn (Print st m)"
  "bridge_call pn (Fflush st)" "connect_call c \<Longrightarrow> bridge_call pn c"
  by (auto simp: bridge_call_def connect_call_def)

lemma bridge_frame_turn_keeps [keeps_intros]:
  "only (bridge_call pn) w0 w \<Longrightarrow> keeps (bridge_call pn) w0 (bridge_frame_turn conn pn u w)"
  unfolding bridge_frame_turn_def Let_def
  by (intro keeps_intros; (simp add: bridge_call_def find_from_None)?)

lemma bridge_worker_keeps:
  "only (bridge_call pn) w0 w \<Longrightarrow> keeps (bridge_call pn) w0 (bridge_worker peer_addr loc pn w)"
  unfolding bridge_worker_def bridge_turn_def Let_def
  by (intro keeps_intros; simp?)

text \<open>A peer that reads the bridge's JOIN knows it for a bridge.\<close>

lemma bridge_join_known: "starts_with (chars_of (bytes_of (''bridge@'' @ node))) ''bridge@''"
  by (simp add: starts_with_def)

section \<open>The sending client\<close>

lemma chatterd_connect_tcp_quiet:
  assumes "chatterd_connect_tcp host port ms w = Some (r, w')"
  shows "accepted fd (since w w') = []" "hub_ops (since w w') = []"
proof -
  have "\<not> transfers c \<and> hub_op c = []" if "connect_call c" for c
    using that by (auto simp: connect_call_def split: call.splits)
  from keepsD [OF chatterd_connect_tcp_keeps [where P = "\<lambda>c. \<not> transfers c \<and> hub_op c = []", OF only_refl this] assms]
  have "list_all ((\<lambda>c. \<not> transfers c) \<circ> fst) (since w w')" "list_all ((\<lambda>c. hub_op c = []) \<circ> fst) (since w w')"
    unfolding only_def by (simp_all add: list_all_iff)
  then show "accepted fd (since w w') = []" "hub_ops (since w w') = []"
    by (simp_all add: no_transfers(1) proj_Nil)
qed

lemma proto_write_frame_projs:
  assumes "proto_write_frame fd f w = Some (r, w')"
  shows "closes (since w w') = []" "opened (since w w') = []"
proof -
  have "list_all ((\<lambda>c. closed_fd c = [] \<and> c \<noteq> Socket) \<circ> fst) (since w w')"
    using keepsD [OF proto_write_frame_keeps [where P = "\<lambda>c. closed_fd c = [] \<and> c \<noteq> Socket", OF only_refl] assms]
    by (simp add: onlyD(2))
  then show "closes (since w w') = []" "opened (since w w') = []"
    by (auto intro!: proj_Nil simp: list_all_iff opened_def opened_by_def split: option.splits)
qed

lemma chatterd_send_wire:
  assumes "chatterd_send host port nick text ms w = Some (0, w')" "honest (since w w')"
  shows "\<exists>fd. opened (since w w') = [fd] \<and> closes (since w w') = [fd] \<and>
    accepted fd (since w w') = proto_encode \<lparr>ftype = kJoin, payload = bytes_of nick\<rparr>
      @ proto_encode \<lparr>ftype = kMsg, payload = bytes_of text\<rparr> \<and>
    List.length nick \<le> 0xFFFF \<and> List.length text \<le> 0xFFFF"
proof -
  from assms(1) obtain fd w1 w2 w3 where
      c: "chatterd_connect_tcp host port ms w = Some (Inr fd, w1)"
    and j: "proto_write_frame fd \<lparr>ftype = kJoin, payload = bytes_of nick\<rparr> w1 = Some (Inr (), w2)"
    and m: "proto_write_frame fd \<lparr>ftype = kMsg, payload = bytes_of text\<rparr> w2 = Some (Inr (), w3)"
    and w': "w' = fd_reset fd (println Stdout [Txt (''chatterd: sent nick='' @ nick @ '' text='' @ text)]
                     (emit (Sleep_ms 150) w3))"
    by (auto simp: chatterd_send_def run_cases)
  note l = chatterd_connect_tcp_later [OF c] proto_write_frame_spec(1) [OF j] proto_write_frame_spec(1) [OF m]
  have l3: "later w w3" and s: "since w w3 = since w w1 @ since w1 w2 @ since w2 w3"
    using l later_trans [OF l(1,2)] since_trans [OF l(1,2)] later_trans [of w w2 w3]
      since_trans [of w w2 w3] by simp_all
  have fd: "0 \<le> fd" "opened (since w w1) = [fd]" "closes (since w w1) = []"
    using chatterd_connect_tcp_sockets [OF c] by simp_all
  with w' l3 have t: "since w w' = since w w3 @ [(Sleep_ms 150, None),
      (Print Stdout [Txt (''chatterd: sent nick='' @ nick @ '' text='' @ text)], None), (Close fd, None)]"
    by (simp add: fd_reset_def println_def)
  with assms(2) s have h: "honest (since w1 w2)" "honest (since w2 w3)" by simp_all
  note proto_write_frame_spec(3) [OF j h(1)] proto_write_frame_spec(3) [OF m h(2)]
  with fd s t chatterd_connect_tcp_quiet(1) [OF c] proto_write_frame_projs [OF j] proto_write_frame_projs [OF m]
  show ?thesis by (intro exI [of _ fd]) simp
qed

section \<open>The accept loop\<close>

text \<open>The connections the kernel handed over, and those a client thread was started for.\<close>

definition accept_by :: "call \<times> answer option \<Rightarrow> int list" where
  "accept_by e = (case e of (Net (Net_accept l), Some a) \<Rightarrow> if 0 \<le> rv a then [rv a] else [] | _ \<Rightarrow> [])"

definition accepted_conns :: "(call \<times> answer option) list \<Rightarrow> int list" where
  "accepted_conns t = concat (List.map accept_by t)"

definition served_conn :: "call \<Rightarrow> int list" where
  "served_conn c = (case c of Spawn f args n \<Rightarrow> if f = ''handle_client'' then [n] else [] | _ \<Rightarrow> [])"

abbreviation served_conns :: "(call \<times> answer option) list \<Rightarrow> int list" where
  "served_conns \<equiv> proj served_conn"

lemma accept_simps [simp]:
  "accepted_conns [] = []" "accepted_conns (e # t) = accept_by e @ accepted_conns t"
  "accepted_conns (t @ u) = accepted_conns t @ accepted_conns u"
  "accept_by (Accept l, Some a) = (if 0 \<le> rv a then [rv a] else [])" "accept_by (c, None) = []"
  "accept_by (Ev ec, x) = []" "accept_by (Load_flag sf, x) = []" "accept_by (Socket, x) = []"
  "accept_by (Inet_pton h, x) = []" "accept_by (Bind fd h pt, x) = []" "accept_by (Listen fd n, x) = []"
  by (simp_all add: accepted_conns_def accept_by_def split: option.split call.split net_call.split)

lemma served_simps [simp]:
  "served_conn (Spawn f args n) = (if f = ''handle_client'' then [n] else [])"
  "served_conn (Net nc) = []" "served_conn (Ev e) = []" "served_conn (Load_flag sf) = []"
  "served_conn (Close fd) = []" "served_conn (Print st m) = []" "served_conn (Fflush st) = []"
  "served_conn Install_handlers = []"
  by (simp_all add: served_conn_def)

text \<open>What one run of the accept loop did between two points: threads for connections.\<close>

definition accounted :: "world \<Rightarrow> world \<Rightarrow> bool" where
  "accounted w w' \<longleftrightarrow> later w w' \<and> served_conns (since w w') = accepted_conns (since w w')"

lemma chatterd_serve_turn_accounts:
  assumes "chatterd_serve_turn lfd node u v = Some (c, v')"
  shows "accounted v v'" "opened (since v v') = []"
    "closes (since v v') = (case c of Break _ \<Rightarrow> if 0 \<le> lfd then [lfd] else [] | _ \<Rightarrow> [])"
    "case c of Break rc \<Rightarrow> rc = 0 \<or> rc = 1 | _ \<Rightarrow> True"
  using assms by (auto simp: chatterd_serve_turn_def fd_reset_def Let_def run_cases straight accounted_def)

lemma chatterd_serve_loop_accounts:
  assumes "loop (chatterd_serve_turn lfd node) u v = Some (rc, w')"
  shows "accounted v w' \<and> opened (since v w') = [] \<and> closes (since v w') = (if 0 \<le> lfd then [lfd] else [])
    \<and> (rc = 0 \<or> rc = 1)"
proof (rule loop_rule [OF assms, where I = "\<lambda>_ x. accounted v x \<and> opened (since v x) = [] \<and> closes (since v x) = []"],
    goal_cases)
  case 1
  show ?case by (simp add: accounted_def)
next
  case (2 s x s' x')
  note t = chatterd_serve_turn_accounts [OF 2(2)]
  with 2(1) since_trans [of v x x'] later_trans [of v x x'] show ?case by (simp add: accounted_def)
next
  case (3 s x r x')
  note t = chatterd_serve_turn_accounts [OF 3(2)]
  with 3(1) since_trans [of v x x'] later_trans [of v x x'] show ?case by (simp add: accounted_def)
qed

lemma chatterd_serve_trace:
  assumes "chatterd_serve host port node peer pn w = Some (rc, w')"
  shows "accounted w w' \<and> closes (since w w') = opened (since w w') \<and> (rc = 0 \<or> rc = 1)"
proof -
  from assms obtain r w1 where r: "chatterd_listen_tcp host port w = Some (r, w1)"
    by (auto simp: chatterd_serve_def)
  then have l: "accounted w w1"
    by (auto simp: chatterd_listen_tcp_def fd_reset_def Let_def run_cases straight accounted_def)
  show ?thesis
  proof (cases r)
    case (Inl e)
    with assms r l chatterd_listen_tcp_sockets [OF r] show ?thesis
      by (auto simp: chatterd_serve_def accounted_def)
  next
    case (Inr lfd)
    with assms r obtain w2 t where run: "loop (chatterd_serve_turn lfd node) () w2 = Some (rc, w')"
      and w2: "later w1 w2" "since w1 w2 = t" "closes t = []" "opened t = []" "served_conns t = []" "accepted_conns t = []"
      by (auto simp: chatterd_serve_def Let_def split: if_splits)
    note loop = chatterd_serve_loop_accounts [OF run]
    then have s: "later w w'" "since w w' = since w w1 @ t @ since w2 w'"
      using l w2 later_trans [of w w1 w2] later_trans [of w w2 w'] since_trans [of w w1 w2] since_trans [of w w2 w']
      by (simp_all add: accounted_def)
    with loop l w2 chatterd_listen_tcp_sockets [OF r] Inr show ?thesis
      by (simp add: accounted_def)
  qed
qed

section \<open>Properties\<close>

text \<open>C5: What a client thread does to the hub is decided by the frames the client sent: nothing
  unless the first is JOIN, else it registers, broadcasts each MSG to everybody else and
  unregisters; the descriptor is closed exactly once, last.\<close>

theorem chatterd_handle_client_ops:
  assumes "handle_client fd pc node enabled w = Some (u, w')" and "honest (since w w')"
  shows "\<exists>fs. frames_received fd fs (since w w') \<and>
    hub_ops (since w w') = client_hub_ops fd pc fs \<and> closes (since w w') = [fd]"
  using handle_client_trace [OF assms(1)] assms(2) by blast

theorem chatterd_handle_client_ops_witness:
  "\<exists>w' fs. handle_client 5 1 ''A'' False (answering [gave [67, 72, 1, 1, 0, 1], gave [97], gave []]) = Some ((), w') \<and>
    frames_received 5 fs (since (answering [gave [67, 72, 1, 1, 0, 1], gave [97], gave []]) w') \<and>
    hub_ops (since (answering [gave [67, 72, 1, 1, 0, 1], gave [97], gave []]) w') = client_hub_ops 5 1 fs"
proof -
  let ?s = "[gave [67, 72, 1, 1, 0, 1], gave [97], gave []]"
  let ?t = "[(Read 5 6, Some (gave [67, 72, 1, 1, 0, 1])), (Read 5 1, Some (gave [97])),
    (Hub (Hub_add 1 5 ''a'' False), None), (Read 5 6, Some (gave [])), (Hub (Hub_remove 1), None), (Close 5, None)]"
  have run: "handle_client 5 1 ''A'' False (answering ?s) = Some ((), \<lparr>script = [], trace = ?t\<rparr>)"
    by (simp add: handle_client_def handle_client_turn_def proto_eval starts_with_def char_eval Let_def)
  have s: "since (answering ?s) \<lparr>script = [], trace = ?t\<rparr> = ?t"
    by (simp add: since_def answering_def)
  have h: "honest (since (answering ?s) \<lparr>script = [], trace = ?t\<rparr>)"
    unfolding s by (simp add: honest_event_def)
  show ?thesis using chatterd_handle_client_ops [OF run h] run by blast
qed

text \<open>C2: A message sent with \<open>chatterd send\<close> reaches the hub: where the client thread of the server
  is given the bytes the sender's kernel took and then nothing more, it registers the sender's
  nick, broadcasts the text once under that nick and unregisters.\<close>

theorem chatterd_send_reaches_hub:
  assumes "chatterd_send host port nick text ms w = Some (0, w')" and "honest (since w w')"
    and "opened (since w w') = [sfd]"
    and "handle_client fd pc node enabled v = Some (u, v')" and "honest (since v v')"
    and "received fd (since v v') = accepted sfd (since w w')"
  shows "hub_ops (since v v') =
    [Hub_add pc fd nick (starts_with nick ''bridge@''), Hub_broadcast (Some pc) True nick text, Hub_remove pc]"
proof -
  from chatterd_send_wire [OF assms(1,2)] assms(3) have
      a: "accepted sfd (since w w') = concat (List.map proto_encode
            [\<lparr>ftype = kJoin, payload = bytes_of nick\<rparr>, \<lparr>ftype = kMsg, payload = bytes_of text\<rparr>]) @ []"
    and small: "list_all small_frame [\<lparr>ftype = kJoin, payload = bytes_of nick\<rparr>, \<lparr>ftype = kMsg, payload = bytes_of text\<rparr>]"
    by auto
  from handle_client_trace [OF assms(4)] assms(5) obtain fs where
      fs: "frames_received fd fs (since v v')" "hub_ops (since v v') = client_hub_ops fd pc fs" by blast
  then obtain rest where rest: "received fd (since v v') = concat (List.map proto_encode fs) @ rest"
    "\<forall>f. \<not> prefix (proto_encode f) rest" "list_all small_frame fs" by (auto simp: frames_received_def)
  have "fs = [\<lparr>ftype = kJoin, payload = bytes_of nick\<rparr>, \<lparr>ftype = kMsg, payload = bytes_of text\<rparr>]"
    by (rule proto_frames_unique [of fs rest _ "[]"]) (use rest a small assms(6) in auto)
  with fs(2) show ?thesis by (simp add: client_broadcast_def kJoin_def kMsg_def)
qed

theorem chatterd_send_reaches_hub_witness:
  "\<exists>v'. handle_client 9 1 ''A'' False (answering [gave [67, 72, 1, 1, 0, 1], gave [97], gave [67, 72, 1, 2], gave [0, 1],
       gave [98], gave []]) = Some ((), v') \<and>
     hub_ops (since (answering [gave [67, 72, 1, 1, 0, 1], gave [97], gave [67, 72, 1, 2], gave [0, 1],
       gave [98], gave []]) v') = [Hub_add 1 9 ''a'' False, Hub_broadcast (Some 1) True ''a'' ''b'', Hub_remove 1]"
proof -
  let ?s = "[returned 5, returned 1, returned 2, returned 0, returned 6, returned 1, returned 6, returned 1]"
  let ?t = "[(Socket, Some (returned 5)), (Inet_pton ''h'', Some (returned 1)), (Getfl 5, Some (returned 2)),
     (Setfl 5 2 True, None), (Connect 5 ''h'' 80, Some (returned 0)), (Setfl 5 2 False, None),
     (Write 5 [67, 72, 1, 1, 0, 1], Some (returned 6)), (Write 5 [97], Some (returned 1)),
     (Write 5 [67, 72, 1, 2, 0, 1], Some (returned 6)), (Write 5 [98], Some (returned 1)), (Sleep_ms 150, None),
     (Print Stdout [Txt ''chatterd: sent nick=a text=b''], None), (Close 5, None)]"
  let ?rs = "[gave [67, 72, 1, 1, 0, 1], gave [97], gave [67, 72, 1, 2], gave [0, 1], gave [98], gave []]"
  let ?rt = "[(Read 9 6, Some (gave [67, 72, 1, 1, 0, 1])), (Read 9 1, Some (gave [97])),
     (Hub (Hub_add 1 9 ''a'' False), None), (Read 9 6, Some (gave [67, 72, 1, 2])), (Read 9 2, Some (gave [0, 1])),
     (Read 9 1, Some (gave [98])),
     (Otel ''StartSpan chatterd.deliver'' [Txt ''a'', Txt ''1'', Txt ''A'', Txt ''false''], None),
     (Hub (Hub_broadcast (Some 1) True ''a'' ''b''), None), (Otel ''SetStatus'' [Txt ''Ok''], None), (Otel ''End'' [], None),
     (Read 9 6, Some (gave [])), (Hub (Hub_remove 1), None), (Close 9, None)]"
  have send: "chatterd_send ''h'' 80 ''a'' ''b'' 0 (answering ?s) = Some (0, \<lparr>script = [], trace = ?t\<rparr>)"
    by (simp add: chatterd_send_def chatterd_connect_tcp_def fd_reset_def port_u16_def proto_eval char_eval)
  have recv: "handle_client 9 1 ''A'' False (answering ?rs) = Some ((), \<lparr>script = [], trace = ?rt\<rparr>)"
    by (simp add: handle_client_def handle_client_turn_def proto_eval starts_with_def char_eval Let_def
        show_nat.simps digit_char_def)
  have s: "since (answering ?s) \<lparr>script = [], trace = ?t\<rparr> = ?t"
    "since (answering ?rs) \<lparr>script = [], trace = ?rt\<rparr> = ?rt"
    by (simp_all add: since_def answering_def)
  have "hub_ops (since (answering ?rs) \<lparr>script = [], trace = ?rt\<rparr>) =
      [Hub_add 1 9 ''a'' (starts_with ''a'' ''bridge@''), Hub_broadcast (Some 1) True ''a'' ''b'', Hub_remove 1]"
    by (rule chatterd_send_reaches_hub [OF send _ _ recv]) (simp_all only: s, simp_all add: honest_event_def)
  with recv show ?thesis by (simp add: starts_with_def)
qed

text \<open>The bridge turns what its peer delivers into broadcasts that never go back to a bridge and
  whose nick names a node: a bare nick gets the peer's name, a tagged one is kept.\<close>

lemma chatterd_bridge_broadcasts:
  assumes "loop (bridge_frame_turn conn peer_node) () w = Some (u, w')" and "honest (since w w')"
  shows "\<exists>fs. frames_received conn fs (since w w') \<and>
    hub_ops (since w w') = concat (List.map (bridge_broadcast peer_node) fs) \<and>
    (\<forall>h \<in> set (hub_ops (since w w')). \<exists>nick text. h = Hub_broadcast None False nick text \<and> CHR ''@'' \<in> set nick)"
proof -
  from bridge.consumed_all [OF assms(1) wire_refl] assms(2) obtain fs where
    fs: "frames_received conn fs (since w w')" "hub_ops (since w w') = concat (List.map (bridge_broadcast peer_node) fs)"
    by (auto simp: wire_end_def)
  then have "\<forall>h \<in> set (hub_ops (since w w')). \<exists>nick text. h = Hub_broadcast None False nick text \<and> CHR ''@'' \<in> set nick"
    by (auto simp: bridge_broadcast_def split: if_splits option.splits)
  with fs show ?thesis by blast
qed

text \<open>\<open>connect_tcp\<close> leaks no descriptor: on every failure path the socket it opened is closed, and
  on success the one socket it opened is the one returned, still open.\<close>

lemma chatterd_connect_no_leak:
  assumes "chatterd_connect_tcp host port ms w = Some (r, w')"
  shows "case r of
     Inl e \<Rightarrow> closes (since w w') = opened (since w w')
   | Inr fd \<Rightarrow> 0 \<le> fd \<and> opened (since w w') = [fd] \<and> closes (since w w') = []"
  using assms by (rule chatterd_connect_tcp_sockets)

text \<open>The server starts one client thread for each connection the kernel hands over, in order and
  for nothing else; whichever way \<open>serve\<close> ends, its listening socket is closed exactly once and
  the exit code is 0 or 1.\<close>

lemma chatterd_serve_accounts:
  assumes "chatterd_serve host port node peer peer_node w = Some (rc, w')"
  shows "served_conns (since w w') = accepted_conns (since w w') \<and>
    closes (since w w') = opened (since w w') \<and> (rc = 0 \<or> rc = 1)"
  using chatterd_serve_trace [OF assms] by (simp_all add: accounted_def)

end
