(* ===== verification/Fwatch.thy ===== *)
theory Fwatch
  imports Chatterd "HOL-Library.List_Lexorder" "HOL-Library.Char_ord" "HOL-Library.Multiset"
begin

text \<open>
  The file watcher of the fleet, \<open>fwatch.cpp\<close> of \<open>examples/41-capstone-fleet\<close>: the Landlock
  sandbox, the inotify loop with the decoding of the kernel's event buffer, and the one-shot
  snapshot. The lemmas show that the sandbox fails closed, that no descriptor is leaked, and
  that every event of a buffer is reported.
\<close>

section \<open>Landlock\<close>

abbreviation LANDLOCK_ACCESS_FS_READ_FILE :: u64 where "LANDLOCK_ACCESS_FS_READ_FILE \<equiv> 4"
abbreviation LANDLOCK_ACCESS_FS_READ_DIR :: u64 where "LANDLOCK_ACCESS_FS_READ_DIR \<equiv> 8"

definition landlock_access :: u64 where
  "landlock_access = LANDLOCK_ACCESS_FS_READ_FILE OR LANDLOCK_ACCESS_FS_READ_DIR"

definition landlock_abi :: "world \<Rightarrow> (int \<times> world) option" where
  "landlock_abi w = do {
     (v, w) \<leftarrow> sys (Fs Fs_landlock_version) w;
     Some (if rv v < 0 then 0 else rv v, w) }"

text \<open>\<open>Inl err\<close> is \<open>false\<close> with \<open>err\<close> set; the ruleset's destructor runs on every way out.\<close>

definition apply_landlock :: "string \<Rightarrow> world \<Rightarrow> ((msg + unit) \<times> world) option" where
  "apply_landlock dir w = do {
     (rs, w) \<leftarrow> sys (Fs (Fs_landlock_create landlock_access)) w;
     if rv rs < 0 then Some (Inl [Txt ''landlock_create_ruleset: '', StrError (eno rs)], w)
     else do {
       let ruleset = rv rs;
       (d, w) \<leftarrow> sys (Fs (Fs_open_dir dir)) w;
       if rv d < 0 then Some (Inl [Txt (''open '' @ dir @ '': ''), StrError (eno d)], fd_reset ruleset w)
       else do {
         (added, w) \<leftarrow> sys (Fs (Fs_landlock_add ruleset (rv d) landlock_access)) w;
         let w = emit (Close (rv d)) w;
         if rv added < 0 then Some (Inl [Txt ''landlock_add_rule: '', StrError (eno added)], fd_reset ruleset w)
         else do {
           (p, w) \<leftarrow> sys (Proc Proc_no_new_privs) w;
           if rv p < 0 then Some (Inl [Txt ''prctl(PR_SET_NO_NEW_PRIVS): '', StrError (eno p)], fd_reset ruleset w)
           else do {
             (r, w) \<leftarrow> sys (Fs (Fs_landlock_restrict ruleset)) w;
             if rv r < 0 then Some (Inl [Txt ''landlock_restrict_self: '', StrError (eno r)], fd_reset ruleset w)
             else Some (Inr (), fd_reset ruleset w) } } } } }"

section \<open>Inotify events\<close>

abbreviation IN_MODIFY :: u32 where "IN_MODIFY \<equiv> 2"
abbreviation IN_CLOSE_WRITE :: u32 where "IN_CLOSE_WRITE \<equiv> 8"
abbreviation IN_CREATE :: u32 where "IN_CREATE \<equiv> 256"
abbreviation IN_DELETE :: u32 where "IN_DELETE \<equiv> 512"

definition classify :: "u32 \<Rightarrow> string" where
  "classify m =
     (if m AND IN_CREATE \<noteq> 0 then ''create''
      else if m AND IN_DELETE \<noteq> 0 then ''delete''
      else if m AND IN_CLOSE_WRITE \<noteq> 0 then ''modify''
      else if m AND IN_MODIFY \<noteq> 0 then ''modify''
      else ''other'')"

text \<open>
  \<open>struct inotify_event\<close> is \<open>int wd; uint32_t mask, cookie, len; char name[]\<close>, little-endian and
  16 bytes without the name; the name is a C string the kernel pads with NULs to \<open>len\<close>.
\<close>

definition le32_at :: "nat \<Rightarrow> byte list \<Rightarrow> nat" where
  "le32_at i bs = unat (bs ! i) + 256 * unat (bs ! (i + 1)) + 65536 * unat (bs ! (i + 2)) + 16777216 * unat (bs ! (i + 3))"

definition c_string :: "byte list \<Rightarrow> string" where
  "c_string bs = chars_of (takeWhile (\<lambda>b. b \<noteq> 0) bs)"

fun inotify_events :: "byte list \<Rightarrow> (u32 \<times> string) list" where
  "inotify_events buf =
     (if 16 \<le> List.length buf then
        let m = word_of_nat (le32_at 4 buf); len = le32_at 12 buf
        in (if len = 0 then [] else [(m, c_string (drop 16 buf))]) @ inotify_events (drop (16 + len) buf)
      else [])"

declare inotify_events.simps [simp del]

text \<open>\<open>(fs::path(dir) / name).string()\<close>.\<close>

definition path_join :: "string \<Rightarrow> string \<Rightarrow> string" where
  "path_join dir name =
     (if name \<noteq> [] \<and> hd name = CHR ''/'' then name
      else if dir = [] \<or> last dir = CHR ''/'' then dir @ name
      else dir @ ''/'' @ name)"

fun print_events :: "string \<Rightarrow> (u32 \<times> string) list \<Rightarrow> world \<Rightarrow> world" where
  "print_events dir [] w = w"
| "print_events dir ((m, name) # es) w = print_events dir es
     (emit (Fflush Stdout) (println Stdout [Txt (''event: '' @ classify m @ '' '' @ path_join dir name)] w))"

section \<open>The watch loop\<close>

text \<open>Times are nanoseconds of the steady clock.\<close>

definition fwatch_turn :: "string \<Rightarrow> int \<Rightarrow> int option \<Rightarrow> unit \<Rightarrow> world \<Rightarrow> ((unit, int) ctl \<times> world) option" where
  "fwatch_turn dir ifd deadline _ w = do {
     (sg, w) \<leftarrow> sys (Load_flag ''signal'') w;
     if rv sg \<noteq> 0 then Some (Break 0, println Stdout [Txt ''(signal)''] w)
     else do {
       (late, w) \<leftarrow> (case deadline of None \<Rightarrow> Some (False, w)
         | Some d \<Rightarrow> do { (now, w) \<leftarrow> sys Clock_ns w; Some (rv now > d, w) });
       if late then Some (Break 0, println Stdout [Txt ''(timeout)''] w)
       else do {
         (pr, w) \<leftarrow> sys (Poll [(ifd, POLLIN)] 200) w;
         if rv pr < 0 then
           if eno pr = EINTR then Some (Continue (), w)
           else Some (Break 1, println Stderr [Txt ''fwatch: poll: '', StrError (eno pr)] w)
         else if rv pr = 0 then Some (Continue (), w)
         else do {
           (nr, w) \<leftarrow> sys (Read ifd 4096) w;
           if rv nr \<le> 0 then Some (Continue (), w)
           else Some (Continue (), print_events dir (inotify_events (filled nr)) w) } } } }"

text \<open>The sandboxing that precedes everything else (\<^const>\<open>True\<close>: it failed, \<open>watch\<close> returns 1), the
  inotify part, and both.\<close>

definition fwatch_sandbox :: "string \<Rightarrow> world \<Rightarrow> (bool \<times> world) option" where
  "fwatch_sandbox dir w = do {
     (abi, w) \<leftarrow> landlock_abi w;
     if abi = 0 then Some (True, println Stderr [Txt ''fwatch: Landlock not supported by this kernel''] w)
     else do {
       (r, w) \<leftarrow> apply_landlock dir w;
       (case r of
         Inl err \<Rightarrow> Some (True, println Stderr (Txt ''fwatch: landlock: '' # err) w)
       | Inr _ \<Rightarrow> Some (False, println Stderr
           [Txt (''fwatch: landlock ABI='' @ show_int abi @ '' enforced dir='' @ dir)] w)) } }"

definition fwatch_inotify :: "string \<Rightarrow> bool \<Rightarrow> int \<Rightarrow> world \<Rightarrow> (int \<times> world) option" where
  "fwatch_inotify dir sandbox timeout_ms w = do {
     (i, w) \<leftarrow> sys (Fs Fs_inotify_init) w;
     let ifd = rv i;
     if ifd < 0 then Some (1, println Stderr [Txt ''fwatch: inotify_init1: '', StrError (eno i)] w)
     else do {
       (a, w) \<leftarrow> sys (Fs (Fs_inotify_add ifd dir (IN_CREATE OR IN_MODIFY OR IN_DELETE OR IN_CLOSE_WRITE))) w;
       if rv a < 0 then Some (1, fd_reset ifd (println Stderr
           [Txt (''fwatch: inotify_add_watch '' @ dir @ '': ''), StrError (eno a)] w))
       else do {
         let w = println Stderr [Txt (''fwatch: watching '' @ dir @ '' (sandbox='' @
           (if sandbox then ''true'' else ''false'') @ '')'')] w;
         let w = emit Install_handlers (emit (Fflush Stderr) w);
         (deadline, w) \<leftarrow> (if timeout_ms > 0 then do { (now, w) \<leftarrow> sys Clock_ns w;
             Some (Some (rv now + timeout_ms * 1000000), w) } else Some (None, w));
         (rc, w) \<leftarrow> loop (fwatch_turn dir ifd deadline) () w;
         Some (rc, fd_reset ifd w) } } }"

definition fwatch_watch :: "string \<Rightarrow> bool \<Rightarrow> int \<Rightarrow> world \<Rightarrow> (int \<times> world) option" where
  "fwatch_watch dir sandbox timeout_ms w = do {
     (stop, w) \<leftarrow> (if sandbox then fwatch_sandbox dir w else Some (False, w));
     if stop then Some (1, w) else fwatch_inotify dir sandbox timeout_ms w }"

text \<open>
  The directory is a parameter: the error of the first iterator, and the entries the second
  one yields, each with \<open>is_regular_file()\<close>. \<open>std::ranges::sort\<close> on
  \<open>std::string\<close> compares bytes lexicographically, the order of the library's list and character
  orders.
\<close>

definition fwatch_snapshot :: "error_code option \<Rightarrow> (string \<times> bool) list \<Rightarrow> string \<Rightarrow> world \<Rightarrow> int \<times> world" where
  "fwatch_snapshot first_error entries dir w = (case first_error of
     Some e \<Rightarrow> (1, println Stderr [Txt (''fwatch: readdir '' @ dir @ '': ''), ErrorCode e] w)
   | None \<Rightarrow>
       let names = sort (List.map fst (filter snd entries))
       in (0, fold (\<lambda>name. println Stdout [Txt name]) names w))"

section \<open>Event buffers\<close>

text \<open>An event as the kernel lays it out: no name is length 0, a name is followed by at least one NUL.\<close>

definition le32 :: "nat \<Rightarrow> byte list" where
  "le32 n = [word_of_nat n, word_of_nat (n div 256), word_of_nat (n div 65536), word_of_nat (n div 16777216)]"

definition name_field :: "string \<Rightarrow> nat \<Rightarrow> byte list" where
  "name_field name padding = (if name = [] then [] else bytes_of name @ replicate (Suc padding) 0)"

definition event_bytes :: "nat \<times> u32 \<times> nat \<times> string \<times> nat \<Rightarrow> byte list" where
  "event_bytes = (\<lambda>(wd, m, cookie, name, padding).
     le32 wd @ le32 (unat m) @ le32 cookie @ le32 (List.length (name_field name padding)) @ name_field name padding)"

definition good_event :: "nat \<times> u32 \<times> nat \<times> string \<times> nat \<Rightarrow> bool" where
  "good_event = (\<lambda>(wd, m, cookie, name, padding).
     CHR 0x00 \<notin> set name \<and> List.length (name_field name padding) < 2 ^ 32)"

lemma length_le32 [simp]: "List.length (le32 n) = 4"
  by (simp add: le32_def)

lemma div_mod_256: "(n :: nat) = n mod 256 + 256 * (n div 256)"
  by (rule mod_mult_div_eq [symmetric])

lemma digits_256: "n = r + 256 * a \<Longrightarrow> a = s + 256 * b \<Longrightarrow> b = t + 256 * c \<Longrightarrow>
    r + 256 * s + 65536 * t + 16777216 * c = (n :: nat)"
  by simp

lemma le32_value:
  "(n :: nat) mod 256 + 256 * (n div 256 mod 256) + 65536 * (n div 65536 mod 256) + 16777216 * (n div 16777216) = n"
proof -
  have "n div 65536 = n div 256 div 256" "n div 16777216 = n div 256 div 256 div 256"
    using div_mult2_eq [of n 256 256] div_mult2_eq [of n 256 65536] div_mult2_eq [of "n div 256" 256 256] by simp_all
  then show ?thesis
    using digits_256 [OF div_mod_256 div_mod_256 div_mod_256, of n] by simp
qed

lemma le32_at_le32:
  assumes "n < 2 ^ 32"
  shows "le32_at (List.length xs) (xs @ le32 n @ ys) = n"
proof -
  have "unat (word_of_nat m :: byte) = m mod 256" for m by (simp add: unat_of_nat)
  moreover have "n div 16777216 < 256" using assms by simp
  ultimately show ?thesis using le32_value [of n]
    by (simp add: le32_at_def le32_def nth_append)
qed

lemma c_string_name_field:
  assumes "CHR 0x00 \<notin> set name" "name \<noteq> []"
  shows "c_string (name_field name padding @ rest) = name"
proof -
  have "byte_of_char (CHR 0x00) = 0" by (simp add: byte_of_char_def)
  with assms(1) have "\<forall>c \<in> set name. byte_of_char c \<noteq> 0" by (metis byte_of_char_eq_iff)
  then have "takeWhile (\<lambda>b. b \<noteq> 0) (bytes_of name @ 0 # xs) = bytes_of name" for xs
    by (subst takeWhile_append2) auto
  with assms(2) show ?thesis by (simp add: c_string_def name_field_def)
qed

lemma inotify_events_Cons:
  assumes "good_event e"
  shows "inotify_events (event_bytes e @ rest) =
    (case e of (wd, m, cookie, name, padding) \<Rightarrow> if name = [] then [] else [(m, name)]) @ inotify_events rest"
proof -
  obtain wd m cookie name padding where e: "e = (wd, m, cookie, name, padding)" by (cases e)
  let ?n = "name_field name padding"
  have len: "List.length ?n < 2 ^ 32" and nul: "CHR 0x00 \<notin> set name" using assms e by (auto simp: good_event_def)
  have m: "unat m < 2 ^ 32" using unsigned_less [of m] by simp
  have bytes: "event_bytes e @ rest = (le32 wd) @ le32 (unat m) @ (le32 cookie @ le32 (List.length ?n) @ ?n @ rest)"
    "event_bytes e @ rest = (le32 wd @ le32 (unat m) @ le32 cookie) @ le32 (List.length ?n) @ (?n @ rest)"
    by (simp_all add: e event_bytes_def)
  have "le32_at 4 (event_bytes e @ rest) = unat m"
    using le32_at_le32 [OF m, of "le32 wd"] by (simp only: bytes(1)) simp
  moreover have "le32_at 12 (event_bytes e @ rest) = List.length ?n"
    using le32_at_le32 [OF len, of "le32 wd @ le32 (unat m) @ le32 cookie"] by (simp only: bytes(2)) simp
  moreover have "drop 16 (event_bytes e @ rest) = ?n @ rest" by (simp add: e event_bytes_def)
  moreover have "drop (16 + List.length ?n) (event_bytes e @ rest) = rest" by (simp add: e event_bytes_def)
  moreover have "16 \<le> List.length (event_bytes e @ rest)" by (simp add: e event_bytes_def)
  moreover have "?n = [] \<longleftrightarrow> name = []" by (simp add: name_field_def)
  ultimately show ?thesis
    using c_string_name_field [OF nul] by (subst inotify_events.simps) (simp add: e Let_def)
qed

lemma inotify_events_all:
  "list_all good_event es \<Longrightarrow> inotify_events (concat (List.map event_bytes es)) =
     concat (List.map (\<lambda>(wd, m, cookie, name, padding). if name = [] then [] else [(m, name)]) es)"
proof (induction es)
  case Nil
  then show ?case by (simp add: inotify_events.simps)
next
  case (Cons e es)
  then show ?case by (simp add: inotify_events_Cons)
qed

section \<open>The sandbox and the descriptors\<close>

text \<open>The trace begins with a Landlock domain that grants reading beneath the directory alone.\<close>

definition enforced :: "string \<Rightarrow> (call \<times> answer option) list \<Rightarrow> bool" where
  "enforced dir t \<longleftrightarrow> (\<exists>v rs d ad p r rest. t =
     [(Fs Fs_landlock_version, Some v), (Fs (Fs_landlock_create landlock_access), Some rs),
      (Fs (Fs_open_dir dir), Some d), (Fs (Fs_landlock_add (rv rs) (rv d) landlock_access), Some ad),
      (Close (rv d), None), (Proc Proc_no_new_privs, Some p), (Fs (Fs_landlock_restrict (rv rs)), Some r)] @ rest
     \<and> 0 \<le> rv rs \<and> 0 \<le> rv d \<and> 0 \<le> rv ad \<and> 0 \<le> rv p \<and> 0 \<le> rv r)"

lemma enforced_append: "enforced dir t \<Longrightarrow> enforced dir (t @ u)"
  unfolding enforced_def by (metis append.assoc)

text \<open>Calls that look at the file system, and descriptors that a call created.\<close>

definition watches :: "call \<Rightarrow> bool" where
  "watches c \<longleftrightarrow> c = Fs Fs_inotify_init \<or> (\<exists>fd n. c = Read fd n)"

definition created_by :: "call \<times> answer option \<Rightarrow> int list" where
  "created_by e = (case e of
     (Fs (Fs_landlock_create acc), Some a) \<Rightarrow> if 0 \<le> rv a then [rv a] else []
   | (Fs (Fs_open_dir d), Some a) \<Rightarrow> if 0 \<le> rv a then [rv a] else []
   | (Fs Fs_inotify_init, Some a) \<Rightarrow> if 0 \<le> rv a then [rv a] else []
   | _ \<Rightarrow> [])"

definition created :: "(call \<times> answer option) list \<Rightarrow> int list" where
  "created t = concat (List.map created_by t)"

lemma created_simps [simp]:
  "created [] = []" "created (e # t) = created_by e @ created t" "created (t @ u) = created t @ created u"
  "created_by (c, None) = []" "created_by (Ev ec, x) = []" "created_by (Load_flag sf, x) = []" "created_by (Clock_ns, x) = []"
  "created_by (Proc pc, x) = []" "created_by (Read fd n, x) = []" "created_by (Fs Fs_landlock_version, x) = []"
  "created_by (Fs (Fs_landlock_add i j k), x) = []" "created_by (Fs (Fs_landlock_restrict i), x) = []"
  "created_by (Fs (Fs_inotify_add i dr ev_mask), x) = []"
  "created_by (Fs (Fs_landlock_create acc), Some a) = (if 0 \<le> rv a then [rv a] else [])"
  "created_by (Fs (Fs_open_dir dr), Some a) = (if 0 \<le> rv a then [rv a] else [])"
  "created_by (Fs Fs_inotify_init, Some a) = (if 0 \<le> rv a then [rv a] else [])"
  by (simp_all add: created_def created_by_def split: option.split call.split fs_call.split)

lemma closed_fd_more [simp]:
  "closed_fd (Fs fc) = []" "closed_fd (Proc pc) = []" "closed_fd Clock_ns = []"
  by (simp_all add: closed_fd_def)

lemma watches_simps [simp]:
  "watches (Fs Fs_inotify_init)" "watches (Read fd n)" "\<not> watches (Fs (Fs_landlock_create k))" "\<not> watches (Fs (Fs_open_dir dr))"
  "\<not> watches (Fs (Fs_landlock_add i j k))" "\<not> watches (Fs (Fs_landlock_restrict i))" "\<not> watches (Fs Fs_landlock_version)"
  "\<not> watches (Proc pc)" "\<not> watches (Close i)" "\<not> watches (Print st m)"
  by (auto simp: watches_def)

lemma only_print_events [keeps_intros]:
  "only P w0 w \<Longrightarrow> (\<And>m. P (Print Stdout m)) \<Longrightarrow> P (Fflush Stdout) \<Longrightarrow> only P w0 (print_events dir es w)"
  by (induction dir es w rule: print_events.induct) (auto intro: keeps_intros)

lemma fwatch_turn_keeps [keeps_intros]:
  "only P w0 w \<Longrightarrow> (\<And>c. closed_fd c = [] \<Longrightarrow> (\<And>x. created_by (c, x) = []) \<Longrightarrow> P c) \<Longrightarrow>
    keeps P w0 (fwatch_turn dir ifd dl u w)"
  unfolding fwatch_turn_def by (intro keeps_intros; simp add: created_by_def)

text \<open>What \<open>apply_landlock\<close> did when it succeeded, and that it closes what it opened.\<close>

lemma apply_landlock_spec:
  assumes "apply_landlock dir w = Some (r, w')"
  shows "later w w' \<and> mset (closes (since w w')) = mset (created (since w w')) \<and>
    list_all (\<lambda>e. \<not> watches (fst e)) (since w w') \<and>
    (r = Inr () \<longrightarrow> (\<forall>v. enforced dir ((Fs Fs_landlock_version, Some v) # since w w')))"
  using assms
  by (auto simp: apply_landlock_def fd_reset_def Let_def run_cases straight enforced_def)

lemma fwatch_loop_quiet:
  assumes "loop (fwatch_turn dir ifd dl) u w = Some (rc, w')"
  shows "later w w' \<and> closes (since w w') = [] \<and> created (since w w') = []"
proof -
  have "keeps (\<lambda>c. closed_fd c = [] \<and> (\<forall>x. created_by (c, x) = [])) w (loop (fwatch_turn dir ifd dl) u w)"
    by (intro keeps_intros; simp)
  from keepsD [OF this assms] have "later w w'"
    and t: "list_all (\<lambda>e. closed_fd (fst e) = [] \<and> (\<forall>x. created_by (fst e, x) = [])) (since w w')"
    by (simp_all add: only_def comp_def)
  moreover from t have "closes (since w w') = [] \<and> created (since w w') = []"
    by (induction "since w w'" rule: rev_induct) (auto simp: list_all_iff proj_def created_def)
  ultimately show ?thesis by simp
qed

lemma fwatch_sandbox_spec:
  assumes "fwatch_sandbox dir w = Some (stop, w')"
  shows "later w w' \<and> mset (closes (since w w')) = mset (created (since w w')) \<and>
    list_all (\<lambda>e. \<not> watches (fst e)) (since w w') \<and> (\<not> stop \<longrightarrow> enforced dir (since w w'))"
proof -
  from assms obtain v w1 where v: "sys (Fs Fs_landlock_version) w = Some (v, w1)"
    by (auto simp: fwatch_sandbox_def landlock_abi_def bind_eq_Some_conv)
  note l = sys_SomeE [OF v]
  from assms v consider (no) "stop" "\<exists>m. w' = println Stderr m w1"
    | (yes) r w2 where "apply_landlock dir w1 = Some (r, w2)" "\<exists>m. w' = println Stderr m w2" "stop = (r \<noteq> Inr ())"
    by (auto simp: fwatch_sandbox_def landlock_abi_def run_cases bind_eq_Some_conv split: if_splits)
  then show ?thesis
  proof cases
    case no
    with l show ?thesis by auto
  next
    case yes
    note a = apply_landlock_spec [OF yes(1)]
    with l have s: "later w w2" "since w w2 = (Fs Fs_landlock_version, Some v) # since w1 w2"
      using later_trans [of w w1 w2] since_trans [of w w1 w2] by simp_all
    from yes(2) obtain m where m: "w' = println Stderr m w2" ..
    have "r = Inr () \<Longrightarrow> enforced dir (((Fs Fs_landlock_version, Some v) # since w1 w2) @ [(Print Stderr m, None)])"
      using a by (intro enforced_append) simp
    with m s a yes(3) show ?thesis by auto
  qed
qed

lemma fwatch_inotify_spec:
  assumes "fwatch_inotify dir sandbox ms w = Some (rc, w')"
  shows "later w w' \<and> mset (closes (since w w')) = mset (created (since w w'))"
proof -
  from assms obtain i w1 where i: "sys (Fs Fs_inotify_init) w = Some (i, w1)" by (auto simp: fwatch_inotify_def)
  note l = sys_SomeE [OF i]
  show ?thesis
  proof (cases "rv i < 0")
    case True
    with assms i l show ?thesis by (auto simp: fwatch_inotify_def)
  next
    case False
    let ?add = "Fs (Fs_inotify_add (rv i) dir (IN_CREATE OR IN_MODIFY OR IN_DELETE OR IN_CLOSE_WRITE))"
    from assms i False obtain a w2 where a: "sys ?add w1 = Some (a, w2)"
      by (auto simp: fwatch_inotify_def Let_def)
    note l2 = sys_after [OF l(1) a]
    show ?thesis
    proof (cases "rv a < 0")
      case True
      with assms i a False l l2 show ?thesis by (auto simp: fwatch_inotify_def fd_reset_def Let_def)
    next
      case ok: False
      define w3 where "w3 = emit Install_handlers (emit (Fflush Stderr) (println Stderr [Txt (''fwatch: watching '' @ dir
         @ '' (sandbox='' @ (if sandbox then ''true'' else ''false'') @ '')'')] w2))"
      from assms i a False ok obtain dl w4 w5 where
          d: "(if ms > 0 then do { (now, w) \<leftarrow> sys Clock_ns w3; Some (Some (rv now + ms * 1000000), w) }
               else Some (None, w3)) = Some (dl, w4)"
        and run: "loop (fwatch_turn dir (rv i) dl) () w4 = Some (rc, w5)" and w': "w' = emit (Close (rv i)) w5"
        unfolding w3_def fwatch_inotify_def fd_reset_def Let_def by (auto simp del: if_Some split del: if_split)
      from l2 have "later w w3" "closes (since w w3) = []" "created (since w w3) = [rv i]"
        using False l by (simp_all add: w3_def)
      with d sys_after [of w w3 Clock_ns] have "later w w4" "closes (since w w4) = []" "created (since w w4) = [rv i]"
        by (auto simp: run_cases)
      with fwatch_loop_quiet [OF run] later_trans [of w w4 w5] since_trans [of w w4 w5] w' show ?thesis by simp
    qed
  qed
qed

lemma fwatch_watch_closed:
  assumes "fwatch_watch dir True timeout_ms w = Some (rc, w')"
  shows "enforced dir (since w w') \<or> rc = 1 \<and> list_all (\<lambda>e. \<not> watches (fst e)) (since w w')"
proof -
  from assms obtain stop w1 where sb: "fwatch_sandbox dir w = Some (stop, w1)"
    and rest: "if stop then rc = 1 \<and> w' = w1 else fwatch_inotify dir True timeout_ms w1 = Some (rc, w')"
    by (auto simp: fwatch_watch_def split: if_splits)
  note s = fwatch_sandbox_spec [OF sb]
  show ?thesis
  proof (cases stop)
    case True
    with rest s show ?thesis by simp
  next
    case False
    with rest have "later w1 w'" using fwatch_inotify_spec by simp
    with s have "since w w' = since w w1 @ since w1 w'" using since_trans [of w w1 w'] by blast
    with s False enforced_append [of dir "since w w1"] show ?thesis by simp
  qed
qed

section \<open>Properties\<close>

text \<open>C9: The sandbox fails closed: with \<open>--sandbox\<close> the program looks at nothing, neither watch nor
  read, unless the whole Landlock sequence for that directory succeeded first; otherwise it
  ends with exit code 1.\<close>

theorem fwatch_fails_closed:
  assumes "fwatch_watch dir True timeout_ms w = Some (rc, w')"
  shows "enforced dir (since w w') \<or> rc = 1 \<and> list_all (\<lambda>e. \<not> watches (fst e)) (since w w')"
  using assms by (rule fwatch_watch_closed)

theorem fwatch_fails_closed_witness:
  "\<exists>w'. fwatch_watch ''/d'' True 0 (answering [returned 5, returned 3, returned 4, returned 0, returned 0, failed 1]) = Some (1, w') \<and>
    (enforced ''/d'' (since (answering [returned 5, returned 3, returned 4, returned 0, returned 0, failed 1]) w') \<or>
     list_all (\<lambda>e. \<not> watches (fst e)) (since (answering [returned 5, returned 3, returned 4, returned 0, returned 0, failed 1]) w'))"
proof -
  let ?w = "answering [returned 5, returned 3, returned 4, returned 0, returned 0, failed 1]"
  have "\<exists>w'. fwatch_watch ''/d'' True 0 ?w = Some (1, w')"
    by (simp add: fwatch_watch_def fwatch_sandbox_def landlock_abi_def apply_landlock_def fd_reset_def io_defs)
  then show ?thesis using fwatch_fails_closed [of "''/d''" 0 ?w 1] by blast
qed

text \<open>Whichever way \<open>watch\<close> ends, it has closed exactly the descriptors it was given: the ruleset,
  the directory and the inotify instance.\<close>

lemma fwatch_no_leak:
  assumes "fwatch_watch dir sandbox timeout_ms w = Some (rc, w')"
  shows "mset (closes (since w w')) = mset (created (since w w'))"
proof -
  from assms obtain stop w1 where sb: "(if sandbox then fwatch_sandbox dir w else Some (False, w)) = Some (stop, w1)"
    and rest: "if stop then rc = 1 \<and> w' = w1 else fwatch_inotify dir sandbox timeout_ms w1 = Some (rc, w')"
    unfolding fwatch_watch_def by (auto simp del: if_Some split: if_splits)
  have s: "later w w1 \<and> mset (closes (since w w1)) = mset (created (since w w1))"
    using sb fwatch_sandbox_spec [of dir w stop w1] by (auto split: if_splits)
  show ?thesis
  proof (cases stop)
    case True
    with rest s show ?thesis by simp
  next
    case False
    with rest have r: "later w1 w' \<and> mset (closes (since w1 w')) = mset (created (since w1 w'))"
      using fwatch_inotify_spec by simp
    with s have "since w w' = since w w1 @ since w1 w'" using since_trans [of w w1 w'] by blast
    with s r show ?thesis by simp
  qed
qed

text \<open>Decoding the kernel's event buffer yields every event that names a file, in order, with its
  mask and name, and nothing else, whatever the names' padding.\<close>

lemma fwatch_events_decoded:
  assumes "list_all good_event es"
  shows "inotify_events (concat (List.map event_bytes es)) =
    concat (List.map (\<lambda>(wd, m, cookie, name, padding). if name = [] then [] else [(m, name)]) es)"
  using assms by (rule inotify_events_all)

end
