(* ===== verification/Pmon.thy ===== *)
theory Pmon
  imports Fwatch
begin

text \<open>
  The supervisor of the fleet: \<open>pmon.cpp\<close> and \<open>caps.cpp\<close> of \<open>examples/41-capstone-fleet\<close>. First
  the functions as runs against the kernel; then the supervisor threads, the signal thread and
  the children as a step relation, in which the shutdown protocol can be judged.
\<close>

section \<open>Capabilities and the executable\<close>

fun drop_caps :: "nat list \<Rightarrow> nat \<Rightarrow> world \<Rightarrow> (nat \<times> world) option" where
  "drop_caps [] dropped w = Some (dropped, w)"
| "drop_caps (c # cs) dropped w = do {
     (r, w) \<leftarrow> sys (Proc (Proc_capbset_drop c)) w;
     drop_caps cs (if rv r = 0 then dropped + 1 else dropped) w }"

definition kLastKnownCap :: nat where "kLastKnownCap = 40"

definition drop_bounding_set :: "world \<Rightarrow> (unit \<times> world) option" where
  "drop_bounding_set w = do {
     (dropped, w) \<leftarrow> drop_caps [0..<kLastKnownCap + 1] 0 w;
     (p, w) \<leftarrow> sys (Proc Proc_no_new_privs) w;
     if rv p \<noteq> 0 then Some ((), println Stderr [Txt ''pmon: prctl(PR_SET_NO_NEW_PRIVS) failed''] w)
     else Some ((), println Stderr [Txt (''pmon: capabilities bounding_set_dropped='' @ show_nat dropped
       @ '' no_new_privs=1'')] w) }"

text \<open>\<open>buf[n] = 0; return std::string(buf)\<close>: up to the first NUL; the empty string where it fails. The
  second component is \<open>errno\<close> after the call, which the caller prints.\<close>

definition self_exe_path :: "world \<Rightarrow> ((string \<times> int) \<times> world) option" where
  "self_exe_path w = do {
     (n, w) \<leftarrow> sys (Fs (Fs_readlink_self 4095)) w;
     if rv n < 0 then Some (([], eno n), w)
     else Some ((c_string (filled n), eno n), w) }"

section \<open>One supervisor thread\<close>

record child_spec =
  spec_name :: string
  spec_args :: "string list"

datatype pm_state = Starting | Up | Restarting | Down

fun state_name :: "pm_state \<Rightarrow> string" where
  "state_name Starting = ''starting''"
| "state_name Up = ''up''"
| "state_name Restarting = ''restarting''"
| "state_name Down = ''down''"

text \<open>The values of the \<open>enum class\<close>, which is how the atomic is stored.\<close>

fun state_code :: "pm_state \<Rightarrow> int" where
  "state_code Starting = 0" | "state_code Up = 1" | "state_code Restarting = 2" | "state_code Down = 3"

definition state_of :: "int \<Rightarrow> pm_state" where
  "state_of i = (if i = 0 then Starting else if i = 1 then Up else if i = 2 then Restarting else Down)"

lemma state_of_code [simp]: "state_of (state_code s) = s"
  by (cases s) (simp_all add: state_of_def)

text \<open>\<open>WIFEXITED\<close>, \<open>WEXITSTATUS\<close>, \<open>WIFSIGNALED\<close>, \<open>WTERMSIG\<close> of a status word.\<close>

definition exit_reason :: "int \<Rightarrow> msg" where
  "exit_reason status =
     (let low = status AND 0x7F
      in if low = 0 then [Txt (''exit status '' @ show_int (drop_bit 8 (status AND 0xFF00)))]
         else if low \<noteq> 0x7F then [Txt ''signal: '', StrSignal low]
         else [Txt ''unknown''])"

text \<open>
  How \<open>run_child_supervisor\<close> ends: it returns, or, in the forked child, the process exits. The
  answer to \<open>Proc_waitpid\<close> stands for the status word it leaves (0 where it fails). Where
  \<open>execv\<close> succeeds it does not come back: the run has no answer to it.
\<close>

datatype supervisor_end = Returned | Exited int

definition run_child_turn ::
  "string \<Rightarrow> child_spec \<Rightarrow> int \<Rightarrow> world \<Rightarrow> ((int, supervisor_end) ctl \<times> world) option" where
  "run_child_turn self_exe spec restarts w = do {
     (pid, w) \<leftarrow> sys (Proc Proc_fork) w;
     if rv pid < 0 then
       Some (Continue restarts, emit (Sleep_ms 500) (println Stderr
         [Txt (''pmon: start service='' @ spec_name spec @ '': ''), StrError (eno pid)] w))
     else if rv pid = 0 then do {
       let w = emit (Proc Proc_unblock_signals) w;
       (_, w) \<leftarrow> sys (Proc (Proc_execv self_exe (self_exe # spec_args spec))) w;
       Some (Break (Exited 127), emit (Proc (Proc_exit 127)) w) }
     else do {
       let w = emit (Store (''pid '' @ spec_name spec) (rv pid)) w;
       let w = emit (Store (''state '' @ spec_name spec) (state_code Up)) w;
       let w = emit (Fflush Stdout) (println Stdout [Txt (''pmon: started service='' @ spec_name spec
         @ '' pid='' @ show_int (rv pid))] w);
       (status, w) \<leftarrow> sys (Proc (Proc_waitpid (rv pid))) w;
       (sd, w) \<leftarrow> sys (Load_flag ''shutting_down'') w;
       if rv sd \<noteq> 0 then Some (Break Returned, emit (Store (''state '' @ spec_name spec) (state_code Down)) w)
       else do {
         let n = restarts + 1;
         let w = emit (Store (''restarts '' @ spec_name spec) n) w;
         let w = emit (Store (''state '' @ spec_name spec) (state_code Restarting)) w;
         let w = emit (Fflush Stdout) (println Stdout (Txt (''pmon: restart service='' @ spec_name spec
           @ '' attempt='' @ show_int n @ '' reason='') # exit_reason (rv status)) w);
         Some (Continue n, emit (Sleep_ms 300) w) } } }"

definition run_child_supervisor :: "string \<Rightarrow> child_spec \<Rightarrow> world \<Rightarrow> (supervisor_end \<times> world) option" where
  "run_child_supervisor self_exe spec = loop (run_child_turn self_exe spec) 0"

section \<open>The health line\<close>

text \<open>The loads of the states come before those of the restart counts.\<close>

fun load_each :: "string \<Rightarrow> string list \<Rightarrow> world \<Rightarrow> (int list \<times> world) option" where
  "load_each what [] w = Some ([], w)"
| "load_each what (n # ns) w = do {
     (v, w) \<leftarrow> sys (Load_flag (what @ n)) w;
     (vs, w) \<leftarrow> load_each what ns w;
     Some (rv v # vs, w) }"

fun joined :: "string \<Rightarrow> string list \<Rightarrow> string" where
  "joined sep [] = []"
| "joined sep [x] = x"
| "joined sep (x # xs) = x @ sep @ joined sep xs"

definition health_line :: "string list \<Rightarrow> pm_state list \<Rightarrow> int list \<Rightarrow> string" where
  "health_line order sts rs =
     ''pmon: health '' @ joined '' '' (List.map (\<lambda>(n, s). n @ ''='' @ state_name s) (zip order sts))
     @ '' restarts='' @ joined '','' (List.map (\<lambda>(n, r). n @ '':'' @ show_int r) (zip order rs))"

definition print_health :: "string list \<Rightarrow> world \<Rightarrow> (unit \<times> world) option" where
  "print_health order w = do {
     (sts, w) \<leftarrow> load_each ''state '' order w;
     (rs, w) \<leftarrow> load_each ''restarts '' order w;
     Some ((), emit (Fflush Stdout) (println Stdout [Txt (health_line order (List.map state_of sts) rs)] w)) }"

section \<open>The main thread\<close>

definition chatterd_args :: "string \<Rightarrow> string \<Rightarrow> string \<Rightarrow> int \<Rightarrow> string list" where
  "chatterd_args node peer peer_node port =
     [''chatterd'', ''serve'', ''--host'', ''0.0.0.0'', ''--port'', show_int port, ''--node'', node]
     @ (if peer \<noteq> [] then [''--peer'', peer, ''--peer-node'', peer_node] else [])"

definition fleet_specs :: "string \<Rightarrow> string \<Rightarrow> string \<Rightarrow> string \<Rightarrow> int \<Rightarrow> child_spec list" where
  "fleet_specs node sandbox_dir peer peer_node port =
     [\<lparr>spec_name = ''chatterd'', spec_args = chatterd_args node peer peer_node port\<rparr>,
      \<lparr>spec_name = ''sysagent'', spec_args = [''sysagent'', ''--node'', node, ''--interval-ms'', ''2000'']\<rparr>,
      \<lparr>spec_name = ''fwatch'', spec_args = [''fwatch'', ''watch'', sandbox_dir, ''--sandbox'']\<rparr>]"

text \<open>\<open>wait_for\<close> is a call whose answer is its result.\<close>

definition pmon_wait_turn :: "int \<Rightarrow> unit \<Rightarrow> world \<Rightarrow> ((unit, unit) ctl \<times> world) option" where
  "pmon_wait_turn interval _ w = do {
     (a, w) \<leftarrow> sys (Load_flag ''active'') w;
     if rv a \<le> 0 then Some (Break (), w)
     else do {
       (done, w) \<leftarrow> sys (Proc (Proc_wait_for interval)) w;
       if rv done \<noteq> 0 then Some (Break (), w)
       else do {
         (_, w) \<leftarrow> print_health [''chatterd'', ''sysagent'', ''fwatch''] w;
         Some (Continue (), w) } } }"

fun join_each :: "string list \<Rightarrow> world \<Rightarrow> (unit \<times> world) option" where
  "join_each [] w = Some ((), w)"
| "join_each (n # ns) w = do { (_, w) \<leftarrow> sys (Proc (Proc_join n)) w; join_each ns w }"

definition pmon_run ::
  "string \<Rightarrow> string \<Rightarrow> string \<Rightarrow> string \<Rightarrow> int \<Rightarrow> int \<Rightarrow> world \<Rightarrow> (int \<times> world) option" where
  "pmon_run node sandbox_dir peer peer_node chatterd_port health_interval_ms w = do {
     (m, w) \<leftarrow> sys (Fs (Fs_create_directories sandbox_dir)) w;
     if rv m < 0 then Some (1, println Stderr
       [Txt (''pmon: mkdir '' @ sandbox_dir @ '': ''), ErrorCode (System_error (eno m))] w)
     else do {
       (_, w) \<leftarrow> drop_bounding_set w;
       ((self_exe, e), w) \<leftarrow> self_exe_path w;
       if self_exe = [] then Some (1, println Stderr [Txt ''pmon: readlink /proc/self/exe: '', StrError e] w)
       else do {
         let w = emit (Proc Proc_block_signals) w;
         let w = emit (Spawn ''signal_thread'' [] 0) w;
         let w = fold (\<lambda>spec. emit (Spawn ''run_child_supervisor'' (self_exe # spec_name spec # spec_args spec) 0))
           (fleet_specs node sandbox_dir peer peer_node chatterd_port) w;
         (_, w) \<leftarrow> loop (pmon_wait_turn health_interval_ms) () w;
         let w = emit (Fflush Stdout) (println Stdout [Txt ''pmon: shutdown''] w);
         (_, w) \<leftarrow> join_each [''chatterd'', ''sysagent'', ''fwatch''] w;
         Some (0, w) } } }"

text \<open>The thread that waits for the signal and passes it on, in the map's iteration order \<open>order\<close>.\<close>

fun kill_each :: "string list \<Rightarrow> world \<Rightarrow> (unit \<times> world) option" where
  "kill_each [] w = Some ((), w)"
| "kill_each (n # ns) w = do {
     (pid, w) \<leftarrow> sys (Load_flag (''pid '' @ n)) w;
     kill_each ns (if rv pid > 0 then emit (Proc (Proc_kill (rv pid) 15)) w else w) }"

definition signal_thread :: "string list \<Rightarrow> world \<Rightarrow> (unit \<times> world) option" where
  "signal_thread order w = do {
     (r, w) \<leftarrow> sys (Proc Proc_sigwait) w;
     if rv r = 0 then kill_each order (emit (Store ''shutting_down'' 1) w)
     else Some ((), w) }"

section \<open>What a supervisor thread did\<close>

text \<open>The children it forked, those it waited for, and the restart counts and states it published.\<close>

definition forked_by :: "call \<times> answer option \<Rightarrow> int list" where
  "forked_by e = (case e of (Proc Proc_fork, Some a) \<Rightarrow> if 0 < rv a then [rv a] else [] | _ \<Rightarrow> [])"

definition forked :: "(call \<times> answer option) list \<Rightarrow> int list" where
  "forked t = concat (List.map forked_by t)"

definition waited_for :: "call \<Rightarrow> int list" where
  "waited_for c = (case c of Proc (Proc_waitpid p) \<Rightarrow> [p] | _ \<Rightarrow> [])"

definition stored :: "string \<Rightarrow> call \<Rightarrow> int list" where
  "stored x c = (case c of Store y v \<Rightarrow> if x = y then [v] else [] | _ \<Rightarrow> [])"

lemma pmon_proj_simps [simp]:
  "forked [] = []" "forked (e # t) = forked_by e @ forked t" "forked (t @ u) = forked t @ forked u"
  "forked_by (Proc Proc_fork, Some a) = (if 0 < rv a then [rv a] else [])" "forked_by (c, None) = []"
  "forked_by (Load_flag sf, x) = []" "forked_by (Proc (Proc_waitpid pd), x) = []"
  "waited_for (Proc (Proc_waitpid pd)) = [pd]" "waited_for (Proc Proc_fork) = []" "waited_for (Load_flag sf) = []"
  "waited_for (Store y v) = []" "waited_for (Print st m) = []" "waited_for (Fflush st) = []" "waited_for (Sleep_ms ms) = []"
  "stored z (Store y v) = (if z = y then [v] else [])" "stored z (Proc pc) = []" "stored z (Load_flag sf) = []"
  "stored z (Print st m) = []" "stored z (Fflush st) = []" "stored z (Sleep_ms ms) = []"
  by (simp_all add: forked_def forked_by_def waited_for_def stored_def split: option.split call.split proc_call.split)

definition supervised :: "child_spec \<Rightarrow> int \<Rightarrow> (call \<times> answer option) list \<Rightarrow> bool" where
  "supervised spec r t \<longleftrightarrow> 0 \<le> r \<and> forked t = proj waited_for t \<and> int (List.length (forked t)) = r \<and>
     proj (stored (''restarts '' @ spec_name spec)) t = [1..r]"

lemma run_child_turn_Continue:
  assumes "run_child_turn exe spec r v = Some (Continue r', v')" "later w v" "supervised spec r (since w v)"
  shows "later w v' \<and> supervised spec r' (since w v')"
proof -
  from assms(1) have "later v v' \<and> (r' = r \<and> forked (since v v') = [] \<and> proj waited_for (since v v') = [] \<and>
        proj (stored (''restarts '' @ spec_name spec)) (since v v') = []
    \<or> r' = r + 1 \<and> (\<exists>p. forked (since v v') = [p] \<and> proj waited_for (since v v') = [p]) \<and>
        proj (stored (''restarts '' @ spec_name spec)) (since v v') = [r + 1])"
    by (auto simp: run_child_turn_def Let_def run_cases straight)
  with assms(2,3) later_trans [of w v v'] since_trans [of w v v'] show ?thesis
    by (auto simp: supervised_def upto_rec2)
qed

text \<open>A thread that returned had waited for one more child than it counted restarts.\<close>

definition finished :: "child_spec \<Rightarrow> (call \<times> answer option) list \<Rightarrow> bool" where
  "finished spec t \<longleftrightarrow> forked t \<noteq> [] \<and> forked t = proj waited_for t \<and>
     proj (stored (''restarts '' @ spec_name spec)) t = [1..int (List.length (forked t)) - 1] \<and>
     last (proj (stored (''state '' @ spec_name spec)) t) = state_code Down"

lemma run_child_turn_Break:
  assumes "run_child_turn exe spec r v = Some (Break Returned, v')" "later w v" "supervised spec r (since w v)"
  shows "later w v' \<and> finished spec (since w v')"
proof -
  from assms(1) have "later v v' \<and> (\<exists>p. forked (since v v') = [p] \<and> proj waited_for (since v v') = [p]) \<and>
      proj (stored (''restarts '' @ spec_name spec)) (since v v') = [] \<and>
      proj (stored (''state '' @ spec_name spec)) (since v v') = [state_code Up, state_code Down]"
    by (auto simp: run_child_turn_def Let_def run_cases straight)
  with assms(2,3) later_trans [of w v v'] since_trans [of w v v'] show ?thesis
    by (auto simp: supervised_def finished_def)
qed

lemma run_child_supervisor_finished:
  assumes "run_child_supervisor exe spec w = Some (Returned, w')"
  shows "finished spec (since w w')"
proof -
  have "Returned = Returned \<longrightarrow> later w w' \<and> finished spec (since w w')"
  proof (rule loop_rule [OF assms [unfolded run_child_supervisor_def],
        where I = "\<lambda>r v. later w v \<and> supervised spec r (since w v)"
          and Q = "\<lambda>e v. e = Returned \<longrightarrow> later w v \<and> finished spec (since w v)"], goal_cases)
    case 1
    show ?case by (simp add: supervised_def)
  next
    case (2 r v r' v')
    with run_child_turn_Continue [OF 2(2)] show ?case by blast
  next
    case (3 r v e v')
    then show ?case using run_child_turn_Break [of exe spec r v v' w] by blast
  qed
  then show ?thesis by simp
qed

section \<open>The threads and the children together\<close>

text \<open>
  Services are the indices 0, 1 and 2. Where a supervisor thread is: about to fork, after a
  failed fork, between the fork and the store of the pid, in \<open>waitpid\<close>, after it, in the restart
  back-off, or returned. \<open>pid_of\<close>, \<open>shutting_down\<close>, \<open>status_of\<close> and \<open>restart_count\<close> are the shared atomics;
  \<open>living\<close> are the child processes that run and \<open>asked\<close> those that were sent SIGTERM.
\<close>

datatype phase = To_fork | Fork_failed | Forked int | Waiting int | Reaped | Backoff | Ended

datatype signal_phase = Sig_waiting | Sig_killing "nat list" | Sig_done

record fleet_state =
  phase_of :: "nat \<Rightarrow> phase"
  pid_of :: "nat \<Rightarrow> int"
  status_of :: "nat \<Rightarrow> pm_state"
  restart_count :: "nat \<Rightarrow> int"
  shutting_down :: bool
  sigt :: signal_phase
  living :: "int set"
  asked :: "int set"

definition pmon_start :: fleet_state where
  "pmon_start = \<lparr>phase_of = (\<lambda>_. To_fork), pid_of = (\<lambda>_. 0), status_of = (\<lambda>_. Starting), restart_count = (\<lambda>_. 0),
     shutting_down = False, sigt = Sig_waiting, living = {}, asked = {}\<rparr>"

text \<open>
  The kernel gives a new child a positive pid that no child not yet waited for has. \<open>Signal\<close>
  is \<open>sigwait\<close> returning, with the iteration order of the map; \<open>Kill\<close> is one round of its loop.
\<close>

datatype pm_action =
    Fork nat int | Fork_fails nat | Publish nat | Child_exits int | Reap nat | Check nat | Wake nat
  | Signal "nat list" | Kill

definition unreaped :: "fleet_state \<Rightarrow> int \<Rightarrow> bool" where
  "unreaped s p \<longleftrightarrow> list_ex (\<lambda>i. phase_of s i = Forked p \<or> phase_of s i = Waiting p) [0, 1, 2]"

fun pmon_next :: "fleet_state \<Rightarrow> pm_action \<Rightarrow> fleet_state option" where
  "pmon_next s (Fork i p) = (if i < 3 \<and> phase_of s i = To_fork \<and> 0 < p \<and> \<not> unreaped s p then
     Some (s\<lparr>phase_of := (phase_of s)(i := Forked p), living := insert p (living s), asked := asked s - {p}\<rparr>) else None)"
| "pmon_next s (Fork_fails i) = (if i < 3 \<and> phase_of s i = To_fork then
     Some (s\<lparr>phase_of := (phase_of s)(i := Fork_failed)\<rparr>) else None)"
| "pmon_next s (Publish i) = (case phase_of s i of
     Forked p \<Rightarrow> Some (s\<lparr>phase_of := (phase_of s)(i := Waiting p), pid_of := (pid_of s)(i := p), status_of := (status_of s)(i := Up)\<rparr>)
   | _ \<Rightarrow> None)"
| "pmon_next s (Child_exits p) = (if p \<in> living s then Some (s\<lparr>living := living s - {p}\<rparr>) else None)"
| "pmon_next s (Reap i) = (case phase_of s i of
     Waiting p \<Rightarrow> if p \<in> living s then None else Some (s\<lparr>phase_of := (phase_of s)(i := Reaped)\<rparr>)
   | _ \<Rightarrow> None)"
| "pmon_next s (Check i) = (if phase_of s i \<noteq> Reaped then None
     else if shutting_down s then Some (s\<lparr>phase_of := (phase_of s)(i := Ended), status_of := (status_of s)(i := Down)\<rparr>)
     else Some (s\<lparr>phase_of := (phase_of s)(i := Backoff), restart_count := (restart_count s)(i := restart_count s i + 1),
       status_of := (status_of s)(i := Restarting)\<rparr>))"
| "pmon_next s (Wake i) = (if phase_of s i = Backoff \<or> phase_of s i = Fork_failed then
     Some (s\<lparr>phase_of := (phase_of s)(i := To_fork)\<rparr>) else None)"
| "pmon_next s (Signal order) = (if sigt s = Sig_waiting \<and> set order = {0, 1, 2} \<and> distinct order then
     Some (s\<lparr>shutting_down := True, sigt := Sig_killing order\<rparr>) else None)"
| "pmon_next s Kill = (case sigt s of
     Sig_killing [] \<Rightarrow> Some (s\<lparr>sigt := Sig_done\<rparr>)
   | Sig_killing (i # is) \<Rightarrow> Some (s\<lparr>sigt := Sig_killing is,
       asked := (if 0 < pid_of s i \<and> pid_of s i \<in> living s then insert (pid_of s i) (asked s) else asked s)\<rparr>)
   | _ \<Rightarrow> None)"

inductive pmon_steps :: "fleet_state \<Rightarrow> pm_action list \<Rightarrow> fleet_state \<Rightarrow> bool" where
  Steps_Nil: "pmon_steps s [] s"
| Steps_Cons: "pmon_next s a = Some s1 \<Longrightarrow> pmon_steps s1 as s' \<Longrightarrow> pmon_steps s (a # as) s'"

inductive_simps pmon_steps_Nil [simp]: "pmon_steps s [] s'"
inductive_simps pmon_steps_Cons: "pmon_steps s (a # as) s'"

lemma pmon_steps_exec:
  "pmon_steps s (a # as) s' \<longleftrightarrow> (case pmon_next s a of None \<Rightarrow> False | Some s1 \<Rightarrow> pmon_steps s1 as s')"
  by (auto simp: pmon_steps_Cons split: option.splits)

text \<open>A shutdown that finds every supervisor in \<open>waitpid\<close> for the pid it published.\<close>

definition all_up :: "fleet_state \<Rightarrow> bool" where
  "all_up s \<longleftrightarrow> (\<forall>i < 3. 0 < pid_of s i \<and> phase_of s i = Waiting (pid_of s i))"

definition to_kill :: "fleet_state \<Rightarrow> nat set" where
  "to_kill s = (case sigt s of Sig_killing is \<Rightarrow> set is | Sig_waiting \<Rightarrow> UNIV | Sig_done \<Rightarrow> {})"

definition down_at :: "fleet_state \<Rightarrow> nat \<Rightarrow> int \<Rightarrow> bool" where
  "down_at s i p \<longleftrightarrow> pid_of s i = p \<and> 0 < p \<and>
     (phase_of s i = Waiting p \<and> (p \<in> living s \<longrightarrow> p \<in> asked s \<or> i \<in> to_kill s) \<or> phase_of s i = Reaped \<or> phase_of s i = Ended)"

definition going_down :: "(nat \<Rightarrow> int) \<Rightarrow> fleet_state \<Rightarrow> bool" where
  "going_down p s \<longleftrightarrow> shutting_down s \<and> (\<forall>i < 3. down_at s i (p i))"

lemma down_at_step:
  assumes "down_at s i p" "pmon_next s a = Some s'" "shutting_down s" "\<forall>j q. a \<noteq> Fork j q" "i < 3"
  shows "down_at s' i p"
proof (cases a)
  case (Kill)
  show ?thesis
  proof (cases "sigt s")
    case (Sig_killing order)
    with assms Kill show ?thesis by (cases order) (auto simp: down_at_def to_kill_def)
  qed (use assms Kill in auto)
next
  case (Publish j)
  with assms show ?thesis by (cases "phase_of s j"; cases "i = j") (auto simp: down_at_def to_kill_def)
next
  case (Reap j)
  with assms show ?thesis by (cases "phase_of s j"; cases "i = j") (auto simp: down_at_def to_kill_def split: if_splits)
next
  case (Check j)
  with assms(2,3) have "s' = s\<lparr>phase_of := (phase_of s)(j := Ended), status_of := (status_of s)(j := Down)\<rparr>"
    by (auto split: if_splits)
  with assms(1) show ?thesis by (cases "i = j") (auto simp: down_at_def to_kill_def)
next
  case (Child_exits q)
  with assms(2) have "s' = s\<lparr>living := living s - {q}\<rparr>" by (auto split: if_splits)
  with assms(1) show ?thesis by (auto simp: down_at_def to_kill_def)
next
  case (Signal order)
  with assms(2) have "sigt s = Sig_waiting" "set order = {0, 1, 2}"
    "s' = s\<lparr>shutting_down := True, sigt := Sig_killing order\<rparr>" by (auto split: if_splits)
  moreover have "i = 0 \<or> i = 1 \<or> i = 2" using assms(5) by linarith
  ultimately show ?thesis using assms(1) by (auto simp: down_at_def to_kill_def)
next
  case (Fork_fails j)
  with assms(2) have "phase_of s j = To_fork" "s' = s\<lparr>phase_of := (phase_of s)(j := Fork_failed)\<rparr>"
    by (auto split: if_splits)
  with assms(1) show ?thesis by (cases "i = j") (auto simp: down_at_def to_kill_def)
next
  case (Wake j)
  with assms(2) have "phase_of s j = Backoff \<or> phase_of s j = Fork_failed" "s' = s\<lparr>phase_of := (phase_of s)(j := To_fork)\<rparr>"
    by (auto split: if_splits)
  with assms(1) show ?thesis by (cases "i = j") (auto simp: down_at_def to_kill_def)
qed (use assms in blast)

lemma going_down_step:
  assumes "going_down p s" "pmon_next s a = Some s'"
  shows "going_down p s'"
proof -
  have "a \<noteq> Fork j q" for j q
    using assms by (auto simp: going_down_def down_at_def split: if_splits)
  moreover have "shutting_down s'"
    using assms by (cases a) (auto simp: going_down_def split: if_splits phase.splits signal_phase.splits list.splits)
  ultimately show ?thesis using assms down_at_step unfolding going_down_def by blast
qed

lemma going_down_steps: "pmon_steps s as s' \<Longrightarrow> going_down p s \<Longrightarrow> going_down p s'"
  by (induction rule: pmon_steps.induct) (auto intro: going_down_step)

text \<open>A supervisor in \<open>waitpid\<close> stays there until its child exits.\<close>

lemma waiting_step:
  "phase_of s i = Waiting p \<and> p \<in> living s \<Longrightarrow> pmon_next s a = Some s' \<Longrightarrow> a \<noteq> Child_exits p \<Longrightarrow>
    phase_of s' i = Waiting p \<and> p \<in> living s'"
  by (cases a) (auto split: if_splits phase.splits signal_phase.splits list.splits)

lemma waiting_steps:
  "pmon_steps s as s' \<Longrightarrow> phase_of s i = Waiting p \<and> p \<in> living s \<Longrightarrow> Child_exits p \<notin> set as \<Longrightarrow>
    phase_of s' i = Waiting p"
proof (induction rule: pmon_steps.induct)
  case (Steps_Cons s a s1 as s')
  have "a \<noteq> Child_exits p" using Steps_Cons.prems(2) by auto
  from waiting_step [OF Steps_Cons.prems(1) Steps_Cons.hyps(1) this] Steps_Cons show ?case by simp
qed simp

text \<open>
  After the round of the signal thread nobody is sent SIGTERM any more; a supervisor that had no child
  at that moment goes on to have one nevertheless.
\<close>

fun childless :: "phase \<Rightarrow> bool" where
  "childless To_fork = True" | "childless Fork_failed = True" | "childless Backoff = True" | "childless _ = False"

definition unasked :: "fleet_state \<Rightarrow> nat \<Rightarrow> bool" where
  "unasked s i \<longleftrightarrow> sigt s = Sig_done \<and> (\<forall>p. phase_of s i = Forked p \<or> phase_of s i = Waiting p \<longrightarrow> p \<notin> asked s)"

lemma unasked_step: "unasked s i \<Longrightarrow> pmon_next s a = Some s' \<Longrightarrow> unasked s' i"
  by (cases a) (auto simp: unasked_def split: if_splits phase.splits)

lemma unasked_steps: "pmon_steps s as s' \<Longrightarrow> unasked s i \<Longrightarrow> unasked s' i"
  by (induction rule: pmon_steps.induct) (auto intro: unasked_step)

lemma waiting_unasked_steps:
  "pmon_steps s as s' \<Longrightarrow> unasked s i \<and> phase_of s i = Waiting p \<and> p \<in> living s \<Longrightarrow> Child_exits p \<notin> set as \<Longrightarrow>
    phase_of s' i = Waiting p \<and> p \<notin> asked s'"
  using waiting_steps [of s as s' i p] unasked_steps [of s as s' i] by (auto simp: unasked_def)

lemma flag_up_step: "sigt s = Sig_waiting \<or> shutting_down s \<Longrightarrow> pmon_next s a = Some s' \<Longrightarrow> sigt s' = Sig_waiting \<or> shutting_down s'"
  by (cases a) (auto split: if_splits phase.splits signal_phase.splits list.splits)

lemma flag_up_steps: "pmon_steps s as s' \<Longrightarrow> sigt s = Sig_waiting \<or> shutting_down s \<Longrightarrow> sigt s' = Sig_waiting \<or> shutting_down s'"
proof (induction rule: pmon_steps.induct)
  case (Steps_Cons s a s1 as s')
  from Steps_Cons.IH [OF flag_up_step [OF Steps_Cons.prems Steps_Cons.hyps(1)]] show ?case .
qed simp

fun child_of :: "phase \<Rightarrow> int" where
  "child_of (Forked p) = p" | "child_of (Waiting p) = p" | "child_of _ = 0"

lemma fresh_pid: "\<exists>p. 0 < p \<and> \<not> unreaped s p"
proof -
  define f where "f i = child_of (phase_of s i)" for i
  have c: "phase_of s i = Forked p \<or> phase_of s i = Waiting p \<Longrightarrow> f i = p" for i p by (auto simp: f_def)
  have "0 < 1 + \<bar>f 0\<bar> + \<bar>f 1\<bar> + \<bar>f 2\<bar>" by simp
  moreover have "f 0 \<noteq> 1 + \<bar>f 0\<bar> + \<bar>f 1\<bar> + \<bar>f 2\<bar>" "f 1 \<noteq> 1 + \<bar>f 0\<bar> + \<bar>f 1\<bar> + \<bar>f 2\<bar>"
    "f 2 \<noteq> 1 + \<bar>f 0\<bar> + \<bar>f 1\<bar> + \<bar>f 2\<bar>" by linarith+
  ultimately show ?thesis using c by (intro exI [of _ "1 + \<bar>f 0\<bar> + \<bar>f 1\<bar> + \<bar>f 2\<bar>"]) (auto simp: unreaped_def)
qed

lemma childless_forks:
  assumes "childless (phase_of s i)" and "i < 3"
  shows "\<exists>bs s' p. pmon_steps s bs s' \<and> phase_of s' i = Waiting p \<and> p \<in> living s' \<and> shutting_down s' = shutting_down s"
proof -
  from fresh_pid obtain p where p: "0 < p" "\<not> unreaped s p" by blast
  let ?bs = "(if phase_of s i = To_fork then [] else [Wake i]) @ [Fork i p, Publish i]"
  from p(2) assms have "\<not> unreaped (s\<lparr>phase_of := (phase_of s)(i := To_fork)\<rparr>) p" by (auto simp: unreaped_def)
  then have "\<exists>s'. pmon_steps s ?bs s' \<and> phase_of s' i = Waiting p \<and> p \<in> living s' \<and> shutting_down s' = shutting_down s"
    using assms p by (cases "phase_of s i") (simp_all add: pmon_steps_exec)
  then show ?thesis by blast
qed

section \<open>Properties\<close>

text \<open>A supervisor thread that returns has waited for exactly the children it forked, in that order,
  has counted one restart for each but the last, 1, 2, 3 and so on, and has left its service down.\<close>

lemma pmon_supervisor_reaps:
  assumes "run_child_supervisor self_exe spec w = Some (Returned, w')"
  shows "forked (since w w') = proj waited_for (since w w') \<and>
    proj (stored (''restarts '' @ spec_name spec)) (since w w') = [1..int (List.length (forked (since w w'))) - 1] \<and>
    last (proj (stored (''state '' @ spec_name spec)) (since w w')) = state_code Down"
  using run_child_supervisor_finished [OF assms] by (simp add: finished_def)

lemma three_services: "(\<forall>i < 3. P i) \<longleftrightarrow> P 0 \<and> P 1 \<and> P (2 :: nat)"
  by (auto simp: numeral_3_eq_3 numeral_2_eq_2 less_Suc_eq)

text \<open>C7: A shutdown that finds all three services up forgets none of them: whatever happens after the
  signal, no service is forked again, and once the signal thread is done every child that still
  runs has been sent SIGTERM.\<close>

theorem pmon_shutdown_reaches_all:
  assumes "all_up s" and "pmon_steps s (Signal order # as) s'" and "i < 3"
  shows "(phase_of s' i = Waiting (pid_of s i) \<or> phase_of s' i = Reaped \<or> phase_of s' i = Ended) \<and>
    (sigt s' = Sig_done \<and> phase_of s' i = Waiting (pid_of s i) \<and> pid_of s i \<in> living s' \<longrightarrow> pid_of s i \<in> asked s')"
proof -
  from assms(2) obtain s1 where s1: "pmon_next s (Signal order) = Some s1" "pmon_steps s1 as s'"
    by (auto simp: pmon_steps_Cons)
  then have o: "set order = {0, 1, 2}" "s1 = s\<lparr>shutting_down := True, sigt := Sig_killing order\<rparr>"
    by (auto split: if_splits)
  with assms(1) have "going_down (pid_of s) s1"
    by (simp add: going_down_def down_at_def all_up_def to_kill_def three_services)
  from going_down_steps [OF s1(2) this] assms(3) show ?thesis
    by (auto simp: going_down_def down_at_def to_kill_def)
qed

theorem pmon_shutdown_reaches_all_witness:
  "\<exists>s. pmon_steps pmon_start [Fork 0 21, Publish 0, Fork 1 22, Publish 1, Fork 2 23, Publish 2] s \<and>
    (\<exists>s'. pmon_steps s [Signal [2, 0, 1], Kill, Kill, Kill, Kill] s' \<and> sigt s' = Sig_done \<and> 21 \<in> asked s')"
proof -
  let ?up = "\<lparr>phase_of = (\<lambda>_. To_fork)(0 := Waiting 21, 1 := Waiting 22, 2 := Waiting 23),
    pid_of = (\<lambda>_. 0)(0 := 21, 1 := 22, 2 := 23), status_of = (\<lambda>_. Starting)(0 := Up, 1 := Up, 2 := Up),
    restart_count = (\<lambda>_. 0), shutting_down = False, sigt = Sig_waiting, living = {23, 22, 21}, asked = {}\<rparr>"
  let ?fin = "?up\<lparr>shutting_down := True, sigt := Sig_done, asked := {22, 21, 23}\<rparr>"
  have up: "pmon_steps pmon_start [Fork 0 21, Publish 0, Fork 1 22, Publish 1, Fork 2 23, Publish 2] ?up"
    by (simp add: pmon_steps_exec pmon_start_def unreaped_def)
  have all: "all_up ?up"
    by (simp add: all_up_def three_services)
  have down: "pmon_steps ?up [Signal [2, 0, 1], Kill, Kill, Kill, Kill] ?fin"
    by (simp add: pmon_steps_exec insert_commute)
  have "pid_of ?up 0 = 21" "sigt ?fin = Sig_done" "phase_of ?fin 0 = Waiting 21" "21 \<in> living ?fin" by simp_all
  with pmon_shutdown_reaches_all [OF all down, of 0] have "21 \<in> asked ?fin" by simp
  with up down show ?thesis by (intro exI conjI) (assumption | simp)+
qed

text \<open>C8: A shutdown whose signal thread makes its round while a supervisor has no child, in its restart
  back-off or after it, loses that service. The supervisor still can fork again, with the shutdown flag
  up; and whatever child it has then, in whatever continuation, is never sent SIGTERM: the supervisor,
  and so \<open>pmon\<close>, stays in \<open>waitpid\<close> until the child ends by itself.\<close>

theorem pmon_shutdown_misses_restart:
  assumes "pmon_steps pmon_start as s" and "sigt s = Sig_done" and "childless (phase_of s i)" and "i < 3"
  shows "(\<exists>bs s' p. pmon_steps s bs s' \<and> phase_of s' i = Waiting p \<and> p \<in> living s' \<and> shutting_down s') \<and>
    (\<forall>bs s' p. pmon_steps s bs s' \<and> phase_of s' i = Waiting p \<and> p \<in> living s' \<longrightarrow> p \<notin> asked s' \<and>
      (\<forall>cs s''. pmon_steps s' cs s'' \<and> Child_exits p \<notin> set cs \<longrightarrow> phase_of s'' i = Waiting p \<and> p \<notin> asked s''))"
proof -
  have "shutting_down s" using flag_up_steps [OF assms(1)] assms(2) by (simp add: pmon_start_def)
  with childless_forks [OF assms(3,4)] have forks: "\<exists>bs s' p. pmon_steps s bs s' \<and> phase_of s' i = Waiting p \<and> p \<in> living s' \<and> shutting_down s'"
    by metis
  have "unasked s i" using assms(2,3) by (auto simp: unasked_def)
  then have un: "unasked s' i" if "pmon_steps s bs s'" for bs s' using that unasked_steps by blast
  have "p \<notin> asked s'" if "pmon_steps s bs s'" "phase_of s' i = Waiting p" for bs s' p using un [OF that(1)] that(2) by (simp add: unasked_def)
  moreover have "phase_of s'' i = Waiting p \<and> p \<notin> asked s''"
    if "pmon_steps s bs s'" "phase_of s' i = Waiting p" "p \<in> living s'" "pmon_steps s' cs s''" "Child_exits p \<notin> set cs" for bs s' p cs s''
    using waiting_unasked_steps [OF that(4) _ that(5)] un [OF that(1)] that(2,3) by blast
  ultimately show ?thesis using forks by blast
qed

theorem pmon_shutdown_misses_restart_witness:
  "\<exists>s s'. pmon_steps pmon_start [Fork 0 21, Publish 0, Fork 1 22, Publish 1, Fork 2 23, Publish 2, Child_exits 22, Reap 1, Check 1,
       Signal [0, 1, 2], Kill, Kill, Kill, Kill] s \<and> pmon_steps s [Wake 1, Fork 1 24, Publish 1] s' \<and>
     phase_of s' 1 = Waiting 24 \<and> 24 \<notin> asked s'"
proof -
  let ?as = "[Fork 0 21, Publish 0, Fork 1 22, Publish 1, Fork 2 23, Publish 2, Child_exits 22, Reap 1, Check 1,
    Signal [0, 1, 2], Kill, Kill, Kill, Kill]"
  have "\<exists>s s'. pmon_steps pmon_start ?as s \<and> sigt s = Sig_done \<and> childless (phase_of s 1) \<and>
      pmon_steps s [Wake 1, Fork 1 24, Publish 1] s' \<and> phase_of s' 1 = Waiting 24 \<and> 24 \<in> living s'"
    by (simp add: pmon_steps_exec pmon_start_def unreaped_def)
  then obtain s s' where r: "pmon_steps pmon_start ?as s" "sigt s = Sig_done" "childless (phase_of s 1)"
    "pmon_steps s [Wake 1, Fork 1 24, Publish 1] s'" "phase_of s' 1 = Waiting 24" "24 \<in> living s'" by blast
  have "1 < (3 :: nat)" by simp
  from pmon_shutdown_misses_restart [OF r(1-3) this] r(4-6) have "24 \<notin> asked s'" by blast
  with r show ?thesis by blast
qed

end
