(* ===== verification/Streams.thy ===== *)
theory Streams
  imports Sys
begin

text \<open>
  Formatted input from a C++ stream, as the agents read the files of \<open>/proc\<close>: lines, words and
  numbers. A stream is the text still to be read, and \<^const>\<open>None\<close> once it has failed: then an
  extraction does nothing. An extraction that meets the end fails and leaves its target alone,
  one that meets something else stores 0, one that overflows stores the nearest bound. The
  lemmas show that what was printed with separating spaces is read back.
\<close>

section \<open>Lines and words\<close>

text \<open>All results of \<open>while (std::getline(f, line))\<close>.\<close>

fun getlines :: "string \<Rightarrow> string list" where
  "getlines s = (if s = [] then []
     else takeWhile (\<lambda>c. c \<noteq> CHR 0x0A) s # getlines (drop (Suc (List.length (takeWhile (\<lambda>c. c \<noteq> CHR 0x0A) s))) s))"

declare getlines.simps [simp del]

definition skip_ws :: "string \<Rightarrow> string" where
  "skip_ws s = dropWhile is_space s"

text \<open>\<open>in >> word\<close>.\<close>

fun next_word :: "string \<Rightarrow> string option \<Rightarrow> string \<times> string option" where
  "next_word old None = (old, None)"
| "next_word old (Some s) = (let r = skip_ws s in
     if r = [] then (old, None)
     else (takeWhile (\<lambda>c. \<not> is_space c) r, Some (dropWhile (\<lambda>c. \<not> is_space c) r)))"

section \<open>Numbers\<close>

text \<open>The longest prefix that is an optional sign and digits.\<close>

definition int_prefix :: "string \<Rightarrow> (int \<times> string) option" where
  "int_prefix r =
     (let neg = (r \<noteq> [] \<and> hd r = CHR ''-'');
          b = (if r \<noteq> [] \<and> (hd r = CHR ''-'' \<or> hd r = CHR ''+'') then tl r else r);
          ds = takeWhile is_digit b
      in if ds = [] then None
         else Some (if neg then - int (decimal ds) else int (decimal ds), dropWhile is_digit b))"

text \<open>\<open>in >> v\<close> for a signed integer with the range \<open>lo\<close> to \<open>hi\<close>.\<close>

fun next_int :: "int \<Rightarrow> int \<Rightarrow> int \<Rightarrow> string option \<Rightarrow> int \<times> string option" where
  "next_int lo hi old None = (old, None)"
| "next_int lo hi old (Some s) = (let r = skip_ws s in
     if r = [] then (old, None)
     else (case int_prefix r of
       None \<Rightarrow> (0, None)
     | Some (v, rest) \<Rightarrow> if v < lo then (lo, None) else if hi < v then (hi, None) else (v, Some rest)))"

abbreviation next_i64 :: "int \<Rightarrow> string option \<Rightarrow> int \<times> string option" where
  "next_i64 \<equiv> next_int (- (2 ^ 63)) (2 ^ 63 - 1)"

text \<open>For \<open>std::uint64_t\<close>, where a minus sign negates modulo \<open>2 ^ 64\<close>.\<close>

fun next_u64 :: "u64 \<Rightarrow> string option \<Rightarrow> u64 \<times> string option" where
  "next_u64 old None = (old, None)"
| "next_u64 old (Some s) = (let r = skip_ws s in
     if r = [] then (old, None)
     else (case int_prefix r of
       None \<Rightarrow> (0, None)
     | Some (v, rest) \<Rightarrow> if \<bar>v\<bar> < 2 ^ 64 then (word_of_int v, Some rest) else (- 1, None)))"

text \<open>
  For \<open>double\<close>, as an exact rational: digits with an optional fraction, the only notation \<open>/proc\<close>
  uses (no exponent).
\<close>

definition double_prefix :: "string \<Rightarrow> (rat \<times> string) option" where
  "double_prefix r =
     (let neg = (r \<noteq> [] \<and> hd r = CHR ''-'');
          b = (if r \<noteq> [] \<and> (hd r = CHR ''-'' \<or> hd r = CHR ''+'') then tl r else r);
          ds = takeWhile is_digit b; b1 = dropWhile is_digit b;
          fs = (if b1 \<noteq> [] \<and> hd b1 = CHR ''.'' then takeWhile is_digit (tl b1) else []);
          rest = (if b1 \<noteq> [] \<and> hd b1 = CHR ''.'' then dropWhile is_digit (tl b1) else b1);
          v = of_nat (decimal ds) + of_nat (decimal fs) / 10 ^ List.length fs
      in if ds = [] \<and> fs = [] then None else Some (if neg then - v else v, rest))"

fun next_double :: "rat \<Rightarrow> string option \<Rightarrow> rat \<times> string option" where
  "next_double old None = (old, None)"
| "next_double old (Some s) = (let r = skip_ws s in
     if r = [] then (old, None)
     else (case double_prefix r of None \<Rightarrow> (0, None) | Some (v, rest) \<Rightarrow> (v, Some rest)))"

section \<open>Reading back what was printed\<close>

lemma skip_ws_simps [simp]:
  "skip_ws [] = []" "is_space c \<Longrightarrow> skip_ws (c # s) = skip_ws s" "\<not> is_space c \<Longrightarrow> skip_ws (c # s) = c # s"
  by (simp_all add: skip_ws_def)

lemma is_space_blank [simp]: "is_space (CHR '' '')"
  by (simp add: is_space_def)

lemma takeWhile_digits_append:
  assumes "r = [] \<or> \<not> is_digit (hd r)"
  shows "takeWhile is_digit (show_nat n @ r) = show_nat n" "dropWhile is_digit (show_nat n @ r) = r"
proof -
  have "\<forall>c \<in> set (show_nat n). is_digit c" using show_nat_digits [of n] by (simp add: list.pred_set)
  then show "takeWhile is_digit (show_nat n @ r) = show_nat n" "dropWhile is_digit (show_nat n @ r) = r"
    using assms by (cases r; simp add: takeWhile_append2 dropWhile_append2 takeWhile_append dropWhile_append)+
qed

lemma skip_ws_show_nat [simp]: "skip_ws (show_nat n @ r) = show_nat n @ r"
proof -
  obtain c cs where "show_nat n = c # cs" using show_nat_not_Nil [of n] by (cases "show_nat n") auto
  with show_nat_hd(1) [of n] show ?thesis by simp
qed

lemma int_prefix_show_nat:
  assumes "r = [] \<or> \<not> is_digit (hd r)"
  shows "int_prefix (show_nat n @ r) = Some (int n, r)"
  using takeWhile_digits_append [OF assms] by (simp add: int_prefix_def)

lemma next_u64_show_nat:
  assumes "n < 2 ^ 64" "r = [] \<or> \<not> is_digit (hd r)"
  shows "next_u64 old (Some (show_nat n @ r)) = (word_of_nat n, Some r)"
  using assms by (simp add: int_prefix_show_nat)

lemma next_i64_show_nat:
  assumes "n < 2 ^ 63" "r = [] \<or> \<not> is_digit (hd r)"
  shows "next_i64 old (Some (show_nat n @ r)) = (int n, Some r)"
  using assms by (simp add: int_prefix_show_nat)

lemma next_blank [simp]:
  "is_space c \<Longrightarrow> next_u64 o1 (Some (c # s)) = next_u64 o1 (Some s)"
  "is_space c \<Longrightarrow> next_int lo hi o2 (Some (c # s)) = next_int lo hi o2 (Some s)"
  "is_space c \<Longrightarrow> next_word o3 (Some (c # s)) = next_word o3 (Some s)"
  "is_space c \<Longrightarrow> next_double o4 (Some (c # s)) = next_double o4 (Some s)"
  by simp_all

lemma skip_ws_length: "List.length (skip_ws s) \<le> List.length s"
  by (simp add: skip_ws_def length_dropWhile_le)

lemma int_prefix_length: "int_prefix r = Some (v, rest) \<Longrightarrow> List.length rest < List.length r"
proof -
  assume a: "int_prefix r = Some (v, rest)"
  let ?b = "if r \<noteq> [] \<and> (hd r = CHR ''-'' \<or> hd r = CHR ''+'') then tl r else r"
  from a have d: "takeWhile is_digit ?b \<noteq> []" "rest = dropWhile is_digit ?b"
    by (auto simp: int_prefix_def Let_def split: if_splits)
  have "List.length (takeWhile is_digit ?b @ dropWhile is_digit ?b) = List.length ?b"
    by (simp only: takeWhile_dropWhile_id)
  then have "List.length (takeWhile is_digit ?b) + List.length rest = List.length ?b" by (simp only: d(2) length_append)
  moreover have "0 < List.length (takeWhile is_digit ?b)" using d(1) by (rule length_greater_0_conv [THEN iffD2])
  moreover have "List.length ?b \<le> List.length r" by simp
  ultimately show ?thesis by linarith
qed

lemma next_u64_length:
  assumes "next_u64 old (Some s) = (v, Some rest)"
  shows "List.length rest < List.length s"
proof -
  from assms obtain u where "int_prefix (skip_ws s) = Some (u, rest)"
    by (auto simp: Let_def split: if_splits option.splits)
  from int_prefix_length [OF this] skip_ws_length [of s] show ?thesis by linarith
qed

text \<open>A line is read as such: the text between two newlines.\<close>

lemma getlines_Nil [simp]: "getlines [] = []"
  by (simp add: getlines.simps)

lemma getlines_line:
  assumes "CHR 0x0A \<notin> set l"
  shows "getlines (l @ CHR 0x0A # s) = l # getlines s"
proof -
  have "takeWhile (\<lambda>c. c \<noteq> CHR 0x0A) (l @ CHR 0x0A # s) = l"
    using assms by (subst takeWhile_append2) auto
  then show ?thesis by (subst getlines.simps) simp
qed

lemma getlines_last:
  assumes "CHR 0x0A \<notin> set l" "l \<noteq> []"
  shows "getlines l = [l]"
proof -
  have "takeWhile (\<lambda>c. c \<noteq> CHR 0x0A) l = l" using assms(1) by (auto simp: takeWhile_eq_all_conv)
  with assms(2) show ?thesis by (subst getlines.simps) (simp only: if_False take_all drop_all getlines_Nil le_SucI order_refl simp_thms)
qed

end
