(* ===== verification/Sysagent.thy ===== *)
theory Sysagent
  imports Streams Fwatch
begin

text \<open>
  The agent of the fleet, \<open>sysagent.cpp\<close> of \<open>examples/41-capstone-fleet\<close>: reading the counters of
  \<open>/proc\<close>, the percentages computed from them, the sampling loop and the load generator. A
  \<open>double\<close> is an exact rational here: rounding is not modelled.
\<close>

section \<open>Counters\<close>

record cpu_times =
  ct_idle :: u64
  ct_total :: u64

text \<open>\<open>while (iss >> v) { t.total += v; if (i == 3) t.idle = v; ++i; }\<close>\<close>

function cpu_fields :: "nat \<Rightarrow> cpu_times \<Rightarrow> string \<Rightarrow> cpu_times" where
  "cpu_fields i t s = (case next_u64 0 (Some s) of
     (v, Some rest) \<Rightarrow> cpu_fields (i + 1)
       \<lparr>ct_idle = (if i = 3 then v else ct_idle t), ct_total = ct_total t + v\<rparr> rest
   | (v, None) \<Rightarrow> t)"
  by pat_completeness auto
termination
proof (relation "measure (\<lambda>(i, t, s). List.length s)", goal_cases)
  case (2 i t s x y x2)
  then have "next_u64 0 (Some s) = (x, Some x2)" by simp
  from next_u64_length [OF this] show ?case by simp
qed simp

declare cpu_fields.simps [simp del]

definition parse_cpu_times :: "string \<Rightarrow> string + cpu_times" where
  "parse_cpu_times text = (case getlines text of
     [] \<Rightarrow> Inl ''empty /proc/stat''
   | line # _ \<Rightarrow> (case next_word [] (Some line) of (label, rest) \<Rightarrow>
       if label \<noteq> ''cpu'' then Inl (''unexpected /proc/stat format: '' @ line)
       else Inr (case rest of None \<Rightarrow> \<lparr>ct_idle = 0, ct_total = 0\<rparr>
         | Some r \<Rightarrow> cpu_fields 0 \<lparr>ct_idle = 0, ct_total = 0\<rparr> r)))"

definition read_text :: "string \<Rightarrow> world \<Rightarrow> (string option \<times> world) option" where
  "read_text path w = do {
     (f, w) \<leftarrow> sys (Fs (Fs_read_file path)) w;
     Some (if rv f < 0 then None else Some (chars_of (dat f)), w) }"

definition read_cpu_times :: "world \<Rightarrow> ((string + cpu_times) \<times> world) option" where
  "read_cpu_times w = do {
     (f, w) \<leftarrow> read_text ''/proc/stat'' w;
     Some (case f of None \<Rightarrow> Inl ''open /proc/stat failed'' | Some text \<Rightarrow> parse_cpu_times text, w) }"

definition cpu_pct :: "cpu_times \<Rightarrow> cpu_times \<Rightarrow> rat" where
  "cpu_pct prev cur =
     (let d_total = of_nat (unat (ct_total cur - ct_total prev));
          d_idle = of_nat (unat (ct_idle cur - ct_idle prev))
      in if d_total \<le> 0 then 0 else (1 - d_idle / d_total) * 100)"

fun mem_lines :: "string list \<Rightarrow> rat \<times> rat \<Rightarrow> rat \<times> rat" where
  "mem_lines [] r = r"
| "mem_lines (line # ls) (tot, av) =
     (case next_word [] (Some line) of (key, rest) \<Rightarrow>
      (case next_double 0 rest of (v, _) \<Rightarrow>
       mem_lines ls (if key = ''MemTotal:'' then (v, av)
         else if key = ''MemAvailable:'' then (tot, v) else (tot, av))))"

definition parse_mem_pct :: "string \<Rightarrow> string + rat" where
  "parse_mem_pct text = (case mem_lines (getlines text) (0, 0) of (tot, av) \<Rightarrow>
     if tot \<le> 0 then Inl ''MemTotal not found'' else Inr ((1 - av / tot) * 100))"

definition read_mem_pct :: "world \<Rightarrow> ((string + rat) \<times> world) option" where
  "read_mem_pct w = do {
     (f, w) \<leftarrow> read_text ''/proc/meminfo'' w;
     Some (case f of None \<Rightarrow> Inl ''open /proc/meminfo failed'' | Some text \<Rightarrow> parse_mem_pct text, w) }"

definition read_load1 :: "world \<Rightarrow> ((string + rat) \<times> world) option" where
  "read_load1 w = do {
     (f, w) \<leftarrow> read_text ''/proc/loadavg'' w;
     Some (case f of None \<Rightarrow> Inl ''open /proc/loadavg failed''
       | Some text \<Rightarrow> (case next_double 0 (Some text) of
           (_, None) \<Rightarrow> Inl ''empty /proc/loadavg'' | (v, Some _) \<Rightarrow> Inr v), w) }"

record sample =
  s_cpu_pct :: rat
  s_mem_pct :: rat
  s_load1 :: rat

text \<open>\<open>prev\<close> is an in-out parameter, updated as soon as the counters were read.\<close>

definition take_sample :: "cpu_times \<Rightarrow> world \<Rightarrow> (((string + sample) \<times> cpu_times) \<times> world) option" where
  "take_sample prev w = do {
     (cur, w) \<leftarrow> read_cpu_times w;
     (case cur of
       Inl e \<Rightarrow> Some ((Inl e, prev), w)
     | Inr cur \<Rightarrow> do {
         let cpu = (if ct_total prev > 0 then cpu_pct prev cur else 0);
         (mp, w) \<leftarrow> read_mem_pct w;
         (case mp of
           Inl e \<Rightarrow> Some ((Inl e, cur), w)
         | Inr mp \<Rightarrow> do {
             (l1, w) \<leftarrow> read_load1 w;
             (case l1 of
               Inl e \<Rightarrow> Some ((Inl e, cur), w)
             | Inr l1 \<Rightarrow> Some ((Inr \<lparr>s_cpu_pct = cpu, s_mem_pct = mp, s_load1 = l1\<rparr>, cur), w)) }) }) }"

section \<open>The loop\<close>

text \<open>The gauge callbacks of the metrics library: each observes one stored value.\<close>

definition observe_gauge :: "string \<Rightarrow> rat \<Rightarrow> string \<Rightarrow> world \<Rightarrow> world" where
  "observe_gauge gauge v node = emit (Otel (''Observe '' @ gauge) [Fixed2 v, Txt node])"

definition sysagent_turn ::
  "string \<Rightarrow> int \<Rightarrow> bool \<Rightarrow> bool \<Rightarrow> cpu_times \<Rightarrow> world \<Rightarrow> ((cpu_times, int) ctl \<times> world) option" where
  "sysagent_turn node interval_ms once enabled prev w = do {
     ((s, prev), w) \<leftarrow> take_sample prev w;
     (case s of
       Inl e \<Rightarrow> Some (Break 1, println Stderr [Txt (''sysagent: sample: '' @ e)] w)
     | Inr s \<Rightarrow> do {
         let w = (if enabled then
             emit (Otel ''store load1'' [Fixed2 (s_load1 s)]) (emit (Otel ''store mem_pct'' [Fixed2 (s_mem_pct s)])
               (emit (Otel ''store cpu_pct'' [Fixed2 (s_cpu_pct s)]) w)) else w);
         (ts, w) \<leftarrow> sys Time w;
         let w = emit (Fflush Stdout) (println Stdout [Txt (''sysagent: node='' @ node @ '' cpu_pct=''), Fixed2 (s_cpu_pct s),
           Txt '' mem_pct='', Fixed2 (s_mem_pct s), Txt '' load1='', Fixed2 (s_load1 s), Txt ('' ts='' @ show_int (rv ts))] w);
         if once then Some (Break 0, w)
         else do {
           (sg, w) \<leftarrow> sys (Load_flag ''signal'') w;
           if rv sg \<noteq> 0 then Some (Break 0, w)
           else do {
             let w = emit (Sleep_ms interval_ms) w;
             (sg, w) \<leftarrow> sys (Load_flag ''signal'') w;
             if rv sg \<noteq> 0 then Some (Break 0, w) else Some (Continue prev, w) } } }) }"

definition sysagent_run :: "string \<Rightarrow> int \<Rightarrow> bool \<Rightarrow> bool \<Rightarrow> world \<Rightarrow> (int \<times> world) option" where
  "sysagent_run node interval_ms once enabled w = do {
     let w = (if enabled then fold (\<lambda>g. emit (Otel ''AddCallback'' [Txt g]))
         [''sysagent.cpu.pct'', ''sysagent.mem.pct'', ''sysagent.load1''] w else w);
     let w = emit Install_handlers w;
     (t0, w) \<leftarrow> read_cpu_times w;
     let prev = (case t0 of Inl _ \<Rightarrow> \<lparr>ct_idle = 0, ct_total = 0\<rparr> | Inr t \<Rightarrow> t);
     (rc, w) \<leftarrow> loop (sysagent_turn node interval_ms once enabled) prev (emit (Sleep_ms 200) w);
     if enabled then do {
       let w = fold (\<lambda>g. emit (Otel ''RemoveCallback'' [Txt g]))
         [''sysagent.cpu.pct'', ''sysagent.mem.pct'', ''sysagent.load1''] w;
       (n, w) \<leftarrow> sys (Load_flag ''export_errors'') w;
       Some (rc, println Stderr [Txt (''sysagent: otel export_errors='' @ show_int (rv n))] w) }
     else Some (rc, w) }"

section \<open>The load generator\<close>

text \<open>One busy thread, until the clock reaches \<open>stop\<close>; the arithmetic it spins on, and
  the bytes the other mode writes to keep its buffer resident, are not observable.\<close>

definition burn_turn :: "int \<Rightarrow> unit \<Rightarrow> world \<Rightarrow> ((unit, unit) ctl \<times> world) option" where
  "burn_turn stop _ w = do {
     (now, w) \<leftarrow> sys Clock_ns w;
     if rv now < stop then Some (Continue (), w) else Some (Break (), w) }"

definition sysagent_saturate :: "string \<Rightarrow> int \<Rightarrow> int \<Rightarrow> int \<Rightarrow> world \<Rightarrow> (int \<times> world) option" where
  "sysagent_saturate resource seconds workers mb w =
     (if resource = ''cpu'' then do {
        (k, w) \<leftarrow> (if workers \<le> 0 then do {
            (h, w) \<leftarrow> sys (Load_flag ''hardware_concurrency'') w;
            Some (if rv h \<le> 0 then 1 else rv h, w) } else Some (workers, w));
        let w = emit (Fflush Stdout) (println Stdout [Txt (''sysagent: saturate resource=cpu seconds='' @ show_int seconds
          @ '' workers='' @ show_int k @ '' started'')] w);
        (now, w) \<leftarrow> sys Clock_ns w;
        let stop = rv now + seconds * 1000000000;
        let w = fold (\<lambda>_. emit (Spawn ''burn'' [] stop)) [0..<nat k] w;
        (_, w) \<leftarrow> sys (Proc (Proc_join ''pool'')) w;
        Some (0, println Stdout [Txt ''sysagent: saturate done''] w) }
      else if resource = ''mem'' then do {
        let m = (if mb \<le> 0 then 256 else mb);
        let w = emit (Fflush Stdout) (println Stdout [Txt (''sysagent: saturate resource=mem seconds='' @ show_int seconds
          @ '' mb='' @ show_int m @ '' started'')] w);
        Some (0, println Stdout [Txt ''sysagent: saturate done''] (emit (Sleep_ms (seconds * 1000)) w)) }
      else Some (2, println Stderr [Txt ''usage: sysagent saturate --resource cpu|mem --seconds N [--workers K|--mb M]''] w))"

section \<open>The percentages\<close>

lemma percent_bounds:
  assumes "(i :: nat) \<le> t"
  shows "0 \<le> (if of_nat t \<le> (0 :: rat) then 0 else (1 - of_nat i / of_nat t) * 100 :: rat)"
    "(if of_nat t \<le> (0 :: rat) then 0 else (1 - of_nat i / of_nat t) * 100 :: rat) \<le> 100"
proof -
  define q :: rat where "q = of_nat i / of_nat t"
  have "0 \<le> q" "t > 0 \<Longrightarrow> q \<le> 1" using assms by (simp_all add: q_def divide_le_eq_1)
  then show "0 \<le> (if of_nat t \<le> (0 :: rat) then 0 else (1 - of_nat i / of_nat t) * 100 :: rat)"
    "(if of_nat t \<le> (0 :: rat) then 0 else (1 - of_nat i / of_nat t) * 100 :: rat) \<le> 100"
    by (simp_all flip: q_def)
qed

lemma cpu_pct_bounds:
  assumes "ct_idle cur - ct_idle prev \<le> ct_total cur - ct_total prev"
  shows "0 \<le> cpu_pct prev cur" "cpu_pct prev cur \<le> 100"
proof -
  have "unat (ct_idle cur - ct_idle prev) \<le> unat (ct_total cur - ct_total prev)"
    using assms by (simp only: word_le_nat_alt)
  from percent_bounds [OF this] show "0 \<le> cpu_pct prev cur" "cpu_pct prev cur \<le> 100"
    by (simp_all only: cpu_pct_def Let_def)
qed

text \<open>The line of counters as the kernel prints it, and what is read from it.\<close>

definition counters :: "nat list \<Rightarrow> string" where
  "counters ns = concat (List.map (\<lambda>n. CHR '' '' # show_nat n) ns)"

lemma counters_no_digit: "counters ns = [] \<or> \<not> is_digit (hd (counters ns))"
  by (cases ns) (simp_all add: counters_def is_digit_def)

lemma cpu_fields_counters:
  assumes "\<forall>n \<in> set ns. n < 2 ^ 64"
  shows "cpu_fields i t (counters ns) =
    \<lparr>ct_idle = (if i \<le> 3 \<and> 3 < i + List.length ns then word_of_nat (ns ! (3 - i)) else ct_idle t),
     ct_total = ct_total t + word_of_nat (sum_list ns)\<rparr>"
  using assms
proof (induction ns arbitrary: i t)
  case Nil
  then show ?case by (subst cpu_fields.simps) (auto simp: counters_def)
next
  case (Cons n ns)
  have c: "counters (n # ns) = CHR '' '' # show_nat n @ counters ns" by (simp add: counters_def)
  have "next_u64 0 (Some (counters (n # ns))) = (word_of_nat n, Some (counters ns))"
    using next_u64_show_nat [of n "counters ns" 0] counters_no_digit [of ns] Cons.prems
    by (simp only: c next_blank is_space_blank) simp
  with Cons show ?case
    by (subst cpu_fields.simps) (auto simp: nth_Cons' not_le less_Suc_eq)
qed

lemma counters_line: "CHR 0x0A \<notin> set (counters ns)"
proof -
  have "CHR 0x0A \<notin> set (show_nat n)" for n
    using show_nat_digits [of n] by (auto simp: list.pred_set is_digit_def)
  then show ?thesis by (auto simp: counters_def)
qed

lemma parse_cpu_times_counters:
  assumes "\<forall>n \<in> set ns. n < 2 ^ 64" "3 < List.length ns"
  shows "parse_cpu_times (''cpu '' @ counters ns @ CHR 0x0A # rest) =
    Inr \<lparr>ct_idle = word_of_nat (ns ! 3), ct_total = word_of_nat (sum_list ns)\<rparr>"
proof -
  have "CHR 0x0A \<notin> set (''cpu '' @ counters ns)" using counters_line [of ns] by simp
  from getlines_line [OF this] have l: "getlines (''cpu '' @ counters ns @ CHR 0x0A # rest) = (''cpu '' @ counters ns) # getlines rest"
    by simp
  have "next_word [] (Some (''cpu '' @ counters ns)) = (''cpu'', Some (CHR '' '' # counters ns))"
    by (simp add: is_space_def)
  moreover have "cpu_fields 0 t (CHR '' '' # s) = cpu_fields 0 t s" for t s
    by (subst (1 2) cpu_fields.simps) (simp only: next_blank is_space_blank)
  ultimately show ?thesis
    using assms unfolding parse_cpu_times_def l by (simp add: cpu_fields_counters)
qed

section \<open>Properties\<close>

text \<open>The processor line the kernel prints is read as its fourth counter and the sum of all, modulo
  the 64 bits they are kept in.\<close>

lemma sysagent_reads_cpu_line:
  assumes "\<forall>n \<in> set ns. n < 2 ^ 64" and "3 < List.length ns"
    and "sys (Fs (Fs_read_file ''/proc/stat'')) w = Some (a, w')" and "0 \<le> rv a"
    and "chars_of (dat a) = ''cpu '' @ counters ns @ CHR 0x0A # rest"
  shows "read_cpu_times w = Some (Inr \<lparr>ct_idle = word_of_nat (ns ! 3), ct_total = word_of_nat (sum_list ns)\<rparr>, w')"
  using assms parse_cpu_times_counters [OF assms(1,2), of rest] by (simp add: read_cpu_times_def read_text_def)

text \<open>The utilisation lies between 0 and 100 percent whenever idle time grew by no more than total
  time, the differences taken modulo \<open>2 ^ 64\<close> as the code takes them.\<close>

lemma sysagent_cpu_pct_bounds:
  assumes "ct_idle cur - ct_idle prev \<le> ct_total cur - ct_total prev"
  shows "0 \<le> cpu_pct prev cur \<and> cpu_pct prev cur \<le> 100"
  using cpu_pct_bounds [OF assms] by simp

end
