(* ===== verification/Hub.thy ===== *)
theory Hub
  imports Chatterd
begin

text \<open>
  The registry the threads of \<open>chatterd serve\<close> share: \<open>PeerConn\<close> and \<open>Hub\<close> of \<open>chatterd.cpp\<close>.
  Its operations come first, as functions of the registry and of the world; then the
  interleavings of the threads, as a step relation in which a broadcast is what the code
  makes of it: a snapshot under the registry's mutex, and then, target by target, the
  connection's own mutex and the writes of one frame.
\<close>

section \<open>The registry\<close>

text \<open>
  \<open>PeerConn\<close> without its mutex, and the objects by address: \<open>std::set<std::shared_ptr>\<close> orders
  its elements by address, so the registry is a strictly sorted list of addresses.
\<close>

record peer_conn =
  pc_fd :: int
  pc_nick :: string
  pc_bridge :: bool

type_synonym heap = "nat \<Rightarrow> peer_conn option"

definition hub_add :: "nat \<Rightarrow> nat list \<Rightarrow> nat list" where
  "hub_add c clients = (if c \<in> set clients then clients else insort c clients)"

definition hub_remove :: "nat \<Rightarrow> nat list \<Rightarrow> nat list" where
  "hub_remove c clients = filter (\<lambda>d. d \<noteq> c) clients"

definition is_bridge_conn :: "heap \<Rightarrow> nat \<Rightarrow> bool" where
  "is_bridge_conn h c = (case h c of Some p \<Rightarrow> pc_bridge p | None \<Rightarrow> False)"

definition conn_fd :: "heap \<Rightarrow> nat \<Rightarrow> int" where
  "conn_fd h c = (case h c of Some p \<Rightarrow> pc_fd p | None \<Rightarrow> -1)"

definition hub_targets :: "heap \<Rightarrow> nat list \<Rightarrow> nat option \<Rightarrow> bool \<Rightarrow> nat list" where
  "hub_targets h clients exclude include_bridges =
     filter (\<lambda>c. Some c \<noteq> exclude \<and> \<not> (is_bridge_conn h c \<and> \<not> include_bridges)) clients"

definition deliver_frame :: "string \<Rightarrow> string \<Rightarrow> frame" where
  "deliver_frame nick text = \<lparr>ftype = kDeliver, payload = proto_deliver_payload nick text\<rparr>"

text \<open>The loop over the snapshot, each result ignored, and the whole operation.\<close>

fun hub_send_all :: "int list \<Rightarrow> frame \<Rightarrow> world \<Rightarrow> (unit \<times> world) option" where
  "hub_send_all [] f w = Some ((), w)"
| "hub_send_all (fd # fds) f w = do {
     (_, w) \<leftarrow> proto_write_frame fd f w;
     hub_send_all fds f w }"

definition hub_broadcast_deliver ::
  "heap \<Rightarrow> nat list \<Rightarrow> nat option \<Rightarrow> bool \<Rightarrow> string \<Rightarrow> string \<Rightarrow> world \<Rightarrow> (unit \<times> world) option" where
  "hub_broadcast_deliver h clients exclude include_bridges nick text w =
     (let targets = hub_targets h clients exclude include_bridges
      in hub_send_all (List.map (conn_fd h) targets) (deliver_frame nick text) w)"

lemma hub_add_set [simp]: "set (hub_add c cs) = insert c (set cs)"
  by (auto simp: hub_add_def set_insort_key)

lemma hub_add_sorted: "sorted cs \<and> distinct cs \<Longrightarrow> sorted (hub_add c cs) \<and> distinct (hub_add c cs)"
  by (simp add: hub_add_def sorted_insort distinct_insort)

lemma hub_remove_set [simp]: "set (hub_remove c cs) = set cs - {c}"
  by (auto simp: hub_remove_def)

lemma hub_remove_sorted: "sorted cs \<and> distinct cs \<Longrightarrow> sorted (hub_remove c cs) \<and> distinct (hub_remove c cs)"
  by (simp add: hub_remove_def sorted_filter [where f = id, simplified])

lemma hub_targets_set [simp]:
  "set (hub_targets h cs ex ib) = {c \<in> set cs. Some c \<noteq> ex \<and> (is_bridge_conn h c \<longrightarrow> ib)}"
  by (auto simp: hub_targets_def)

text \<open>Writing to one connection puts nothing on another, and tries at least the header.\<close>

lemma proto_write_frame_others:
  assumes "proto_write_frame fd f w = Some (r, w')" "fd' \<noteq> fd"
  shows "accepted fd' (since w w') = []"
proof -
  have "list_all ((\<lambda>c. \<exists>bs. c = Write fd bs) \<circ> fst) (since w w')"
    using keepsD [OF proto_write_frame_keeps [where P = "\<lambda>c. \<exists>bs. c = Write fd bs", OF only_refl] assms(1)]
    by (auto simp: only_def)
  then have "list_all (\<lambda>e. accepted_by fd' e = []) (since w w')"
    using assms(2) by (fastforce simp: list_all_iff accepted_by_def split: option.splits)
  then show ?thesis by (induction "since w w'") (auto simp: accepted_def list_all_iff)
qed

definition tried :: "int \<Rightarrow> byte list \<Rightarrow> (call \<times> answer option) list \<Rightarrow> bool" where
  "tried fd bs t \<longleftrightarrow> Write fd bs \<in> fst ` set t"

lemma tried_append [simp]: "tried fd bs (t @ u) \<longleftrightarrow> tried fd bs t \<or> tried fd bs u"
  by (auto simp: tried_def)

lemma loop_first:
  assumes "loop body s w = Some (r, w')"
  obtains s1 w1 where "body s w = Some (Continue s1, w1)" "loop body s1 w1 = Some (r, w')"
  | "body s w = Some (Break r, w')"
proof (cases "body s w")
  case None
  with assms show ?thesis by (simp add: loop_blocked)
next
  case (Some x)
  then obtain c w1 where c: "body s w = Some (c, w1)" by (cases x) auto
  show ?thesis
  proof (cases c)
    case (Continue s1)
    with assms c loop_Continue [of body s w s1 w1] that(1) show ?thesis by simp
  next
    case (Break r1)
    with assms c loop_Break [of body s w r1 w1] that(2) show ?thesis by simp
  qed
qed

lemma proto_write_all_tried:
  assumes "proto_write_all fd bs w = Some (r, w')" "bs \<noteq> []"
  shows "tried fd bs (since w w')"
proof -
  from assms(1) show ?thesis unfolding proto_write_all_def
  proof (cases rule: loop_first)
    case (1 off v)
    with assms(2) obtain a where a: "sys (Write fd bs) w = Some (a, v)"
      by (auto simp: proto_write_all_turn_def run_cases)
    have "keeps (\<lambda>_. True) v (loop (proto_write_all_turn fd bs) off v)"
      unfolding proto_write_all_turn_def by (intro keeps_intros; simp)
    from keepsD [OF this 1(2)] have "later v w'" by (rule onlyD(1))
    with sys_SomeE [OF a] since_trans [of w v w'] show ?thesis by (simp add: tried_def)
  next
    case 2
    with assms(2) obtain a where a: "sys (Write fd bs) w = Some (a, w')"
      by (auto simp: proto_write_all_turn_def run_cases)
    with sys_SomeE [OF a] show ?thesis by (simp add: tried_def)
  qed
qed

lemma proto_write_frame_tried:
  assumes "proto_write_frame fd f w = Some (r, w')" "small_frame f"
  shows "tried fd (proto_header f) (since w w')"
proof -
  from assms obtain r1 w1 where h: "proto_write_all fd (proto_header f) w = Some (r1, w1)"
    and l: "w1 = w' \<or> proto_write_all fd (payload f) w1 = Some (r, w')"
    by (cases r) (auto simp: proto_write_frame_def io_try_Some split: if_splits)
  from l proto_write_all_spec [of fd "payload f" w1 r w'] have "later w1 w'" by auto
  moreover have "later w w1" using proto_write_all_spec [OF h] by simp
  moreover have "tried fd (proto_header f) (since w w1)"
    by (rule proto_write_all_tried [OF h]) (simp add: proto_header_def)
  ultimately show ?thesis using since_trans [of w w1 w'] by simp
qed

lemma hub_send_all_spec:
  assumes "hub_send_all fds f w = Some (u, w')" "distinct fds" "honest (since w w')"
  shows "later w w'"
    and "fd \<notin> set fds \<Longrightarrow> accepted fd (since w w') = []"
    and "fd \<in> set fds \<Longrightarrow> prefix (accepted fd (since w w')) (proto_encode f)"
    and "fd \<in> set fds \<Longrightarrow> small_frame f \<Longrightarrow> tried fd (proto_header f) (since w w')"
proof -
  have "later w w' \<and> (honest (since w w') \<longrightarrow>
     (fd \<notin> set fds \<longrightarrow> accepted fd (since w w') = []) \<and>
     (fd \<in> set fds \<longrightarrow> prefix (accepted fd (since w w')) (proto_encode f)) \<and>
     (fd \<in> set fds \<longrightarrow> small_frame f \<longrightarrow> tried fd (proto_header f) (since w w')))"
    using assms(1,2)
  proof (induction fds arbitrary: w)
    case Nil
    then show ?case by simp
  next
    case (Cons fd1 fds)
    from Cons.prems(1) obtain r w1 where f: "proto_write_frame fd1 f w = Some (r, w1)"
      and g: "hub_send_all fds f w1 = Some (u, w')" by auto
    note IH = Cons.IH [OF g]
    have l: "later w w1" by (rule proto_write_frame_spec(1) [OF f])
    with IH Cons.prems(2) have l': "later w w'" "since w w' = since w w1 @ since w1 w'"
      using later_trans [of w w1 w'] since_trans [of w w1 w'] by simp_all
    with IH Cons.prems(2) proto_write_frame_spec(2) [OF f] proto_write_frame_others [OF f, of fd]
      proto_write_frame_tried [OF f]
    show ?case by (cases "fd = fd1") auto
  qed
  with assms(3) show "later w w'" "fd \<notin> set fds \<Longrightarrow> accepted fd (since w w') = []"
    "fd \<in> set fds \<Longrightarrow> prefix (accepted fd (since w w')) (proto_encode f)"
    "fd \<in> set fds \<Longrightarrow> small_frame f \<Longrightarrow> tried fd (proto_header f) (since w w')" by blast+
qed

section \<open>The threads\<close>

text \<open>
  What a thread is doing: nothing with the hub, walking a snapshot, or writing one frame while
  it holds the connection's \<open>wmu\<close>. The frame is written in chunks, the header and then the
  payload; the \<open>write\<close> calls of a chunk take any positive number of its bytes.
\<close>

datatype activity =
    Idle
  | Delivering frame "nat list"
  | Sending frame nat "byte list list" "nat list"

definition frame_chunks :: "frame \<Rightarrow> byte list list" where
  "frame_chunks f = (if List.length (payload f) > 0xFFFF then []
     else if payload f \<noteq> [] then [proto_header f, payload f] else [proto_header f])"

text \<open>
  The server process. \<open>fdtab\<close> says which accepted stream a descriptor number denotes at the
  moment; a stream is named like the \<open>PeerConn\<close> its \<open>handle_client\<close> made (allocation never gives
  an address twice here). \<open>wire_to\<close> collects the bytes that reached a stream, \<open>broken\<close> marks the
  connections on which a write failed, \<open>gone\<close> those whose peer has reset the connection;
  \<open>killed\<close> says that the process is dead.
\<close>

record process =
  clients :: "nat list"
  heap :: heap
  wmu :: "nat \<Rightarrow> nat option"
  thread :: "nat \<Rightarrow> activity"
  fdtab :: "int \<Rightarrow> nat option"
  wire_to :: "nat \<Rightarrow> byte list"
  broken :: "nat set"
  gone :: "nat set"
  killed :: bool

definition serve_start :: process where
  "serve_start = \<lparr>clients = [], heap = (\<lambda>_. None), wmu = (\<lambda>_. None), thread = (\<lambda>_. Idle),
     fdtab = (\<lambda>_. None), wire_to = (\<lambda>_. []), broken = {}, gone = {}, killed = False\<rparr>"

text \<open>
  The steps. A thread's operation on the registry is atomic under \<open>mu_\<close>; for a broadcast that is
  taking the snapshot. \<open>Die\<close> is the write that meets a reset connection: \<open>install_signal_flag\<close>
  sets handlers for SIGINT and SIGTERM only, so SIGPIPE keeps its default action.
\<close>

datatype action =
    Accepts int nat
  | Hub_op nat hub_call
  | Locks nat | Writes nat nat | Next_chunk nat | Fails nat | Unlocks nat | Finishes nat
  | Closes nat int
  | Peer_resets nat
  | Dies nat

inductive hub_step :: "process \<Rightarrow> action \<Rightarrow> process \<Rightarrow> bool" where
  Accepts: "\<not> killed s \<Longrightarrow> 0 \<le> fd \<Longrightarrow> fdtab s fd = None \<Longrightarrow>
    hub_step s (Accepts fd c) (s\<lparr>fdtab := (fdtab s)(fd \<mapsto> c)\<rparr>)"
| Add: "\<not> killed s \<Longrightarrow> thread s t = Idle \<Longrightarrow> heap s c = None \<Longrightarrow> fdtab s fd = Some c \<Longrightarrow>
    hub_step s (Hub_op t (Hub_add c fd nick br))
      (s\<lparr>heap := (heap s)(c \<mapsto> \<lparr>pc_fd = fd, pc_nick = nick, pc_bridge = br\<rparr>), clients := hub_add c (clients s)\<rparr>)"
| Remove: "\<not> killed s \<Longrightarrow> thread s t = Idle \<Longrightarrow>
    hub_step s (Hub_op t (Hub_remove c)) (s\<lparr>clients := hub_remove c (clients s)\<rparr>)"
| Snapshot: "\<not> killed s \<Longrightarrow> thread s t = Idle \<Longrightarrow>
    hub_step s (Hub_op t (Hub_broadcast ex ib nick text))
      (s\<lparr>thread := (thread s)(t := Delivering (deliver_frame nick text) (hub_targets (heap s) (clients s) ex ib))\<rparr>)"
| Locks: "\<not> killed s \<Longrightarrow> thread s t = Delivering f (c # cs) \<Longrightarrow> wmu s c = None \<Longrightarrow>
    hub_step s (Locks t) (s\<lparr>wmu := (wmu s)(c := Some t), thread := (thread s)(t := Sending f c (frame_chunks f) cs)\<rparr>)"
| Writes: "\<not> killed s \<Longrightarrow> thread s t = Sending f c (bs # rest) cs \<Longrightarrow> 0 < n \<Longrightarrow> n \<le> List.length bs \<Longrightarrow>
    fdtab s (conn_fd (heap s) c) = Some d \<Longrightarrow>
    hub_step s (Writes t n) (s\<lparr>wire_to := (wire_to s)(d := wire_to s d @ take n bs),
      thread := (thread s)(t := Sending f c (drop n bs # rest) cs)\<rparr>)"
| Next_chunk: "\<not> killed s \<Longrightarrow> thread s t = Sending f c ([] # rest) cs \<Longrightarrow>
    hub_step s (Next_chunk t) (s\<lparr>thread := (thread s)(t := Sending f c rest cs)\<rparr>)"
| Fails: "\<not> killed s \<Longrightarrow> thread s t = Sending f c (bs # rest) cs \<Longrightarrow> bs \<noteq> [] \<Longrightarrow>
    hub_step s (Fails t) (s\<lparr>broken := insert c (broken s), wmu := (wmu s)(c := None),
      thread := (thread s)(t := Delivering f cs)\<rparr>)"
| Unlocks: "\<not> killed s \<Longrightarrow> thread s t = Sending f c [] cs \<Longrightarrow>
    hub_step s (Unlocks t) (s\<lparr>wmu := (wmu s)(c := None), thread := (thread s)(t := Delivering f cs)\<rparr>)"
| Finishes: "\<not> killed s \<Longrightarrow> thread s t = Delivering f [] \<Longrightarrow>
    hub_step s (Finishes t) (s\<lparr>thread := (thread s)(t := Idle)\<rparr>)"
| Closes: "\<not> killed s \<Longrightarrow> thread s t = Idle \<Longrightarrow> hub_step s (Closes t fd) (s\<lparr>fdtab := (fdtab s)(fd := None)\<rparr>)"
| Peer_resets: "\<not> killed s \<Longrightarrow> hub_step s (Peer_resets c) (s\<lparr>gone := insert c (gone s)\<rparr>)"
| Dies: "\<not> killed s \<Longrightarrow> thread s t = Sending f c (bs # rest) cs \<Longrightarrow> bs \<noteq> [] \<Longrightarrow>
    fdtab s (conn_fd (heap s) c) = Some d \<Longrightarrow> d \<in> gone s \<Longrightarrow>
    hub_step s (Dies t) (s\<lparr>killed := True\<rparr>)"

text \<open>Runs, with the condition \<open>ok\<close> every step meets.\<close>

inductive hub_run :: "(process \<Rightarrow> action \<Rightarrow> bool) \<Rightarrow> process \<Rightarrow> action list \<Rightarrow> process \<Rightarrow> bool"
  for ok :: "process \<Rightarrow> action \<Rightarrow> bool" where
  Run_Nil: "hub_run ok s [] s"
| Run_Cons: "hub_step s a s1 \<Longrightarrow> ok s a \<Longrightarrow> hub_run ok s1 as s' \<Longrightarrow> hub_run ok s (a # as) s'"

inductive_cases hub_stepE [consumes 1, case_names Accepts Add Remove Snapshot Locks Writes Next_chunk
  Fails Unlocks Finishes Closes Peer_resets Dies]: "hub_step s a s'"
inductive_simps hub_run_Nil [simp]: "hub_run ok s [] s'"
inductive_simps hub_run_Cons: "hub_run ok s (a # as) s'"

text \<open>The state an action leads to, for evaluating runs: the relation is a function of the action.\<close>

fun hub_next :: "process \<Rightarrow> action \<Rightarrow> process option" where
  "hub_next s (Accepts fd c) =
     (if 0 \<le> fd \<and> fdtab s fd = None then Some (s\<lparr>fdtab := (fdtab s)(fd \<mapsto> c)\<rparr>) else None)"
| "hub_next s (Hub_op t op) = (if thread s t \<noteq> Idle then None else (case op of
     Hub_add c fd nick br \<Rightarrow> if heap s c = None \<and> fdtab s fd = Some c then
       Some (s\<lparr>heap := (heap s)(c \<mapsto> \<lparr>pc_fd = fd, pc_nick = nick, pc_bridge = br\<rparr>), clients := hub_add c (clients s)\<rparr>)
       else None
   | Hub_remove c \<Rightarrow> Some (s\<lparr>clients := hub_remove c (clients s)\<rparr>)
   | Hub_shutdown_all \<Rightarrow> None
   | Hub_broadcast ex ib nick text \<Rightarrow> Some (s\<lparr>thread := (thread s)(t :=
       Delivering (deliver_frame nick text) (hub_targets (heap s) (clients s) ex ib))\<rparr>)))"
| "hub_next s (Locks t) = (case thread s t of
     Delivering f (c # cs) \<Rightarrow> if wmu s c = None then
       Some (s\<lparr>wmu := (wmu s)(c := Some t), thread := (thread s)(t := Sending f c (frame_chunks f) cs)\<rparr>) else None
   | _ \<Rightarrow> None)"
| "hub_next s (Writes t n) = (case thread s t of
     Sending f c (bs # rest) cs \<Rightarrow> (case fdtab s (conn_fd (heap s) c) of
         Some d \<Rightarrow> if 0 < n \<and> n \<le> List.length bs then
           Some (s\<lparr>wire_to := (wire_to s)(d := wire_to s d @ take n bs),
             thread := (thread s)(t := Sending f c (drop n bs # rest) cs)\<rparr>) else None
       | None \<Rightarrow> None)
   | _ \<Rightarrow> None)"
| "hub_next s (Next_chunk t) = (case thread s t of
     Sending f c ([] # rest) cs \<Rightarrow> Some (s\<lparr>thread := (thread s)(t := Sending f c rest cs)\<rparr>)
   | _ \<Rightarrow> None)"
| "hub_next s (Fails t) = (case thread s t of
     Sending f c (bs # rest) cs \<Rightarrow> if bs \<noteq> [] then
       Some (s\<lparr>broken := insert c (broken s), wmu := (wmu s)(c := None), thread := (thread s)(t := Delivering f cs)\<rparr>)
       else None
   | _ \<Rightarrow> None)"
| "hub_next s (Unlocks t) = (case thread s t of
     Sending f c [] cs \<Rightarrow> Some (s\<lparr>wmu := (wmu s)(c := None), thread := (thread s)(t := Delivering f cs)\<rparr>)
   | _ \<Rightarrow> None)"
| "hub_next s (Finishes t) = (case thread s t of
     Delivering f [] \<Rightarrow> Some (s\<lparr>thread := (thread s)(t := Idle)\<rparr>) | _ \<Rightarrow> None)"
| "hub_next s (Closes t fd) = (if thread s t = Idle then Some (s\<lparr>fdtab := (fdtab s)(fd := None)\<rparr>) else None)"
| "hub_next s (Peer_resets c) = Some (s\<lparr>gone := insert c (gone s)\<rparr>)"
| "hub_next s (Dies t) = (case thread s t of
     Sending f c (bs # rest) cs \<Rightarrow> (case fdtab s (conn_fd (heap s) c) of
         Some d \<Rightarrow> if bs \<noteq> [] \<and> d \<in> gone s then Some (s\<lparr>killed := True\<rparr>) else None
       | None \<Rightarrow> None)
   | _ \<Rightarrow> None)"

lemma hub_step_iff: "hub_step s a s' \<longleftrightarrow> \<not> killed s \<and> hub_next s a = Some s'"
proof
  assume "hub_step s a s'"
  then show "\<not> killed s \<and> hub_next s a = Some s'" by (cases rule: hub_stepE) simp_all
next
  assume "\<not> killed s \<and> hub_next s a = Some s'"
  then show "hub_step s a s'"
    by (cases a) (auto intro: hub_step.intros split: if_splits option.splits activity.splits list.splits hub_call.splits)
qed

lemma hub_run_exec:
  "hub_run ok s (a # as) s' \<longleftrightarrow> \<not> killed s \<and> ok s a \<and>
     (case hub_next s a of None \<Rightarrow> False | Some s1 \<Rightarrow> hub_run ok s1 as s')"
  by (auto simp: hub_run_Cons hub_step_iff split: option.splits)

text \<open>
  The targets a thread still has to write to. A close is careful where no thread has a snapshot
  that names the connection: \<open>handle_client\<close> unregisters before it closes, but does not wait for
  the snapshots that were taken before.
\<close>

fun targets :: "activity \<Rightarrow> nat set" where
  "targets Idle = {}"
| "targets (Delivering f cs) = set cs"
| "targets (Sending f c bs cs) = insert c (set cs)"

definition careful :: "process \<Rightarrow> action \<Rightarrow> bool" where
  "careful s a = (case a of
     Closes t fd \<Rightarrow> \<forall>c. conn_fd (heap s) c = fd \<longrightarrow> c \<notin> set (clients s) \<and> (\<forall>u. c \<notin> targets (thread s u))
   | _ \<Rightarrow> True)"

lemmas hub_eval = hub_run_exec serve_start_def careful_def conn_fd_def is_bridge_conn_def hub_targets_def
  hub_add_def hub_remove_def deliver_frame_def proto_deliver_payload_def frame_chunks_def proto_header_def
  kMagic0_def kMagic1_def kVersion_def kJoin_def kMsg_def kDeliver_def be16_eval

text \<open>The invariant: a listed connection's descriptor is its own stream; the holder of a \<open>wmu\<close> is
  the thread that writes; a stream holds whole frames, but for the rest its writer still has.\<close>

definition linked :: "process \<Rightarrow> nat \<Rightarrow> bool" where
  "linked s c \<longleftrightarrow> (\<exists>p. heap s c = Some p \<and> fdtab s (pc_fd p) = Some c)"

fun unsent :: "activity \<Rightarrow> byte list" where
  "unsent (Sending f c bs cs) = concat bs"
| "unsent _ = []"

fun pending_by :: "(nat \<Rightarrow> activity) \<Rightarrow> nat option \<Rightarrow> byte list" where
  "pending_by th None = []"
| "pending_by th (Some t) = unsent (th t)"

definition pending :: "process \<Rightarrow> nat \<Rightarrow> byte list" where
  "pending s c = pending_by (thread s) (wmu s c)"

definition whole :: "byte list \<Rightarrow> bool" where
  "whole bs \<longleftrightarrow> (\<exists>fs. bs = concat (List.map proto_encode fs))"

definition wmu_held :: "process \<Rightarrow> bool" where
  "wmu_held s \<longleftrightarrow> (\<forall>c t. wmu s c = Some t \<longleftrightarrow> (\<exists>f bs cs. thread s t = Sending f c bs cs))"

definition hub_inv :: "process \<Rightarrow> bool" where
  "hub_inv s \<longleftrightarrow>
     sorted (clients s) \<and> distinct (clients s) \<and>
     (\<forall>c \<in> set (clients s). linked s c) \<and>
     (\<forall>t. \<forall>c \<in> targets (thread s t). linked s c) \<and>
     wmu_held s \<and>
     (\<forall>c. c \<notin> broken s \<longrightarrow> whole (wire_to s c @ pending s c))"

lemma frame_chunks_whole: "whole (concat (frame_chunks f))"
proof (cases "List.length (payload f) > 0xFFFF")
  case True
  then show ?thesis by (simp add: frame_chunks_def whole_def exI [of _ "[]"])
next
  case False
  then have "concat (frame_chunks f) = concat (List.map proto_encode [f])"
    by (simp add: frame_chunks_def proto_encode_def)
  then show ?thesis unfolding whole_def by blast
qed

lemma whole_append: "whole x \<Longrightarrow> whole y \<Longrightarrow> whole (x @ y)"
  unfolding whole_def by (metis concat_append map_append)

lemma hub_inv_start: "hub_inv serve_start"
  by (simp add: hub_inv_def wmu_held_def serve_start_def pending_def whole_def exI [of _ "[]"])

text \<open>Each part of the invariant is kept by a careful step.\<close>

lemma carefulD:
  "careful s (Closes t fd) \<Longrightarrow> heap s c = Some p \<Longrightarrow> pc_fd p = fd \<Longrightarrow> c \<notin> set (clients s) \<and> c \<notin> targets (thread s u)"
  by (auto simp: careful_def conn_fd_def)

lemma wmu_heldD:
  "wmu_held s \<Longrightarrow> thread s t = Sending f c bs cs \<Longrightarrow> wmu s c = Some t"
  "wmu_held s \<Longrightarrow> wmu s c = Some t \<Longrightarrow> \<exists>f bs cs. thread s t = Sending f c bs cs"
  by (auto simp: wmu_held_def)

lemma wmu_unique:
  "wmu_held s \<Longrightarrow> thread s t = Sending f c bs cs \<Longrightarrow> thread s u = Sending f' c bs' cs' \<Longrightarrow> t = u"
  using wmu_heldD(1) [of s t f c bs cs] wmu_heldD(1) [of s u f' c bs' cs'] by simp

lemma step_linked:
  assumes "hub_step s a s'" "careful s a" "linked s c" "c \<in> set (clients s) \<or> c \<in> targets (thread s u)"
  shows "linked s' c"
  using assms(2-4) by (cases rule: hub_stepE [OF assms(1)]) (auto simp: linked_def dest: carefulD)

lemma step_sorted:
  assumes "hub_step s a s'" "sorted (clients s) \<and> distinct (clients s)"
  shows "sorted (clients s') \<and> distinct (clients s')"
  using assms(2) by (cases rule: hub_stepE [OF assms(1)]) (simp_all add: hub_add_sorted hub_remove_sorted)

lemma step_clients:
  assumes "hub_step s a s'" "c \<in> set (clients s')"
  shows "c \<in> set (clients s) \<or> linked s' c"
  using assms(2) by (cases rule: hub_stepE [OF assms(1)]) (auto simp: linked_def conn_fd_def)

lemma step_targets:
  assumes "hub_step s a s'" "c \<in> targets (thread s' u)"
  shows "c \<in> set (clients s) \<or> c \<in> targets (thread s u)"
  using assms(2) by (cases rule: hub_stepE [OF assms(1)]) (auto split: if_splits)

lemma step_wmu:
  assumes "hub_step s a s'" "wmu_held s"
  shows "wmu_held s'"
  using assms(2) assms(2) [unfolded wmu_held_def] unfolding wmu_held_def [of s']
  by (cases rule: hub_stepE [OF assms(1)]) (auto dest: wmu_unique wmu_heldD(1))

lemma pending_other:
  assumes "wmu_held s" "thread s t = Sending f c bs cs" "d \<noteq> c"
  shows "pending_by ((thread s)(t := x)) (wmu s d) = pending_by (thread s) (wmu s d)"
  using assms by (cases "wmu s d") (auto simp: pending_def dest: wmu_heldD(2))

lemma pending_not_held:
  "wmu s d \<noteq> Some t \<Longrightarrow> pending_by ((thread s)(t := x)) (wmu s d) = pending_by (thread s) (wmu s d)"
  by (cases "wmu s d") auto

lemma pending_idle:
  assumes "wmu_held s" "unsent (thread s t) = []" "unsent x = []"
  shows "pending_by ((thread s)(t := x)) (wmu s d) = pending_by (thread s) (wmu s d)"
  using assms by (cases "wmu s d") (auto simp: pending_def)

lemma step_wire:
  assumes "hub_step s a s'" "wmu_held s" "c \<notin> broken s'"
    and "\<And>t d. d \<in> targets (thread s t) \<Longrightarrow> linked s d"
    and "\<And>d. d \<notin> broken s \<Longrightarrow> whole (wire_to s d @ pending s d)"
  shows "whole (wire_to s' c @ pending s' c)"
  using assms(1)
proof (cases rule: hub_stepE)
  case (Snapshot t ex ib nick body)
  with assms show ?thesis by (simp add: pending_def pending_idle)
next
  case (Locks t f d cs)
  show ?thesis
  proof (cases "c = d")
    case True
    with Locks assms(3) assms(5) [of c] have "whole (wire_to s c)" by (auto simp: pending_def)
    with Locks True show ?thesis by (simp add: pending_def whole_append frame_chunks_whole)
  next
    case False
    have "wmu s c \<noteq> Some t" using Locks wmu_heldD(2) [OF assms(2), of c t] by auto
    with Locks False assms show ?thesis by (simp add: pending_def pending_not_held)
  qed
next
  case (Writes t f d bs rest cs n e)
  from assms(4) [of d t] Writes have e: "e = d" by (auto simp: linked_def conn_fd_def)
  show ?thesis
  proof (cases "c = d")
    case True
    with Writes wmu_heldD(1) [OF assms(2), of t] have "pending s c = bs @ concat rest" "pending s' c = drop n bs @ concat rest"
      by (simp_all add: pending_def)
    with Writes e True assms(3) assms(5) [of c] show ?thesis by simp
  next
    case False
    with Writes e assms show ?thesis by (simp add: pending_def pending_other)
  qed
next
  case (Next_chunk t f d rest cs)
  show ?thesis
  proof (cases "c = d")
    case True
    with Next_chunk wmu_heldD(1) [OF assms(2), of t] have "pending s' c = pending s c" by (simp add: pending_def)
    with Next_chunk assms(3) assms(5) [of c] show ?thesis by simp
  next
    case False
    with Next_chunk assms show ?thesis by (simp add: pending_def pending_other)
  qed
next
  case (Fails t f d bs rest cs)
  with assms show ?thesis by (auto simp: pending_def pending_other)
next
  case (Unlocks t f d cs)
  show ?thesis
  proof (cases "c = d")
    case True
    with Unlocks wmu_heldD(1) [OF assms(2), of t] have "pending s' c = []" "pending s c = []" by (simp_all add: pending_def)
    with Unlocks assms(3) assms(5) [of c] show ?thesis by auto
  next
    case False
    with Unlocks assms show ?thesis by (simp add: pending_def pending_other)
  qed
next
  case (Finishes t f)
  with assms show ?thesis by (simp add: pending_def pending_idle)
qed (use assms in \<open>auto simp: pending_def\<close>)

lemma hub_inv_step:
  assumes "hub_inv s" "hub_step s a s'" "careful s a"
  shows "hub_inv s'"
proof -
  have w: "wmu_held s" and t: "\<And>t d. d \<in> targets (thread s t) \<Longrightarrow> linked s d"
    and p: "\<And>d. d \<notin> broken s \<Longrightarrow> whole (wire_to s d @ pending s d)"
    using assms(1) by (auto simp: hub_inv_def)
  show ?thesis unfolding hub_inv_def
  proof (intro conjI allI ballI impI)
    show "sorted (clients s')" "distinct (clients s')"
      using step_sorted [OF assms(2)] assms(1) by (simp_all add: hub_inv_def)
    show "wmu_held s'" by (rule step_wmu [OF assms(2) w])
    show "whole (wire_to s' c @ pending s' c)" if "c \<notin> broken s'" for c
      by (rule step_wire [OF assms(2) w that t p])
    show "linked s' c" if "c \<in> set (clients s')" for c
      using step_clients [OF assms(2) that] step_linked [OF assms(2,3)] assms(1) by (auto simp: hub_inv_def)
    show "linked s' c" if "c \<in> targets (thread s' u)" for u c
      using step_targets [OF assms(2) that] step_linked [OF assms(2,3), of c u] assms(1) by (auto simp: hub_inv_def)
  qed
qed

lemma hub_inv_run: "hub_run careful s as s' \<Longrightarrow> hub_inv s \<Longrightarrow> hub_inv s'"
  by (induction rule: hub_run.induct) (auto intro: hub_inv_step)

section \<open>Two bridged nodes\<close>

text \<open>The nick under which a message of another node is broadcast.\<close>

definition tagged :: "string \<Rightarrow> string \<Rightarrow> string" where
  "tagged nick node = (if CHR ''@'' \<in> set nick then nick else nick @ ''@'' @ node)"

lemma bridge_broadcast_deliver:
  "CHR 0x00 \<notin> set nick \<Longrightarrow> bridge_broadcast pn (deliver_frame nick text) = [Hub_broadcast None False (tagged nick pn) text]"
  by (simp add: bridge_broadcast_def deliver_frame_def proto_split_deliver_payload tagged_def)

text \<open>A descriptor on which no write failed: \<open>write_frame\<close> then puts the whole frame on it.\<close>

definition unfailed :: "int \<Rightarrow> (call \<times> answer option) list \<Rightarrow> bool" where
  "unfailed fd t \<longleftrightarrow> list_all (\<lambda>e. case e of
     (Write f bs, Some a) \<Rightarrow> f = fd \<longrightarrow> 0 < rv a \<or> rv a < 0 \<and> eno a = EINTR
   | _ \<Rightarrow> True) t"

lemma unfailed_append [simp]: "unfailed fd (t @ u) \<longleftrightarrow> unfailed fd t \<and> unfailed fd u"
  by (simp add: unfailed_def)

lemma proto_write_all_unfailed:
  assumes "proto_write_all fd data w = Some (r, w')" and "unfailed fd (since w w')"
  shows "r = Inr ()"
proof -
  have "later w w' \<and> (unfailed fd (since w w') \<longrightarrow> r = Inr ())"
    using assms(1) unfolding proto_write_all_def
  proof (rule loop_rule [where I = "\<lambda>_ v. later w v"], goal_cases)
    case 1
    show ?case by simp
  next
    case (2 off v off' v')
    then obtain a where "sys (Write fd (drop off data)) v = Some (a, v')"
      by (auto simp: proto_write_all_turn_def split: if_splits)
    with 2(1) sys_since(1) later_trans show ?case by blast
  next
    case (3 off v r v')
    show ?case
    proof (cases "off < List.length data")
      case True
      with 3(2) obtain a where a: "sys (Write fd (drop off data)) v = Some (a, v')"
        and "rv a = 0 \<or> rv a < 0 \<and> eno a \<noteq> EINTR"
        by (auto simp: proto_write_all_turn_def split: if_splits)
      then have "later v v'" "\<not> unfailed fd (since v v')" by (auto simp: sys_since(1) sys_since(2) [OF a] unfailed_def)
      with 3(1) later_trans [OF 3(1), of v'] since_trans [OF 3(1), of v'] show ?thesis by simp
    next
      case False
      with 3 show ?thesis by (auto simp: proto_write_all_turn_def)
    qed
  qed
  with assms(2) show ?thesis by blast
qed

lemma proto_write_frame_unfailed:
  assumes "proto_write_frame fd f w = Some (r, w')" and "honest (since w w')" and "unfailed fd (since w w')" and "small_frame f"
  shows "accepted fd (since w w') = proto_encode f"
proof -
  from assms(1,4) consider
      (stop) e where "proto_write_all fd (proto_header f) w = Some (Inl e, w')"
    | (bare) "r = Inr ()"
    | (body) w1 r1 where "proto_write_all fd (proto_header f) w = Some (Inr (), w1)" "proto_write_all fd (payload f) w1 = Some (r1, w')"
        "r = r1"
    by (auto simp: proto_write_frame_def io_try_Some split: if_splits)
  then have "r = Inr ()"
  proof cases
    case stop
    with proto_write_all_unfailed [OF stop assms(3)] show ?thesis by simp
  next
    case body
    have "since w w' = since w w1 @ since w1 w'"
      using proto_write_all_spec [OF body(1)] proto_write_all_spec [OF body(2)] by (simp add: since_trans)
    with assms(3) proto_write_all_unfailed [OF body(2)] body(3) show ?thesis by simp
  qed
  with proto_write_frame_spec(3) [OF assms(1,2)] show ?thesis by simp
qed

lemma hub_send_all_whole:
  assumes "hub_send_all fds f w = Some (u, w')" and "distinct fds" and "honest (since w w')" and "small_frame f"
    and "fd \<in> set fds" and "unfailed fd (since w w')"
  shows "accepted fd (since w w') = proto_encode f"
  using assms(1,2,3,5,6)
proof (induction fds arbitrary: w)
  case Nil
  then show ?case by simp
next
  case (Cons fd1 fds)
  from Cons.prems(1) obtain r w1 where f: "proto_write_frame fd1 f w = Some (r, w1)"
    and g: "hub_send_all fds f w1 = Some (u, w')" by auto
  have d: "distinct fds" "fd1 \<notin> set fds" using Cons.prems(2) by simp_all
  have l: "later w w1" by (rule proto_write_frame_spec(1) [OF f])
  have "hub_send_all fds f w1 = Some (u, w') \<Longrightarrow> later w1 w'" for w1
  proof (induction fds arbitrary: w1)
    case (Cons fd2 fds)
    then obtain r2 w2 where "proto_write_frame fd2 f w1 = Some (r2, w2)" "hub_send_all fds f w2 = Some (u, w')" by auto
    with Cons.IH proto_write_frame_spec(1) later_trans show ?case by blast
  qed simp
  from since_trans [OF l this [OF g]] have s: "since w w' = since w w1 @ since w1 w'" .
  with Cons.prems(3,5) have h: "honest (since w w1)" "honest (since w1 w')" "unfailed fd (since w w1)" "unfailed fd (since w1 w')"
    by simp_all
  show ?case
  proof (cases "fd = fd1")
    case True
    with proto_write_frame_unfailed [OF f h(1) _ assms(4)] h(3) hub_send_all_spec(2) [OF g d(1) h(2), of fd] d(2) s
    show ?thesis by simp
  next
    case False
    with Cons.prems(4) have "fd \<in> set fds" by simp
    with Cons.IH [OF g d(1) h(2) _ h(4)] proto_write_frame_others [OF f False] s show ?thesis by simp
  qed
qed

text \<open>A broadcast to connections on which no write failed.\<close>

lemma hub_broadcast_whole:
  assumes "hub_broadcast_deliver h cs exclude include_bridges nick text w = Some (u, w')"
    and "honest (since w w')" and "distinct (List.map (conn_fd h) cs)"
    and "List.length nick + List.length text < 0xFFFF" and "c \<in> set cs" and "unfailed (conn_fd h c) (since w w')"
  shows "accepted (conn_fd h c) (since w w') =
    (if Some c = exclude \<or> is_bridge_conn h c \<and> \<not> include_bridges then [] else proto_encode (deliver_frame nick text))"
proof -
  let ?ts = "hub_targets h cs exclude include_bridges"
  from assms(3) have i: "inj_on (conn_fd h) (set cs)" by (simp add: distinct_map)
  have d: "distinct (List.map (conn_fd h) ?ts)" and m: "conn_fd h c \<in> conn_fd h ` set ?ts \<longleftrightarrow> c \<in> set ?ts"
    using assms(3,5) i by (auto simp: hub_targets_def distinct_map_filter dest: inj_onD)
  have s: "small_frame (deliver_frame nick text)"
    using assms(4) by (simp add: deliver_frame_def proto_deliver_payload_def)
  from assms(1) have b: "hub_send_all (List.map (conn_fd h) ?ts) (deliver_frame nick text) w = Some (u, w')"
    by (simp add: hub_broadcast_deliver_def)
  show ?thesis
    using hub_send_all_whole [OF b d assms(2) s _ assms(6)] hub_send_all_spec(2) [OF b d assms(2), of "conn_fd h c"] m assms(5)
    by auto
qed

text \<open>What a client thread and a bridge thread ask of the hub.\<close>

lemma client_asks:
  assumes "handle_client fd pc node en v = Some (u, v')" and "Hub_broadcast ex ib nick text \<in> set (hub_ops (since v v'))"
  shows "ex = Some pc \<and> ib"
proof -
  from handle_client_trace [OF assms(1)] obtain fs where "hub_ops (since v v') = client_hub_ops fd pc fs" by blast
  with assms(2) show ?thesis by (cases fs) (auto simp: client_broadcast_def Let_def split: if_splits)
qed

lemma bridge_asks:
  assumes "loop (bridge_frame_turn conn peer_node) () w = Some (u, w')" and "honest (since w w')"
    and "received conn (since w w') = proto_encode (deliver_frame nick text)" and "CHR 0x00 \<notin> set nick"
    and "List.length nick + List.length text < 0xFFFF"
  shows "hub_ops (since w w') = [Hub_broadcast None False (tagged nick peer_node) text]"
proof -
  from chatterd_bridge_broadcasts [OF assms(1,2)] obtain fs where fs: "frames_received conn fs (since w w')"
    "hub_ops (since w w') = concat (List.map (bridge_broadcast peer_node) fs)" by blast
  then obtain rest where rest: "received conn (since w w') = concat (List.map proto_encode fs) @ rest"
    "\<forall>f. \<not> prefix (proto_encode f) rest" "list_all small_frame fs" by (auto simp: frames_received_def)
  have "small_frame (deliver_frame nick text)" using assms(5) by (simp add: deliver_frame_def proto_deliver_payload_def)
  then have "fs = [deliver_frame nick text]"
    by (intro proto_frames_unique [of fs rest "[deliver_frame nick text]" "[]"]) (use rest assms(3) in auto)
  with fs(2) bridge_broadcast_deliver [OF assms(4)] show ?thesis by simp
qed

text \<open>The registry operations of one thread, in its order.\<close>

definition registry_ops :: "nat \<Rightarrow> action list \<Rightarrow> hub_call list" where
  "registry_ops t as = concat (List.map (\<lambda>a. case a of Hub_op u op \<Rightarrow> if u = t then [op] else [] | _ \<Rightarrow> []) as)"

abbreviation join_frame :: "string \<Rightarrow> frame" where
  "join_frame nick \<equiv> \<lparr>ftype = kJoin, payload = bytes_of nick\<rparr>"

abbreviation msg_frame :: "string \<Rightarrow> frame" where
  "msg_frame text \<equiv> \<lparr>ftype = kMsg, payload = bytes_of text\<rparr>"

section \<open>Properties\<close>

text \<open>A broadcast leaves out its sender and, unless asked, the bridges; every other registered
  connection is tried, whatever happened to the ones before it, and gets a prefix of the one
  frame and nothing else.\<close>

lemma hub_broadcast_reaches:
  assumes "hub_broadcast_deliver h cs exclude include_bridges nick text w = Some (u, w')"
    and "honest (since w w')" and "distinct (List.map (conn_fd h) cs)"
    and "List.length nick + List.length text < 0xFFFF" and "c \<in> set cs"
  shows "if Some c = exclude \<or> is_bridge_conn h c \<and> \<not> include_bridges
     then accepted (conn_fd h c) (since w w') = []
     else tried (conn_fd h c) (proto_header (deliver_frame nick text)) (since w w') \<and>
       prefix (accepted (conn_fd h c) (since w w')) (proto_encode (deliver_frame nick text))"
proof -
  let ?ts = "hub_targets h cs exclude include_bridges"
  from assms(3) have i: "inj_on (conn_fd h) (set cs)" by (simp add: distinct_map)
  have d: "distinct (List.map (conn_fd h) ?ts)" and m: "conn_fd h c \<in> conn_fd h ` set ?ts \<longleftrightarrow> c \<in> set ?ts"
    using assms(3,5) i by (auto simp: hub_targets_def distinct_map_filter dest: inj_onD)
  have s: "small_frame (deliver_frame nick text)"
    using assms(4) by (simp add: deliver_frame_def proto_deliver_payload_def)
  from assms(1) have "hub_send_all (List.map (conn_fd h) ?ts) (deliver_frame nick text) w = Some (u, w')"
    by (simp add: hub_broadcast_deliver_def)
  note sent = hub_send_all_spec(2-4) [OF this d assms(2), where fd = "conn_fd h c"]
  show ?thesis using sent s m assms(5) by auto
qed

text \<open>C1: However the threads of a server interleave, as long as no descriptor is closed under a
  snapshot that names it: a stream on which no write failed holds a sequence of whole frames
  whenever nobody is writing to it, and only the holder of its mutex writes to it.\<close>

theorem hub_streams_whole:
  assumes "hub_run careful serve_start as s" and "c \<notin> broken s" and "wmu s c = None"
  shows "(\<exists>fs. wire_to s c = concat (List.map proto_encode fs)) \<and>
    (\<nexists>t f bs cs. thread s t = Sending f c bs cs)"
proof -
  have "hub_inv s" using hub_inv_run [OF assms(1)] hub_inv_start by blast
  then have "wmu_held s" and "whole (wire_to s c @ pending s c)" using assms(2) by (simp_all add: hub_inv_def)
  with assms(3) wmu_heldD(1) [of s _ _ c] show ?thesis by (auto simp: pending_def whole_def)
qed

theorem hub_streams_whole_witness:
  "\<exists>s. hub_run careful serve_start [Accepts 5 1, Hub_op 1 (Hub_add 1 5 ''a'' False), Hub_op 2 (Hub_broadcast None False ''n'' ''x''),
       Locks 2, Writes 2 6, Next_chunk 2, Writes 2 3, Next_chunk 2, Unlocks 2, Finishes 2] s \<and>
     (\<exists>fs. wire_to s 1 = concat (List.map proto_encode fs))"
proof -
  have "\<exists>s. hub_run careful serve_start [Accepts 5 1, Hub_op 1 (Hub_add 1 5 ''a'' False), Hub_op 2 (Hub_broadcast None False ''n'' ''x''),
       Locks 2, Writes 2 6, Next_chunk 2, Writes 2 3, Next_chunk 2, Unlocks 2, Finishes 2] s \<and> 1 \<notin> broken s \<and> wmu s 1 = None"
    by (simp add: hub_eval)
  then show ?thesis using hub_streams_whole by blast
qed

text \<open>C3: A message on two bridged nodes, through the threads it passes. A client thread of node A asks the
  hub for the broadcast; the broadcast puts one frame on every other connection of A, the bridge's
  too, and nothing on the sender's; the bridge thread of node B that is given those bytes asks its
  hub for one broadcast, under the sender's nick tagged with A; and that puts one frame on every
  client's connection of B and nothing on the bridges of B: the message does not come back. Each
  connection on which a write failed is left out of what is said.\<close>

theorem hub_two_nodes_once:
  assumes "handle_client fd sender node_A en v = Some (x, v')" and "Hub_broadcast ex ib nick text \<in> set (hub_ops (since v v'))"
    and "hub_broadcast_deliver hA csA ex ib nick text a = Some (y, a')" and "honest (since a a')" and "distinct (List.map (conn_fd hA) csA)"
    and "loop (bridge_frame_turn conn node_A) () b = Some (z, b')" and "honest (since b b')"
    and "bridge \<in> set csA" and "bridge \<noteq> sender" and "unfailed (conn_fd hA bridge) (since a a')"
    and "received conn (since b b') = accepted (conn_fd hA bridge) (since a a')"
    and "Hub_broadcast exB ibB nickB textB \<in> set (hub_ops (since b b'))"
    and "hub_broadcast_deliver hB csB exB ibB nickB textB c = Some (t, c')" and "honest (since c c')" and "distinct (List.map (conn_fd hB) csB)"
    and "CHR 0x00 \<notin> set nick" and "List.length nick + 1 + List.length node_A + List.length text < 0xFFFF"
  shows "(\<forall>k \<in> set csA. unfailed (conn_fd hA k) (since a a') \<longrightarrow>
      accepted (conn_fd hA k) (since a a') = (if k = sender then [] else proto_encode (deliver_frame nick text))) \<and>
    hub_ops (since b b') = [Hub_broadcast None False (tagged nick node_A) text] \<and>
    (\<forall>k \<in> set csB. unfailed (conn_fd hB k) (since c c') \<longrightarrow>
      accepted (conn_fd hB k) (since c c') =
        (if is_bridge_conn hB k then [] else proto_encode (deliver_frame (tagged nick node_A) text)))"
proof -
  note ask = client_asks [OF assms(1,2)]
  have len: "List.length nick + List.length text < 0xFFFF" "List.length (tagged nick node_A) + List.length text < 0xFFFF"
    using assms(17) by (auto simp: tagged_def)
  note on_A = hub_broadcast_whole [OF assms(3-5) len(1)]
  have "received conn (since b b') = proto_encode (deliver_frame nick text)"
    using on_A [OF assms(8,10)] assms(9,11) ask by simp
  note bridge_ops = bridge_asks [OF assms(6,7) this assms(16) len(1)]
  with assms(12) have "exB = None" "\<not> ibB" "nickB = tagged nick node_A" "textB = text" by simp_all
  with assms(13) have "hub_broadcast_deliver hB csB None False (tagged nick node_A) text c = Some (t, c')" by simp
  from hub_broadcast_whole [OF this assms(14,15) len(2)] on_A ask bridge_ops show ?thesis by auto
qed

theorem hub_two_nodes_once_witness:
  "\<exists>b'. loop (bridge_frame_turn 9 ''A'') () (answering [gave [67, 72, 1, 3], gave [0, 3], gave [97, 0, 120], gave []]) = Some ((), b') \<and>
     hub_ops (since (answering [gave [67, 72, 1, 3], gave [0, 3], gave [97, 0, 120], gave []]) b') =
       [Hub_broadcast None False ''a@A'' ''x'']"
proof -
  let ?v = "[gave [67, 72, 1, 1, 0, 1], gave [97], gave [67, 72, 1, 2, 0, 1], gave [120], gave []]"
  let ?vt = "[(Read 5 6, Some (gave [67, 72, 1, 1, 0, 1])), (Read 5 1, Some (gave [97])), (Hub (Hub_add 1 5 ''a'' False), None),
     (Read 5 6, Some (gave [67, 72, 1, 2, 0, 1])), (Read 5 1, Some (gave [120])),
     (Otel ''StartSpan chatterd.deliver'' [Txt ''a'', Txt ''1'', Txt ''A'', Txt ''false''], None),
     (Hub (Hub_broadcast (Some 1) True ''a'' ''x''), None), (Otel ''SetStatus'' [Txt ''Ok''], None), (Otel ''End'' [], None),
     (Read 5 6, Some (gave [])), (Hub (Hub_remove 1), None), (Close 5, None)]"
  let ?b = "[gave [67, 72, 1, 3], gave [0, 3], gave [97, 0, 120], gave []]"
  let ?bt = "[(Read 9 6, Some (gave [67, 72, 1, 3])), (Read 9 2, Some (gave [0, 3])), (Read 9 3, Some (gave [97, 0, 120])),
     (Hub (Hub_broadcast None False ''a@A'' ''x''), None), (Read 9 6, Some (gave []))]"
  let ?hA = "[1 \<mapsto> \<lparr>pc_fd = 5, pc_nick = ''a'', pc_bridge = False\<rparr>, 2 \<mapsto> \<lparr>pc_fd = 6, pc_nick = ''bridge@B'', pc_bridge = True\<rparr>]"
  let ?hB = "[7 \<mapsto> \<lparr>pc_fd = 8, pc_nick = ''c'', pc_bridge = False\<rparr>, 4 \<mapsto> \<lparr>pc_fd = 4, pc_nick = ''bridge@A'', pc_bridge = True\<rparr>]"
  let ?at = "[(Write 6 [67, 72, 1, 3, 0, 3], Some (returned 6)), (Write 6 [97, 0, 120], Some (returned 3))]"
  let ?ct = "[(Write 8 [67, 72, 1, 3, 0, 5], Some (returned 6)), (Write 8 [97, 64, 65, 0, 120], Some (returned 5))]"
  have runs: "handle_client 5 1 ''A'' False (answering ?v) = Some ((), \<lparr>script = [], trace = ?vt\<rparr>)"
    "hub_broadcast_deliver ?hA [1, 2] (Some 1) True ''a'' ''x'' (answering [returned 6, returned 3]) = Some ((), \<lparr>script = [], trace = ?at\<rparr>)"
    "loop (bridge_frame_turn 9 ''A'') () (answering ?b) = Some ((), \<lparr>script = [], trace = ?bt\<rparr>)"
    "hub_broadcast_deliver ?hB [4, 7] None False ''a@A'' ''x'' (answering [returned 6, returned 5]) = Some ((), \<lparr>script = [], trace = ?ct\<rparr>)"
    by (simp_all add: handle_client_def handle_client_turn_def bridge_frame_turn_def hub_broadcast_deliver_def hub_targets_def
        deliver_frame_def proto_deliver_payload_def is_bridge_conn_def conn_fd_def proto_split_deliver_def
        proto_eval starts_with_def char_eval Let_def show_nat.simps digit_char_def loop.simps)
  have s: "since (answering ?v) \<lparr>script = [], trace = ?vt\<rparr> = ?vt" "since (answering ?b) \<lparr>script = [], trace = ?bt\<rparr> = ?bt"
    "since (answering [returned 6, returned 3]) \<lparr>script = [], trace = ?at\<rparr> = ?at"
    "since (answering [returned 6, returned 5]) \<lparr>script = [], trace = ?ct\<rparr> = ?ct"
    by (simp_all add: since_def answering_def)
  have "hub_ops (since (answering ?b) \<lparr>script = [], trace = ?bt\<rparr>) = [Hub_broadcast None False (tagged ''a'' ''A'') ''x'']"
    by (rule hub_two_nodes_once [OF runs(1) _ runs(2) _ _ runs(3) _ _ _ _ _ _ runs(4), where bridge = 2, THEN conjunct2, THEN conjunct1])
      (simp_all only: s, simp_all add: conn_fd_def unfailed_def honest_event_def)
  with runs(3) show ?thesis by (simp add: tagged_def)
qed

text \<open>The condition on closes is needed, for the code does not ensure it. In this run each thread
  performs the registry operations of \<open>handle_client\<close> in order; a client leaves after another
  thread's snapshot and before that thread's write, its descriptor number is given to a new
  connection, and the frame goes to that one, which has not even joined.\<close>

lemma hub_frame_to_stranger:
  "\<exists>as s. hub_run (\<lambda>_ _. True) serve_start as s \<and>
     registry_ops 1 as = client_hub_ops 5 1 [join_frame ''a''] \<and>
     prefix (registry_ops 2 as) (client_hub_ops 6 2 [join_frame ''b'', msg_frame ''x'']) \<and>
     heap s 3 = None \<and> wire_to s 3 = proto_encode (deliver_frame ''b'' ''x'')"
proof -
  let ?as = "[Accepts 5 1, Hub_op 1 (Hub_add 1 5 ''a'' False), Accepts 6 2, Hub_op 2 (Hub_add 2 6 ''b'' False),
    Hub_op 2 (Hub_broadcast (Some 2) True ''b'' ''x''), Hub_op 1 (Hub_remove 1), Closes 1 5, Accepts 5 3,
    Locks 2, Writes 2 6, Next_chunk 2, Writes 2 3, Next_chunk 2, Unlocks 2, Finishes 2]"
  have "\<exists>s. hub_run (\<lambda>_ _. True) serve_start ?as s \<and>
     heap s 3 = None \<and> wire_to s 3 = proto_encode (deliver_frame ''b'' ''x'')"
    by (simp add: hub_eval proto_encode_def)
  moreover have "registry_ops 1 ?as = client_hub_ops 5 1 [join_frame ''a'']"
    "prefix (registry_ops 2 ?as) (client_hub_ops 6 2 [join_frame ''b'', msg_frame ''x''])"
    by (simp_all add: registry_ops_def starts_with_def client_broadcast_def kMsg_def kJoin_def Let_def)
  ultimately show ?thesis by blast
qed

text \<open>One client that resets its connection takes the server down: SIGPIPE keeps its default action,
  so a broadcast whose snapshot still names that client ends the process in \<open>write\<close>, although
  no descriptor was closed early and the result of \<open>write_frame\<close> would have been ignored.\<close>

lemma hub_reset_kills_server:
  "\<exists>as s. hub_run careful serve_start as s \<and> killed s \<and>
     prefix (registry_ops 1 as) (client_hub_ops 5 1 [join_frame ''a'']) \<and>
     prefix (registry_ops 2 as) (client_hub_ops 6 2 [join_frame ''b'', msg_frame ''x''])"
proof -
  let ?as = "[Accepts 5 1, Hub_op 1 (Hub_add 1 5 ''a'' False), Accepts 6 2, Hub_op 2 (Hub_add 2 6 ''b'' False),
    Hub_op 2 (Hub_broadcast (Some 2) True ''b'' ''x''), Peer_resets 1, Locks 2, Dies 2]"
  have "\<exists>s. hub_run careful serve_start ?as s \<and> killed s"
    by (simp add: hub_eval)
  moreover have "prefix (registry_ops 1 ?as) (client_hub_ops 5 1 [join_frame ''a''])"
    "prefix (registry_ops 2 ?as) (client_hub_ops 6 2 [join_frame ''b'', msg_frame ''x''])"
    by (simp_all add: registry_ops_def starts_with_def client_broadcast_def kMsg_def kJoin_def Let_def)
  ultimately show ?thesis by blast
qed

end
