(* ===== verification/Fleet.thy ===== *)
theory Fleet
  imports Pmon Sysagent Hub
begin

text \<open>
  The one binary of the fleet: \<open>main.cpp\<close>, \<open>telemetry.cpp\<close> of \<open>examples/41-capstone-fleet\<close>. The
  command line scanner, the dispatch to the four programs, and the telemetry handle around two
  of them. The programs are those of the other theories, so what the supervisor executes can be
  followed into the daemon it starts.
\<close>

section \<open>Telemetry\<close>

text \<open>\<open>init\<close>: the result is \<open>enabled\<close>; building the providers is opentelemetry's business and appears
  as calls with the settings the code chooses.\<close>

definition telemetry_init :: "string \<Rightarrow> string \<Rightarrow> world \<Rightarrow> (bool \<times> world) option" where
  "telemetry_init service node w = do {
     (e, w) \<leftarrow> sys (Fs (Fs_getenv ''OTEL_EXPORTER_OTLP_ENDPOINT'')) w;
     if rv e < 0 \<or> dat e = [] then
       Some (False, println Stderr [Txt (service @ '': otel disabled (OTEL_EXPORTER_OTLP_ENDPOINT not set)'')] w)
     else do {
       let endpoint = chars_of (dat e);
       let w = emit (Otel ''SetLogHandler'' [Txt service]) w;
       let w = emit (Otel ''SetLogLevel'' [Txt ''Error'']) w;
       let w = emit (Otel ''Resource'' [Txt service, Txt ''41-capstone-fleet'', Txt ''lab'', Txt node]) w;
       let w = emit (Otel ''SetTracerProvider'' [Txt (endpoint @ ''/v1/traces''), Txt ''500'']) w;
       let w = emit (Otel ''SetMeterProvider'' [Txt (endpoint @ ''/v1/metrics''), Txt ''2000'', Txt ''1000'']) w;
       Some (True, println Stderr [Txt (service @ '': otel enabled endpoint='' @ endpoint @ '' node='' @ node)] w) } }"

definition telemetry_shutdown :: "bool \<Rightarrow> world \<Rightarrow> world" where
  "telemetry_shutdown enabled w =
     (if \<not> enabled then w
      else fold (\<lambda>c. emit (Otel c [Txt ''5s'']))
        [''tracer ForceFlush'', ''tracer Shutdown'', ''meter ForceFlush'', ''meter Shutdown''] w)"

text \<open>\<open>CountingLogHandler::Handle\<close>, on the counter and the world.\<close>

definition counting_handle :: "string \<Rightarrow> bool \<Rightarrow> string \<Rightarrow> int \<Rightarrow> world \<Rightarrow> int \<times> world" where
  "counting_handle service is_error text errors w =
     (if is_error then (errors + 1, println Stderr [Txt (service @ '': otel export error: '' @ text)] w)
      else (errors, w))"

section \<open>The command line\<close>

fun arg_flag :: "string list \<Rightarrow> string \<Rightarrow> string \<Rightarrow> string \<times> bool" where
  "arg_flag [] name dflt = (dflt, True)"
| "arg_flag (a # as) name dflt =
     (if a = name then (case as of v # _ \<Rightarrow> (v, True) | [] \<Rightarrow> ([], False)) else arg_flag as name dflt)"

fun has_flag :: "string list \<Rightarrow> string \<Rightarrow> bool" where
  "has_flag [] name = False"
| "has_flag (a # as) name = (if a = name then True else has_flag as name)"

fun positional_from :: "bool \<Rightarrow> string list \<Rightarrow> string" where
  "positional_from skip [] = []"
| "positional_from skip (a # as) =
     (if skip then positional_from False as
      else if starts_with a ''--'' then positional_from True as
      else a)"

definition first_positional :: "string list \<Rightarrow> string" where
  "first_positional = positional_from False"

definition atoi_or :: "string \<Rightarrow> int \<Rightarrow> int" where
  "atoi_or s dflt =
     (if s = [] then dflt
      else (case stoi s of Inl _ \<Rightarrow> dflt | Inr (v, pos) \<Rightarrow> if pos \<noteq> List.length s then dflt else v))"

definition usage_lines :: "string list" where
  "usage_lines =
     [''usage: app <command>'',
      ''  pmon [--node NAME] [--sandbox-dir DIR] [--peer HOST:PORT] [--peer-node NAME]'',
      ''       [--chatterd-port P] [--health-interval-ms N]'',
      ''  chatterd serve [--host H] [--port P] [--node NAME] [--peer HOST:PORT] [--peer-node NAME]'',
      ''  chatterd send   --host H --port P --nick NICK --text TEXT [--timeout-ms T]'',
      ''  chatterd listen --host H --port P --nick NICK [--timeout-ms T]'',
      ''  sysagent [--node NAME] [--interval-ms N] [--once]'',
      ''  sysagent saturate --resource cpu|mem --seconds N [--workers K|--mb M]'',
      ''  fwatch snapshot DIR'',
      ''  fwatch watch DIR [--sandbox] [--timeout-ms T]'']"

definition fleet_usage :: "world \<Rightarrow> (int \<times> world) option" where
  "fleet_usage w = Some (2, emit (Print Stderr (List.map Txt usage_lines)) w)"

definition main_chatterd :: "string list \<Rightarrow> world \<Rightarrow> (int \<times> world) option" where
  "main_chatterd rest w = (case rest of
     [] \<Rightarrow> fleet_usage w
   | sub # args \<Rightarrow>
       if sub = ''serve'' then do {
         let host = fst (arg_flag args ''--host'' ''0.0.0.0'');
         let port_s = fst (arg_flag args ''--port'' ''47100'');
         let node = fst (arg_flag args ''--node'' ''node1'');
         let peer = fst (arg_flag args ''--peer'' []);
         let peer_node = fst (arg_flag args ''--peer-node'' []);
         (enabled, w) \<leftarrow> telemetry_init ''chatterd'' node w;
         (code, w) \<leftarrow> chatterd_serve host (atoi_or port_s 47100) node peer peer_node w;
         Some (code, telemetry_shutdown enabled w) }
       else if sub = ''send'' then
         (let host = fst (arg_flag args ''--host'' ''127.0.0.1'');
              port_s = fst (arg_flag args ''--port'' ''47100'');
              (nick, ok1) = arg_flag args ''--nick'' [];
              (text, ok2) = arg_flag args ''--text'' [];
              timeout_s = fst (arg_flag args ''--timeout-ms'' ''3000'')
          in if \<not> ok1 \<or> \<not> ok2 \<or> nick = [] \<or> text = [] then fleet_usage w
             else chatterd_send host (atoi_or port_s 47100) nick text (atoi_or timeout_s 3000) w)
       else if sub = ''listen'' then
         (let host = fst (arg_flag args ''--host'' ''127.0.0.1'');
              port_s = fst (arg_flag args ''--port'' ''47100'');
              (nick, ok1) = arg_flag args ''--nick'' [];
              timeout_s = fst (arg_flag args ''--timeout-ms'' ''5000'')
          in if \<not> ok1 \<or> nick = [] then fleet_usage w
             else chatterd_listen host (atoi_or port_s 47100) nick (atoi_or timeout_s 5000) w)
       else fleet_usage w)"

definition main_sysagent :: "string list \<Rightarrow> world \<Rightarrow> (int \<times> world) option" where
  "main_sysagent rest w =
     (if rest \<noteq> [] \<and> hd rest = ''saturate'' then
        let args = tl rest in
        sysagent_saturate (fst (arg_flag args ''--resource'' []))
          (atoi_or (fst (arg_flag args ''--seconds'' ''10'')) 10)
          (atoi_or (fst (arg_flag args ''--workers'' ''0'')) 0)
          (atoi_or (fst (arg_flag args ''--mb'' ''0'')) 0) w
      else do {
        let node = fst (arg_flag rest ''--node'' ''node1'');
        let interval_s = fst (arg_flag rest ''--interval-ms'' ''2000'');
        let once = has_flag rest ''--once'';
        (enabled, w) \<leftarrow> telemetry_init ''sysagent'' node w;
        (code, w) \<leftarrow> sysagent_run node (atoi_or interval_s 2000) once enabled w;
        Some (code, telemetry_shutdown enabled w) })"

text \<open>What the directory holds is a parameter of the snapshot command.\<close>

definition main_fwatch ::
  "error_code option \<Rightarrow> (string \<times> bool) list \<Rightarrow> string list \<Rightarrow> world \<Rightarrow> (int \<times> world) option" where
  "main_fwatch dir_error entries rest w = (case rest of
     [] \<Rightarrow> fleet_usage w
   | sub # args \<Rightarrow>
       if sub = ''snapshot'' then
         (let dir = first_positional args in
          if dir = [] then fleet_usage w else Some (fwatch_snapshot dir_error entries dir w))
       else if sub = ''watch'' then
         (let dir = first_positional args in
          if dir = [] then fleet_usage w
          else fwatch_watch dir (has_flag args ''--sandbox'')
            (atoi_or (fst (arg_flag args ''--timeout-ms'' ''0'')) 0) w)
       else fleet_usage w)"

definition main_pmon :: "string list \<Rightarrow> world \<Rightarrow> (int \<times> world) option" where
  "main_pmon rest w =
     (let (node, ok1) = arg_flag rest ''--node'' ''node1'';
          (sandbox_dir, ok2) = arg_flag rest ''--sandbox-dir'' ''/tmp/fwatch-sandbox'';
          (peer, ok3) = arg_flag rest ''--peer'' [];
          (peer_node, ok4) = arg_flag rest ''--peer-node'' [];
          (port_s, ok5) = arg_flag rest ''--chatterd-port'' ''47100'';
          (health_s, ok6) = arg_flag rest ''--health-interval-ms'' ''2000''
      in if \<not> (ok1 \<and> ok2 \<and> ok3 \<and> ok4 \<and> ok5 \<and> ok6) then fleet_usage w
         else pmon_run node sandbox_dir peer peer_node (atoi_or port_s 47100) (atoi_or health_s 2000) w)"

text \<open>\<open>argv\<close> without the program name.\<close>

definition fleet_main ::
  "error_code option \<Rightarrow> (string \<times> bool) list \<Rightarrow> string list \<Rightarrow> world \<Rightarrow> (int \<times> world) option" where
  "fleet_main dir_error entries argv w = (case argv of
     [] \<Rightarrow> fleet_usage w
   | cmd # rest \<Rightarrow>
       if cmd = ''pmon'' then main_pmon rest w
       else if cmd = ''chatterd'' then main_chatterd rest w
       else if cmd = ''sysagent'' then main_sysagent rest w
       else if cmd = ''fwatch'' then main_fwatch dir_error entries rest w
       else fleet_usage w)"

section \<open>What the scanner finds\<close>

lemma atoi_or_show_int: "- (2 ^ 31) \<le> i \<Longrightarrow> i < 2 ^ 31 \<Longrightarrow> atoi_or (show_int i) dflt = i"
  by (auto simp: atoi_or_def stoi_show_int) (simp add: show_int_def split: if_splits)

text \<open>A value that is not itself one of the option names cannot be mistaken for one.\<close>

definition plain :: "string \<Rightarrow> bool" where
  "plain s \<longleftrightarrow> \<not> starts_with s ''--''"

lemma plain_ne: "plain s \<Longrightarrow> starts_with t ''--'' \<Longrightarrow> s \<noteq> t"
  by (auto simp: plain_def)

lemma plain_show_int [simp]: "plain (show_int i)"
proof -
  show ?thesis
  proof (cases "i < 0")
    case True
    obtain c cs where c: "show_nat (nat (- i)) = c # cs" using show_nat_not_Nil by (cases "show_nat (nat (- i))") auto
    with show_nat_hd(2) [of "nat (- i)"] True show ?thesis by (simp add: plain_def starts_with_def show_int_def)
  next
    case False
    obtain c cs where c: "show_nat (nat i) = c # cs" using show_nat_not_Nil by (cases "show_nat (nat i)") auto
    with show_nat_hd(2) [of "nat i"] False show ?thesis by (simp add: plain_def starts_with_def show_int_def)
  qed
qed

section \<open>Properties\<close>

text \<open>What the supervisor executes is what was asked for: the argument vector it builds for the
  chat daemon, scanned by \<open>main\<close>, serves on all interfaces with exactly the given port, node and
  peer, with telemetry around it.\<close>

lemma fleet_chatterd_args:
  assumes "plain node" and "plain peer" and "plain peer_node" and "peer \<noteq> []"
    and "- (2 ^ 31) \<le> port" and "port < 2 ^ 31"
  shows "fleet_main de es (chatterd_args node peer peer_node port) w = do {
     (enabled, w) \<leftarrow> telemetry_init ''chatterd'' node w;
     (code, w) \<leftarrow> chatterd_serve ''0.0.0.0'' port node peer peer_node w;
     Some (code, telemetry_shutdown enabled w) }"
proof -
  have "node \<noteq> ''--host''" "node \<noteq> ''--port''" "node \<noteq> ''--node''" "node \<noteq> ''--peer''" "node \<noteq> ''--peer-node''"
    "peer \<noteq> ''--host''" "peer \<noteq> ''--port''" "peer \<noteq> ''--node''" "peer \<noteq> ''--peer''" "peer \<noteq> ''--peer-node''"
    "show_int port \<noteq> ''--host''" "show_int port \<noteq> ''--port''" "show_int port \<noteq> ''--node''" "show_int port \<noteq> ''--peer''"
    "show_int port \<noteq> ''--peer-node''"
    using assms(1,2) plain_show_int [of port] by (auto simp: plain_def starts_with_def)
  with assms(4-6) show ?thesis
    by (simp add: fleet_main_def main_chatterd_def chatterd_args_def atoi_or_show_int)
qed

text \<open>The watcher the supervisor starts is sandboxed: executed with the arguments built for it, it
  enforces the Landlock domain of its directory before it looks at anything, or ends with 1.\<close>

lemma fleet_fwatch_sandboxed:
  assumes "spec \<in> set (fleet_specs node dir peer peer_node port)" and "spec_name spec = ''fwatch''"
    and "plain dir" and "dir \<noteq> []" and "fleet_main de es (spec_args spec) w = Some (rc, w')"
  shows "enforced dir (since w w') \<or> rc = 1 \<and> list_all (\<lambda>e. \<not> watches (fst e)) (since w w')"
proof -
  from assms(1,2) have "spec_args spec = [''fwatch'', ''watch'', dir, ''--sandbox'']"
    by (auto simp: fleet_specs_def)
  moreover from assms(3) have "dir \<noteq> ''--timeout-ms''" by (auto simp: plain_def starts_with_def)
  ultimately have "fwatch_watch dir True (atoi_or ''0'' 0) w = Some (rc, w')" using assms(3-5)
    by (auto simp: fleet_main_def main_fwatch_def first_positional_def plain_def Let_def split: if_splits)
  then show ?thesis by (rule fwatch_watch_closed)
qed

end
