(* ===== verification/Scaling.thy ===== *)
theory Scaling
  imports Chatterd
begin

text \<open>
  The chat server in two engines, \<open>main.cpp\<close> of \<open>examples/22-scaling-the-server\<close>: a thread per
  connection, and one thread with epoll, non-blocking sockets and an outbound queue per
  connection. Both cut frames incrementally from a buffer. The theory holds the codec, the two
  engines, the clients and the command line; \<open>ScalingProps\<close> holds what is proved of them.
\<close>

section \<open>The codec\<close>

abbreviation T_join :: byte where "T_join \<equiv> 1"
abbreviation T_msg :: byte where "T_msg \<equiv> 2"
abbreviation T_deliver :: byte where "T_deliver \<equiv> 3"
abbreviation T_welcome :: byte where "T_welcome \<equiv> 4"

definition sc_encode :: "byte \<Rightarrow> byte list \<Rightarrow> byte list" where
  "sc_encode t p = [67, 72, 1, t, be16_hi (List.length p), be16_lo (List.length p)] @ p"

definition sc_deliver_payload :: "string \<Rightarrow> byte list \<Rightarrow> byte list" where
  "sc_deliver_payload nick text = bytes_of nick @ [0] @ text"

text \<open>The result and the buffer after the call.\<close>

definition sc_take_frame :: "byte list \<Rightarrow> frame option \<times> byte list" where
  "sc_take_frame buf =
     (if List.length buf < 6 then (None, buf)
      else if buf ! 0 \<noteq> 67 \<or> buf ! 1 \<noteq> 72 \<or> buf ! 2 \<noteq> 1 then (None, [])
      else let len = be16_value (buf ! 4) (buf ! 5)
           in if List.length buf < 6 + len then (None, buf)
              else (Some \<lparr>ftype = buf ! 3, payload = take len (drop 6 buf)\<rparr>, drop (6 + len) buf))"

lemma sc_take_frame_shorter: "sc_take_frame buf = (Some f, rest) \<Longrightarrow> List.length rest < List.length buf"
  by (auto simp: sc_take_frame_def Let_def split: if_splits)

text \<open>\<open>while (auto fr = take_frame(buf))\<close>: the frames, in order, and the buffer left.\<close>

function sc_drain :: "byte list \<Rightarrow> frame list \<times> byte list" where
  "sc_drain buf = (case sc_take_frame buf of
     (None, rest) \<Rightarrow> ([], rest)
   | (Some f, rest) \<Rightarrow> (case sc_drain rest of (fs, r) \<Rightarrow> (f # fs, r)))"
  by pat_completeness auto
termination
proof (relation "measure List.length", goal_cases)
  case (2 buf x y f)
  then have "sc_take_frame buf = (Some f, y)" by simp
  then show ?case by (simp add: sc_take_frame_shorter)
qed simp

declare sc_drain.simps [simp del]

section \<open>Sockets\<close>

definition sc_make_listener :: "int \<Rightarrow> bool \<Rightarrow> world \<Rightarrow> ((error_code + int \<times> int) \<times> world) option" where
  "sc_make_listener port nonblock w = do {
     (s, w) \<leftarrow> sys Socket w;
     if rv s < 0 then Some (Inl (System_error (eno s)), w)
     else do {
       let fd = rv s;
       let w = (if nonblock then emit (Setfl fd 0 True) w else w);
       let w = emit (Reuseaddr fd) w;
       (b, w) \<leftarrow> sys (Bind fd ''127.0.0.1'' port) w;
       if rv b \<noteq> 0 then Some (Inl (System_error (eno b)), fd_reset fd w)
       else do {
         (l, w) \<leftarrow> sys (Listen fd 128) w;
         if rv l \<noteq> 0 then Some (Inl (System_error (eno l)), fd_reset fd w)
         else do {
           (g, w) \<leftarrow> sys (Net (Net_getsockname fd)) w;
           if rv g < 0 then Some (Inl (System_error (eno g)), fd_reset fd w)
           else Some (Inr (fd, rv g), w) } } } }"

definition sc_make_signalfd :: "world \<Rightarrow> ((error_code + int) \<times> world) option" where
  "sc_make_signalfd w = do {
     (m, w) \<leftarrow> sys (Proc Proc_block_signals) w;
     if rv m \<noteq> 0 then Some (Inl (System_error (eno m)), w)
     else do {
       (s, w) \<leftarrow> sys (Ev Ev_signalfd) w;
       if rv s < 0 then Some (Inl (System_error (eno s)), w) else Some (Inr (rv s), w) } }"

definition sc_write_all_turn :: "int \<Rightarrow> byte list \<Rightarrow> world \<Rightarrow> ((byte list, bool) ctl \<times> world) option" where
  "sc_write_all_turn fd data w =
     (if data \<noteq> [] then do {
        (n, w) \<leftarrow> sys (Send fd data) w;
        if rv n > 0 then Some (Continue (drop (nat (rv n)) data), w)
        else if rv n < 0 \<and> eno n = EINTR then Some (Continue data, w)
        else Some (Break False, w) }
      else Some (Break True, w))"

definition sc_write_all :: "int \<Rightarrow> byte list \<Rightarrow> world \<Rightarrow> (bool \<times> world) option" where
  "sc_write_all fd data = loop (sc_write_all_turn fd) data"

section \<open>The threaded engine\<close>

text \<open>
  The registry: connections by id, with \<open>peak_\<close>. A snapshot is the values in the iteration order
  of the map, which the standard leaves open; here the order of insertion.
\<close>

record registry =
  reg_conns :: "(nat \<times> int) list"
  reg_peak :: int

definition sc_reg_add :: "nat \<Rightarrow> int \<Rightarrow> registry \<Rightarrow> registry" where
  "sc_reg_add i fd r =
     (let cs = (if i \<in> fst ` set (reg_conns r) then reg_conns r else reg_conns r @ [(i, fd)]);
          n = int (List.length cs)
      in r\<lparr>reg_conns := cs, reg_peak := (if n > reg_peak r then n else reg_peak r)\<rparr>)"

definition sc_reg_remove :: "nat \<Rightarrow> registry \<Rightarrow> registry" where
  "sc_reg_remove i r = r\<lparr>reg_conns := filter (\<lambda>(j, _). j \<noteq> i) (reg_conns r)\<rparr>"

fun sc_send_each :: "int list \<Rightarrow> byte list \<Rightarrow> world \<Rightarrow> (unit \<times> world) option" where
  "sc_send_each [] bytes w = Some ((), w)"
| "sc_send_each (fd # fds) bytes w = do {
     (_, w) \<leftarrow> sc_write_all fd bytes w;
     sc_send_each fds bytes w }"

definition sc_reg_broadcast :: "byte list \<Rightarrow> registry \<Rightarrow> world \<Rightarrow> (unit \<times> world) option" where
  "sc_reg_broadcast bytes r = sc_send_each (List.map snd (reg_conns r)) bytes"

definition sc_shutdown_all :: "registry \<Rightarrow> world \<Rightarrow> world" where
  "sc_shutdown_all r = fold (\<lambda>(_, fd). emit (Net (Net_shutdown fd))) (reg_conns r)"

text \<open>
  One connection's thread. Its operations on the registry all threads share are calls of its
  trace: \<open>Hub_broadcast None True nick text\<close> is \<open>reg.broadcast\<close> of the DELIVER frame. The state is
  the nick.
\<close>

fun sc_serve_frames :: "frame list \<Rightarrow> string \<Rightarrow> world \<Rightarrow> string \<times> world" where
  "sc_serve_frames [] nick w = (nick, w)"
| "sc_serve_frames (f # fs) nick w =
     (if ftype f = T_join then sc_serve_frames fs (chars_of (payload f)) w
      else if ftype f = T_msg then sc_serve_frames fs nick
        (emit (Hub (Hub_broadcast None True nick (chars_of (payload f)))) (emit (Store ''messages'' 1) w))
      else sc_serve_frames fs nick w)"

definition sc_serve_conn_turn ::
  "int \<Rightarrow> string \<times> byte list \<Rightarrow> world \<Rightarrow> ((string \<times> byte list, unit) ctl \<times> world) option" where
  "sc_serve_conn_turn fd = (\<lambda>(nick, inbuf) w. do {
     (st, w) \<leftarrow> sys (Load_flag ''stop'') w;
     if rv st \<noteq> 0 then Some (Break (), w)
     else do {
       (n, w) \<leftarrow> sys (Recv fd 4096) w;
       if rv n \<le> 0 then Some (Break (), w)
       else (case sc_drain (inbuf @ filled n) of (fs, rest) \<Rightarrow>
         (case sc_serve_frames fs nick w of (nick, w) \<Rightarrow> Some (Continue (nick, rest), w))) } })"

definition sc_serve_conn :: "nat \<Rightarrow> int \<Rightarrow> world \<Rightarrow> (unit \<times> world) option" where
  "sc_serve_conn i fd w = do {
     (_, w) \<leftarrow> sc_write_all fd (sc_encode T_welcome []) w;
     (_, w) \<leftarrow> loop (sc_serve_conn_turn fd) (''?'', []) w;
     Some ((), emit (Hub (Hub_remove i)) w) }"

text \<open>The accept loop; \<open>add\<close> on the shared registry is a call too. The answer to
  \<open>Load_flag\<close> at the end is the counter and the peak the other threads left.\<close>

definition sc_threaded_turn :: "int \<Rightarrow> int \<Rightarrow> nat \<Rightarrow> world \<Rightarrow> ((nat, int option) ctl \<times> world) option" where
  "sc_threaded_turn lfd sigfd next_id w = do {
     (p, w) \<leftarrow> sys (Poll [(lfd, POLLIN), (sigfd, POLLIN)] (-1)) w;
     if rv p < 0 then
       if eno p = EINTR then Some (Continue next_id, w)
       else Some (Break (Some 1), println Stderr [Txt ''chatterd: poll: '', ErrorCode (System_error (eno p))] w)
     else if revents 1 p AND POLLIN \<noteq> 0 then Some (Break None, w)
     else if revents 0 p AND POLLIN \<noteq> 0 then do {
       (c, w) \<leftarrow> sys (Accept lfd) w;
       if rv c < 0 then Some (Continue next_id, w)
       else do {
         let w = emit (Hub (Hub_add next_id (rv c) ''?'' False)) w;
         Some (Continue (next_id + 1), emit (Spawn ''serve_conn'' [show_nat next_id] (rv c)) w) } }
     else Some (Continue next_id, w) }"

definition sc_serve_threaded :: "int \<Rightarrow> world \<Rightarrow> (int \<times> world) option" where
  "sc_serve_threaded port w = do {
     (l, w) \<leftarrow> sc_make_listener port False w;
     (case l of
       Inl e \<Rightarrow> Some (1, println Stderr [Txt ''chatterd: listen: '', ErrorCode e] w)
     | Inr (lfd, bound) \<Rightarrow> do {
         (s, w) \<leftarrow> sc_make_signalfd w;
         (case s of
           Inl e \<Rightarrow> Some (1, fd_reset lfd (println Stderr [Txt ''chatterd: signalfd: '', ErrorCode e] w))
         | Inr sigfd \<Rightarrow> do {
             let w = println Stderr [Txt (''chatterd: serving engine=threaded on 127.0.0.1:'' @ show_int bound)] w;
             (r, w) \<leftarrow> loop (sc_threaded_turn lfd sigfd) 0 w;
             (case r of
               Some rc \<Rightarrow> do {
                 (_, w) \<leftarrow> sys (Proc (Proc_join ''workers'')) w;
                 Some (rc, fd_reset lfd (fd_reset sigfd w)) }
             | None \<Rightarrow> do {
                 let w = fd_reset lfd w;
                 let w = emit (Hub Hub_shutdown_all) w;
                 (_, w) \<leftarrow> sys (Proc (Proc_join ''workers'')) w;
                 (m, w) \<leftarrow> sys (Load_flag ''messages'') w;
                 (p, w) \<leftarrow> sys (Load_flag ''peak'') w;
                 Some (0, fd_reset sigfd (println Stderr [Txt (''chatterd: stopped engine=threaded messages='' @ show_int (rv m)
                   @ '' peak_conns='' @ show_int (rv p))] w)) }) }) }) }"

section \<open>The epoll engine\<close>

text \<open>
  The connections by token, in the iteration order of the map (here the order of insertion).
  \<open>conns_.at(tok)\<close> on a token that is not there would throw: the run has no result then. The
  64-bit message counter and tokens are naturals: they count events of one run.
\<close>

record econn =
  e_fd :: int
  e_nick :: string
  e_inbuf :: "byte list"
  e_outbuf :: "byte list"
  e_want_write :: bool
  e_dead :: bool

record epoll_server =
  es_conns :: "(nat \<times> econn) list"
  es_next :: nat
  es_messages :: nat
  es_peak :: int

abbreviation EPOLLIN :: u32 where "EPOLLIN \<equiv> 1"
abbreviation EPOLLOUT :: u32 where "EPOLLOUT \<equiv> 4"
abbreviation EPOLLERR :: u32 where "EPOLLERR \<equiv> 8"
abbreviation EPOLLHUP :: u32 where "EPOLLHUP \<equiv> 16"

definition conn_at :: "epoll_server \<Rightarrow> nat \<Rightarrow> econn option" where
  "conn_at s tok = map_of (es_conns s) tok"

definition upd_conn :: "nat \<Rightarrow> (econn \<Rightarrow> econn) \<Rightarrow> epoll_server \<Rightarrow> epoll_server" where
  "upd_conn tok f s = s\<lparr>es_conns := List.map (\<lambda>(t, c). if t = tok then (t, f c) else (t, c)) (es_conns s)\<rparr>"

text \<open>The send loop of \<open>flush\<close>: what is left in the queue, and whether the connection died.\<close>

definition sc_flush_turn :: "int \<Rightarrow> byte list \<Rightarrow> world \<Rightarrow> ((byte list, byte list \<times> bool) ctl \<times> world) option" where
  "sc_flush_turn fd outbuf w =
     (if outbuf \<noteq> [] then do {
        (n, w) \<leftarrow> sys (Send fd outbuf) w;
        if rv n > 0 then Some (Continue (drop (nat (rv n)) outbuf), w)
        else if rv n < 0 \<and> eno n = EAGAIN then Some (Break (outbuf, False), w)
        else if rv n < 0 \<and> eno n = EINTR then Some (Continue outbuf, w)
        else Some (Break (outbuf, True), w) }
      else Some (Break (outbuf, False), w))"

definition sc_flush :: "int \<Rightarrow> nat \<Rightarrow> epoll_server \<Rightarrow> world \<Rightarrow> (epoll_server \<times> world) option" where
  "sc_flush epfd tok s w = (case conn_at s tok of
     None \<Rightarrow> None
   | Some c \<Rightarrow> do {
       ((out, died), w) \<leftarrow> loop (sc_flush_turn (e_fd c)) (e_outbuf c) w;
       if died then Some (upd_conn tok (\<lambda>c. c\<lparr>e_outbuf := out, e_dead := True\<rparr>) s, w)
       else (let need = (out \<noteq> []);
                 s = upd_conn tok (\<lambda>c. c\<lparr>e_outbuf := out\<rparr>) s
             in if need \<noteq> e_want_write c
                then Some (upd_conn tok (\<lambda>c. c\<lparr>e_want_write := need\<rparr>) s,
                  emit (Ev (Ev_epoll_mod (e_fd c) tok (EPOLLIN OR (if need then EPOLLOUT else 0)))) w)
                else Some (s, w)) })"

definition sc_queue :: "int \<Rightarrow> nat \<Rightarrow> byte list \<Rightarrow> epoll_server \<Rightarrow> world \<Rightarrow> (epoll_server \<times> world) option" where
  "sc_queue epfd tok bytes s w = (case conn_at s tok of
     None \<Rightarrow> None
   | Some _ \<Rightarrow> sc_flush epfd tok (upd_conn tok (\<lambda>c. c\<lparr>e_outbuf := e_outbuf c @ bytes\<rparr>) s) w)"

fun sc_queue_each :: "int \<Rightarrow> nat list \<Rightarrow> byte list \<Rightarrow> epoll_server \<Rightarrow> world \<Rightarrow> (epoll_server \<times> world) option" where
  "sc_queue_each epfd [] bytes s w = Some (s, w)"
| "sc_queue_each epfd (t # ts) bytes s w = do {
     (s, w) \<leftarrow> sc_queue epfd t bytes s w;
     sc_queue_each epfd ts bytes s w }"

definition sc_broadcast :: "int \<Rightarrow> byte list \<Rightarrow> epoll_server \<Rightarrow> world \<Rightarrow> (epoll_server \<times> world) option" where
  "sc_broadcast epfd bytes s = sc_queue_each epfd (List.map fst (es_conns s)) bytes s"

definition sc_accept_turn ::
  "int \<Rightarrow> int \<Rightarrow> epoll_server \<Rightarrow> world \<Rightarrow> ((epoll_server, epoll_server) ctl \<times> world) option" where
  "sc_accept_turn epfd lfd s w = do {
     (c, w) \<leftarrow> sys (Accept lfd) w;
     if rv c < 0 then Some (Break s, w)
     else do {
       let tok = es_next s;
       let s = s\<lparr>es_next := tok + 1\<rparr>;
       (a, w) \<leftarrow> sys (Ev (Ev_epoll_add (rv c) tok EPOLLIN)) w;
       if rv a \<noteq> 0 then Some (Continue s, emit (Close (rv c)) w)
       else do {
         let conn = \<lparr>e_fd = rv c, e_nick = ''?'', e_inbuf = [], e_outbuf = [], e_want_write = False, e_dead = False\<rparr>;
         let s = s\<lparr>es_conns := es_conns s @ [(tok, conn)]\<rparr>;
         let n = int (List.length (es_conns s));
         let s = s\<lparr>es_peak := (if n > es_peak s then n else es_peak s)\<rparr>;
         (s, w) \<leftarrow> sc_queue epfd tok (sc_encode T_welcome []) s w;
         Some (Continue s, w) } } }"

text \<open>The read loop: the buffer and whether the connection died.\<close>

definition sc_read_turn :: "int \<Rightarrow> byte list \<Rightarrow> world \<Rightarrow> ((byte list, byte list \<times> bool) ctl \<times> world) option" where
  "sc_read_turn fd inbuf w = do {
     (n, w) \<leftarrow> sys (Recv fd 4096) w;
     if rv n > 0 then Some (Continue (inbuf @ filled n), w)
     else if rv n = 0 then Some (Break (inbuf, True), w)
     else if eno n = EAGAIN then Some (Break (inbuf, False), w)
     else if eno n = EINTR then Some (Continue inbuf, w)
     else Some (Break (inbuf, True), w) }"

fun sc_process :: "int \<Rightarrow> nat \<Rightarrow> frame list \<Rightarrow> epoll_server \<Rightarrow> world \<Rightarrow> (epoll_server \<times> world) option" where
  "sc_process epfd tok [] s w = Some (s, w)"
| "sc_process epfd tok (f # fs) s w =
     (if ftype f = T_join then
        sc_process epfd tok fs (upd_conn tok (\<lambda>c. c\<lparr>e_nick := chars_of (payload f)\<rparr>) s) w
      else if ftype f = T_msg then (case conn_at s tok of
          None \<Rightarrow> None
        | Some c \<Rightarrow> do {
            (s, w) \<leftarrow> sc_broadcast epfd (sc_encode T_deliver (sc_deliver_payload (e_nick c) (payload f)))
              (s\<lparr>es_messages := es_messages s + 1\<rparr>) w;
            sc_process epfd tok fs s w })
      else sc_process epfd tok fs s w)"

definition sc_on_readable :: "int \<Rightarrow> nat \<Rightarrow> epoll_server \<Rightarrow> world \<Rightarrow> (epoll_server \<times> world) option" where
  "sc_on_readable epfd tok s w = (case conn_at s tok of
     None \<Rightarrow> None
   | Some c \<Rightarrow> do {
       ((inbuf, died), w) \<leftarrow> loop (sc_read_turn (e_fd c)) (e_inbuf c) w;
       if died then Some (upd_conn tok (\<lambda>c. c\<lparr>e_inbuf := inbuf, e_dead := True\<rparr>) s, w)
       else (case sc_drain inbuf of (fs, rest) \<Rightarrow>
         sc_process epfd tok fs (upd_conn tok (\<lambda>c. c\<lparr>e_inbuf := rest\<rparr>) s) w) })"

text \<open>Erasing a connection destroys its \<open>Fd\<close>.\<close>

fun sc_reap :: "(nat \<times> econn) list \<Rightarrow> world \<Rightarrow> (nat \<times> econn) list \<times> world" where
  "sc_reap [] w = ([], w)"
| "sc_reap ((t, c) # cs) w =
     (if e_dead c then sc_reap cs (fd_reset (e_fd c) (emit (Ev (Ev_epoll_del (e_fd c))) w))
      else (case sc_reap cs w of (cs', w') \<Rightarrow> ((t, c) # cs', w')))"

definition sc_reap_closed :: "epoll_server \<Rightarrow> world \<Rightarrow> epoll_server \<times> world" where
  "sc_reap_closed s w = (case sc_reap (es_conns s) w of (cs, w) \<Rightarrow> (s\<lparr>es_conns := cs\<rparr>, w))"

text \<open>One batch of events; \<open>Inr rc\<close> where the signal ends the server.\<close>

fun sc_events ::
  "int \<Rightarrow> int \<Rightarrow> (nat \<times> u32) list \<Rightarrow> epoll_server \<Rightarrow> world \<Rightarrow> ((epoll_server + epoll_server \<times> int) \<times> world) option" where
  "sc_events epfd lfd [] s w = Some (Inl s, w)"
| "sc_events epfd lfd ((tok, ev) # es) s w =
     (if tok = 0 then do {
        (s, w) \<leftarrow> loop (sc_accept_turn epfd lfd) s w;
        sc_events epfd lfd es s w }
      else if tok = 1 then
        (case sc_reap_closed s w of (s, w) \<Rightarrow>
          Some (Inr (s, 0), println Stderr [Txt (''chatterd: stopped engine=epoll messages='' @ show_nat (es_messages s)
            @ '' peak_conns='' @ show_int (es_peak s))] w))
      else if conn_at s tok = None then sc_events epfd lfd es s w
      else do {
        let s = (if ev AND (EPOLLHUP OR EPOLLERR) \<noteq> 0 then upd_conn tok (\<lambda>c. c\<lparr>e_dead := True\<rparr>) s else s);
        (s, w) \<leftarrow> (if ev AND EPOLLIN \<noteq> 0 then sc_on_readable epfd tok s w else Some (s, w));
        (s, w) \<leftarrow> (if conn_at s tok \<noteq> None \<and> ev AND EPOLLOUT \<noteq> 0 then sc_flush epfd tok s w else Some (s, w));
        sc_events epfd lfd es s w })"

definition sc_epoll_turn ::
  "int \<Rightarrow> int \<Rightarrow> epoll_server \<Rightarrow> world \<Rightarrow> ((epoll_server, epoll_server \<times> int) ctl \<times> world) option" where
  "sc_epoll_turn epfd lfd s w = do {
     (n, w) \<leftarrow> sys (Ev (Ev_epoll_wait 64)) w;
     if rv n < 0 then
       if eno n = EINTR then Some (Continue s, w)
       else Some (Break (s, 1), println Stderr [Txt ''chatterd: epoll_wait: '', ErrorCode (System_error (eno n))] w)
     else do {
       (r, w) \<leftarrow> sc_events epfd lfd (evs n) s w;
       (case r of
         Inr res \<Rightarrow> Some (Break res, w)
       | Inl s \<Rightarrow> (case sc_reap_closed s w of (s, w) \<Rightarrow> Some (Continue s, w))) } }"

text \<open>The members are destroyed in reverse order: the connections, the signalfd, the listener, epoll.\<close>

definition sc_destroy :: "int \<Rightarrow> int \<Rightarrow> int \<Rightarrow> epoll_server \<Rightarrow> world \<Rightarrow> world" where
  "sc_destroy epfd lfd sigfd s w =
     fd_reset epfd (fd_reset lfd (fd_reset sigfd (fold (\<lambda>(_, c). fd_reset (e_fd c)) (es_conns s) w)))"

definition sc_serve_epoll :: "int \<Rightarrow> world \<Rightarrow> (int \<times> world) option" where
  "sc_serve_epoll port w = do {
     (l, w) \<leftarrow> sc_make_listener port True w;
     (case l of
       Inl e \<Rightarrow> Some (1, println Stderr [Txt ''chatterd: listen: '', ErrorCode e] w)
     | Inr (lfd, bound) \<Rightarrow> do {
         (s, w) \<leftarrow> sc_make_signalfd w;
         (case s of
           Inl e \<Rightarrow> Some (1, fd_reset lfd (println Stderr [Txt ''chatterd: signalfd: '', ErrorCode e] w))
         | Inr sigfd \<Rightarrow> do {
             (ep, w) \<leftarrow> sys (Ev Ev_epoll_create) w;
             let epfd = rv ep;
             if epfd < 0 then Some (1, fd_reset lfd (fd_reset sigfd (println Stderr
               [Txt ''chatterd: epoll_create1: '', ErrorCode (System_error (eno ep))] w)))
             else do {
               let s0 = \<lparr>es_conns = [], es_next = 2, es_messages = 0, es_peak = 0\<rparr>;
               (a, w) \<leftarrow> sys (Ev (Ev_epoll_add lfd 0 EPOLLIN)) w;
               if rv a \<noteq> 0 then Some (1, fd_reset sigfd (fd_reset epfd (fd_reset lfd (println Stderr
                 [Txt ''chatterd: epoll_ctl: '', ErrorCode (System_error (eno a))] w))))
               else do {
                 (b, w) \<leftarrow> sys (Ev (Ev_epoll_add sigfd 1 EPOLLIN)) w;
                 if rv b \<noteq> 0 then Some (1, fd_reset sigfd (fd_reset epfd (fd_reset lfd (println Stderr
                   [Txt ''chatterd: epoll_ctl: '', ErrorCode (System_error (eno b))] w))))
                 else do {
                   let w = println Stderr [Txt (''chatterd: serving engine=epoll on 127.0.0.1:'' @ show_int bound)] w;
                   ((s, rc), w) \<leftarrow> loop (sc_epoll_turn epfd lfd) s0 w;
                   Some (rc, sc_destroy epfd lfd sigfd s w) } } } }) }) }"

section \<open>The clients\<close>

definition sc_connect_to :: "int \<Rightarrow> world \<Rightarrow> ((error_code + int) \<times> world) option" where
  "sc_connect_to port w = do {
     (s, w) \<leftarrow> sys Socket w;
     if rv s < 0 then Some (Inl (System_error (eno s)), w)
     else do {
       (c, w) \<leftarrow> sys (Connect (rv s) ''127.0.0.1'' port) w;
       if rv c \<noteq> 0 then Some (Inl (System_error (eno c)), fd_reset (rv s) w)
       else Some (Inr (rv s), w) } }"

text \<open>\<open>recv_frame\<close> with its in-out buffer.\<close>

definition sc_recv_turn ::
  "int \<Rightarrow> byte list \<Rightarrow> world \<Rightarrow> ((byte list, frame option \<times> byte list) ctl \<times> world) option" where
  "sc_recv_turn fd inbuf w = (case sc_take_frame inbuf of
     (Some f, rest) \<Rightarrow> Some (Break (Some f, rest), w)
   | (None, rest) \<Rightarrow> do {
       (n, w) \<leftarrow> sys (Recv fd 4096) w;
       if rv n \<le> 0 then Some (Break (None, rest), w)
       else Some (Continue (rest @ filled n), w) })"

definition sc_recv_frame :: "int \<Rightarrow> byte list \<Rightarrow> world \<Rightarrow> ((frame option \<times> byte list) \<times> world) option" where
  "sc_recv_frame fd = loop (sc_recv_turn fd)"

definition sc_split_deliver :: "byte list \<Rightarrow> string \<times> string" where
  "sc_split_deliver p = (case find_from 0 p of
     None \<Rightarrow> (''?'', chars_of p)
   | Some i \<Rightarrow> (chars_of (take i p), chars_of (drop (i + 1) p)))"

definition sc_echo_turn ::
  "int \<Rightarrow> string \<Rightarrow> string \<Rightarrow> byte list \<Rightarrow> world \<Rightarrow> ((byte list, unit) ctl \<times> world) option" where
  "sc_echo_turn fd nick text inbuf w = do {
     ((fr, inbuf), w) \<leftarrow> sc_recv_frame fd inbuf w;
     (case fr of
       None \<Rightarrow> Some (Break (), w)
     | Some f \<Rightarrow>
         if ftype f \<noteq> T_deliver then Some (Continue inbuf, w)
         else (case sc_split_deliver (payload f) of (dn, dt) \<Rightarrow>
           let w = emit (Fflush Stdout) (println Stdout [Txt (dn @ '': '' @ dt)] w)
           in if dn = nick \<and> dt = text then Some (Break (), w) else Some (Continue inbuf, w))) }"

definition sc_cmd_send :: "int \<Rightarrow> string \<Rightarrow> string \<Rightarrow> world \<Rightarrow> (int \<times> world) option" where
  "sc_cmd_send port nick text w = do {
     (c, w) \<leftarrow> sc_connect_to port w;
     (case c of
       Inl e \<Rightarrow> Some (1, println Stderr [Txt (''chatctl: cannot connect to 127.0.0.1:'' @ show_int port @ '': ''), ErrorCode e] w)
     | Inr fd \<Rightarrow> do {
         (ok, w) \<leftarrow> sc_write_all fd (sc_encode T_join (bytes_of nick)) w;
         (ok, w) \<leftarrow> (if ok then sc_write_all fd (sc_encode T_msg (bytes_of text)) w else Some (False, w));
         if \<not> ok then Some (1, fd_reset fd (println Stderr [Txt ''chatctl: send failed''] w))
         else do {
           (_, w) \<leftarrow> loop (sc_echo_turn fd nick text) [] w;
           Some (0, fd_reset fd w) } }) }"

definition sc_listen_turn ::
  "int \<Rightarrow> int \<Rightarrow> int \<times> byte list \<Rightarrow> world \<Rightarrow> ((int \<times> byte list, int) ctl \<times> world) option" where
  "sc_listen_turn fd count = (\<lambda>(got, inbuf) w.
     if got < count then do {
       ((fr, inbuf), w) \<leftarrow> sc_recv_frame fd inbuf w;
       (case fr of
         None \<Rightarrow> Some (Break 1, println Stderr [Txt (''chatctl: timed out after '' @ show_int got @ '' of ''
           @ show_int count @ '' messages'')] w)
       | Some f \<Rightarrow>
           if ftype f \<noteq> T_deliver then Some (Continue (got, inbuf), w)
           else (case sc_split_deliver (payload f) of (dn, dt) \<Rightarrow>
             Some (Continue (got + 1, inbuf), emit (Fflush Stdout) (println Stdout [Txt (dn @ '': '' @ dt)] w)))) }
     else Some (Break 0, w))"

definition sc_cmd_listen :: "int \<Rightarrow> string \<Rightarrow> int \<Rightarrow> world \<Rightarrow> (int \<times> world) option" where
  "sc_cmd_listen port nick count w = do {
     (c, w) \<leftarrow> sc_connect_to port w;
     (case c of
       Inl e \<Rightarrow> Some (1, println Stderr [Txt (''chatctl: cannot connect to 127.0.0.1:'' @ show_int port @ '': ''), ErrorCode e] w)
     | Inr fd \<Rightarrow> do {
         (ok, w) \<leftarrow> sc_write_all fd (sc_encode T_join (bytes_of nick)) (emit (Rcvtimeo fd 10 0) w);
         if \<not> ok then Some (1, fd_reset fd (println Stderr [Txt ''chatctl: send failed''] w))
         else do {
           (rc, w) \<leftarrow> loop (sc_listen_turn fd count) (0, []) w;
           Some (rc, fd_reset fd w) } }) }"

text \<open>One connection of the load test; the counters it shares are stored by adding 1.\<close>

definition sc_await_turn :: "int \<Rightarrow> byte \<Rightarrow> byte list \<Rightarrow> world \<Rightarrow> ((byte list, bool \<times> byte list) ctl \<times> world) option" where
  "sc_await_turn fd t inbuf w = do {
     ((fr, inbuf), w) \<leftarrow> sc_recv_frame fd inbuf w;
     (case fr of
       None \<Rightarrow> Some (Break (False, inbuf), w)
     | Some f \<Rightarrow> if ftype f = t then Some (Break (True, inbuf), w) else Some (Continue inbuf, w)) }"

definition sc_go_turn :: "unit \<Rightarrow> world \<Rightarrow> ((unit, unit) ctl \<times> world) option" where
  "sc_go_turn _ w = do {
     (g, w) \<leftarrow> sys (Load_flag ''go'') w;
     if rv g \<noteq> 0 then Some (Break (), w) else Some (Continue (), emit (Sleep_ms 1) w) }"

definition sc_flooder :: "int \<Rightarrow> nat \<Rightarrow> string \<Rightarrow> world \<Rightarrow> (unit \<times> world) option" where
  "sc_flooder port k text w = do {
     (c, w) \<leftarrow> sc_connect_to port w;
     (case c of
       Inl _ \<Rightarrow> Some ((), w)
     | Inr fd \<Rightarrow> do {
         (ok, w) \<leftarrow> sc_write_all fd (sc_encode T_join (bytes_of (''flooder'' @ show_nat k))) (emit (Rcvtimeo fd 10 0) w);
         if \<not> ok then Some ((), fd_reset fd w)
         else do {
           ((welcome, inbuf), w) \<leftarrow> loop (sc_await_turn fd T_welcome) [] w;
           if \<not> welcome then Some ((), fd_reset fd w)
           else do {
             (_, w) \<leftarrow> loop sc_go_turn () (emit (Store ''joined +'' 1) w);
             (_, w) \<leftarrow> (if k = 0 then sc_write_all fd (sc_encode T_msg (bytes_of text)) w else Some (True, w));
             ((got, inbuf), w) \<leftarrow> loop (sc_await_turn fd T_deliver) inbuf w;
             Some ((), fd_reset fd (if got then emit (Store ''delivered +'' 1) w else w)) } } }) }"

definition sc_flood_wait_turn :: "int \<Rightarrow> int \<Rightarrow> world \<Rightarrow> ((int, unit) ctl \<times> world) option" where
  "sc_flood_wait_turn n i w =
     (if i < 5000 then do {
        (j, w) \<leftarrow> sys (Load_flag ''joined'') w;
        if rv j < n then Some (Continue (i + 1), emit (Sleep_ms 1) w) else Some (Break (), w) }
      else Some (Break (), w))"

definition sc_cmd_flood :: "int \<Rightarrow> int \<Rightarrow> string \<Rightarrow> world \<Rightarrow> (int \<times> world) option" where
  "sc_cmd_flood port n text w = do {
     let w = fold (\<lambda>k. emit (Spawn ''flooder'' [show_int port, text] (int k))) [0..<nat n] w;
     (_, w) \<leftarrow> loop (sc_flood_wait_turn n) 0 w;
     (_, w) \<leftarrow> sys (Proc (Proc_join ''conns'')) (emit (Store ''go'' 1) w);
     (j, w) \<leftarrow> sys (Load_flag ''joined'') w;
     (d, w) \<leftarrow> sys (Load_flag ''delivered'') w;
     let w = println Stdout [Txt (''flood: connected '' @ show_int (rv j))] w;
     let w = println Stdout [Txt (''flood: delivered '' @ show_int (rv d))] w;
     Some (if rv j = n \<and> rv d = n then 0 else 1, w) }"

section \<open>The command line\<close>

definition sc_usage :: "world \<Rightarrow> (int \<times> world) option" where
  "sc_usage w = Some (2, fold (\<lambda>l. println Stderr [Txt l])
     [''usage: chatterd <command>'',
      ''  serve --engine threaded|epoll --port P   run the chat daemon'',
      ''  send  --port P NICK TEXT                 join, broadcast, print echoes'',
      ''  listen --port P NICK --count N           join, print N delivered lines'',
      ''  flood --port P N [--text TEXT]           open N conns, broadcast, count''] w)"

fun sc_flag :: "string list \<Rightarrow> string \<Rightarrow> string option" where
  "sc_flag (a # v # rest) name = (if a = name then Some v else sc_flag (v # rest) name)"
| "sc_flag _ name = None"

definition sc_parse_port :: "string option \<Rightarrow> int option" where
  "sc_parse_port s = (case s of
     None \<Rightarrow> None
   | Some t \<Rightarrow> (case stoi t of
       Inl _ \<Rightarrow> None
     | Inr (p, _) \<Rightarrow> if p < 0 \<or> p > 65535 then None else Some p))"

definition sc_main :: "string list \<Rightarrow> world \<Rightarrow> (int \<times> world) option" where
  "sc_main args w =
     (if args = [] then sc_usage w
      else let cmd = args ! 0 in
      if cmd = ''serve'' then
        (case (sc_flag args ''--engine'', sc_parse_port (sc_flag args ''--port'')) of
          (Some engine, Some port) \<Rightarrow>
            if engine = ''threaded'' then sc_serve_threaded port w
            else if engine = ''epoll'' then sc_serve_epoll port w
            else sc_usage w
        | _ \<Rightarrow> sc_usage w)
      else if cmd = ''send'' \<and> List.length args = 5 \<and> args ! 1 = ''--port'' then
        (case sc_parse_port (Some (args ! 2)) of
          None \<Rightarrow> sc_usage w
        | Some port \<Rightarrow> sc_cmd_send port (args ! 3) (args ! 4) w)
      else if cmd = ''listen'' \<and> List.length args = 6 \<and> args ! 1 = ''--port'' \<and> args ! 4 = ''--count'' then
        (case sc_parse_port (Some (args ! 2)) of
          None \<Rightarrow> sc_usage w
        | Some port \<Rightarrow> (case stoi (args ! 5) of
            Inl _ \<Rightarrow> sc_usage w
          | Inr (c, _) \<Rightarrow> if c \<le> 0 then sc_usage w else sc_cmd_listen port (args ! 3) c w))
      else if cmd = ''flood'' \<and> 4 \<le> List.length args \<and> args ! 1 = ''--port'' then
        (case sc_parse_port (Some (args ! 2)) of
          None \<Rightarrow> sc_usage w
        | Some port \<Rightarrow>
            let text = (case sc_flag args ''--text'' of Some t \<Rightarrow> t | None \<Rightarrow> ''flood'') in
            (case stoi (args ! 3) of
              Inl _ \<Rightarrow> sc_usage w
            | Inr (n, _) \<Rightarrow> if n \<le> 0 then sc_usage w else sc_cmd_flood port n text w))
      else sc_usage w)"

end
