(* ===== verification/FrameStream.thy ===== *)
theory FrameStream
  imports Prelude
begin

text \<open>
  Cutting frames from a byte stream that arrives in pieces. Several programs keep the bytes that
  have come in a buffer, append what the next read delivers and take every complete frame off the
  front. What the readers rely on is the interface \<open>frame_stream\<close>; the result, that the pieces do not
  matter, is proved once inside it.
\<close>

section \<open>Prefixes of a stream of frames\<close>

abbreviation stream_of :: "('f \<Rightarrow> 'b list) \<Rightarrow> 'f list \<Rightarrow> 'b list" where
  "stream_of enc fs \<equiv> concat (List.map enc fs)"

text \<open>What has arrived is a number of whole frames and a proper part of the next one.\<close>

definition partial :: "('f \<Rightarrow> 'b list) \<Rightarrow> 'f list \<Rightarrow> 'b list \<Rightarrow> bool" where
  "partial enc fs b \<longleftrightarrow> b = [] \<or> (\<exists>f gs. fs = f # gs \<and> strict_prefix b (enc f))"

lemma partial_Nil [simp]: "partial enc fs []"
  by (simp add: partial_def)

lemma stream_prefix_split:
  assumes "prefix p (stream_of enc fs)"
  shows "\<exists>fs1 fs2 b. fs = fs1 @ fs2 \<and> p = stream_of enc fs1 @ b \<and> partial enc fs2 b"
  using assms
proof (induction fs arbitrary: p)
  case Nil
  then show ?case by simp
next
  case (Cons f fs)
  show ?case
  proof (cases "prefix (enc f) p")
    case True
    then obtain q where q: "p = enc f @ q" by (rule prefixE)
    with Cons.prems have "prefix q (stream_of enc fs)" by simp
    from Cons.IH [OF this] obtain fs1 fs2 b
      where "fs = fs1 @ fs2" "q = stream_of enc fs1 @ b" "partial enc fs2 b" by blast
    with q show ?thesis by (intro exI [of _ "f # fs1"] exI [of _ fs2] exI [of _ b]) simp
  next
    case False
    from Cons.prems have "prefix p (enc f @ stream_of enc fs)" by simp
    then have "prefix p (enc f)" using False by (metis prefixI prefix_same_cases)
    with False have "strict_prefix p (enc f)" by (auto simp: strict_prefix_def)
    then show ?thesis
      by (intro exI [of _ "[]"] exI [of _ "f # fs"] exI [of _ p]) (simp add: partial_def)
  qed
qed

section \<open>The interface\<close>

text \<open>
  \<open>take_front\<close> takes one frame off the buffer, \<open>drain\<close> all there are; \<open>good\<close> are the frames whose
  encoding can be read back.
\<close>

locale frame_stream =
  fixes enc :: "'f \<Rightarrow> 'b list"
    and good :: "'f \<Rightarrow> bool"
    and take_front :: "'b list \<Rightarrow> 'f option \<times> 'b list"
    and drain :: "'b list \<Rightarrow> 'f list \<times> 'b list"
  assumes front_whole: "good f \<Longrightarrow> take_front (enc f @ rest) = (Some f, rest)"
    and front_part: "good f \<Longrightarrow> strict_prefix b (enc f) \<Longrightarrow> take_front b = (None, b)"
    and front_Nil: "take_front [] = (None, [])"
    and drain_rec: "drain buf = (case take_front buf of
      (None, rest) \<Rightarrow> ([], rest) | (Some f, rest) \<Rightarrow> (case drain rest of (fs, r) \<Rightarrow> (f # fs, r)))"
begin

text \<open>A reader that drains its buffer after every piece: the frames so far, and the buffer.\<close>

definition feed :: "'f list \<times> 'b list \<Rightarrow> 'b list \<Rightarrow> 'f list \<times> 'b list" where
  "feed = (\<lambda>(got, buf) chunk. case drain (buf @ chunk) of (fs, r) \<Rightarrow> (got @ fs, r))"

lemma drain_stream:
  assumes "list_all good fs" and "partial enc gs b" and "list_all good gs"
  shows "drain (stream_of enc fs @ b) = (fs, b)"
  using assms
proof (induction fs)
  case Nil
  then have "take_front b = (None, b)" by (auto simp: partial_def front_Nil intro: front_part)
  then show ?case by (simp add: drain_rec [of b])
next
  case (Cons f fs)
  then have "take_front (enc f @ stream_of enc fs @ b) = (Some f, stream_of enc fs @ b)"
    by (simp add: front_whole)
  with Cons show ?case by (simp add: drain_rec [of "enc f @ stream_of enc fs @ b"])
qed

lemma feed_step:
  assumes "fs = fs1 @ fs2" and "partial enc fs2 b" and "list_all good fs"
    and "prefix (stream_of enc fs1 @ b @ c) (stream_of enc fs)"
  shows "\<exists>gs1 gs2 b'. fs = gs1 @ gs2 \<and> partial enc gs2 b' \<and> feed (fs1, b) c = (gs1, b') \<and>
    stream_of enc gs1 @ b' = stream_of enc fs1 @ b @ c"
proof -
  from assms(1,4) have "prefix (b @ c) (stream_of enc fs2)" by simp
  from stream_prefix_split [OF this] obtain hs1 hs2 b'
    where h: "fs2 = hs1 @ hs2" "b @ c = stream_of enc hs1 @ b'" "partial enc hs2 b'" by blast
  with assms(1,3) have "drain (b @ c) = (hs1, b')" by (simp add: drain_stream [of hs1 hs2])
  with h assms(1) show ?thesis
    by (intro exI [of _ "fs1 @ hs1"] exI [of _ hs2] exI [of _ b']) (simp add: feed_def)
qed

text \<open>After any pieces of a stream of good frames the reader holds exactly the complete frames.\<close>

lemma feed_chunks:
  assumes "list_all good fs" and "prefix (concat chunks) (stream_of enc fs)"
  shows "\<exists>fs1 fs2 b. fs = fs1 @ fs2 \<and> partial enc fs2 b \<and> foldl feed ([], []) chunks = (fs1, b) \<and>
    stream_of enc fs1 @ b = concat chunks"
  using assms(2)
proof (induction chunks rule: rev_induct)
  case Nil
  then show ?case by simp
next
  case (snoc c cs)
  have "prefix (concat cs) (stream_of enc fs)" using snoc.prems by (simp add: append_prefixD)
  from snoc.IH [OF this] obtain fs1 fs2 b where IH: "fs = fs1 @ fs2" "partial enc fs2 b"
    "foldl feed ([], []) cs = (fs1, b)" "stream_of enc fs1 @ b = concat cs" by blast
  from IH(4) have e: "stream_of enc fs1 @ b @ c = concat cs @ c" by (metis append.assoc)
  with snoc.prems have "prefix (stream_of enc fs1 @ b @ c) (stream_of enc fs)"
    by (simp only: concat_append concat.simps append_Nil2)
  from feed_step [OF IH(1,2) assms(1) this] e IH(3) show ?case by simp
qed

lemma enc_not_Nil: "good f \<Longrightarrow> enc f \<noteq> []"
  using front_whole [of f "[]"] front_Nil by auto

lemma partial_whole:
  assumes "partial enc fs b" and "b = stream_of enc fs" and "list_all good fs"
  shows "fs = []"
proof (cases fs)
  case (Cons f gs)
  with assms(3) have "good f" by simp
  with assms(1,2) Cons enc_not_Nil [of f] show ?thesis
    by (auto simp: partial_def strict_prefix_def prefix_def)
qed simp

text \<open>A buffer that was drained and is drained again with more bytes behind it.\<close>

lemma drain_again:
  assumes "drain xs = (fs0, b0)" and "list_all good fs" and "prefix (xs @ ys) (stream_of enc fs)"
  shows "\<exists>fs1 fs2 b. fs = fs0 @ fs1 @ fs2 \<and> partial enc fs2 b \<and> xs @ ys = stream_of enc (fs0 @ fs1) @ b \<and>
    drain (b0 @ ys) = (fs1, b)"
proof -
  from assms(3) have "prefix xs (stream_of enc fs)" by (rule append_prefixD)
  from stream_prefix_split [OF this] obtain gs1 gs2 c where g: "fs = gs1 @ gs2" "xs = stream_of enc gs1 @ c" "partial enc gs2 c"
    by blast
  with assms(1,2) have e: "gs1 = fs0" "c = b0" by (simp_all add: drain_stream [of gs1 gs2])
  from assms(3) g(1,2) e have "prefix (b0 @ ys) (stream_of enc gs2)" by simp
  from stream_prefix_split [OF this] obtain fs1 fs2 b
    where h: "gs2 = fs1 @ fs2" "b0 @ ys = stream_of enc fs1 @ b" "partial enc fs2 b" by blast
  with assms(2) g(1) have "drain (b0 @ ys) = (fs1, b)" by (simp add: drain_stream [of fs1 fs2])
  with g h e show ?thesis by (intro exI [of _ fs1] exI [of _ fs2] exI [of _ b]) simp
qed

lemma feed_all:
  assumes "list_all good fs" and "concat chunks = stream_of enc fs"
  shows "foldl feed ([], []) chunks = (fs, [])"
proof -
  from assms(2) have "prefix (concat chunks) (stream_of enc fs)" by simp
  from feed_chunks [OF assms(1) this] assms(2) obtain fs1 fs2 b where f: "fs = fs1 @ fs2" "partial enc fs2 b"
    "foldl feed ([], []) chunks = (fs1, b)" "stream_of enc fs1 @ b = stream_of enc fs" by auto
  then have b: "b = stream_of enc fs2" by simp
  with f(1,2) assms(1) have "fs2 = []" by (auto intro: partial_whole)
  with f b show ?thesis by simp
qed

end

end
