(* ===== verification/ScalingProps.thy ===== *)
theory ScalingProps
  imports Scaling FrameStream
begin

text \<open>
  What is proved of the two chat servers of \<open>Scaling\<close>: the codec against the one of the capstone and
  as an instance of \<open>frame_stream\<close>; what a connection's thread broadcasts; what a step of the epoll engine
  adds to the streams of bytes its connections see; its loop as a refinement of an abstract server
  that sees only what the kernel answered to \<open>accept\<close> and \<open>recv\<close>; what it loses when a peer closes; and
  what a client makes of a payload that is too long.
\<close>

section \<open>The codec\<close>

definition sc_enc :: "frame \<Rightarrow> byte list" where
  "sc_enc f = sc_encode (ftype f) (payload f)"

lemma sc_enc_proto: "sc_enc f = proto_encode f"
  by (simp add: sc_enc_def sc_encode_def proto_encode_def proto_header_def kMagic0_def kMagic1_def kVersion_def)

lemma sc_deliver_payload_proto: "sc_deliver_payload nick text = proto_deliver_payload nick (chars_of text)"
  by (simp add: sc_deliver_payload_def proto_deliver_payload_def)

text \<open>Whatever the length of the payload: its length field is the length modulo \<open>65536\<close>.\<close>

lemma sc_take_frame_encode:
  "sc_take_frame (sc_encode t p @ rest) =
     (Some \<lparr>ftype = t, payload = take (List.length p mod 65536) p\<rparr>, drop (List.length p mod 65536) p @ rest)"
proof -
  define n where "n = List.length p mod 65536"
  define h where "h = [67, 72, 1, t, be16_hi (List.length p), be16_lo (List.length p)]"
  have h: "List.length h = 6" "h ! 0 = 67" "h ! 1 = 72" "h ! 2 = 1" "h ! 3 = t" "be16_value (h ! 4) (h ! 5) = n"
    by (simp_all add: h_def n_def be16_roundtrip_mod)
  have b: "sc_encode t p @ rest = h @ (p @ rest)" by (simp add: sc_encode_def h_def)
  have le: "n \<le> List.length p" by (simp add: n_def)
  then have "take n (p @ rest) = take n p" "drop n (p @ rest) = drop n p @ rest" by simp_all
  with h le show ?thesis unfolding b sc_take_frame_def Let_def n_def [symmetric] by (simp add: nth_append)
qed

lemma sc_take_frame_whole: "small_frame f \<Longrightarrow> sc_take_frame (sc_enc f @ rest) = (Some f, rest)"
  by (simp add: sc_enc_def sc_take_frame_encode)

lemma sc_take_frame_partial:
  assumes "small_frame f" and "strict_prefix b (sc_enc f)"
  shows "sc_take_frame b = (None, b)"
  using proto_part_header [OF assms [unfolded sc_enc_proto]] by (cases "6 \<le> List.length b") (simp_all add: sc_take_frame_def)

interpretation sc: frame_stream sc_enc small_frame sc_take_frame sc_drain
proof (unfold_locales, goal_cases)
  case (4 buf)
  show ?case by (rule sc_drain.simps)
qed (simp_all add: sc_take_frame_whole sc_take_frame_partial, simp add: sc_take_frame_def)

section \<open>What the frames of a connection make the server deliver\<close>

text \<open>The nick and text of each MSG, under the nick of the last JOIN before it.\<close>

fun sc_deliveries :: "string \<Rightarrow> frame list \<Rightarrow> (string \<times> byte list) list" where
  "sc_deliveries nick [] = []"
| "sc_deliveries nick (f # fs) =
     (if ftype f = T_join then sc_deliveries (chars_of (payload f)) fs
      else if ftype f = T_msg then (nick, payload f) # sc_deliveries nick fs
      else sc_deliveries nick fs)"

fun sc_nick_after :: "string \<Rightarrow> frame list \<Rightarrow> string" where
  "sc_nick_after nick [] = nick"
| "sc_nick_after nick (f # fs) = sc_nick_after (if ftype f = T_join then chars_of (payload f) else nick) fs"

lemma sc_deliveries_append [simp]:
  "sc_deliveries nick (fs @ gs) = sc_deliveries nick fs @ sc_deliveries (sc_nick_after nick fs) gs"
  "sc_nick_after nick (fs @ gs) = sc_nick_after (sc_nick_after nick fs) gs"
  by (induction fs arbitrary: nick) auto

definition sc_delivery_ops :: "(string \<times> byte list) list \<Rightarrow> hub_call list" where
  "sc_delivery_ops = List.map (\<lambda>(n, p). Hub_broadcast None True n (chars_of p))"

definition sc_delivery_bytes :: "(string \<times> byte list) list \<Rightarrow> byte list" where
  "sc_delivery_bytes ds = concat (List.map (\<lambda>(n, p). sc_encode T_deliver (sc_deliver_payload n p)) ds)"

lemma sc_delivery_simps [simp]:
  "sc_delivery_ops [] = []" "sc_delivery_ops (d # ds) = Hub_broadcast None True (fst d) (chars_of (snd d)) # sc_delivery_ops ds"
  "sc_delivery_ops (ds @ es) = sc_delivery_ops ds @ sc_delivery_ops es"
  "sc_delivery_bytes [] = []"
  "sc_delivery_bytes (d # ds) = sc_encode T_deliver (sc_deliver_payload (fst d) (snd d)) @ sc_delivery_bytes ds"
  "sc_delivery_bytes (ds @ es) = sc_delivery_bytes ds @ sc_delivery_bytes es"
  by (simp_all add: sc_delivery_ops_def sc_delivery_bytes_def case_prod_beta)

section \<open>The thread of a connection\<close>

lemma sc_serve_frames_spec:
  "sc_serve_frames fs nick w = (nick', w') \<Longrightarrow> nick' = sc_nick_after nick fs \<and> later w w' \<and>
     hub_ops (since w w') = sc_delivery_ops (sc_deliveries nick fs) \<and> received fd (since w w') = []"
proof (induction fs nick w rule: sc_serve_frames.induct)
  case (1 nick w)
  then show ?case by simp
next
  case (2 f fs nick w)
  show ?case
  proof (cases "ftype f = T_msg")
    case True
    let ?w1 = "emit (Hub (Hub_broadcast None True nick (chars_of (payload f)))) (emit (Store ''messages'' 1) w)"
    from True 2(4) have "sc_serve_frames fs nick ?w1 = (nick', w')" by simp
    from 2(2) [OF _ True this] True have h: "nick' = sc_nick_after nick fs" "later ?w1 w'"
      "hub_ops (since ?w1 w') = sc_delivery_ops (sc_deliveries nick fs)" "received fd (since ?w1 w') = []" by simp_all
    have "later w ?w1" by simp
    with h(2) have "later w w'" "since w w' = since w ?w1 @ since ?w1 w'"
      using later_trans [of w ?w1 w'] since_trans [of w ?w1 w'] by simp_all
    with h True show ?thesis by simp
  next
    case False
    with 2 show ?thesis by (simp split: if_splits)
  qed
qed

lemma sc_write_all_keeps [keeps_intros]:
  "only P w0 w \<Longrightarrow> (\<And>bs. P (Send fd bs)) \<Longrightarrow> keeps P w0 (sc_write_all fd data w)"
  unfolding sc_write_all_def sc_write_all_turn_def by (intro keeps_intros)

text \<open>
  What has been received is some frames, all of them handled, and the part of a frame that is in
  the buffer.
\<close>

definition sc_conn_inv :: "int \<Rightarrow> frame list \<Rightarrow> world \<Rightarrow> string \<times> byte list \<Rightarrow> world \<Rightarrow> bool" where
  "sc_conn_inv fd fs w = (\<lambda>(nick, inbuf) v. later w v \<and>
     (prefix (received fd (since w v)) (stream_of sc_enc fs) \<longrightarrow>
       (\<exists>fs1 fs2. fs = fs1 @ fs2 \<and> partial sc_enc fs2 inbuf \<and> received fd (since w v) = stream_of sc_enc fs1 @ inbuf \<and>
          hub_ops (since w v) = sc_delivery_ops (sc_deliveries ''?'' fs1) \<and> nick = sc_nick_after ''?'' fs1)))"

lemma sc_serve_conn_turn_inv:
  assumes "list_all small_frame fs" and "sc_conn_inv fd fs w st v"
  shows "sc_serve_conn_turn fd st v = Some (Continue st', v') \<Longrightarrow> sc_conn_inv fd fs w st' v'"
    and "sc_serve_conn_turn fd st v = Some (Break u, v') \<Longrightarrow> \<exists>st'. sc_conn_inv fd fs w st' v'"
proof -
  obtain nick inbuf where st: "st = (nick, inbuf)" by (cases st)
  with assms(2) have lv: "later w v" by (simp add: sc_conn_inv_def)
  { assume "sc_serve_conn_turn fd st v = Some (Continue st', v')"
    then obtain s v1 n v2 where s: "sys (Load_flag ''stop'') v = Some (s, v1)"
      and n: "sys (Recv fd 4096) v1 = Some (n, v2)" and d2: "snd (sc_drain (inbuf @ filled n)) = snd st'"
      and f2: "sc_serve_frames (fst (sc_drain (inbuf @ filled n))) nick v2 = (fst st', v')"
      by (auto simp: st sc_serve_conn_turn_def case_prod_beta prod_eq_iff split: if_splits)
    define fs' where "fs' = fst (sc_drain (inbuf @ filled n))"
    with d2 f2 have d: "sc_drain (inbuf @ filled n) = (fs', snd st')" and f: "sc_serve_frames fs' nick v2 = (fst st', v')"
      by (simp_all add: prod_eq_iff)
    note a1 = sys_after [OF lv s] note a2 = sys_after [OF a1(1) n]
    from sc_serve_frames_spec [OF f, of fd] have g: "fst st' = sc_nick_after nick fs'" "later v2 v'"
      "hub_ops (since v2 v') = sc_delivery_ops (sc_deliveries nick fs')" "received fd (since v2 v') = []" by simp_all
    have l: "later w v'" "since w v' = since w v2 @ since v2 v'"
      using later_trans [OF a2(1) g(2)] since_trans [OF a2(1) g(2)] by simp_all
    then have r: "received fd (since w v') = received fd (since w v) @ filled n"
      "hub_ops (since w v') = hub_ops (since w v) @ sc_delivery_ops (sc_deliveries nick fs')"
      using a1(2) a2(2) g by simp_all
    show "sc_conn_inv fd fs w st' v'"
      unfolding sc_conn_inv_def
    proof (clarsimp simp: case_prod_beta l(1))
      assume p: "prefix (received fd (since w v')) (stream_of sc_enc fs)"
      with r(1) have "prefix (received fd (since w v)) (stream_of sc_enc fs)" by (simp add: append_prefixD)
      with assms(2) obtain fs1 fs2 where i: "fs = fs1 @ fs2" "partial sc_enc fs2 inbuf"
        "received fd (since w v) = stream_of sc_enc fs1 @ inbuf"
        "hub_ops (since w v) = sc_delivery_ops (sc_deliveries ''?'' fs1)" "nick = sc_nick_after ''?'' fs1"
        by (auto simp: sc_conn_inv_def st)
      from p r(1) i(3) have "prefix (stream_of sc_enc fs1 @ inbuf @ filled n) (stream_of sc_enc fs)" by simp
      from sc.feed_step [OF i(1,2) assms(1) this] obtain gs1 gs2 b' where h: "fs = gs1 @ gs2" "partial sc_enc gs2 b'"
        "sc.feed (fs1, inbuf) (filled n) = (gs1, b')" "stream_of sc_enc gs1 @ b' = stream_of sc_enc fs1 @ inbuf @ filled n"
        by blast
      from h(3) d have "gs1 = fs1 @ fs'" "b' = snd st'" by (simp_all add: sc.feed_def)
      with h i r g(1) show "\<exists>fs1 fs2. fs = fs1 @ fs2 \<and> partial sc_enc fs2 (snd st') \<and>
          received fd (since w v') = stream_of sc_enc fs1 @ snd st' \<and>
          hub_ops (since w v') = sc_delivery_ops (sc_deliveries ''?'' fs1) \<and> fst st' = sc_nick_after ''?'' fs1"
        by (intro exI [of _ gs1] exI [of _ gs2]) simp
    qed }
  { assume "sc_serve_conn_turn fd st v = Some (Break u, v')"
    then consider (stopped) s where "sys (Load_flag ''stop'') v = Some (s, v')"
      | (ended) s v1 n where "sys (Load_flag ''stop'') v = Some (s, v1)" "sys (Recv fd 4096) v1 = Some (n, v')" "rv n \<le> 0"
      by (auto simp: st sc_serve_conn_turn_def case_prod_beta split: if_splits)
    then have "later w v' \<and> received fd (since w v') = received fd (since w v) \<and> hub_ops (since w v') = hub_ops (since w v)"
    proof cases
      case stopped
      then show ?thesis using sys_after [OF lv stopped] by simp
    next
      case ended
      note a1 = sys_after [OF lv ended(1)]
      from sys_after [OF a1(1) ended(2)] a1(2) ended(3) show ?thesis by simp
    qed
    with assms(2) show "\<exists>st'. sc_conn_inv fd fs w st' v'" by (intro exI [of _ st]) (simp add: st sc_conn_inv_def) }
qed

lemma sc_serve_conn_spec:
  assumes "sc_serve_conn i fd w = Some (u, w')" and "list_all small_frame fs"
    and "prefix (received fd (since w w')) (stream_of sc_enc fs)"
  shows "\<exists>fs1 fs2 b. fs = fs1 @ fs2 \<and> partial sc_enc fs2 b \<and> received fd (since w w') = stream_of sc_enc fs1 @ b \<and>
    hub_ops (since w w') = sc_delivery_ops (sc_deliveries ''?'' fs1) @ [Hub_remove i]"
proof -
  from assms(1) obtain r w1 u2 w2 where r: "sc_write_all fd (sc_encode T_welcome []) w = Some (r, w1)"
    and l: "loop (sc_serve_conn_turn fd) (''?'', []) w1 = Some (u2, w2)" and w': "w' = emit (Hub (Hub_remove i)) w2"
    by (auto simp: sc_serve_conn_def)
  from keepsD [OF sc_write_all_keeps [where P = "\<lambda>c. hub_op c = [] \<and> \<not> (\<exists>f n. c = Recv f n \<or> c = Read f n)", OF only_refl] r]
  have o: "later w w1" "list_all ((\<lambda>c. hub_op c = [] \<and> \<not> (\<exists>f n. c = Recv f n \<or> c = Read f n)) \<circ> fst) (since w w1)"
    by (auto simp: only_def)
  then have "hub_ops (since w w1) = []" by (auto intro: proj_Nil simp: list_all_iff)
  moreover have "received fd (since w w1) = []"
    using o(2) by (auto simp: received_def list_all_iff received_by_def split: call.splits option.splits)
  moreover have "sc_conn_inv fd fs w1 (''?'', []) w1"
    unfolding sc_conn_inv_def by (simp, rule exI [of _ "[]"], simp)
  then have "\<exists>st'. sc_conn_inv fd fs w1 st' w2"
    by (rule loop_rule [OF l, where I = "sc_conn_inv fd fs w1"]) (blast intro: sc_serve_conn_turn_inv [OF assms(2)])+
  then obtain st' where st': "sc_conn_inv fd fs w1 st' w2" ..
  then have l2: "later w1 w2" by (auto simp: sc_conn_inv_def)
  ultimately have e: "since w w' = since w w1 @ since w1 w2 @ [(Hub (Hub_remove i), None)]"
    "received fd (since w w') = received fd (since w1 w2)" "hub_ops (since w w') = hub_ops (since w1 w2) @ [Hub_remove i]"
    using o(1) later_trans [of w w1 w2] since_trans [of w w1 w2] by (simp_all add: w')
  with assms(3) have "prefix (received fd (since w1 w2)) (stream_of sc_enc fs)" by simp
  with st' obtain fs1 fs2 where "fs = fs1 @ fs2" "partial sc_enc fs2 (snd st')"
    "received fd (since w1 w2) = stream_of sc_enc fs1 @ snd st'"
    "hub_ops (since w1 w2) = sc_delivery_ops (sc_deliveries ''?'' fs1)"
    by (auto simp: sc_conn_inv_def case_prod_beta)
  with e show ?thesis by (intro exI [of _ fs1] exI [of _ fs2] exI [of _ "snd st'"]) simp
qed

section \<open>The epoll engine as streams of bytes\<close>

text \<open>
  The abstract server: to each connection belongs the stream of the bytes it was sent and is going
  to be sent, \<open>accepted\<close> followed by the queue. \<open>adds Q\<close> says that a step of the engine appended
  \<open>Q t\<close> to the stream of every connection \<open>t\<close>, kept the connections, and neither accepted nor
  closed one.
\<close>

definition quiet :: "call \<Rightarrow> bool" where
  "quiet c = (case c of Net (Net_accept _) \<Rightarrow> False | Close _ \<Rightarrow> False | _ \<Rightarrow> True)"

lemma quiet_simps [simp]:
  "quiet (Send fd bs)" "quiet (Recv fd n)" "quiet (Ev e)" "quiet (Print st m)" "\<not> quiet (Accept fd)" "\<not> quiet (Close fd)"
  by (simp_all add: quiet_def)

definition adds_to :: "(nat \<Rightarrow> byte list) \<Rightarrow> (call \<times> answer option) list \<Rightarrow> nat \<times> econn \<Rightarrow> nat \<times> econn \<Rightarrow> bool" where
  "adds_to Q t x y \<longleftrightarrow> fst y = fst x \<and> e_fd (snd y) = e_fd (snd x) \<and>
     (honest t \<longrightarrow> accepted (e_fd (snd x)) t @ e_outbuf (snd y) = e_outbuf (snd x) @ Q (fst x))"

definition adds :: "(nat \<Rightarrow> byte list) \<Rightarrow> epoll_server \<Rightarrow> world \<Rightarrow> epoll_server \<Rightarrow> world \<Rightarrow> bool" where
  "adds Q s w s' w' \<longleftrightarrow> later w w' \<and> list_all (quiet \<circ> fst) (since w w') \<and>
     es_next s' = es_next s \<and> es_peak s' = es_peak s \<and>
     list_all2 (adds_to Q (since w w')) (es_conns s) (es_conns s')"

definition separate :: "epoll_server \<Rightarrow> bool" where
  "separate s \<longleftrightarrow> distinct (List.map fst (es_conns s)) \<and> distinct (List.map (e_fd \<circ> snd) (es_conns s))"

lemma addsD:
  assumes "adds Q s w s' w'"
  shows "later w w'" "list_all (quiet \<circ> fst) (since w w')" "es_next s' = es_next s" "es_peak s' = es_peak s"
    "list_all2 (adds_to Q (since w w')) (es_conns s) (es_conns s')"
  using assms by (simp_all add: adds_def)

lemma adds_to_list:
  assumes "list_all2 (adds_to Q t) xs ys"
  shows "List.map fst ys = List.map fst xs" "List.map (e_fd \<circ> snd) ys = List.map (e_fd \<circ> snd) xs"
  using assms by (induction) (simp_all add: adds_to_def)

lemma adds_separate: "adds Q s w s' w' \<Longrightarrow> separate s' = separate s"
  using adds_to_list [of Q "since w w'" "es_conns s" "es_conns s'"] by (simp add: adds_def separate_def)

lemma adds_refl [simp]: "adds (\<lambda>_. []) s w s w"
  by (simp add: adds_def adds_to_def list_all2_refl)

lemma append_chain: "a @ y = x @ q \<Longrightarrow> b @ z = y @ r \<Longrightarrow> a @ b @ z = x @ q @ r"
  by (metis append.assoc)

lemma adds_trans:
  assumes "adds Q s w s1 w1" and "adds R s1 w1 s2 w2"
  shows "adds (\<lambda>t. Q t @ R t) s w s2 w2"
proof -
  note d = addsD [OF assms(1)] and e = addsD [OF assms(2)]
  have s: "since w w2 = since w w1 @ since w1 w2" by (rule since_trans [OF d(1) e(1)])
  have "list_all2 (adds_to (\<lambda>t. Q t @ R t) (since w w2)) (es_conns s) (es_conns s2)"
  proof (rule list_all2_trans [OF _ d(5) e(5)])
    fix x y z
    assume xy: "adds_to Q (since w w1) x y" and yz: "adds_to R (since w1 w2) y z"
    then show "adds_to (\<lambda>t. Q t @ R t) (since w w2) x z"
      by (auto simp: adds_to_def s intro: append_chain)
  qed
  then show ?thesis using d e s later_trans [OF d(1) e(1)] by (simp add: adds_def)
qed

lemma adds_quiet_calls:
  assumes "later w w'" and "list_all ((\<lambda>c. \<not> transfers c \<and> quiet c) \<circ> fst) (since w w')"
  shows "adds (\<lambda>_. []) s w s w'"
proof -
  have "list_all ((\<lambda>c. \<not> transfers c) \<circ> fst) (since w w')" using assms(2) by (simp add: list_all_iff)
  from no_transfers(1) [OF this] have "list_all2 (adds_to (\<lambda>_. []) (since w w')) (es_conns s) (es_conns s)"
    by (intro list_all2_refl) (simp add: adds_to_def)
  with assms show ?thesis by (simp add: adds_def list_all_iff)
qed

text \<open>Changing one connection.\<close>

lemma upd_conn_simps [simp]:
  "es_next (upd_conn tok f s) = es_next s" "es_peak (upd_conn tok f s) = es_peak s"
  "es_messages (upd_conn tok f s) = es_messages s"
  "es_conns (upd_conn tok f s) = List.map (\<lambda>(t, c). if t = tok then (t, f c) else (t, c)) (es_conns s)"
  by (simp_all add: upd_conn_def)

lemma map_of_upd:
  "map_of (List.map (\<lambda>(t, c). if t = tok then (t, f c) else (t, c)) cs) t =
     (if t = tok then map_option f (map_of cs t) else map_of cs t)"
  by (induction cs) auto

lemma conn_at_upd: "conn_at (upd_conn tok f s) t = (if t = tok then map_option f (conn_at s t) else conn_at s t)"
  by (simp add: conn_at_def map_of_upd)

text \<open>
  A change of connection \<open>tok\<close>, with calls that touch no other connection, is an \<open>adds\<close> as soon as
  it is one for that connection.
\<close>

lemma adds_upd:
  assumes "separate s" and "conn_at s tok = Some c" and "later w w'"
    and "list_all (quiet \<circ> fst) (since w w')"
    and "e_fd (f c) = e_fd c"
    and "honest (since w w') \<Longrightarrow> accepted (e_fd c) (since w w') @ e_outbuf (f c) = e_outbuf c @ q"
    and "\<And>fd. fd \<noteq> e_fd c \<Longrightarrow> accepted fd (since w w') = []"
  shows "adds (\<lambda>t. if t = tok then q else []) s w (upd_conn tok f s) w'"
proof -
  have c: "(tok, c) \<in> set (es_conns s)" using assms(2) by (simp add: conn_at_def map_of_SomeD)
  have "adds_to (\<lambda>t. if t = tok then q else []) (since w w') (t, d) (if t = tok then (t, f d) else (t, d))"
    if td: "(t, d) \<in> set (es_conns s)" for t d
  proof (cases "t = tok")
    case True
    with td c assms(1) have "d = c" by (auto simp: separate_def dest: eq_key_imp_eq_value)
    with True assms(5,6) show ?thesis by (simp add: adds_to_def)
  next
    case False
    have "e_fd d \<noteq> e_fd c"
    proof
      assume "e_fd d = e_fd c"
      with td c assms(1) have "(t, d) = (tok, c)"
        by (fastforce simp: separate_def distinct_map inj_on_def)
      with False show False by simp
    qed
    with False assms(7) show ?thesis by (simp add: adds_to_def)
  qed
  then have "list_all2 (adds_to (\<lambda>t. if t = tok then q else []) (since w w')) (es_conns s)
      (List.map (\<lambda>(t, c). if t = tok then (t, f c) else (t, c)) (es_conns s))"
    unfolding list.rel_map by (auto intro!: list.rel_refl_strong)
  with assms(3,4) show ?thesis by (simp add: adds_def)
qed

lemma upd_upd: "upd_conn tok g (upd_conn tok f s) = upd_conn tok (\<lambda>c. g (f c)) s"
proof -
  have "List.map (\<lambda>(t, c). if t = tok then (t, g c) else (t, c)) (List.map (\<lambda>(t, c). if t = tok then (t, f c) else (t, c)) cs) =
      List.map (\<lambda>(t, c). if t = tok then (t, g (f c)) else (t, c)) cs" for cs
    by (induction cs) auto
  then show ?thesis by (simp add: upd_conn_def)
qed

text \<open>The nick and the input of every connection.\<close>

definition who :: "epoll_server \<Rightarrow> nat \<Rightarrow> (string \<times> byte list) option" where
  "who s t = map_option (\<lambda>c. (e_nick c, e_inbuf c)) (conn_at s t)"

definition sends_on :: "int \<Rightarrow> call \<Rightarrow> bool" where
  "sends_on fd c \<longleftrightarrow> (\<exists>bs. c = Send fd bs) \<or> (\<exists>e. c = Ev e)"

lemma sends_on_simps [simp]: "sends_on fd (Send fd bs)" "sends_on fd (Ev e)"
  by (simp_all add: sends_on_def)

lemma sends_on_accepted:
  assumes "list_all (sends_on fd \<circ> fst) t"
  shows "list_all (quiet \<circ> fst) t" "fd' \<noteq> fd \<Longrightarrow> accepted fd' t = []"
proof -
  show "list_all (quiet \<circ> fst) t" using assms by (auto simp: list_all_iff sends_on_def)
  show "accepted fd' t = []" if "fd' \<noteq> fd"
    using assms that by (auto simp: list_all_iff sends_on_def accepted_def accepted_by_def split: option.splits)
qed

lemma sc_flush_loop:
  assumes "loop (sc_flush_turn fd) out w = Some (r, w')"
  shows "only (sends_on fd) w w' \<and> (honest (since w w') \<longrightarrow> accepted fd (since w w') @ fst r = out)"
  using assms
proof (rule loop_rule [where I = "\<lambda>b v. only (sends_on fd) w v \<and> (honest (since w v) \<longrightarrow> accepted fd (since w v) @ b = out)"],
    goal_cases)
  case 1
  show ?case by simp
next
  case (2 b v b' v')
  then obtain a where a: "sys (Send fd b) v = Some (a, v')" and o: "0 < rv a \<and> b' = drop (nat (rv a)) b \<or> rv a < 0 \<and> b' = b"
    by (auto simp: sc_flush_turn_def split: if_splits)
  from 2(1) have "later w v" by (simp add: only_def)
  from sys_after [OF this a] 2(1) o show ?case by (auto simp: only_def)
next
  case (3 b v r v')
  show ?case
  proof (cases "b = []")
    case True
    with 3 show ?thesis by (auto simp: sc_flush_turn_def)
  next
    case False
    with 3(2) obtain a where a: "sys (Send fd b) v = Some (a, v')" and o: "rv a \<le> 0 \<and> fst r = b"
      by (auto simp: sc_flush_turn_def split: if_splits)
    from 3(1) have "later w v" by (simp add: only_def)
    from sys_after [OF this a] 3(1) o show ?thesis by (auto simp: only_def)
  qed
qed

lemma sc_flush_adds:
  assumes "sc_flush epfd tok s w = Some (s', w')" and "separate s"
  shows "adds (\<lambda>_. []) s w s' w'" and "es_messages s' = es_messages s" and "who s' = who s"
proof -
  from assms(1) obtain d where d: "conn_at s tok = Some d"
    by (cases "conn_at s tok") (simp_all add: sc_flush_def)
  with assms(1) obtain r w1 where l: "loop (sc_flush_turn (e_fd d)) (e_outbuf d) w = Some (r, w1)"
    by (auto simp: sc_flush_def)
  from sc_flush_loop [OF l] have o: "only (sends_on (e_fd d)) w w1"
    "honest (since w w1) \<Longrightarrow> accepted (e_fd d) (since w w1) @ fst r = e_outbuf d" by simp_all
  have f: "\<exists>f. s' = upd_conn tok f s \<and> (\<forall>c. e_outbuf (f c) = fst r \<and> e_fd (f c) = e_fd c \<and> e_nick (f c) = e_nick c \<and>
      e_inbuf (f c) = e_inbuf c) \<and> (w' = w1 \<or> (\<exists>e. w' = emit (Ev e) w1))"
  proof -
    obtain out died where r: "r = (out, died)" by (cases r)
    show ?thesis
    proof (cases died)
      case True
      with assms(1) d l r have "s' = upd_conn tok (\<lambda>c. c\<lparr>e_outbuf := out, e_dead := True\<rparr>) s" "w' = w1"
        by (simp_all add: sc_flush_def)
      with r show ?thesis by (intro exI [of _ "\<lambda>c. c\<lparr>e_outbuf := out, e_dead := True\<rparr>"]) simp
    next
      case False
      show ?thesis
      proof (cases "(out \<noteq> []) \<noteq> e_want_write d")
        case True
        with assms(1) d l r False have "s' = upd_conn tok (\<lambda>c. c\<lparr>e_outbuf := out, e_want_write := (out \<noteq> [])\<rparr>) s"
          "\<exists>e. w' = emit (Ev e) w1"
          by (auto simp: sc_flush_def Let_def upd_upd)
        with r show ?thesis
          by (intro exI [of _ "\<lambda>c. c\<lparr>e_outbuf := out, e_want_write := (out \<noteq> [])\<rparr>"]) simp
      next
        case fl: False
        with assms(1) d l r False have "s' = upd_conn tok (\<lambda>c. c\<lparr>e_outbuf := out\<rparr>) s" "w' = w1"
          by (auto simp: sc_flush_def Let_def split: if_splits)
        with r show ?thesis by (intro exI [of _ "\<lambda>c. c\<lparr>e_outbuf := out\<rparr>"]) simp
      qed
    qed
  qed
  then obtain f where f: "s' = upd_conn tok f s" "\<And>c. e_outbuf (f c) = fst r" "\<And>c. e_fd (f c) = e_fd c"
    "\<And>c. e_nick (f c) = e_nick c" "\<And>c. e_inbuf (f c) = e_inbuf c" "w' = w1 \<or> (\<exists>e. w' = emit (Ev e) w1)" by blast
  from o(1) f(6) have w': "only (sends_on (e_fd d)) w w'" by (auto intro: only_emit)
  have a: "accepted fd (since w w') = accepted fd (since w w1)" "honest (since w w') = honest (since w w1)" for fd
    using f(6) onlyD(1) [OF o(1)] by auto
  have "adds (\<lambda>t. if t = tok then [] else []) s w (upd_conn tok f s) w'"
    using sends_on_accepted [OF onlyD(2) [OF w']] onlyD(1) [OF w'] o(2)
    by (intro adds_upd [OF assms(2) d]) (simp_all add: f a)
  then show "adds (\<lambda>_. []) s w s' w'" by (simp add: f(1))
  show "es_messages s' = es_messages s" by (simp add: f)
  show "who s' = who s" by (auto simp: fun_eq_iff who_def f conn_at_upd option.map_comp comp_def)
qed

lemma who_None: "who s t = None \<longleftrightarrow> conn_at s t = None"
  by (simp add: who_def)

lemma sc_queue_adds:
  assumes "sc_queue epfd tok bytes s w = Some (s', w')" and "separate s"
  shows "adds (\<lambda>t. if t = tok then bytes else []) s w s' w'" and "es_messages s' = es_messages s" and "who s' = who s"
proof -
  let ?s1 = "upd_conn tok (\<lambda>c. c\<lparr>e_outbuf := e_outbuf c @ bytes\<rparr>) s"
  from assms(1) obtain c where c: "conn_at s tok = Some c" and fl: "sc_flush epfd tok ?s1 w = Some (s', w')"
    by (cases "conn_at s tok") (simp_all add: sc_queue_def)
  have a: "adds (\<lambda>t. if t = tok then bytes else []) s w ?s1 w"
    by (rule adds_upd [OF assms(2) c]) simp_all
  then have "separate ?s1" using adds_separate assms(2) by blast
  note f = sc_flush_adds [OF fl this]
  from adds_trans [OF a f(1)] show "adds (\<lambda>t. if t = tok then bytes else []) s w s' w'" by simp
  show "es_messages s' = es_messages s" using f(2) by simp
  show "who s' = who s" using f(3) by (auto simp: fun_eq_iff who_def conn_at_upd option.map_comp comp_def)
qed

lemma sc_queue_each_adds:
  assumes "sc_queue_each epfd ts bytes s w = Some (s', w')" and "separate s" and "distinct ts"
  shows "adds (\<lambda>t. if t \<in> set ts then bytes else []) s w s' w' \<and> es_messages s' = es_messages s \<and> who s' = who s"
  using assms
proof (induction ts arbitrary: s w)
  case Nil
  then show ?case by simp
next
  case (Cons t ts)
  then obtain s1 w1 where q: "sc_queue epfd t bytes s w = Some (s1, w1)"
    and r: "sc_queue_each epfd ts bytes s1 w1 = Some (s', w')" by auto
  note q = sc_queue_adds [OF q Cons.prems(2)]
  have "separate s1" using adds_separate [OF q(1)] Cons.prems(2) by simp
  from Cons.IH [OF r this] Cons.prems(3) have IH: "adds (\<lambda>t. if t \<in> set ts then bytes else []) s1 w1 s' w'"
    "es_messages s' = es_messages s1" "who s' = who s1" by simp_all
  have "(\<lambda>u. (if u = t then bytes else []) @ (if u \<in> set ts then bytes else [])) =
      (\<lambda>u. if u \<in> set (t # ts) then bytes else [])" using Cons.prems(3) by (auto simp: fun_eq_iff)
  with adds_trans [OF q(1) IH(1)] q IH show ?case by simp
qed

text \<open>\<open>adds\<close> looks at the connections there are.\<close>

lemma adds_cong:
  assumes "adds Q s w s' w'" and "\<And>t. t \<in> fst ` set (es_conns s) \<Longrightarrow> Q t = R t"
  shows "adds R s w s' w'"
proof -
  have "list_all2 (adds_to R (since w w')) (es_conns s) (es_conns s')"
    using addsD(5) [OF assms(1)] by (rule list.rel_mono_strong) (use assms(2) in \<open>auto simp: adds_to_def image_iff\<close>)
  with assms(1) show ?thesis by (simp add: adds_def)
qed

lemma sc_broadcast_adds:
  assumes "sc_broadcast epfd bytes s w = Some (s', w')" and "separate s"
  shows "adds (\<lambda>_. bytes) s w s' w'" and "es_messages s' = es_messages s" and "who s' = who s"
proof -
  have "distinct (List.map fst (es_conns s))" using assms(2) by (simp add: separate_def)
  note b = sc_queue_each_adds [OF assms(1) [unfolded sc_broadcast_def] assms(2) this]
  then have "adds (\<lambda>t. if t \<in> set (List.map fst (es_conns s)) then bytes else []) s w s' w'" by simp
  then show "adds (\<lambda>_. bytes) s w s' w'" by (rule adds_cong) simp
  show "es_messages s' = es_messages s" "who s' = who s" using b by simp_all
qed

lemma upd_plain_adds:
  assumes "separate s" and "\<And>c. e_fd (f c) = e_fd c" and "\<And>c. e_outbuf (f c) = e_outbuf c"
  shows "adds (\<lambda>_. []) s w (upd_conn tok f s) w"
proof (cases "conn_at s tok")
  case None
  then have "(t, c) \<in> set (es_conns s) \<Longrightarrow> t \<noteq> tok" for t c
    by (force simp: conn_at_def map_of_eq_None_iff)
  then have "List.map (\<lambda>(t, c). if t = tok then (t, f c) else (t, c)) (es_conns s) = es_conns s"
    by (intro map_idI) auto
  then have "upd_conn tok f s = s" by (simp add: upd_conn_def)
  then show ?thesis by simp
next
  case (Some c)
  have "adds (\<lambda>t. if t = tok then [] else []) s w (upd_conn tok f s) w"
    by (rule adds_upd [OF assms(1) Some]) (simp_all add: assms)
  then show ?thesis by simp
qed

lemma sc_process_adds:
  assumes "sc_process epfd tok fs s w = Some (s', w')" and "separate s" and "who s tok = Some (nick, ib)"
  shows "adds (\<lambda>_. sc_delivery_bytes (sc_deliveries nick fs)) s w s' w' \<and>
    es_messages s' = es_messages s + List.length (sc_deliveries nick fs) \<and>
    who s' = (who s)(tok \<mapsto> (sc_nick_after nick fs, ib))"
  using assms
proof (induction fs arbitrary: s w nick)
  case Nil
  then show ?case by (auto simp: fun_eq_iff)
next
  case (Cons f fs)
  consider (join) "ftype f = T_join" | (msg) "ftype f = T_msg" | (other) "ftype f \<noteq> T_join" "ftype f \<noteq> T_msg" by blast
  then show ?case
  proof cases
    case join
    let ?s1 = "upd_conn tok (\<lambda>c. c\<lparr>e_nick := chars_of (payload f)\<rparr>) s"
    have r: "sc_process epfd tok fs ?s1 w = Some (s', w')" using join Cons.prems(1) by simp
    have a: "adds (\<lambda>_. []) s w ?s1 w" by (rule upd_plain_adds [OF Cons.prems(2)]) simp_all
    have w: "who ?s1 = (who s)(tok \<mapsto> (chars_of (payload f), ib))"
      using Cons.prems(3) by (auto simp: fun_eq_iff who_def conn_at_upd option.map_comp comp_def)
    have "separate ?s1" using adds_separate [OF a] Cons.prems(2) by simp
    moreover have "who ?s1 tok = Some (chars_of (payload f), ib)" by (simp add: w)
    ultimately have IH: "adds (\<lambda>_. sc_delivery_bytes (sc_deliveries (chars_of (payload f)) fs)) ?s1 w s' w'"
      "es_messages s' = es_messages ?s1 + List.length (sc_deliveries (chars_of (payload f)) fs)"
      "who s' = (who ?s1)(tok \<mapsto> (sc_nick_after (chars_of (payload f)) fs, ib))" using Cons.IH [OF r] by blast+
    from adds_trans [OF a IH(1)] IH w join show ?thesis by simp
  next
    case msg
    from Cons.prems(3) obtain c where c: "conn_at s tok = Some c" "e_nick c = nick" by (auto simp: who_def)
    let ?s0 = "s\<lparr>es_messages := es_messages s + 1\<rparr>"
    from msg Cons.prems(1) c obtain s1 w1
      where b: "sc_broadcast epfd (sc_encode T_deliver (sc_deliver_payload nick (payload f))) ?s0 w = Some (s1, w1)"
        and r: "sc_process epfd tok fs s1 w1 = Some (s', w')" by auto
    have s0: "separate ?s0" using Cons.prems(2) by (simp add: separate_def)
    note b = sc_broadcast_adds [OF b s0]
    have a: "adds (\<lambda>_. sc_encode T_deliver (sc_deliver_payload nick (payload f))) s w s1 w1"
      using b(1) by (simp add: adds_def)
    have w: "who s1 = who s" using b(3) by (simp add: fun_eq_iff who_def conn_at_def)
    have "separate s1" using adds_separate [OF b(1)] s0 by simp
    moreover have "who s1 tok = Some (nick, ib)" using w Cons.prems(3) by simp
    ultimately have IH: "adds (\<lambda>_. sc_delivery_bytes (sc_deliveries nick fs)) s1 w1 s' w'"
      "es_messages s' = es_messages s1 + List.length (sc_deliveries nick fs)"
      "who s' = (who s1)(tok \<mapsto> (sc_nick_after nick fs, ib))" using Cons.IH [OF r] by blast+
    from adds_trans [OF a IH(1)] IH b(2) w msg show ?thesis by simp
  next
    case other
    with Cons.IH [OF _ Cons.prems(2,3)] Cons.prems(1) show ?thesis by simp
  qed
qed

lemma sc_flush_keeps [keeps_intros]:
  "only P w0 w \<Longrightarrow> (\<And>fd bs. P (Send fd bs)) \<Longrightarrow> (\<And>e. P (Ev e)) \<Longrightarrow> keeps P w0 (sc_flush epfd tok s w)"
  unfolding sc_flush_def sc_flush_turn_def Let_def by (intro keeps_intros)

lemma sc_queue_keeps [keeps_intros]:
  "only P w0 w \<Longrightarrow> (\<And>fd bs. P (Send fd bs)) \<Longrightarrow> (\<And>e. P (Ev e)) \<Longrightarrow> keeps P w0 (sc_queue epfd tok bytes s w)"
  unfolding sc_queue_def by (intro keeps_intros)

lemma sc_queue_each_keeps [keeps_intros]:
  "only P w0 w \<Longrightarrow> (\<And>fd bs. P (Send fd bs)) \<Longrightarrow> (\<And>e. P (Ev e)) \<Longrightarrow> keeps P w0 (sc_queue_each epfd ts bytes s w)"
proof (induction ts arbitrary: s w)
  case (Cons t ts)
  show ?case unfolding sc_queue_each.simps by (intro keeps_intros Cons.IH Cons.prems)
qed (simp add: keeps_Some)

lemma sc_process_keeps [keeps_intros]:
  "only P w0 w \<Longrightarrow> (\<And>fd bs. P (Send fd bs)) \<Longrightarrow> (\<And>e. P (Ev e)) \<Longrightarrow> keeps P w0 (sc_process epfd tok fs s w)"
proof (induction fs arbitrary: s w)
  case (Cons f fs)
  show ?case unfolding sc_process.simps sc_broadcast_def by (intro keeps_intros Cons.IH Cons.prems)
qed (simp add: keeps_Some)

lemma sc_on_readable_keeps [keeps_intros]:
  "only P w0 w \<Longrightarrow> (\<And>fd bs. P (Send fd bs)) \<Longrightarrow> (\<And>e. P (Ev e)) \<Longrightarrow> (\<And>fd n. P (Recv fd n)) \<Longrightarrow>
    keeps P w0 (sc_on_readable epfd tok s w)"
  unfolding sc_on_readable_def sc_read_turn_def by (intro keeps_intros)

text \<open>The read loop: what it appends is what was received; it ends alive only on \<open>EAGAIN\<close>.\<close>

definition recvs_on :: "int \<Rightarrow> call \<Rightarrow> bool" where
  "recvs_on fd c \<longleftrightarrow> (\<exists>n. c = Recv fd n)"

lemma recvs_on_Recv [simp]: "recvs_on fd (Recv fd n)"
  by (simp add: recvs_on_def)

lemma recvs_on_only:
  assumes "list_all (recvs_on fd \<circ> fst) t"
  shows "accepted fd' t = []" "list_all (quiet \<circ> fst) t"
proof -
  show "accepted fd' t = []"
    using assms by (auto simp: list_all_iff recvs_on_def accepted_def accepted_by_def split: option.splits)
  show "list_all (quiet \<circ> fst) t" using assms by (auto simp: list_all_iff recvs_on_def)
qed

definition drained :: "int \<Rightarrow> (call \<times> answer option) list \<Rightarrow> bool" where
  "drained fd t \<longleftrightarrow> list_ex (\<lambda>(c, x). case (c, x) of
     (Recv f n, Some a) \<Rightarrow> f = fd \<and> rv a < 0 \<and> eno a = EAGAIN | _ \<Rightarrow> False) t"

lemma drained_simps [simp]:
  "\<not> drained fd []" "drained fd (t @ u) \<longleftrightarrow> drained fd t \<or> drained fd u"
  "drained fd [(Recv f n, Some a)] \<longleftrightarrow> f = fd \<and> rv a < 0 \<and> eno a = EAGAIN"
  by (auto simp: drained_def)

lemma sc_read_loop:
  assumes "loop (sc_read_turn fd) b w = Some (r, w')"
  shows "only (recvs_on fd) w w' \<and> fst r = b @ received fd (since w w') \<and> (\<not> snd r \<longleftrightarrow> drained fd (since w w'))"
  using assms
proof (rule loop_rule [where I = "\<lambda>x v. only (recvs_on fd) w v \<and> x = b @ received fd (since w v) \<and>
    \<not> drained fd (since w v)"], goal_cases)
  case 1
  show ?case by simp
next
  case (2 x v x' v')
  then obtain a where a: "sys (Recv fd 4096) v = Some (a, v')" and o: "x' = x @ filled a"
    "0 < rv a \<or> eno a = EINTR" by (auto simp: sc_read_turn_def split: if_splits)
  from 2(1) have "later w v" by (simp add: only_def)
  from sys_after [OF this a] 2(1) o show ?case by (auto simp: only_def)
next
  case (3 x v r v')
  then obtain a where a: "sys (Recv fd 4096) v = Some (a, v')" and o: "fst r = x" "rv a \<le> 0"
    "\<not> snd r \<longleftrightarrow> rv a < 0 \<and> eno a = EAGAIN"
    by (auto simp: sc_read_turn_def split: if_splits)
  from 3(1) have "later w v" by (simp add: only_def)
  from sys_after [OF this a] 3(1) o show ?case by (auto simp: only_def)
qed


section \<open>Streams of descriptors that are used again\<close>

text \<open>The bytes sent since \<open>accept\<close> returned the descriptor, and the descriptors that are open.\<close>

definition sent_step :: "int \<Rightarrow> byte list \<Rightarrow> call \<times> answer option \<Rightarrow> byte list" where
  "sent_step fd bs e = (case e of
     (Net (Net_accept l), Some a) \<Rightarrow> if 0 \<le> rv a \<and> rv a = fd then [] else bs
   | _ \<Rightarrow> bs @ accepted_by fd e)"

definition sent_on :: "int \<Rightarrow> (call \<times> answer option) list \<Rightarrow> byte list" where
  "sent_on fd t = foldl (sent_step fd) [] t"

definition open_step :: "int set \<Rightarrow> call \<times> answer option \<Rightarrow> int set" where
  "open_step S e = (case e of
     (Net (Net_accept l), Some a) \<Rightarrow> if 0 \<le> rv a then insert (rv a) S else S
   | (Close fd, _) \<Rightarrow> S - {fd}
   | _ \<Rightarrow> S)"

fun fresh_conns :: "int set \<Rightarrow> (call \<times> answer option) list \<Rightarrow> bool" where
  "fresh_conns S [] \<longleftrightarrow> True"
| "fresh_conns S (e # t) \<longleftrightarrow> (case e of (Net (Net_accept l), Some a) \<Rightarrow> rv a \<notin> S | _ \<Rightarrow> True) \<and> fresh_conns (open_step S e) t"

abbreviation open_after :: "int set \<Rightarrow> (call \<times> answer option) list \<Rightarrow> int set" where
  "open_after S t \<equiv> foldl open_step S t"

lemma fresh_conns_append [simp]: "fresh_conns S (t @ u) \<longleftrightarrow> fresh_conns S t \<and> fresh_conns (open_after S t) u"
  by (induction t arbitrary: S) auto

lemma open_step_simps [simp]:
  "open_step S (Accept l, Some a) = (if 0 \<le> rv a then insert (rv a) S else S)"
  "open_step S (Close fd, x) = S - {fd}" "open_step S (Ev e, x) = S" "open_step S (Send fd' bs', x) = S"
  "open_step S (Recv fd' n, x) = S"
  "sent_step fd bs (Ev e, x) = bs" "sent_step fd bs (Close f, x) = bs"
  "sent_step fd bs (Accept l, Some a) = (if 0 \<le> rv a \<and> rv a = fd then [] else bs)"
  by (simp_all add: open_step_def sent_step_def)

lemma sent_on_simps [simp]: "sent_on fd [] = []" "sent_on fd (t @ u) = foldl (sent_step fd) (sent_on fd t) u"
  by (simp_all add: sent_on_def)

lemma quiet_step:
  assumes "quiet (fst e)"
  shows "open_step S e = S" "sent_step fd bs e = bs @ accepted_by fd e"
    "(case e of (Net (Net_accept l), Some a) \<Rightarrow> rv a \<notin> S | _ \<Rightarrow> True)"
  using assms by (auto simp: quiet_def open_step_def sent_step_def split: prod.splits call.splits net_call.splits option.splits)

lemma quiet_trace:
  assumes "list_all (quiet \<circ> fst) t"
  shows "open_after S t = S" "fresh_conns S t" "foldl (sent_step fd) bs t = bs @ accepted fd t"
proof -
  show "open_after S t = S" using assms by (induction t) (simp_all add: quiet_step)
  show "fresh_conns S t" using assms by (induction t) (auto simp: quiet_step)
  show "foldl (sent_step fd) bs t = bs @ accepted fd t"
    using assms by (induction t arbitrary: bs) (simp_all add: quiet_step)
qed

section \<open>The abstract server\<close>

text \<open>
  The server as a function of what the kernel answered to \<open>accept\<close> and \<open>recv\<close>, with no queues, no
  events and no sends. To a descriptor belong the nick, the bytes not yet cut into frames and the
  stream its client is to see. \<open>accept\<close> starts all three afresh, the stream with the WELCOME; bytes are
  appended to the input; \<open>EAGAIN\<close>, where the input is complete for now, turns it into messages,
  which are said to everyone at once. \<open>ab_said\<close> is every message so far, in order.
\<close>

record abstract_server =
  ab_said :: "(string \<times> byte list) list"
  ab_nick :: "int \<Rightarrow> string"
  ab_in :: "int \<Rightarrow> byte list"
  ab_out :: "int \<Rightarrow> byte list"

definition ab_start :: abstract_server where
  "ab_start = \<lparr>ab_said = [], ab_nick = \<lambda>_. ''?'', ab_in = \<lambda>_. [], ab_out = \<lambda>_. sc_encode T_welcome []\<rparr>"

definition ab_say :: "int \<Rightarrow> abstract_server \<Rightarrow> abstract_server" where
  "ab_say fd A = (case sc_drain (ab_in A fd) of (fs, rest) \<Rightarrow>
     let ds = sc_deliveries (ab_nick A fd) fs
     in \<lparr>ab_said = ab_said A @ ds, ab_nick = (ab_nick A)(fd := sc_nick_after (ab_nick A fd) fs),
         ab_in = (ab_in A)(fd := rest), ab_out = \<lambda>g. ab_out A g @ sc_delivery_bytes ds\<rparr>)"

definition ab_step :: "abstract_server \<Rightarrow> call \<times> answer option \<Rightarrow> abstract_server" where
  "ab_step A e = (case e of
     (Net (Net_accept l), Some a) \<Rightarrow>
       if 0 \<le> rv a then A\<lparr>ab_nick := (ab_nick A)(rv a := ''?''), ab_in := (ab_in A)(rv a := []),
         ab_out := (ab_out A)(rv a := sc_encode T_welcome [])\<rparr>
       else A
   | (Recv fd n, Some a) \<Rightarrow>
       if 0 < rv a then A\<lparr>ab_in := (ab_in A)(fd := ab_in A fd @ filled a)\<rparr>
       else if rv a < 0 \<and> eno a = EAGAIN then ab_say fd A
       else A
   | _ \<Rightarrow> A)"

definition ab_after :: "(call \<times> answer option) list \<Rightarrow> abstract_server" where
  "ab_after t = foldl ab_step ab_start t"

lemma ab_after_append [simp]: "ab_after [] = ab_start" "ab_after (t @ u) = foldl ab_step (ab_after t) u"
  by (simp_all add: ab_after_def)

lemma ab_step_simps [simp]:
  "ab_step A (Accept l, Some a) = (if 0 \<le> rv a then A\<lparr>ab_nick := (ab_nick A)(rv a := ''?''), ab_in := (ab_in A)(rv a := []),
     ab_out := (ab_out A)(rv a := sc_encode T_welcome [])\<rparr> else A)"
  "ab_step A (Recv fd n, Some a) = (if 0 < rv a then A\<lparr>ab_in := (ab_in A)(fd := ab_in A fd @ filled a)\<rparr>
     else if rv a < 0 \<and> eno a = EAGAIN then ab_say fd A else A)"
  "ab_step A (Ev e, x) = A" "ab_step A (Close fd, x) = A" "ab_step A (Send fd bs, x) = A" "ab_step A (Print st m, x) = A"
  by (simp_all add: ab_step_def)

text \<open>Everyone is said the same messages in the same order, from some message on.\<close>

definition hears :: "abstract_server \<Rightarrow> int \<Rightarrow> bool" where
  "hears A fd \<longleftrightarrow> (\<exists>k \<le> List.length (ab_said A). ab_out A fd = sc_encode T_welcome [] @ sc_delivery_bytes (drop k (ab_said A)))"

lemma hears_say: "hears A fd \<Longrightarrow> hears (ab_say g A) fd"
proof -
  assume "hears A fd"
  then obtain k where "k \<le> List.length (ab_said A)" "ab_out A fd = sc_encode T_welcome [] @ sc_delivery_bytes (drop k (ab_said A))"
    by (auto simp: hears_def)
  then show ?thesis unfolding hears_def by (intro exI [of _ k]) (simp add: ab_say_def Let_def split: prod.split)
qed

lemma hears_step:
  assumes "\<And>fd. hears A fd"
  shows "hears (ab_step A e) fd"
proof -
  have new: "hears (A\<lparr>ab_nick := n, ab_in := i, ab_out := (ab_out A)(g := sc_encode T_welcome [])\<rparr>) fd" for n i g
    using assms [of fd] by (auto simp: hears_def intro!: exI [of _ "List.length (ab_said A)"])
  have inp: "hears (A\<lparr>ab_in := i\<rparr>) fd" for i using assms [of fd] by (simp add: hears_def)
  show ?thesis
    using new inp hears_say [OF assms] assms
    by (auto simp: ab_step_def split: prod.split call.split net_call.split option.split)
qed

lemma ab_after_hears: "hears (ab_after t) fd"
proof (induction t arbitrary: fd rule: rev_induct)
  case Nil
  show ?case by (simp add: hears_def ab_start_def)
next
  case (snoc e t)
  then show ?case by (simp add: hears_step)
qed

text \<open>Calls the abstract server does not see.\<close>

definition unseen :: "call \<Rightarrow> bool" where
  "unseen c \<longleftrightarrow> (\<exists>fd bs. c = Send fd bs) \<or> (\<exists>e. c = Ev e) \<or> (\<exists>st m. c = Print st m) \<or> (\<exists>fd. c = Close fd)"

lemma unseen_simps [simp]: "unseen (Send fd bs)" "unseen (Ev e)" "unseen (Print st m)" "unseen (Close fd)"
  by (simp_all add: unseen_def)

lemma unseen_step: "list_all (unseen \<circ> fst) t \<Longrightarrow> foldl ab_step A t = A"
  by (induction t) (auto simp: unseen_def)

lemma unseen_run: "keeps unseen w m \<Longrightarrow> m = Some (r, w') \<Longrightarrow> foldl ab_step A (since w w') = A"
  by (blast intro: unseen_step dest: keepsD onlyD(2))

text \<open>The read loop and the handling of what it read.\<close>

lemma sc_read_abs:
  assumes "loop (sc_read_turn fd) b w = Some (r, w')" and "ab_in A fd = b"
  shows "later w w' \<and> foldl ab_step A (since w w') =
    (let A' = A\<lparr>ab_in := (ab_in A)(fd := fst r)\<rparr> in if snd r then A' else ab_say fd A')"
  using assms(1)
proof (rule loop_rule [where I = "\<lambda>x v. later w v \<and> foldl ab_step A (since w v) = A\<lparr>ab_in := (ab_in A)(fd := x)\<rparr>"], goal_cases)
  case 1
  have "A\<lparr>ab_in := ab_in A\<rparr> = A" by simp
  with assms(2) show ?case by (metis foldl_Nil fun_upd_triv later_refl since_refl)
next
  case (2 x v x' v')
  then obtain a where a: "sys (Recv fd 4096) v = Some (a, v')" and o: "if 0 < rv a then x' = x @ filled a else eno a = EINTR \<and> x' = x"
    by (auto simp: sc_read_turn_def split: if_splits)
  from 2(1) have "later w v" by simp
  from sys_after [OF this a] 2(1) o show ?case by (auto split: if_splits)
next
  case (3 x v r v')
  then obtain a where a: "sys (Recv fd 4096) v = Some (a, v')" and o: "fst r = x" "rv a \<le> 0"
    "snd r \<longleftrightarrow> \<not> (rv a < 0 \<and> eno a = EAGAIN)"
    by (auto simp: sc_read_turn_def split: if_splits)
  from 3(1) have "later w v" by simp
  note after = sys_after [OF this a]
  show ?case
  proof (cases "snd r")
    case True
    with o(2,3) have "foldl ab_step A (since w v') = A\<lparr>ab_in := (ab_in A)(fd := x)\<rparr>" using after(2) 3(1) by auto
    with True o(1) after(1) show ?thesis by (simp only: Let_def if_True simp_thms)
  next
    case False
    with o(3) have "foldl ab_step A (since w v') = ab_say fd (A\<lparr>ab_in := (ab_in A)(fd := x)\<rparr>)" using after(2) 3(1) by auto
    with False o(1) after(1) show ?thesis by (simp only: Let_def if_False simp_thms)
  qed
qed

lemma sc_on_readable_abs:
  assumes "sc_on_readable epfd tok s w = Some (s', w')" and "separate s" and "conn_at s tok = Some c"
    and "ab_nick A (e_fd c) = e_nick c" and "ab_in A (e_fd c) = e_inbuf c"
    and A': "A' = foldl ab_step A (since w w')"
  shows "\<exists>ds. adds (\<lambda>_. sc_delivery_bytes ds) s w s' w' \<and> es_messages s' = es_messages s + List.length ds \<and>
    ab_said A' = ab_said A @ ds \<and> (\<forall>g. ab_out A' g = ab_out A g @ sc_delivery_bytes ds) \<and>
    (\<forall>g. g \<noteq> e_fd c \<longrightarrow> ab_nick A' g = ab_nick A g \<and> ab_in A' g = ab_in A g) \<and>
    who s' = (who s)(tok \<mapsto> (ab_nick A' (e_fd c), ab_in A' (e_fd c)))"
proof -
  from assms(1,3) obtain inbuf died w1 where l: "loop (sc_read_turn (e_fd c)) (e_inbuf c) w = Some ((inbuf, died), w1)"
    and r: "(if died then Some (upd_conn tok (\<lambda>c. c\<lparr>e_inbuf := inbuf, e_dead := True\<rparr>) s, w1)
       else (case sc_drain inbuf of (fs, rest) \<Rightarrow>
         sc_process epfd tok fs (upd_conn tok (\<lambda>c. c\<lparr>e_inbuf := rest\<rparr>) s) w1)) = Some (s', w')"
    by (auto simp: sc_on_readable_def simp del: if_Some)
  note o = conjunct1 [OF sc_read_loop [OF l]]
  have lw: "later w w1" using o by (rule onlyD)
  let ?A1 = "A\<lparr>ab_in := (ab_in A)(e_fd c := inbuf)\<rparr>"
  from sc_read_abs [OF l assms(5)] have f: "foldl ab_step A (since w w1) = (if died then ?A1 else ab_say (e_fd c) ?A1)"
    by (simp add: Let_def)
  have a1: "adds (\<lambda>_. []) s w s w1"
    using lw recvs_on_only [OF onlyD(2) [OF o]] by (simp add: adds_def adds_to_def list.rel_refl_strong)
  have upd: "who (upd_conn tok (\<lambda>c. c\<lparr>e_inbuf := b, e_dead := d c\<rparr>) s) = (who s)(tok \<mapsto> (e_nick c, b))"
    "who (upd_conn tok (\<lambda>c. c\<lparr>e_inbuf := b\<rparr>) s) = (who s)(tok \<mapsto> (e_nick c, b))" for b d
    using assms(3) by (auto simp: fun_eq_iff who_def conn_at_upd option.map_comp comp_def)
  show ?thesis
  proof (cases died)
    case True
    with r have s': "s' = upd_conn tok (\<lambda>c. c\<lparr>e_inbuf := inbuf, e_dead := True\<rparr>) s" "w' = w1" by simp_all
    have "adds (\<lambda>_. []) s w1 s' w1" unfolding s'(1) by (rule upd_plain_adds [OF assms(2)]) simp_all
    from adds_trans [OF a1 this] s' f True upd(1) assms(4) show ?thesis
      by (intro exI [of _ "[]"]) (simp add: A')
  next
    case False
    obtain fs rest where d: "sc_drain inbuf = (fs, rest)" by (cases "sc_drain inbuf")
    let ?s1 = "upd_conn tok (\<lambda>c. c\<lparr>e_inbuf := rest\<rparr>) s"
    have p: "sc_process epfd tok fs ?s1 w1 = Some (s', w')" using r False d by simp
    have a2: "adds (\<lambda>_. []) s w1 ?s1 w1" by (rule upd_plain_adds [OF assms(2)]) simp_all
    then have "separate ?s1" using adds_separate assms(2) by blast
    with upd(2) have p2: "adds (\<lambda>_. sc_delivery_bytes (sc_deliveries (e_nick c) fs)) ?s1 w1 s' w'"
      "es_messages s' = es_messages ?s1 + List.length (sc_deliveries (e_nick c) fs)"
      "who s' = (who ?s1)(tok \<mapsto> (sc_nick_after (e_nick c) fs, rest))"
      using sc_process_adds [OF p, of "e_nick c" rest] by simp_all
    have "A' = foldl ab_step (foldl ab_step A (since w w1)) (since w1 w')"
      using since_trans [OF lw addsD(1) [OF p2(1)]] by (simp add: A')
    also have "\<dots> = foldl ab_step A (since w w1)"
      by (rule unseen_run [OF sc_process_keeps [OF only_refl] p]) simp_all
    finally have A2: "A' = ab_say (e_fd c) ?A1" using f False by simp
    from adds_trans [OF adds_trans [OF a1 a2] p2(1)] p2(2,3) d upd(2) assms(4) show ?thesis
      by (intro exI [of _ "sc_deliveries (e_nick c) fs"]) (simp add: A2 ab_say_def Let_def)
  qed
qed

section \<open>The event loop follows the abstract server\<close>

text \<open>
  A descriptor is used for one connection after another: its stream starts afresh when \<open>accept\<close>
  returns it. \<open>fresh_conns\<close> is what \<open>accept\<close> documents and the engine relies on: it returns a descriptor
  that is not open. \<open>Z\<close> is what is still to be queued on a connection: the WELCOME of one that
  has just been entered, nothing between the steps of the loop.
\<close>

definition follows :: "abstract_server \<Rightarrow> (call \<times> answer option) list \<Rightarrow> byte list \<Rightarrow> econn \<Rightarrow> bool" where
  "follows A t z c \<longleftrightarrow> e_nick c = ab_nick A (e_fd c) \<and> e_inbuf c = ab_in A (e_fd c) \<and>
     sent_on (e_fd c) t @ e_outbuf c @ z = ab_out A (e_fd c)"

definition es_good :: "(nat \<Rightarrow> byte list) \<Rightarrow> (call \<times> answer option) list \<Rightarrow> epoll_server \<Rightarrow> bool" where
  "es_good Z t s \<longleftrightarrow> separate s \<and> 2 \<le> es_next s \<and> es_messages s = List.length (ab_said (ab_after t)) \<and>
     int (List.length (es_conns s)) \<le> es_peak s \<and>
     (\<forall>(tok, c) \<in> set (es_conns s). 2 \<le> tok \<and> tok < es_next s \<and> e_fd c \<in> open_after {} t \<and> follows (ab_after t) t (Z tok) c)"

lemma es_goodD:
  assumes "es_good Z t s"
  shows "separate s" "2 \<le> es_next s" "es_messages s = List.length (ab_said (ab_after t))" "int (List.length (es_conns s)) \<le> es_peak s"
    "(tok, c) \<in> set (es_conns s) \<Longrightarrow> 2 \<le> tok \<and> tok < es_next s \<and> e_fd c \<in> open_after {} t \<and> follows (ab_after t) t (Z tok) c"
  using assms by (auto simp: es_good_def)

lemma es_goodI:
  assumes "separate s" "2 \<le> es_next s" "es_messages s = List.length (ab_said (ab_after t))" "int (List.length (es_conns s)) \<le> es_peak s"
    and "\<And>tok c. (tok, c) \<in> set (es_conns s) \<Longrightarrow> 2 \<le> tok \<and> tok < es_next s \<and> e_fd c \<in> open_after {} t \<and> follows (ab_after t) t (Z tok) c"
  shows "es_good Z t s"
  using assms by (auto simp: es_good_def)

definition es_inv :: "world \<Rightarrow> epoll_server \<Rightarrow> world \<Rightarrow> bool" where
  "es_inv w0 s w \<longleftrightarrow> later w0 w \<and>
     (honest (since w0 w) \<and> fresh_conns {} (since w0 w) \<longrightarrow> es_good (\<lambda>_. []) (since w0 w) s)"

lemma es_inv_next:
  assumes "es_inv w0 s w" and "later w w'"
    and "es_good (\<lambda>_. []) (since w0 w) s \<Longrightarrow> honest (since w w') \<Longrightarrow>
      fresh_conns (open_after {} (since w0 w)) (since w w') \<Longrightarrow> es_good (\<lambda>_. []) (since w0 w @ since w w') s'"
  shows "es_inv w0 s' w'"
proof -
  from assms(1) have l: "later w0 w" by (simp add: es_inv_def)
  have s: "since w0 w' = since w0 w @ since w w'" by (rule since_trans [OF l assms(2)])
  show ?thesis using assms(1,3) later_trans [OF l assms(2)] by (auto simp: es_inv_def s)
qed

lemma conn_at_iff: "separate s \<Longrightarrow> conn_at s tok = Some c \<longleftrightarrow> (tok, c) \<in> set (es_conns s)"
  by (simp add: conn_at_def separate_def)

lemma list_all2_some: "list_all2 P xs ys \<Longrightarrow> \<forall>y \<in> set ys. \<exists>x \<in> set xs. P x y"
  by (induction rule: list_all2_induct) auto

lemma adds_conn:
  assumes "adds Q s w s' w'" and "separate s" and "conn_at s' tok = Some c'" and "honest (since w w')"
  obtains c where "conn_at s tok = Some c" "e_fd c' = e_fd c"
    "accepted (e_fd c) (since w w') @ e_outbuf c' = e_outbuf c @ Q tok"
proof -
  from assms(3) have "(tok, c') \<in> set (es_conns s')" by (simp add: conn_at_def map_of_SomeD)
  with list_all2_some [OF addsD(5) [OF assms(1)]]
  obtain x where x: "x \<in> set (es_conns s)" "adds_to Q (since w w') x (tok, c')" by blast
  with assms(2,4) that [of "snd x"] show ?thesis by (cases x) (simp add: adds_to_def conn_at_iff)
qed

lemma es_good_adds:
  assumes "es_good Z t s" and a: "adds Q s w s' w'" and "honest (since w w')"
    and m: "es_messages s' = List.length (ab_said (ab_after (t @ since w w')))"
    and step: "\<And>tok c c'. conn_at s tok = Some c \<Longrightarrow> conn_at s' tok = Some c' \<Longrightarrow> e_nick c = ab_nick (ab_after t) (e_fd c) \<Longrightarrow>
      e_inbuf c = ab_in (ab_after t) (e_fd c) \<Longrightarrow>
      e_nick c' = ab_nick (ab_after (t @ since w w')) (e_fd c) \<and> e_inbuf c' = ab_in (ab_after (t @ since w w')) (e_fd c) \<and>
      (\<forall>bs. bs @ Z tok = ab_out (ab_after t) (e_fd c) \<longrightarrow> bs @ Q tok @ Z' tok = ab_out (ab_after (t @ since w w')) (e_fd c))"
  shows "es_good Z' (t @ since w w') s'"
proof (rule es_goodI)
  note g = es_goodD [OF assms(1)] and d = addsD [OF a]
  note q = quiet_trace [OF d(2)]
  show sep: "separate s'" using adds_separate [OF a] g(1) by simp
  show "2 \<le> es_next s'" "int (List.length (es_conns s')) \<le> es_peak s'"
    using g(2,4) d(3,4) list_all2_lengthD [OF d(5)] by simp_all
  show "es_messages s' = List.length (ab_said (ab_after (t @ since w w')))" by (rule m)
  fix tok c' assume "(tok, c') \<in> set (es_conns s')"
  with sep have c': "conn_at s' tok = Some c'" by (simp add: conn_at_iff)
  from adds_conn [OF a g(1) this assms(3)] obtain c where c: "conn_at s tok = Some c" "e_fd c' = e_fd c"
    "accepted (e_fd c) (since w w') @ e_outbuf c' = e_outbuf c @ Q tok" by blast
  from g(5) [of tok c] g(1) c(1) have o: "2 \<le> tok" "tok < es_next s" "e_fd c \<in> open_after {} t"
    and f: "e_nick c = ab_nick (ab_after t) (e_fd c)" "e_inbuf c = ab_in (ab_after t) (e_fd c)"
      "(sent_on (e_fd c) t @ e_outbuf c) @ Z tok = ab_out (ab_after t) (e_fd c)"
    by (simp_all add: conn_at_iff follows_def)
  from step [OF c(1) c' f(1,2)] f(3) have st: "e_nick c' = ab_nick (ab_after (t @ since w w')) (e_fd c)"
    "e_inbuf c' = ab_in (ab_after (t @ since w w')) (e_fd c)"
    "(sent_on (e_fd c) t @ e_outbuf c) @ Q tok @ Z' tok = ab_out (ab_after (t @ since w w')) (e_fd c)" by blast+
  have "sent_on (e_fd c) (t @ since w w') @ e_outbuf c' @ Z' tok
      = sent_on (e_fd c) t @ (accepted (e_fd c) (since w w') @ e_outbuf c') @ Z' tok" by (simp add: q(3))
  with st(3) c(3) have "sent_on (e_fd c) (t @ since w w') @ e_outbuf c' @ Z' tok = ab_out (ab_after (t @ since w w')) (e_fd c)"
    by simp
  with o st c(2) d(3) show "2 \<le> tok \<and> tok < es_next s' \<and> e_fd c' \<in> open_after {} (t @ since w w') \<and>
      follows (ab_after (t @ since w w')) (t @ since w w') (Z' tok) c'"
    by (simp add: follows_def q(1))
qed

text \<open>Steps the abstract server does not see.\<close>

lemma es_good_unseen:
  assumes "es_good Z t s" and "adds Q s w s' w'" and "honest (since w w')" and "list_all (unseen \<circ> fst) (since w w')"
    and "es_messages s' = es_messages s" and "who s' = who s" and "\<And>tok. Q tok @ Z' tok = Z tok"
  shows "es_good Z' (t @ since w w') s'"
proof (rule es_good_adds [OF assms(1-3)])
  have u: "ab_after (t @ since w w') = ab_after t" using unseen_step [OF assms(4)] by simp
  show "es_messages s' = List.length (ab_said (ab_after (t @ since w w')))"
    using es_goodD(3) [OF assms(1)] assms(5) by (simp only: u)
  fix tok c c' assume "conn_at s tok = Some c" "conn_at s' tok = Some c'" "e_nick c = ab_nick (ab_after t) (e_fd c)"
    "e_inbuf c = ab_in (ab_after t) (e_fd c)"
  moreover have "who s' tok = who s tok" by (simp add: assms(6))
  ultimately show "e_nick c' = ab_nick (ab_after (t @ since w w')) (e_fd c) \<and> e_inbuf c' = ab_in (ab_after (t @ since w w')) (e_fd c) \<and>
      (\<forall>bs. bs @ Z tok = ab_out (ab_after t) (e_fd c) \<longrightarrow> bs @ Q tok @ Z' tok = ab_out (ab_after (t @ since w w')) (e_fd c))"
    unfolding u by (simp add: who_def assms(7))
qed

lemma es_inv_unseen:
  assumes "es_inv w0 s w" and "only unseen w w'"
    and "separate s \<Longrightarrow> adds (\<lambda>_. []) s w s' w' \<and> es_messages s' = es_messages s \<and> who s' = who s"
  shows "es_inv w0 s' w'"
proof (rule es_inv_next [OF assms(1) onlyD(1) [OF assms(2)]])
  assume g: "es_good (\<lambda>_. []) (since w0 w) s" and h: "honest (since w w')"
  from assms(3) [OF es_goodD(1) [OF g]] show "es_good (\<lambda>_. []) (since w0 w @ since w w') s'"
    by (intro es_good_unseen [OF g _ h onlyD(2) [OF assms(2)], where Q = "\<lambda>_. []"]) simp_all
qed

section \<open>The steps of the loop\<close>

lemma es_later:
  "keeps (\<lambda>_. True) w m \<Longrightarrow> m = Some (r, w') \<Longrightarrow> later w w'"
  by (blast dest: keepsD onlyD(1))

lemma sc_flush_inv:
  assumes "es_inv w0 s w" and "sc_flush epfd tok s w = Some (s', w')"
  shows "es_inv w0 s' w'"
  by (rule es_inv_unseen [OF assms(1) keepsD [OF sc_flush_keeps [OF only_refl] assms(2)]])
    (use sc_flush_adds [OF assms(2)] in simp_all)

lemma sc_on_readable_inv:
  assumes "es_inv w0 s w" and "sc_on_readable epfd tok s w = Some (s', w')"
  shows "es_inv w0 s' w'"
proof (rule es_inv_next [OF assms(1) es_later [OF sc_on_readable_keeps [OF only_refl TrueI TrueI TrueI] assms(2)]])
  let ?t = "since w0 w"
  assume g: "es_good (\<lambda>_. []) ?t s" and h: "honest (since w w')"
  note sep = es_goodD(1) [OF g]
  from assms(2) obtain c where c: "conn_at s tok = Some c"
    by (cases "conn_at s tok") (simp_all add: sc_on_readable_def)
  from es_goodD(5) [OF g, of tok c] c sep have f: "ab_nick (ab_after ?t) (e_fd c) = e_nick c" "ab_in (ab_after ?t) (e_fd c) = e_inbuf c"
    by (simp_all add: conn_at_iff follows_def)
  define A where "A = ab_after (?t @ since w w')"
  have "A = foldl ab_step (ab_after ?t) (since w w')" by (simp add: A_def)
  from sc_on_readable_abs [OF assms(2) sep c f this] obtain ds where ds: "adds (\<lambda>_. sc_delivery_bytes ds) s w s' w'"
    "es_messages s' = es_messages s + List.length ds" "ab_said A = ab_said (ab_after ?t) @ ds"
    "\<And>g. ab_out A g = ab_out (ab_after ?t) g @ sc_delivery_bytes ds"
    "\<And>g. g \<noteq> e_fd c \<Longrightarrow> ab_nick A g = ab_nick (ab_after ?t) g \<and> ab_in A g = ab_in (ab_after ?t) g"
    "who s' = (who s)(tok \<mapsto> (ab_nick A (e_fd c), ab_in A (e_fd c)))" by blast
  show "es_good (\<lambda>_. []) (?t @ since w w') s'"
  proof (rule es_good_adds [OF g ds(1) h], unfold A_def [symmetric])
    show "es_messages s' = List.length (ab_said A)" using ds(2,3) es_goodD(3) [OF g] by simp
    fix tok' d d' assume d: "conn_at s tok' = Some d" and d': "conn_at s' tok' = Some d'"
      and n: "e_nick d = ab_nick (ab_after ?t) (e_fd d)" "e_inbuf d = ab_in (ab_after ?t) (e_fd d)"
    have w: "who s' tok' = Some (e_nick d', e_inbuf d')" using d' by (simp add: who_def)
    have "e_nick d' = ab_nick A (e_fd d) \<and> e_inbuf d' = ab_in A (e_fd d)"
    proof (cases "tok' = tok")
      case True
      with d c w ds(6) show ?thesis by simp
    next
      case False
      have "e_fd d \<noteq> e_fd c"
      proof
        assume "e_fd d = e_fd c"
        with d c sep have "(tok', d) = (tok, c)" by (fastforce simp: conn_at_iff [OF sep] separate_def distinct_map inj_on_def)
        with False show False by simp
      qed
      from ds(5) [OF this] False w ds(6) d n show ?thesis by (simp add: who_def)
    qed
    then show "e_nick d' = ab_nick A (e_fd d) \<and> e_inbuf d' = ab_in A (e_fd d) \<and>
        (\<forall>bs. bs @ [] = ab_out (ab_after ?t) (e_fd d) \<longrightarrow> bs @ sc_delivery_bytes ds @ [] = ab_out A (e_fd d))"
      by (simp add: ds(4))
  qed
qed

lemma es_inv_dead:
  assumes "es_inv w0 s w"
  shows "es_inv w0 (upd_conn tok (\<lambda>c. c\<lparr>e_dead := True\<rparr>) s) w"
proof (rule es_inv_unseen [OF assms only_refl])
  assume "separate s"
  from upd_plain_adds [OF this, of "\<lambda>c. c\<lparr>e_dead := True\<rparr>" w tok]
  show "adds (\<lambda>_. []) s w (upd_conn tok (\<lambda>c. c\<lparr>e_dead := True\<rparr>) s) w \<and>
      es_messages (upd_conn tok (\<lambda>c. c\<lparr>e_dead := True\<rparr>) s) = es_messages s \<and>
      who (upd_conn tok (\<lambda>c. c\<lparr>e_dead := True\<rparr>) s) = who s"
    by (auto simp: fun_eq_iff who_def conn_at_upd option.map_comp comp_def)
qed

text \<open>A new connection, and a descriptor that is given back at once.\<close>

lemma es_good_new:
  assumes "es_good (\<lambda>_. []) t s" and "0 \<le> fd" and "fd \<notin> open_after {} t"
    and s'_def: "s' = s\<lparr>es_next := es_next s + 1, es_conns := es_conns s @ [(es_next s,
      \<lparr>e_fd = fd, e_nick = ''?'', e_inbuf = [], e_outbuf = [], e_want_write = False, e_dead = False\<rparr>)],
      es_peak := p\<rparr>"
    and "int (List.length (es_conns s)) + 1 \<le> p" and "rv a = fd"
  shows "es_good (\<lambda>tok. if tok = es_next s then sc_encode T_welcome [] else []) (t @ [(Accept lfd, Some a), (Ev e, x)]) s'"
proof -
  note g = es_goodD [OF assms(1)]
  let ?u = "[(Accept lfd, Some a), (Ev e, x)]"
  have nfd: "e_fd c \<noteq> fd" "tok < es_next s" if "(tok, c) \<in> set (es_conns s)" for tok c
    using g(5) [OF that] assms(3) by auto
  show ?thesis
  proof (rule es_goodI)
    show "separate s'" using g(1) nfd by (fastforce simp: separate_def s'_def)
    show "2 \<le> es_next s'" "es_messages s' = List.length (ab_said (ab_after (t @ ?u)))" "int (List.length (es_conns s')) \<le> es_peak s'"
      using g(2,3) assms(2,5,6) by (simp_all add: s'_def)
    fix tok c assume c: "(tok, c) \<in> set (es_conns s')"
    show "2 \<le> tok \<and> tok < es_next s' \<and> e_fd c \<in> open_after {} (t @ ?u) \<and>
      follows (ab_after (t @ ?u)) (t @ ?u) (if tok = es_next s then sc_encode T_welcome [] else []) c"
    proof (cases "(tok, c) \<in> set (es_conns s)")
      case True
      from nfd [OF True] g(5) [OF True] assms(2,6) show ?thesis by (simp add: s'_def follows_def)
    next
      case False
      with c have "tok = es_next s" "c = \<lparr>e_fd = fd, e_nick = ''?'', e_inbuf = [], e_outbuf = [], e_want_write = False, e_dead = False\<rparr>"
        by (auto simp: s'_def)
      with g(2) assms(2,6) show ?thesis by (simp add: s'_def follows_def)
    qed
  qed
qed

lemma es_good_frame:
  assumes "es_good Z t s" and "es_next s \<le> n" and s': "s' = s\<lparr>es_next := n\<rparr>"
    and said: "ab_said (ab_after (t @ u)) = ab_said (ab_after t)"
    and same: "\<And>fd. fd \<in> open_after {} t \<Longrightarrow> fd \<in> open_after {} (t @ u) \<and> sent_on fd (t @ u) = sent_on fd t \<and>
      ab_nick (ab_after (t @ u)) fd = ab_nick (ab_after t) fd \<and> ab_in (ab_after (t @ u)) fd = ab_in (ab_after t) fd \<and>
      ab_out (ab_after (t @ u)) fd = ab_out (ab_after t) fd"
  shows "es_good Z (t @ u) s'"
proof (rule es_goodI)
  note g = es_goodD [OF assms(1)]
  show "separate s'" "2 \<le> es_next s'" "es_messages s' = List.length (ab_said (ab_after (t @ u)))"
    "int (List.length (es_conns s')) \<le> es_peak s'"
    using g(1-4) assms(2) said by (simp_all add: separate_def s' del: ab_after_append)
  fix tok c assume "(tok, c) \<in> set (es_conns s')"
  then have "(tok, c) \<in> set (es_conns s)" by (simp add: s')
  from g(5) [OF this] same [of "e_fd c"] assms(2)
  show "2 \<le> tok \<and> tok < es_next s' \<and> e_fd c \<in> open_after {} (t @ u) \<and> follows (ab_after (t @ u)) (t @ u) (Z tok) c"
    by (simp add: follows_def s' del: ab_after_append sent_on_simps foldl_append)
qed

lemma sc_accept_turn_inv:
  assumes "es_inv w0 s w"
  shows "sc_accept_turn epfd lfd s w = Some (Continue s', w') \<Longrightarrow> es_inv w0 s' w'"
    and "sc_accept_turn epfd lfd s w = Some (Break s', w') \<Longrightarrow> es_inv w0 s' w'"
proof -
  { assume "sc_accept_turn epfd lfd s w = Some (Break s', w')"
    then obtain a where a: "sys (Accept lfd) w = Some (a, w')" "rv a < 0" "s' = s"
      by (auto simp: sc_accept_turn_def Let_def split: if_splits)
    note l = sys_SomeE(1,2) [OF a(1)]
    show "es_inv w0 s' w'"
    proof (rule es_inv_next [OF assms l(1)], unfold l(2) a(3))
      assume "es_good (\<lambda>_. []) (since w0 w) s"
      then show "es_good (\<lambda>_. []) (since w0 w @ [(Accept lfd, Some a)]) s"
        using a(2) by (intro es_good_frame [OF _ order_refl]) simp_all
    qed }
  { assume "sc_accept_turn epfd lfd s w = Some (Continue s', w')"
    note run = this
    then obtain a w1 where a: "sys (Accept lfd) w = Some (a, w1)"
      by (cases "sys (Accept lfd) w") (auto simp: sc_accept_turn_def)
    with run have pos: "0 \<le> rv a" by (simp add: sc_accept_turn_def split: if_splits)
    with run a obtain b w2 where b: "sys (Ev (Ev_epoll_add (rv a) (es_next s) EPOLLIN)) w1 = Some (b, w2)"
      by (cases "sys (Ev (Ev_epoll_add (rv a) (es_next s) EPOLLIN)) w1") (auto simp: sc_accept_turn_def Let_def)
    let ?n = "1 + int (List.length (es_conns s))" and ?e = "(Ev (Ev_epoll_add (rv a) (es_next s) EPOLLIN), Some b)"
    define p where "p = (if ?n > es_peak s then ?n else es_peak s)"
    define s1 where "s1 = s\<lparr>es_next := es_next s + 1, es_conns := es_conns s @ [(es_next s,
        \<lparr>e_fd = rv a, e_nick = ''?'', e_inbuf = [], e_outbuf = [], e_want_write = False, e_dead = False\<rparr>)], es_peak := p\<rparr>"
    note l1 = sys_SomeE(1,2) [OF a]
    note l2 = sys_after [OF l1(1) b]
    show "es_inv w0 s' w'"
    proof (cases "rv b = 0")
      case False
      with run a b pos have e: "s' = s\<lparr>es_next := es_next s + 1\<rparr>" "w' = emit (Close (rv a)) w2"
        by (simp_all add: sc_accept_turn_def Let_def)
      have s: "since w w' = [(Accept lfd, Some a), ?e, (Close (rv a), None)]"
        using l1 l2 by (simp add: e)
      show ?thesis
      proof (rule es_inv_next [OF assms], unfold s)
        show "later w w'" using l2(1) by (simp add: e)
        assume g: "es_good (\<lambda>_. []) (since w0 w) s"
          and "fresh_conns (open_after {} (since w0 w)) [(Accept lfd, Some a), ?e, (Close (rv a), None)]"
        then have "rv a \<notin> open_after {} (since w0 w)" by simp
        with pos show "es_good (\<lambda>_. []) (since w0 w @ [(Accept lfd, Some a), ?e, (Close (rv a), None)]) s'"
          unfolding e(1) by (intro es_good_frame [OF g, of "es_next s + 1"]) auto
      qed
    next
      case True
      with run a b pos have q: "sc_queue epfd (es_next s) (sc_encode T_welcome []) s1 w2 = Some (s', w')"
        by (cases "es_peak s < ?n") (simp_all add: sc_accept_turn_def Let_def s1_def p_def)
      have p: "int (List.length (es_conns s)) + 1 \<le> p" by (simp add: p_def)
      from keepsD [OF sc_queue_keeps [OF only_refl] q] have o: "only unseen w2 w'" by simp
      have s: "since w w' = [(Accept lfd, Some a), ?e] @ since w2 w'"
        using l1 l2 since_trans [OF l2(1) onlyD(1) [OF o]] by simp
      show ?thesis
      proof (rule es_inv_next [OF assms later_trans [OF l2(1) onlyD(1) [OF o]]], unfold s)
        assume g: "es_good (\<lambda>_. []) (since w0 w) s" and h: "honest ([(Accept lfd, Some a), ?e] @ since w2 w')"
          and "fresh_conns (open_after {} (since w0 w)) ([(Accept lfd, Some a), ?e] @ since w2 w')"
        then have n: "rv a \<notin> open_after {} (since w0 w)" and h2: "honest (since w2 w')" by simp_all
        note g1 = es_good_new [OF g pos n s1_def p refl, of lfd "Ev_epoll_add (rv a) (es_next s) EPOLLIN" "Some b"]
        note q = sc_queue_adds [OF q es_goodD(1) [OF g1]]
        have "es_good (\<lambda>_. []) ((since w0 w @ [(Accept lfd, Some a), ?e]) @ since w2 w') s'"
          by (rule es_good_unseen [OF g1 q(1) h2 onlyD(2) [OF o] q(2,3)]) simp
        then show "es_good (\<lambda>_. []) (since w0 w @ [(Accept lfd, Some a), ?e] @ since w2 w') s'"
          by (simp only: append_assoc)
      qed
    qed }
qed

text \<open>The end of a batch.\<close>

definition closes_only :: "int set \<Rightarrow> call \<Rightarrow> bool" where
  "closes_only F c \<longleftrightarrow> (\<exists>e. c = Ev e) \<or> (\<exists>fd \<in> F. c = Close fd)"

lemma closes_only_trace:
  assumes "list_all (closes_only F \<circ> fst) t"
  shows "S - F \<subseteq> open_after S t" "foldl (sent_step fd) bs t = bs" "foldl ab_step A t = A"
proof -
  show "S - F \<subseteq> open_after S t" using assms
  proof (induction t arbitrary: S)
    case (Cons e t)
    then have "S - F \<subseteq> open_step S e - F" by (cases e) (auto simp: closes_only_def)
    moreover from Cons have "open_step S e - F \<subseteq> open_after (open_step S e) t" by simp
    ultimately show ?case by (simp add: subset_trans)
  qed simp
  show "foldl (sent_step fd) bs t = bs" using assms by (induction t) (auto simp: closes_only_def)
  show "foldl ab_step A t = A" using assms by (induction t) (auto simp: closes_only_def)
qed

lemma sc_reap_spec:
  "sc_reap cs w = (cs', w') \<Longrightarrow> cs' = filter (\<lambda>(t, c). \<not> e_dead c) cs \<and>
     only (closes_only ((e_fd \<circ> snd) ` {x \<in> set cs. e_dead (snd x)})) w w'"
proof (induction cs arbitrary: cs' w)
  case Nil
  then show ?case by simp
next
  case (Cons x cs)
  obtain t c where x: "x = (t, c)" by (cases x)
  let ?F = "(e_fd \<circ> snd) ` {x \<in> set cs. e_dead (snd x)}" and ?G = "(e_fd \<circ> snd) ` {y \<in> set (x # cs). e_dead (snd y)}"
  have mono: "only (closes_only ?F) v v' \<Longrightarrow> only (closes_only ?G) v v'" for v v'
    by (auto simp: only_def closes_only_def list_all_iff)
  show ?case
  proof (cases "e_dead c")
    case True
    let ?w1 = "fd_reset (e_fd c) (emit (Ev (Ev_epoll_del (e_fd c))) w)"
    from True Cons.prems x have "sc_reap cs ?w1 = (cs', w')" by simp
    from Cons.IH [OF this] have IH: "cs' = filter (\<lambda>(t, c). \<not> e_dead c) cs" "only (closes_only ?G) ?w1 w'" using mono by auto
    have "only (closes_only ?G) w ?w1"
      using True x by (intro keeps_intros) (force simp: closes_only_def)+
    with IH(2) have "only (closes_only ?G) w w'"
      using later_trans [of w ?w1 w'] since_trans [of w ?w1 w'] by (simp add: only_def)
    with IH(1) True x show ?thesis by simp
  next
    case False
    with Cons.prems x obtain cs1 where "sc_reap cs w = (cs1, w')" "cs' = (t, c) # cs1"
      by (auto split: prod.splits)
    with Cons.IH mono False x show ?thesis by auto
  qed
qed

lemma sc_reap_closed_inv:
  assumes "es_inv w0 s w" and "sc_reap_closed s w = (s', w')"
  shows "es_inv w0 s' w'"
proof -
  let ?F = "(e_fd \<circ> snd) ` {x \<in> set (es_conns s). e_dead (snd x)}"
  obtain cs where r: "sc_reap (es_conns s) w = (cs, w')" and s': "s' = s\<lparr>es_conns := cs\<rparr>"
    using assms(2) by (auto simp: sc_reap_closed_def split: prod.splits)
  from sc_reap_spec [OF r] have cs: "cs = filter (\<lambda>(t, c). \<not> e_dead c) (es_conns s)" and o: "only (closes_only ?F) w w'" by simp_all
  note t = closes_only_trace [OF onlyD(2) [OF o]]
  show ?thesis
  proof (rule es_inv_next [OF assms(1) onlyD(1) [OF o]], rule es_goodI)
    assume "es_good (\<lambda>_. []) (since w0 w) s"
    note g = es_goodD [OF this]
    have "List.length cs \<le> List.length (es_conns s)" by (simp add: cs)
    with g(2-4) show "2 \<le> es_next s'" "int (List.length (es_conns s')) \<le> es_peak s'"
      "es_messages s' = List.length (ab_said (ab_after (since w0 w @ since w w')))" by (simp_all add: s' t(3))
    show "separate s'" using g(1) by (auto simp: separate_def s' cs distinct_map_filter)
    fix tok c assume "(tok, c) \<in> set (es_conns s')"
    then have c: "(tok, c) \<in> set (es_conns s)" "\<not> e_dead c" by (auto simp: s' cs)
    have "e_fd c \<notin> ?F"
    proof
      assume "e_fd c \<in> ?F"
      then obtain tok' d where d: "(tok', d) \<in> set (es_conns s)" "e_dead d" "e_fd d = e_fd c" by auto
      with g(1) c have "(tok', d) = (tok, c)" by (fastforce simp: separate_def distinct_map inj_on_def)
      with d c show False by simp
    qed
    with g(5) [OF c(1)] t(1) have "e_fd c \<in> open_after (open_after {} (since w0 w)) (since w w')" by blast
    with g(5) [OF c(1)] show "2 \<le> tok \<and> tok < es_next s' \<and> e_fd c \<in> open_after {} (since w0 w @ since w w') \<and>
        follows (ab_after (since w0 w @ since w w')) (since w0 w @ since w w') [] c"
      by (simp add: s' t(2,3) follows_def)
  qed
qed

lemma es_inv_println: "es_inv w0 s w \<Longrightarrow> es_inv w0 s (println st m w)"
  by (rule es_inv_unseen [where s = s and w = w]) (simp_all add: only_def adds_quiet_calls)

lemma sc_accept_loop_inv:
  assumes "es_inv w0 s w" and "loop (sc_accept_turn epfd lfd) s w = Some (s', w')"
  shows "es_inv w0 s' w'"
  using assms(2,1)
  by (rule loop_rule [where I = "es_inv w0"]) (blast intro: sc_accept_turn_inv)+

abbreviation es_end :: "epoll_server + epoll_server \<times> int \<Rightarrow> epoll_server" where
  "es_end r \<equiv> (case r of Inl s \<Rightarrow> s | Inr (s, _) \<Rightarrow> s)"

lemma sc_events_inv:
  "sc_events epfd lfd es s w = Some (r, w') \<Longrightarrow> es_inv w0 s w \<Longrightarrow> es_inv w0 (es_end r) w'"
proof (induction es arbitrary: s w)
  case Nil
  then show ?case by auto
next
  case (Cons x es)
  obtain tok ev where x: "x = (tok, ev)" by (cases x)
  consider (accept) "tok = 0" | (signal) "tok = 1" | (gone) "1 < tok" "conn_at s tok = None" | (conn) "1 < tok" "conn_at s tok \<noteq> None"
    by linarith
  then show ?case
  proof cases
    case accept
    with Cons.prems(1) x obtain s1 w1 where "loop (sc_accept_turn epfd lfd) s w = Some (s1, w1)"
      "sc_events epfd lfd es s1 w1 = Some (r, w')" by auto
    with Cons sc_accept_loop_inv show ?thesis by blast
  next
    case signal
    obtain s1 w1 where r: "sc_reap_closed s w = (s1, w1)" by (cases "sc_reap_closed s w")
    with Cons.prems(1) x signal have "r = Inr (s1, 0)" "\<exists>m. w' = println Stderr m w1" by auto
    with sc_reap_closed_inv [OF Cons.prems(2) r] show ?thesis by (auto intro: es_inv_println)
  next
    case gone
    with Cons x show ?thesis by auto
  next
    case conn
    define s0 where "s0 = (if ev AND (EPOLLHUP OR EPOLLERR) \<noteq> 0 then upd_conn tok (\<lambda>c. c\<lparr>e_dead := True\<rparr>) s else s)"
    have i0: "es_inv w0 s0 w" using Cons.prems(2) by (auto simp: s0_def intro: es_inv_dead)
    have ne: "tok \<noteq> 0" "tok \<noteq> 1" "conn_at s tok \<noteq> None" using conn by simp_all
    have "do {
        (s, w) \<leftarrow> (if ev AND EPOLLIN \<noteq> 0 then sc_on_readable epfd tok s0 w else Some (s0, w));
        (s, w) \<leftarrow> (if conn_at s tok \<noteq> None \<and> ev AND EPOLLOUT \<noteq> 0 then sc_flush epfd tok s w else Some (s, w));
        sc_events epfd lfd es s w } = Some (r, w')"
      using Cons.prems(1) by (simp only: x sc_events.simps ne if_False Let_def s0_def)
    then obtain s1 w1 s2 w2
      where r1: "(if ev AND EPOLLIN \<noteq> 0 then sc_on_readable epfd tok s0 w else Some (s0, w)) = Some (s1, w1)"
        and r2: "(if conn_at s1 tok \<noteq> None \<and> ev AND EPOLLOUT \<noteq> 0 then sc_flush epfd tok s1 w1 else Some (s1, w1)) = Some (s2, w2)"
        and r3: "sc_events epfd lfd es s2 w2 = Some (r, w')"
      by (simp only: io_bind_Some) blast
    from r1 i0 have "es_inv w0 s1 w1" by (auto intro: sc_on_readable_inv split: if_splits)
    with r2 have "es_inv w0 s2 w2" by (auto intro: sc_flush_inv split: if_splits)
    with r3 show ?thesis by (rule Cons.IH)
  qed
qed

lemma sc_epoll_turn_inv:
  assumes "sc_epoll_turn epfd lfd s w = Some (c, w')" and "es_inv w0 s w"
  shows "es_inv w0 (case c of Continue s' \<Rightarrow> s' | Break (s', _) \<Rightarrow> s') w'"
proof -
  from assms(1) obtain n w1 where n: "sys (Ev (Ev_epoll_wait 64)) w = Some (n, w1)"
    by (cases "sys (Ev (Ev_epoll_wait 64)) w") (auto simp: sc_epoll_turn_def)
  have i1: "es_inv w0 s w1"
    using sys_SomeE(1,2) [OF n]
    by (intro es_inv_unseen [OF assms(2)] conjI adds_quiet_calls) (simp_all add: only_def)
  show ?thesis
  proof (cases "rv n < 0")
    case True
    with assms(1) n i1 show ?thesis by (auto simp: sc_epoll_turn_def intro: es_inv_println split: if_splits)
  next
    case False
    with assms(1) n obtain r w2 where e: "sc_events epfd lfd (evs n) s w1 = Some (r, w2)"
      and k: "(case r of Inr res \<Rightarrow> Some (Break res, w2)
        | Inl s \<Rightarrow> (case sc_reap_closed s w2 of (s, w) \<Rightarrow> Some (Continue s, w))) = Some (c, w')"
      by (auto simp: sc_epoll_turn_def simp del: case_sum_Some)
    from sc_events_inv [OF e i1] have i2: "es_inv w0 (es_end r) w2" .
    show ?thesis
    proof (cases r)
      case (Inl s1)
      obtain s2 w3 where q: "sc_reap_closed s1 w2 = (s2, w3)" by (cases "sc_reap_closed s1 w2")
      with k Inl have "c = Continue s2" "w' = w3" by simp_all
      with sc_reap_closed_inv [OF _ q] i2 Inl show ?thesis by simp
    next
      case (Inr res)
      with k i2 show ?thesis by (auto split: prod.splits)
    qed
  qed
qed

definition epoll_start :: epoll_server where
  "epoll_start = \<lparr>es_conns = [], es_next = 2, es_messages = 0, es_peak = 0\<rparr>"

lemma sc_epoll_turns_inv:
  "(\<lambda>(s, w) (s', w'). sc_epoll_turn epfd lfd s w = Some (Continue s', w'))\<^sup>*\<^sup>* (epoll_start, v) (s, w) \<Longrightarrow> es_inv v s w"
proof (induction "(s, w)" arbitrary: s w rule: rtranclp_induct)
  case base
  have "es_good (\<lambda>_. []) [] epoll_start" by (rule es_goodI) (simp_all add: epoll_start_def separate_def ab_start_def)
  then show ?case by (simp add: es_inv_def)
next
  case (step p s' w')
  obtain s w where p: "p = (s, w)" by (cases p)
  with step have "es_inv v s w" "sc_epoll_turn epfd lfd s w = Some (Continue s', w')" by simp_all
  with sc_epoll_turn_inv [of epfd lfd s w "Continue s'" w' v] show ?case by simp
qed

section \<open>What happens when a peer closes\<close>

lemma sc_on_readable_closed:
  assumes "sc_on_readable epfd tok s w = Some (s', w')" and "separate s" and "conn_at s tok = Some c"
    and "\<not> drained (e_fd c) (since w w')"
  shows "es_messages s' = es_messages s \<and> only (recvs_on (e_fd c)) w w' \<and>
    (\<exists>c'. conn_at s' tok = Some c' \<and> e_dead c' \<and> e_inbuf c' = e_inbuf c @ received (e_fd c) (since w w'))"
proof -
  from assms(1,3) obtain inbuf died w1 where l: "loop (sc_read_turn (e_fd c)) (e_inbuf c) w = Some ((inbuf, died), w1)"
    and r: "(if died then Some (upd_conn tok (\<lambda>c. c\<lparr>e_inbuf := inbuf, e_dead := True\<rparr>) s, w1)
       else (case sc_drain inbuf of (fs, rest) \<Rightarrow>
         sc_process epfd tok fs (upd_conn tok (\<lambda>c. c\<lparr>e_inbuf := rest\<rparr>) s) w1)) = Some (s', w')"
    by (auto simp: sc_on_readable_def simp del: if_Some)
  note o = sc_read_loop [OF l]
  have "died"
  proof (rule ccontr)
    assume nd: "\<not> died"
    with r obtain fs rest where "sc_process epfd tok fs (upd_conn tok (\<lambda>c. c\<lparr>e_inbuf := rest\<rparr>) s) w1 = Some (s', w')"
      by (auto split: prod.splits)
    from es_later [OF sc_process_keeps [OF only_refl TrueI TrueI] this] have "later w1 w'" .
    with o nd assms(4) since_trans [of w w1 w'] show False by (auto simp: only_def)
  qed
  with r o assms(3) show ?thesis by (auto simp: conn_at_upd)
qed

section \<open>Properties\<close>

text \<open>A connection's thread delivers exactly the messages of the frames it received, in order and under
  the nick of the last JOIN, however the bytes are cut into reads, and registers no other operation
  but its removal at the end: an incomplete frame stays in the buffer.\<close>

lemma scaling_thread_delivers:
  assumes "sc_serve_conn i fd w = Some (u, w')" and "list_all small_frame fs"
    and "prefix (received fd (since w w')) (stream_of sc_enc fs)"
  shows "\<exists>fs1 fs2 b. fs = fs1 @ fs2 \<and> partial sc_enc fs2 b \<and> received fd (since w w') = stream_of sc_enc fs1 @ b \<and>
    hub_ops (since w w') = sc_delivery_ops (sc_deliveries ''?'' fs1) @ [Hub_remove i]"
  using assms by (rule sc_serve_conn_spec)

lemmas sc_eval = sc_serve_conn_def sc_serve_conn_turn_def sc_write_all_def sc_write_all_turn_def loop.simps io_defs
  sc_encode_def sc_drain.simps sc_take_frame_def be16_eval be16_value_eq filled_def returned_def gave_def failed_def since_def

definition two_frames :: "frame list" where
  "two_frames = [\<lparr>ftype = T_join, payload = [97]\<rparr>, \<lparr>ftype = T_msg, payload = [104, 105]\<rparr>]"


text \<open>C11: After any number of turns of the event loop, whatever the kernel reports, as long as \<open>accept\<close> returns
  descriptors that are not open, the engine is where the abstract server is that saw the same answers to
  \<open>accept\<close> and \<open>recv\<close>: as many messages are counted, and of every connection the nick, the input not
  yet handled and the stream, what was sent and then what is queued, are those of its descriptor. The
  stream is the WELCOME and then the DELIVER of every message said since the connection came, each once
  and in the one order that is the same for all.\<close>

theorem scaling_epoll_follows:
  assumes "(\<lambda>(s, w) (s', w'). sc_epoll_turn epfd lfd s w = Some (Continue s', w'))\<^sup>*\<^sup>* (epoll_start, v) (s0, w0)"
    and "sc_epoll_turn epfd lfd s0 w0 = Some (r, w)"
    and "s = (case r of Continue s \<Rightarrow> s | Break (s, rc) \<Rightarrow> s)"
    and "honest (since v w)" and "fresh_conns {} (since v w)" and "(tok, c) \<in> set (es_conns s)"
  shows "es_messages s = List.length (ab_said (ab_after (since v w))) \<and>
    e_nick c = ab_nick (ab_after (since v w)) (e_fd c) \<and> e_inbuf c = ab_in (ab_after (since v w)) (e_fd c) \<and>
    sent_on (e_fd c) (since v w) @ e_outbuf c = ab_out (ab_after (since v w)) (e_fd c) \<and>
    (\<exists>k \<le> es_messages s. ab_out (ab_after (since v w)) (e_fd c) =
       sc_encode T_welcome [] @ sc_delivery_bytes (drop k (ab_said (ab_after (since v w)))))"
proof -
  from sc_epoll_turns_inv [OF assms(1)] sc_epoll_turn_inv [OF assms(2)] assms(3) have "es_inv v s w" by blast
  with assms(4,5) have g: "es_good (\<lambda>_. []) (since v w) s" by (simp add: es_inv_def)
  from es_goodD(3,5) [OF g] assms(6) ab_after_hears [of "since v w" "e_fd c"] show ?thesis
    by (auto simp: follows_def hears_def)
qed

text \<open>C12: In the epoll engine a connection whose peer closes loses the frames that came with the close: they
  are in its buffer, complete, but none is processed, counted or sent, and the connection is marked
  for removal. A thread of the other engine processes them first.\<close>

theorem scaling_close_loses_messages:
  assumes "sc_on_readable epfd tok s w = Some (s', w')" and "separate s" and "conn_at s tok = Some c"
    and "\<not> drained (e_fd c) (since w w')"
  shows "es_messages s' = es_messages s \<and> accepted fd (since w w') = [] \<and>
    (\<exists>c'. conn_at s' tok = Some c' \<and> e_dead c' \<and> e_inbuf c' = e_inbuf c @ received (e_fd c) (since w w'))"
  using sc_on_readable_closed [OF assms] by (auto simp: only_def recvs_on_only)

text \<open>C13: A message whose DELIVER payload, the nick, a NUL and the text, is longer than 65535 bytes although its
  own frame and that of the JOIN were not, is broadcast all the same, and the length in its header is
  the length modulo 65536. A client that reads such a frame from its buffer is given the first bytes of
  the payload as the message, without a call to the kernel, and is left with the rest of the payload, not empty,
  where the next frame should begin.\<close>

theorem scaling_length_wraps:
  assumes "sc_process epfd tok [f] s w = Some (s', w')" and "separate s" and "who s tok = Some (nick, ib)"
    and "ftype f = T_msg" and "small_frame f" and "List.length nick \<le> 65535"
    and "65535 < List.length (sc_deliver_payload nick (payload f))"
    and "D = sc_encode T_deliver (sc_deliver_payload nick (payload f))"
    and "n = List.length (sc_deliver_payload nick (payload f)) - 65536"
  shows "adds (\<lambda>_. D) s w s' w' \<and> n < List.length (sc_deliver_payload nick (payload f)) \<and>
    sc_recv_frame cfd (D @ next_frames) v =
      Some ((Some \<lparr>ftype = T_deliver, payload = take n (sc_deliver_payload nick (payload f))\<rparr>,
        drop n (sc_deliver_payload nick (payload f)) @ next_frames), v)"
proof -
  have "List.length (sc_deliver_payload nick (payload f)) mod 65536 = n"
    using assms(5-7,9) by (simp add: sc_deliver_payload_def mod_if)
  with sc_process_adds [OF assms(1-3)] assms(4,7,9) show ?thesis
    by (simp add: assms(8) sc_recv_frame_def loop.simps sc_recv_turn_def sc_take_frame_encode)
qed

text \<open>The scaled servers speak the protocol of the capstone: they encode every frame to the same bytes,
  and decode what \<open>proto::write_frame\<close> puts on the wire.\<close>

lemma scaling_codec_is_capstone:
  assumes "List.length (payload f) \<le> 0xFFFF"
  shows "sc_encode (ftype f) (payload f) = proto_encode f \<and> sc_take_frame (proto_encode f @ rest) = (Some f, rest)"
  using sc_take_frame_whole [OF assms, of rest] by (simp add: sc_enc_proto sc_enc_def [symmetric])

definition one_conn :: epoll_server where
  "one_conn = \<lparr>es_conns = [(2, \<lparr>e_fd = 7, e_nick = ''?'', e_inbuf = [], e_outbuf = [], e_want_write = False, e_dead = False\<rparr>)],
     es_next = 3, es_messages = 0, es_peak = 1\<rparr>"

theorem scaling_close_loses_messages_witness:
  "\<exists>s' w'. sc_on_readable 3 2 one_conn (answering [gave (stream_of sc_enc two_frames), returned 0]) = Some (s', w') \<and>
    es_messages s' = 0 \<and> accepted 7 (since (answering [gave (stream_of sc_enc two_frames), returned 0]) w') = []"
proof -
  let ?w = "answering [gave (stream_of sc_enc two_frames), returned 0]"
  have "\<exists>s' w'. sc_on_readable 3 2 one_conn ?w = Some (s', w') \<and> \<not> drained 7 (since ?w w')"
    by (simp add: sc_on_readable_def sc_read_turn_def one_conn_def conn_at_def upd_conn_def two_frames_def sc_enc_def sc_eval drained_def)
  then obtain s' w' where r: "sc_on_readable 3 2 one_conn ?w = Some (s', w')" and d: "\<not> drained 7 (since ?w w')" by blast
  have "separate one_conn" by (simp add: separate_def one_conn_def)
  moreover have c: "conn_at one_conn 2 = Some (snd (hd (es_conns one_conn)))" "e_fd (snd (hd (es_conns one_conn))) = 7"
    "es_messages one_conn = 0" by (simp_all add: one_conn_def conn_at_def)
  ultimately show ?thesis using scaling_close_loses_messages [OF r _ c(1), of 7] d r c by auto
qed



text \<open>A connection is accepted, and its two frames come in the next turn; the kernel takes the WELCOME and
  a part of the DELIVER.\<close>

definition two_turns :: "answer list" where
  "two_turns = [\<lparr>rv = 1, eno = 0, dat = [], evs = [(0, 1)]\<rparr>, returned 9, returned 0, returned 6, failed EAGAIN,
     \<lparr>rv = 1, eno = 0, dat = [], evs = [(2, 1)]\<rparr>, gave (stream_of sc_enc two_frames), failed EAGAIN, returned 4, failed EAGAIN]"

theorem scaling_epoll_follows_witness:
  "\<exists>s1 w1 s w c. sc_epoll_turn 5 3 epoll_start (answering two_turns) = Some (Continue s1, w1) \<and>
    sc_epoll_turn 5 3 s1 w1 = Some (Continue s, w) \<and> (2, c) \<in> set (es_conns s) \<and> e_fd c = 9 \<and> e_nick c = ''a'' \<and>
    sent_on 9 (since (answering two_turns) w) @ e_outbuf c =
      sc_encode T_welcome [] @ sc_encode T_deliver (sc_deliver_payload ''a'' [104, 105])"
proof -
  let ?v = "answering two_turns"
  have "\<exists>s1 w1 s w c. sc_epoll_turn 5 3 epoll_start ?v = Some (Continue s1, w1) \<and>
      sc_epoll_turn 5 3 s1 w1 = Some (Continue s, w) \<and> (2, c) \<in> set (es_conns s) \<and> e_fd c = 9 \<and>
      honest (since ?v w) \<and> fresh_conns {} (since ?v w) \<and>
      ab_nick (ab_after (since ?v w)) 9 = ''a'' \<and>
      ab_out (ab_after (since ?v w)) 9 = sc_encode T_welcome [] @ sc_encode T_deliver (sc_deliver_payload ''a'' [104, 105])"
    by (simp add: two_turns_def epoll_start_def sc_epoll_turn_def sc_accept_turn_def sc_reap_closed_def sc_on_readable_def sc_read_turn_def
      conn_at_def upd_conn_def two_frames_def sc_enc_def sc_eval sc_broadcast_def sc_queue_def sc_flush_def sc_flush_turn_def
      sc_deliver_payload_def char_eval Let_def honest_def honest_event_def ab_start_def ab_say_def ab_after_def)
  then obtain s1 w1 s w c where r: "sc_epoll_turn 5 3 epoll_start ?v = Some (Continue s1, w1)"
    "sc_epoll_turn 5 3 s1 w1 = Some (Continue s, w)" "(2, c) \<in> set (es_conns s)" "e_fd c = 9"
    and h: "honest (since ?v w)" "fresh_conns {} (since ?v w)"
      "ab_nick (ab_after (since ?v w)) 9 = ''a''"
      "ab_out (ab_after (since ?v w)) 9 = sc_encode T_welcome [] @ sc_encode T_deliver (sc_deliver_payload ''a'' [104, 105])"
    by blast
  have "(\<lambda>(s, w) (s', w'). sc_epoll_turn 5 3 s w = Some (Continue s', w'))\<^sup>*\<^sup>* (epoll_start, ?v) (s1, w1)"
    using r(1) by (intro r_into_rtranclp) simp
  from scaling_epoll_follows [OF this r(2) _ h(1,2) r(3)] h(3,4) r show ?thesis by auto
qed

text \<open>The nick is the one a connection starts with and the text the longest a MSG can have.\<close>

theorem scaling_length_wraps_witness:
  "\<exists>s' w'. sc_process 3 2 [\<lparr>ftype = T_msg, payload = replicate 65535 65\<rparr>] one_conn (answering [failed EAGAIN]) = Some (s', w') \<and>
    adds (\<lambda>_. sc_encode T_deliver (sc_deliver_payload ''?'' (replicate 65535 65))) one_conn (answering [failed EAGAIN]) s' w' \<and>
    sc_recv_frame 4 (sc_encode T_deliver (sc_deliver_payload ''?'' (replicate 65535 65))) (answering []) =
      Some ((Some \<lparr>ftype = T_deliver, payload = [63]\<rparr>, 0 # replicate 65535 65), answering [])"
proof -
  define p where "p = replicate 65535 (65 :: byte)"
  have l: "List.length p = 65535" by (simp add: p_def)
  let ?f = "\<lparr>ftype = T_msg, payload = p\<rparr>" and ?w = "answering [failed EAGAIN]" and ?D = "sc_encode T_deliver (sc_deliver_payload ''?'' p)"
  have "\<exists>s' w'. sc_process 3 2 [?f] one_conn ?w = Some (s', w')"
    by (simp add: one_conn_def conn_at_def upd_conn_def sc_broadcast_def sc_queue_def sc_flush_def sc_flush_turn_def
      sc_encode_def loop.simps io_defs failed_def)
  then obtain s' w' where r: "sc_process 3 2 [?f] one_conn ?w = Some (s', w')" by blast
  have c: "separate one_conn" "who one_conn 2 = Some (''?'', [])"
    by (simp_all add: separate_def one_conn_def who_def conn_at_def)
  have d: "sc_deliver_payload ''?'' p = 63 # 0 # p" by (simp add: sc_deliver_payload_def char_eval)
  from scaling_length_wraps [OF r c(1,2), where cfd = 4 and D = ?D and next_frames = "[]" and v = "answering []" and n = 1] l
  have "adds (\<lambda>_. ?D) one_conn ?w s' w' \<and>
      sc_recv_frame 4 ?D (answering []) = Some ((Some \<lparr>ftype = T_deliver, payload = [63]\<rparr>, 0 # p), answering [])"
    by (simp add: d)
  with r show ?thesis unfolding p_def by blast
qed

end
