(* ===== verification/Heartbeat.thy ===== *)
theory Heartbeat
  imports Chatterd FrameStream
begin

text \<open>
  The peer with heartbeats and deadlines, \<open>main.cpp\<close> of \<open>examples/24-time-timers-deadlines\<close>: a
  periodic timer drives PING frames, any traffic moves a deadline on the monotonic clock, and a
  peer that stays silent is declared dead. The clock, the timer and the random jitter are answers
  of the kernel; times are unbounded integers of nanoseconds, cut to the width of an \<open>int\<close> where the
  code does.

  A definition that can call \<open>die\<close> returns a sum: \<open>Inl 1\<close> is \<open>std::exit(1)\<close>, which runs no
  destructor.
\<close>

section \<open>The frame\<close>

abbreviation hb_join :: byte where "hb_join \<equiv> 1"
abbreviation hb_msg :: byte where "hb_msg \<equiv> 2"
abbreviation hb_ping :: byte where "hb_ping \<equiv> 5"

definition hb_encode :: "byte \<Rightarrow> byte list \<Rightarrow> byte list" where
  "hb_encode t p = [67, 72, 1, t, be16_hi (List.length p), be16_lo (List.length p)] @ p"

text \<open>\<open>pop_frame\<close>: the frame, the buffer after the call and \<open>bad\<close>.\<close>

definition pop_frame :: "byte list \<Rightarrow> frame option \<times> byte list \<times> bool" where
  "pop_frame buf =
     (if List.length buf < 6 then (None, buf, False)
      else if buf ! 0 \<noteq> 67 \<or> buf ! 1 \<noteq> 72 \<or> buf ! 2 \<noteq> 1 then (None, buf, True)
      else let len = be16_value (buf ! 4) (buf ! 5)
           in if List.length buf < 6 + len then (None, buf, False)
              else (Some \<lparr>ftype = buf ! 3, payload = take len (drop 6 buf)\<rparr>, drop (6 + len) buf, False))"

lemma pop_frame_shorter: "pop_frame buf = (Some f, rest, bad) \<Longrightarrow> List.length rest < List.length buf"
  by (auto simp: pop_frame_def Let_def split: if_splits)

text \<open>\<open>while (auto f = pop_frame(buf, bad))\<close>: the frames, the buffer left and \<open>bad\<close>.\<close>

function pop_frames :: "byte list \<Rightarrow> frame list \<times> byte list \<times> bool" where
  "pop_frames buf = (case pop_frame buf of
     (None, rest, bad) \<Rightarrow> ([], rest, bad)
   | (Some f, rest, _) \<Rightarrow> (case pop_frames rest of (fs, r, bad) \<Rightarrow> (f # fs, r, bad)))"
  by pat_completeness auto
termination
proof (relation "measure List.length", goal_cases)
  case (2 buf x y f rest bad)
  then show ?case by (auto dest: pop_frame_shorter [OF sym])
qed simp

declare pop_frames.simps [simp del]

definition hb_send_all_turn :: "int \<Rightarrow> byte list \<Rightarrow> nat \<Rightarrow> world \<Rightarrow> ((nat, error_code + unit) ctl \<times> world) option" where
  "hb_send_all_turn fd data off w =
     (if off < List.length data then do {
        (n, w) \<leftarrow> sys (Send fd (drop off data)) w;
        if rv n < 0 then
          if eno n = EINTR then Some (Continue off, w)
          else Some (Break (Inl (System_error (eno n))), w)
        else Some (Continue (off + nat (rv n)), w) }
      else Some (Break (Inr ()), w))"

definition hb_send_all :: "int \<Rightarrow> byte list \<Rightarrow> world \<Rightarrow> ((error_code + unit) \<times> world) option" where
  "hb_send_all fd data = loop (hb_send_all_turn fd data) 0"

definition hb_send_frame :: "int \<Rightarrow> byte \<Rightarrow> byte list \<Rightarrow> world \<Rightarrow> ((error_code + unit) \<times> world) option" where
  "hb_send_frame fd t p = hb_send_all fd (hb_encode t p)"

section \<open>Timers, options, sockets\<close>

definition hb_die :: "string \<Rightarrow> int \<Rightarrow> world \<Rightarrow> ((int + 'a) \<times> world) option" where
  "hb_die what e w = Some (Inl 1, println Stderr [Txt (''chatterd: error: '' @ what @ '': ''), ErrorCode (System_error e)] w)"

definition periodic_timerfd :: "int \<Rightarrow> world \<Rightarrow> ((int + int) \<times> world) option" where
  "periodic_timerfd period_ms w = do {
     (t, w) \<leftarrow> sys (Tm Tm_timerfd) w;
     if rv t < 0 then hb_die ''timerfd_create'' (eno t) w
     else do {
       let ns = (period_ms div 1000) * 1000000000 + (period_ms mod 1000) * 1000000;
       (s, w) \<leftarrow> sys (Tm (Tm_settime (rv t) ns ns)) w;
       if rv s < 0 then hb_die ''timerfd_settime'' (eno s) w
       else Some (Inr (rv t), w) } }"

record hb_opts =
  o_name :: string
  o_listen_addr :: string
  o_peer_name :: string
  o_peer_addr :: string
  o_heartbeat_ms :: int
  o_timeout_ms :: int
  o_backoff_ms :: int
  o_max_backoff_ms :: int
  o_message :: "string option"
  o_seed :: "nat option"

text \<open>\<open>has_message\<close> and \<open>has_seed\<close> are the two options.\<close>

definition default_opts :: hb_opts where
  "default_opts = \<lparr>o_name = [], o_listen_addr = [], o_peer_name = [], o_peer_addr = [], o_heartbeat_ms = 1000,
     o_timeout_ms = 3000, o_backoff_ms = 200, o_max_backoff_ms = 5000, o_message = None, o_seed = None\<rparr>"

definition parse_long :: "string \<Rightarrow> int \<Rightarrow> string + int" where
  "parse_long s lo = (case strtol10 s of
     None \<Rightarrow> Inl (''bad numeric value: '' @ s)
   | Some (v, n) \<Rightarrow> if v < - (2 ^ 63) \<or> 2 ^ 63 \<le> v \<or> n \<noteq> List.length s \<or> v < lo then Inl (''bad numeric value: '' @ s)
       else Inr v)"

definition split_host_port :: "string \<Rightarrow> string + string \<times> string" where
  "split_host_port hp = (case rfind (CHR '':'') hp of
     None \<Rightarrow> Inl (''expected HOST:PORT, got '' @ hp)
   | Some i \<Rightarrow> if i = 0 \<or> i + 1 = List.length hp then Inl (''expected HOST:PORT, got '' @ hp)
       else Inr (take i hp, drop (i + 1) hp))"

text \<open>
  The address \<open>getaddrinfo\<close> answers is opaque: it is what its answer holds, and the calls that use it
  get it as their host. The bound address is printed from what \<open>getsockname\<close> filled in, zero where
  it failed.
\<close>

definition hb_make_listener :: "string \<Rightarrow> string \<Rightarrow> world \<Rightarrow> ((error_code + int \<times> string) \<times> world) option" where
  "hb_make_listener host port w = do {
     (ai, w) \<leftarrow> sys (Net (Net_getaddrinfo host port)) w;
     if rv ai \<noteq> 0 then Some (Inl (System_error (eno ai)), w)
     else do {
       (s, w) \<leftarrow> sys Socket w;
       let fd = rv s;
       if fd < 0 then Some (Inl (System_error (eno s)), w)
       else do {
         let w = emit (Reuseaddr fd) w;
         (b, w) \<leftarrow> sys (Bind fd (chars_of (dat ai)) 0) w;
         if rv b < 0 then Some (Inl (System_error (eno b)), fd_reset fd w)
         else do {
           (l, w) \<leftarrow> sys (Listen fd 8) w;
           if rv l < 0 then Some (Inl (System_error (eno l)), fd_reset fd w)
           else do {
             (g, w) \<leftarrow> sys (Net (Net_getsockname fd)) w;
             Some (Inr (fd, (if rv g < 0 then ''0.0.0.0:0'' else chars_of (dat g) @ '':'' @ show_int (rv g))), w) } } } } }"

definition hb_dial :: "string \<Rightarrow> string \<Rightarrow> world \<Rightarrow> ((error_code + int) \<times> world) option" where
  "hb_dial host port w = do {
     (ai, w) \<leftarrow> sys (Net (Net_getaddrinfo host port)) w;
     if rv ai \<noteq> 0 then Some (Inl (System_error (eno ai)), w)
     else do {
       (s, w) \<leftarrow> sys Socket w;
       if rv s < 0 then Some (Inl (System_error (eno s)), w)
       else do {
         (c, w) \<leftarrow> sys (Connect (rv s) (chars_of (dat ai)) 0) w;
         if rv c < 0 then Some (Inl (System_error (eno c)), fd_reset (rv s) w)
         else Some (Inr (rv s), w) } } }"

definition make_shutdown_fd :: "world \<Rightarrow> ((int + int) \<times> world) option" where
  "make_shutdown_fd w = do {
     (m, w) \<leftarrow> sys (Proc Proc_block_signals) w;
     if rv m < 0 then hb_die ''sigprocmask'' (eno m) w
     else do {
       (s, w) \<leftarrow> sys (Ev Ev_signalfd) w;
       if rv s < 0 then hb_die ''signalfd'' (eno s) w else Some (Inr (rv s), w) } }"

section \<open>A session\<close>

datatype outcome = TimedOut | Shutdown | PeerError

record session_result =
  sr_outcome :: outcome
  sr_linked :: bool
  sr_peer :: string

record session =
  s_buf :: "byte list"
  s_linked :: bool
  s_dead :: bool
  s_peer :: string
  s_deadline :: int

text \<open>
  The time left as the timeout of \<open>poll\<close>: the whole milliseconds left, cut to an \<open>int\<close>, plus one.
  (Where that is the largest \<open>int\<close> the addition overflows in C++; here it does not.)
\<close>

definition hb_poll_ms :: "int \<Rightarrow> int" where
  "hb_poll_ms left = (if left \<le> 0 then 0 else sint (word_of_int (left div 1000000) :: 32 word) + 1)"

fun hb_frames :: "hb_opts \<Rightarrow> int \<Rightarrow> frame list \<Rightarrow> session \<Rightarrow> world \<Rightarrow> (session \<times> world) option" where
  "hb_frames opts sock [] s w = Some (s, w)"
| "hb_frames opts sock (f # fs) s w =
     (if ftype f = hb_join then
        let s = s\<lparr>s_peer := chars_of (payload f)\<rparr>
        in if s_linked s then hb_frames opts sock fs s w
           else let s = s\<lparr>s_linked := True\<rparr>;
                    w = println Stdout [Txt (''chatterd: '' @ o_name opts @ '' linked with '' @ s_peer s)] w
                in (case o_message opts of
                      None \<Rightarrow> hb_frames opts sock fs s w
                    | Some m \<Rightarrow> do {
                        (_, w) \<leftarrow> hb_send_frame sock hb_msg (bytes_of m) w;
                        hb_frames opts sock fs s w })
      else if ftype f = hb_msg then
        hb_frames opts sock fs s (println Stdout [Txt (''chatterd: '' @ o_name opts @ '' message from '' @ s_peer s @ '': ''
          @ chars_of (payload f))] w)
      else hb_frames opts sock fs s w)"

definition hb_result :: "outcome \<Rightarrow> session \<Rightarrow> session_result" where
  "hb_result oc s = \<lparr>sr_outcome = oc, sr_linked = s_linked s, sr_peer = s_peer s\<rparr>"

text \<open>The read of the socket at the end of a turn.\<close>

definition hb_read :: "hb_opts \<Rightarrow> int \<Rightarrow> session \<Rightarrow> world \<Rightarrow> ((session, int + session_result) ctl \<times> world) option" where
  "hb_read opts sock s w = do {
     (r, w) \<leftarrow> sys (Read sock 4096) w;
     if rv r > 0 then do {
       (c, w) \<leftarrow> sys Clock_ns w;
       let s = s\<lparr>s_deadline := rv c + o_timeout_ms opts * 1000000\<rparr>;
       (case pop_frames (s_buf s @ filled r) of (fs, rest, bad) \<Rightarrow> do {
         (s, w) \<leftarrow> hb_frames opts sock fs (s\<lparr>s_buf := rest\<rparr>) w;
         if bad \<or> 6 + 65535 < List.length (s_buf s) then Some (Break (Inr (hb_result PeerError s)), w)
         else Some (Continue s, w) }) }
     else Some (Continue (s\<lparr>s_dead := True\<rparr>), w) }"

definition hb_turn ::
  "hb_opts \<Rightarrow> int \<Rightarrow> int \<Rightarrow> int \<Rightarrow> session \<Rightarrow> world \<Rightarrow> ((session, int + session_result) ctl \<times> world) option" where
  "hb_turn opts sock shutdown_fd hb s w = do {
     (c, w) \<leftarrow> sys Clock_ns w;
     let poll_ms = hb_poll_ms (s_deadline s - rv c);
     let watch_sock = (\<not> s_dead s);
     (n, w) \<leftarrow> sys (Poll ([(shutdown_fd, POLLIN), (hb, POLLIN)] @ (if watch_sock then [(sock, POLLIN)] else [])) poll_ms) w;
     if rv n < 0 then
       if eno n = EINTR then Some (Continue s, w)
       else do {
         (d, w) \<leftarrow> hb_die ''poll'' (eno n) w;
         Some (Break d, w) }
     else if rv n = 0 then Some (Break (Inr (hb_result TimedOut s)), w)
     else if revents 0 n AND POLLIN \<noteq> 0 then Some (Break (Inr (hb_result Shutdown s)), w)
     else do {
       (_, w) \<leftarrow> (if revents 1 n AND POLLIN \<noteq> 0 then do {
           (_, w) \<leftarrow> sys (Read hb 8) w;
           if \<not> s_dead s then do { (_, w) \<leftarrow> hb_send_frame sock hb_ping [] w; Some ((), w) }
           else Some ((), w) }
         else Some ((), w));
       if watch_sock \<and> revents 2 n AND (POLLIN OR POLLHUP) \<noteq> 0 then hb_read opts sock s w
       else Some (Continue s, w) } }"

definition run_session ::
  "hb_opts \<Rightarrow> int \<Rightarrow> int \<Rightarrow> string \<Rightarrow> world \<Rightarrow> ((int + session_result) \<times> world) option" where
  "run_session opts sock shutdown_fd peer w = io_try (periodic_timerfd (o_heartbeat_ms opts) w) (\<lambda>hb w. do {
     (j, w) \<leftarrow> hb_send_frame sock hb_join (bytes_of (o_name opts)) w;
     (case j of
       Inl _ \<Rightarrow> Some (Inr \<lparr>sr_outcome = PeerError, sr_linked = False, sr_peer = peer\<rparr>, fd_reset sock (fd_reset hb w))
     | Inr _ \<Rightarrow> do {
         (c, w) \<leftarrow> sys Clock_ns w;
         (r, w) \<leftarrow> loop (hb_turn opts sock shutdown_fd hb)
           \<lparr>s_buf = [], s_linked = False, s_dead = False, s_peer = peer,
            s_deadline = rv c + o_timeout_ms opts * 1000000\<rparr> w;
         (case r of Inl code \<Rightarrow> Some (Inl code, w)
          | Inr res \<Rightarrow> Some (Inr res, fd_reset sock (fd_reset hb w))) }) })"

definition sleep_turn :: "int \<Rightarrow> int \<Rightarrow> unit \<Rightarrow> world \<Rightarrow> ((unit, int + bool) ctl \<times> world) option" where
  "sleep_turn ms shutdown_fd _ w = do {
     (n, w) \<leftarrow> sys (Poll [(shutdown_fd, POLLIN)] (sint (word_of_int ms :: 32 word))) w;
     if rv n < 0 then
       if eno n = EINTR then Some (Continue (), w)
       else do { (d, w) \<leftarrow> hb_die ''poll'' (eno n) w; Some (Break d, w) }
     else Some (Break (Inr (rv n > 0)), w) }"

definition sleep_or_shutdown :: "int \<Rightarrow> int \<Rightarrow> world \<Rightarrow> ((int + bool) \<times> world) option" where
  "sleep_or_shutdown ms shutdown_fd w = loop (sleep_turn ms shutdown_fd) () w"

section \<open>The two roles\<close>

definition hb_goodbye :: "hb_opts \<Rightarrow> world \<Rightarrow> world" where
  "hb_goodbye opts w = println Stdout [Txt (''chatterd: '' @ o_name opts @ '' shutting down'')] w"

definition listen_turn :: "hb_opts \<Rightarrow> int \<Rightarrow> int \<Rightarrow> unit \<Rightarrow> world \<Rightarrow> ((unit, int + unit) ctl \<times> world) option" where
  "listen_turn opts shutdown_fd lfd _ w = do {
     (n, w) \<leftarrow> sys (Poll [(shutdown_fd, POLLIN), (lfd, POLLIN)] (-1)) w;
     if rv n < 0 then
       if eno n = EINTR then Some (Continue (), w)
       else do { (d, w) \<leftarrow> hb_die ''poll'' (eno n) w; Some (Break d, w) }
     else if revents 0 n AND POLLIN \<noteq> 0 then Some (Break (Inr ()), hb_goodbye opts w)
     else if revents 1 n AND POLLIN \<noteq> 0 then do {
       (a, w) \<leftarrow> sys (Accept lfd) w;
       if rv a < 0 then Some (Continue (), w)
       else do {
         (r, w) \<leftarrow> run_session opts (rv a) shutdown_fd ''peer'' w;
         (case r of
           Inl code \<Rightarrow> Some (Break (Inl code), w)
         | Inr res \<Rightarrow>
             if sr_outcome res = Shutdown then Some (Break (Inr ()), hb_goodbye opts w)
             else if sr_outcome res = TimedOut \<and> sr_linked res
               then Some (Continue (), println Stdout [Txt (''chatterd: peer '' @ sr_peer res @ '' timed out'')] w)
             else Some (Continue (), w)) } }
     else Some (Continue (), w) }"

definition run_listen :: "hb_opts \<Rightarrow> world \<Rightarrow> (int \<times> world) option" where
  "run_listen opts w = do {
     (sd, w) \<leftarrow> make_shutdown_fd w;
     (case sd of
       Inl code \<Rightarrow> Some (code, w)
     | Inr shutdown_fd \<Rightarrow> (case split_host_port (o_listen_addr opts) of
         Inl e \<Rightarrow> Some (2, fd_reset shutdown_fd (println Stderr [Txt (''chatterd: error: '' @ e)] w))
       | Inr (host, port) \<Rightarrow> do {
           (l, w) \<leftarrow> hb_make_listener host port w;
           (case l of
             Inl e \<Rightarrow> Some (1, println Stderr [Txt ''chatterd: error: listen: '', ErrorCode e] w)
           | Inr (lfd, bound) \<Rightarrow> do {
               let w = println Stdout [Txt (''chatterd: '' @ o_name opts @ '' listening on '' @ bound)] w;
               (r, w) \<leftarrow> loop (listen_turn opts shutdown_fd lfd) () w;
               (case r of Inl code \<Rightarrow> Some (code, w)
                | Inr _ \<Rightarrow> Some (0, fd_reset shutdown_fd (fd_reset lfd w))) }) })) }"

text \<open>
  One round of \<open>run_connect\<close>; the state is the back-off. The jitter, drawn from \<open>0\<close> to half of it, is
  the answer of \<open>Tm_random\<close>.
\<close>

definition connect_turn ::
  "hb_opts \<Rightarrow> string \<Rightarrow> string \<Rightarrow> int \<Rightarrow> int \<Rightarrow> world \<Rightarrow> ((int, int + unit) ctl \<times> world) option" where
  "connect_turn opts host port shutdown_fd backoff w = do {
     (d, w) \<leftarrow> hb_dial host port w;
     ((stop, backoff), w) \<leftarrow> (case d of
         Inl _ \<Rightarrow> Some ((None, backoff), w)
       | Inr sock \<Rightarrow> do {
           (r, w) \<leftarrow> run_session opts sock shutdown_fd (o_peer_name opts) w;
           (case r of
             Inl code \<Rightarrow> Some ((Some (Inl code), o_backoff_ms opts), w)
           | Inr res \<Rightarrow>
               if sr_outcome res = Shutdown then Some ((Some (Inr ()), o_backoff_ms opts), hb_goodbye opts w)
               else if sr_outcome res = TimedOut
                 then Some ((None, o_backoff_ms opts), println Stdout [Txt (''chatterd: peer '' @ o_peer_name opts @ '' timed out'')] w)
               else Some ((None, o_backoff_ms opts), w)) });
     (case stop of
       Some r \<Rightarrow> Some (Break r, w)
     | None \<Rightarrow> do {
         let half = backoff div 2;
         (j, w) \<leftarrow> sys (Tm Tm_random) w;
         let delay = half + rv j;
         let w = println Stdout [Txt (''chatterd: reconnecting to '' @ o_peer_name opts @ '' in '' @ show_int delay @ ''ms'')] w;
         (s, w) \<leftarrow> sleep_or_shutdown delay shutdown_fd w;
         (case s of
           Inl code \<Rightarrow> Some (Break (Inl code), w)
         | Inr True \<Rightarrow> Some (Break (Inr ()), hb_goodbye opts w)
         | Inr False \<Rightarrow> Some (Continue (min (backoff * 2) (o_max_backoff_ms opts)), w)) }) }"

definition run_connect :: "hb_opts \<Rightarrow> world \<Rightarrow> (int \<times> world) option" where
  "run_connect opts w = do {
     (sd, w) \<leftarrow> make_shutdown_fd w;
     (case sd of
       Inl code \<Rightarrow> Some (code, w)
     | Inr shutdown_fd \<Rightarrow> (case split_host_port (o_peer_addr opts) of
         Inl e \<Rightarrow> Some (2, fd_reset shutdown_fd (println Stderr [Txt (''chatterd: error: '' @ e)] w))
       | Inr (host, port) \<Rightarrow> do {
           let w = println Stdout [Txt (''chatterd: '' @ o_name opts @ '' connecting to '' @ o_peer_name opts @ '' at '' @ o_peer_addr opts)] w;
           (r, w) \<leftarrow> loop (connect_turn opts host port shutdown_fd) (o_backoff_ms opts) w;
           (case r of Inl code \<Rightarrow> Some (code, w) | Inr _ \<Rightarrow> Some (0, fd_reset shutdown_fd w)) })) }"

section \<open>The clock probe\<close>

text \<open>
  \<open>nanosleep\<close> interrupted is called again with the time it reports left, which is what its answer
  stands for; it is not positive otherwise.
\<close>

definition nap_turn :: "int \<Rightarrow> world \<Rightarrow> ((int, unit) ctl \<times> world) option" where
  "nap_turn req w = do {
     (s, w) \<leftarrow> sys (Tm (Tm_nanosleep req)) w;
     if 0 < rv s then Some (Continue (rv s), w) else Some (Break (), w) }"

definition run_clockprobe :: "world \<Rightarrow> (int \<times> world) option" where
  "run_clockprobe w = do {
     (res, w) \<leftarrow> sys (Tm Tm_getres) w;
     (t0, w) \<leftarrow> sys Clock_ns w;
     (_, w) \<leftarrow> loop nap_turn 1000000 w;
     (t, w) \<leftarrow> sys Clock_ns w;
     let sleep_us = (rv t - rv t0) sdiv 1000;
     (tfd, w) \<leftarrow> sys (Tm Tm_timerfd) w;
     if rv tfd < 0 then Some (1, println Stderr [Txt ''chatterd: error: timerfd_create: '', ErrorCode (System_error (eno tfd))] w)
     else do {
       (st, w) \<leftarrow> sys (Tm (Tm_settime (rv tfd) 0 1000000)) w;
       if rv st < 0 then Some (1, println Stderr [Txt ''chatterd: error: timerfd_settime: '', ErrorCode (System_error (eno st))] w)
       else do {
         (t1, w) \<leftarrow> sys Clock_ns w;
         (_, w) \<leftarrow> sys (Read (rv tfd) 8) w;
         (t2, w) \<leftarrow> sys Clock_ns w;
         let tfd_us = (rv t2 - rv t1) sdiv 1000;
         Some (0, fd_reset (rv tfd) (println Stdout [Txt (''clockprobe: CLOCK_MONOTONIC res='' @ show_int (rv res)
           @ ''ns nanosleep(1ms) actual='' @ show_int sleep_us @ ''us timerfd(1ms) actual='' @ show_int tfd_us @ ''us'')] w)) } } }"

section \<open>The command line\<close>

fun parse_common_from :: "string list \<Rightarrow> hb_opts \<Rightarrow> string + hb_opts" where
  "parse_common_from [] opts = Inr opts"
| "parse_common_from (a # rest) opts =
     (if a \<in> {''--name'', ''--addr'', ''--peer'', ''--heartbeat-ms'', ''--timeout-ms'', ''--backoff-ms'', ''--max-backoff-ms'',
              ''--message'', ''--seed''} then
        (case rest of
          [] \<Rightarrow> Inl (a @ '' needs a value'')
        | v # rest' \<Rightarrow>
            if a = ''--name'' then parse_common_from rest' (opts\<lparr>o_name := v\<rparr>)
            else if a = ''--addr'' then parse_common_from rest' (opts\<lparr>o_listen_addr := v\<rparr>)
            else if a = ''--peer'' then
              (case find_from (CHR ''@'') v of
                None \<Rightarrow> Inl ''--peer wants NAME@HOST:PORT''
              | Some i \<Rightarrow> parse_common_from rest' (opts\<lparr>o_peer_name := take i v, o_peer_addr := drop (i + 1) v\<rparr>))
            else if a = ''--message'' then parse_common_from rest' (opts\<lparr>o_message := Some v\<rparr>)
            else if a = ''--seed'' then
              (case parse_long v 0 of
                Inl e \<Rightarrow> Inl e
              | Inr n \<Rightarrow> parse_common_from rest' (opts\<lparr>o_seed := Some (nat (n mod 2 ^ 32))\<rparr>))
            else (case parse_long v 1 of
                Inl e \<Rightarrow> Inl e
              | Inr n \<Rightarrow>
                  if a = ''--heartbeat-ms'' then parse_common_from rest' (opts\<lparr>o_heartbeat_ms := n\<rparr>)
                  else if a = ''--timeout-ms'' then parse_common_from rest' (opts\<lparr>o_timeout_ms := n\<rparr>)
                  else if a = ''--backoff-ms'' then parse_common_from rest' (opts\<lparr>o_backoff_ms := n\<rparr>)
                  else parse_common_from rest' (opts\<lparr>o_max_backoff_ms := n\<rparr>)))
      else Inl (''unknown flag '' @ a))"

definition parse_common :: "string list \<Rightarrow> string + hb_opts" where
  "parse_common args = (case parse_common_from args default_opts of
     Inl e \<Rightarrow> Inl e
   | Inr opts \<Rightarrow> if o_name opts = [] then Inl ''--name is required'' else Inr opts)"

definition hb_usage :: "world \<Rightarrow> (int \<times> world) option" where
  "hb_usage w = Some (2, fold (\<lambda>l. println Stderr [Txt l])
     [''usage: chatterd clockprobe'',
      ''       chatterd listen  --name N --addr HOST:PORT [opts]'',
      ''       chatterd connect --name N --peer NAME@HOST:PORT [opts]'',
      ''opts:  --heartbeat-ms H --timeout-ms T --backoff-ms B --max-backoff-ms M --message MSG --seed S''] w)"

definition hb_main :: "string list \<Rightarrow> world \<Rightarrow> (int \<times> world) option" where
  "hb_main args w = (case args of
     [] \<Rightarrow> hb_usage w
   | sub # rest \<Rightarrow>
       if sub = ''clockprobe'' then run_clockprobe w
       else if sub = ''listen'' \<or> sub = ''connect'' then
         (case parse_common rest of
           Inl e \<Rightarrow> hb_usage (println Stderr [Txt (''chatterd: error: '' @ e)] w)
         | Inr opts \<Rightarrow>
             if sub = ''listen'' then
               if o_listen_addr opts = [] then hb_usage (println Stderr [Txt ''chatterd: error: listen needs --addr''] w)
               else run_listen opts w
             else if o_peer_addr opts = [] then hb_usage (println Stderr [Txt ''chatterd: error: connect needs --peer''] w)
             else run_connect opts w)
       else hb_usage w)"

end
