(* ===== verification/HeartbeatProps.thy ===== *)
theory HeartbeatProps
  imports Heartbeat
begin

text \<open>
  What is proved of the peer with heartbeats: its reader as an instance of \<open>frame_stream\<close> over the
  frames of the capstone; that a peer is declared dead only by silence, and that a silent one is;
  the bounds of the back-off; and the options a command line can give.
\<close>

section \<open>The reader\<close>

lemma hb_encode_proto: "hb_encode (ftype f) (payload f) = proto_encode f"
  by (simp add: hb_encode_def proto_encode_bytes)

lemma pop_frame_whole:
  assumes "small_frame f"
  shows "pop_frame (proto_encode f @ rest) = (Some f, rest, False)"
proof -
  define b where "b = proto_encode f @ rest"
  from proto_whole_header [OF assms b_def] show ?thesis
    unfolding b_def [symmetric] by (simp add: pop_frame_def Let_def)
qed

lemma pop_frame_partial:
  assumes "small_frame f" and "strict_prefix b (proto_encode f)"
  shows "pop_frame b = (None, b, False)"
  using proto_part_header [OF assms] by (cases "6 \<le> List.length b") (simp_all add: pop_frame_def)

abbreviation hb_front :: "byte list \<Rightarrow> frame option \<times> byte list" where
  "hb_front b \<equiv> (case pop_frame b of (f, r, _) \<Rightarrow> (f, r))"

abbreviation hb_drain :: "byte list \<Rightarrow> frame list \<times> byte list" where
  "hb_drain b \<equiv> (case pop_frames b of (fs, r, _) \<Rightarrow> (fs, r))"

interpretation hbs: frame_stream proto_encode small_frame hb_front hb_drain
proof (unfold_locales, goal_cases)
  case (4 buf)
  show ?case by (subst pop_frames.simps) (auto split: prod.splits option.splits)
qed (simp_all add: pop_frame_whole pop_frame_partial, simp add: pop_frame_def)

lemma pop_frames_not_bad:
  "list_all small_frame fs \<Longrightarrow> list_all small_frame gs \<Longrightarrow> partial proto_encode gs b \<Longrightarrow>
    snd (snd (pop_frames (stream_of proto_encode fs @ b))) = False"
proof (induction fs)
  case Nil
  then have "pop_frame b = (None, b, False)"
    by (auto simp: partial_def pop_frame_def [of "[]"] intro: pop_frame_partial)
  then show ?case by (simp add: pop_frames.simps [of b])
next
  case (Cons f fs)
  have "pop_frame (proto_encode f @ stream_of proto_encode fs @ b) = (Some f, stream_of proto_encode fs @ b, False)"
    using Cons by (simp add: pop_frame_whole)
  with Cons show ?case
    by (simp add: pop_frames.simps [of "proto_encode f @ stream_of proto_encode fs @ b"] case_prod_beta)
qed

section \<open>The options\<close>

definition opts_ok :: "hb_opts \<Rightarrow> bool" where
  "opts_ok opts \<longleftrightarrow> (\<forall>n \<in> {o_heartbeat_ms opts, o_timeout_ms opts, o_backoff_ms opts, o_max_backoff_ms opts}.
     1 \<le> n \<and> n < 2 ^ 63) \<and> (case o_seed opts of None \<Rightarrow> True | Some n \<Rightarrow> n < 2 ^ 32)"

lemma parse_long_range: "parse_long s lo = Inr n \<Longrightarrow> lo \<le> n \<and> n < 2 ^ 63"
  by (auto simp: parse_long_def split: option.splits if_splits)

lemma nat_mod_32: "nat (n mod 2 ^ 32) < 2 ^ 32"
  by (simp add: nat_less_iff)

lemma parse_common_step:
  assumes "parse_common_from (a # rest) opts = Inr opts'" and "opts_ok opts"
  shows "\<exists>rest' opts1. List.length rest' \<le> List.length rest \<and> parse_common_from rest' opts1 = Inr opts' \<and> opts_ok opts1"
proof -
  from assms(1) obtain v rest' where r: "rest = v # rest'" by (cases rest) (auto split: if_splits)
  have "\<exists>opts1. parse_common_from rest' opts1 = Inr opts' \<and> opts_ok opts1"
  proof (cases "a \<in> {''--heartbeat-ms'', ''--timeout-ms'', ''--backoff-ms'', ''--max-backoff-ms''}")
    case True
    with assms(1) obtain n where n: "parse_long v 1 = Inr n" unfolding r by (cases "parse_long v 1") auto
    define o1 where "o1 = (if a = ''--heartbeat-ms'' then opts\<lparr>o_heartbeat_ms := n\<rparr>
      else if a = ''--timeout-ms'' then opts\<lparr>o_timeout_ms := n\<rparr>
      else if a = ''--backoff-ms'' then opts\<lparr>o_backoff_ms := n\<rparr> else opts\<lparr>o_max_backoff_ms := n\<rparr>)"
    have "parse_common_from rest' o1 = Inr opts'" using True assms(1) n unfolding r o1_def
      by (elim insertE emptyE; hypsubst) simp_all
    moreover have "opts_ok o1" using parse_long_range [OF n] assms(2) by (simp add: opts_ok_def o1_def)
    ultimately show ?thesis by blast
  next
    case False
    note a = this
    show ?thesis
    proof (cases "a = ''--seed''")
      case True
      with assms(1) obtain n where n: "parse_long v 0 = Inr n" unfolding r by (cases "parse_long v 0") auto
      have "parse_common_from rest' (opts\<lparr>o_seed := Some (nat (n mod 2 ^ 32))\<rparr>) = Inr opts'"
        using True assms(1) n unfolding r by simp
      moreover have "opts_ok (opts\<lparr>o_seed := Some (nat (n mod 2 ^ 32))\<rparr>)"
        using assms(2) nat_mod_32 [of n] by (simp add: opts_ok_def)
      ultimately show ?thesis by blast
    next
      case False
      define ok where "ok o1 \<longleftrightarrow> o_heartbeat_ms o1 = o_heartbeat_ms opts \<and> o_timeout_ms o1 = o_timeout_ms opts \<and>
        o_backoff_ms o1 = o_backoff_ms opts \<and> o_max_backoff_ms o1 = o_max_backoff_ms opts \<and> o_seed o1 = o_seed opts" for o1 :: hb_opts
      have "\<exists>o1. parse_common_from rest' o1 = Inr opts' \<and> ok o1"
        using False a assms(1) unfolding r by (auto simp: ok_def split: if_splits option.splits intro: exI)
      with assms(2) show ?thesis by (auto simp: ok_def opts_ok_def)
    qed
  qed
  then show ?thesis unfolding r by (metis length_Cons le_SucI order_refl)
qed

lemma parse_common_from_ok:
  "parse_common_from args opts = Inr opts' \<Longrightarrow> opts_ok opts \<Longrightarrow> opts_ok opts'"
proof (induction "List.length args" arbitrary: args opts rule: less_induct)
  case less
  show ?case
  proof (cases args)
    case Nil
    with less.prems show ?thesis by simp
  next
    case (Cons a rest)
    from parse_common_step [OF less.prems(1) [unfolded Cons] less.prems(2)] less.hyps show ?thesis
      unfolding Cons by (metis length_Cons less_Suc_eq_le)
  qed
qed

section \<open>Silence\<close>

text \<open>
  When the peer was last heard: the clock read after the last bytes from its socket, at first the
  clock read at the start of the session. The second component says that such a reading is due.
\<close>

definition heard_step :: "int \<Rightarrow> int \<times> bool \<Rightarrow> call \<times> answer option \<Rightarrow> int \<times> bool" where
  "heard_step sock = (\<lambda>(h, due) e. case e of
     (Read fd n, Some a) \<Rightarrow> if fd = sock \<and> n = 4096 \<and> 0 < rv a then (h, True) else (h, due)
   | (Clock_ns, Some c) \<Rightarrow> if due then (rv c, False) else (h, due)
   | _ \<Rightarrow> (h, due))"

definition heard :: "int \<Rightarrow> (call \<times> answer option) list \<Rightarrow> int \<times> bool" where
  "heard sock t = foldl (heard_step sock) (0, True) t"

definition clock_by :: "call \<times> answer option \<Rightarrow> int list" where
  "clock_by e = (case e of (Clock_ns, Some c) \<Rightarrow> [rv c] | _ \<Rightarrow> [])"

definition clocks :: "(call \<times> answer option) list \<Rightarrow> int list" where
  "clocks t = concat (List.map clock_by t)"

lemma clocks_simps [simp]: "clocks [] = []" "clocks (e # t) = clock_by e @ clocks t" "clocks (t @ u) = clocks t @ clocks u"
  by (simp_all add: clocks_def)

lemma heard_simps [simp]: "heard sock (t @ u) = foldl (heard_step sock) (heard sock t) u"
  by (simp add: heard_def)

definition inert :: "call \<Rightarrow> bool" where
  "inert c \<longleftrightarrow> (case c of Clock_ns \<Rightarrow> False | Read _ n \<Rightarrow> n \<noteq> 4096 | _ \<Rightarrow> True)"

lemma inert_simps [simp]:
  "inert (Send fd bs)" "inert (Print st m)" "inert (Tm c)" "inert (Ev e)" "inert (Close fd)" "inert (Read fd 8)"
  "\<not> inert Clock_ns" "inert (Net nc)" "inert (Proc p)"
  by (simp_all add: inert_def)

lemma inert_trace:
  assumes "list_all (inert \<circ> fst) t"
  shows "foldl (heard_step sock) st t = st" "clocks t = []"
proof -
  show "foldl (heard_step sock) st t = st"
    using assms by (induction t) (auto simp: inert_def heard_step_def split: call.splits option.splits prod.splits)
  show "clocks t = []"
    using assms by (induction t) (auto simp: inert_def clock_by_def split: call.splits option.splits)
qed

lemma hb_send_frame_keeps [keeps_intros]:
  "only P w0 w \<Longrightarrow> (\<And>bs. P (Send fd bs)) \<Longrightarrow> keeps P w0 (hb_send_frame fd t p w)"
  unfolding hb_send_frame_def hb_send_all_def hb_send_all_turn_def by (intro keeps_intros)

lemma hb_frames_keeps [keeps_intros]:
  "only P w0 w \<Longrightarrow> (\<And>bs. P (Send sock bs)) \<Longrightarrow> (\<And>st m. P (Print st m)) \<Longrightarrow> keeps P w0 (hb_frames opts sock fs s w)"
proof (induction fs arbitrary: s w)
  case (Cons f fs)
  show ?case unfolding hb_frames.simps Let_def by (intro keeps_intros Cons.IH Cons.prems)
qed (simp add: keeps_Some)

lemma hb_frames_deadline:
  "hb_frames opts sock fs s w = Some (s', w') \<Longrightarrow> s_deadline s' = s_deadline s \<and> s_dead s' = s_dead s"
proof (induction fs arbitrary: s w)
  case (Cons f fs)
  consider (join) "ftype f = hb_join" | (msg) "ftype f \<noteq> hb_join" "ftype f = hb_msg" | (other) "ftype f \<noteq> hb_join" "ftype f \<noteq> hb_msg"
    by blast
  then show ?case
  proof cases
    case join
    show ?thesis
    proof (cases "s_linked s")
      case True
      with join Cons.prems show ?thesis by (auto simp: Let_def dest!: Cons.IH)
    next
      case False
      with join Cons.prems show ?thesis by (cases "o_message opts") (auto simp: Let_def dest!: Cons.IH)
    qed
  qed (use Cons in simp_all)
qed simp

text \<open>The deadline is one timeout after the peer was last heard.\<close>

definition hb_inv :: "hb_opts \<Rightarrow> int \<Rightarrow> world \<Rightarrow> session \<Rightarrow> world \<Rightarrow> bool" where
  "hb_inv opts sock w s v \<longleftrightarrow> later w v \<and> (\<exists>h. heard sock (since w v) = (h, False) \<and> h \<in> set (clocks (since w v)) \<and>
     s_deadline s = h + o_timeout_ms opts * 1000000)"

lemma hb_inv_inert:
  assumes "hb_inv opts sock w s v" and "only inert v v'" and "s_deadline s' = s_deadline s"
  shows "hb_inv opts sock w s' v'"
proof -
  have "later w v" "later v v'" using assms(1,2) by (simp_all add: hb_inv_def only_def)
  note l = later_trans [OF this] since_trans [OF this]
  from inert_trace [OF onlyD(2) [OF assms(2)]] assms(1,3) l show ?thesis by (auto simp: hb_inv_def)
qed

lemma hb_inv_clock:
  assumes "hb_inv opts sock w s v" and "sys Clock_ns v = Some (c, v')"
  shows "hb_inv opts sock w s v'"
proof -
  from assms(1) have "later w v" by (simp add: hb_inv_def)
  from sys_after [OF this assms(2)] assms(1) show ?thesis by (auto simp: hb_inv_def heard_step_def clock_by_def)
qed

lemma hb_read_inv:
  assumes "hb_inv opts sock w s v" and "hb_read opts sock s v = Some (c, v')"
  shows "(case c of Continue s' \<Rightarrow> hb_inv opts sock w s' v' | Break r \<Rightarrow> \<exists>s'. r = Inr (hb_result PeerError s'))"
proof -
  from assms(1) have lv: "later w v" by (simp add: hb_inv_def)
  from assms(2) obtain a v1 where a: "sys (Read sock 4096) v = Some (a, v1)"
    by (cases "sys (Read sock 4096) v") (auto simp: hb_read_def)
  note l1 = sys_after [OF lv a]
  show ?thesis
  proof (cases "0 < rv a")
    case False
    with assms(2) a have "c = Continue (s\<lparr>s_dead := True\<rparr>)" "v' = v1" by (simp_all add: hb_read_def)
    with assms(1) l1 False show ?thesis by (auto simp: hb_inv_def heard_step_def clock_by_def)
  next
    case True
    with assms(2) a obtain k v2 where k: "sys Clock_ns v1 = Some (k, v2)"
      by (cases "sys Clock_ns v1") (auto simp: hb_read_def)
    obtain fs rest bad where p: "pop_frames (s_buf s @ filled a) = (fs, rest, bad)" by (cases "pop_frames (s_buf s @ filled a)")
    let ?s1 = "s\<lparr>s_deadline := rv k + o_timeout_ms opts * 1000000, s_buf := rest\<rparr>"
    have "do {
         (s, w) \<leftarrow> hb_frames opts sock fs ?s1 v2;
         if bad \<or> 6 + 65535 < List.length (s_buf s) then Some (Break (Inr (hb_result PeerError s)), w)
         else Some (Continue s, w) } = Some (c, v')"
      using assms(2) unfolding hb_read_def
      by (simp add: a k p True Let_def del: if_Some io_bind_Some split del: if_split)
    then obtain s2 v3 where f: "hb_frames opts sock fs ?s1 v2 = Some (s2, v3)"
      and c: "(if bad \<or> 6 + 65535 < List.length (s_buf s2) then Some (Break (Inr (hb_result PeerError s2)), v3)
         else Some (Continue s2, v3)) = Some (c, v')"
      by (simp only: io_bind_Some) blast
    note l2 = sys_after [OF l1(1) k]
    have "hb_inv opts sock w ?s1 v2"
      using l2 l1 assms(1) True by (auto simp: hb_inv_def heard_step_def clock_by_def)
    moreover have "only inert v2 v3"
      by (rule keepsD [OF hb_frames_keeps [OF only_refl] f]) simp_all
    ultimately have "hb_inv opts sock w s2 v3"
      by (rule hb_inv_inert) (simp add: hb_frames_deadline [OF f])
    with c show ?thesis by (auto split: if_splits)
  qed
qed

text \<open>A session that times out has polled in vain up to the deadline.\<close>

definition silent_end :: "hb_opts \<Rightarrow> int \<Rightarrow> (call \<times> answer option) list \<Rightarrow> bool" where
  "silent_end opts sock t \<longleftrightarrow> (\<exists>pre c fds ms p. prefix (pre @ [(Clock_ns, Some c), (Poll fds ms, Some p)]) t \<and> rv p = 0 \<and>
     fst (heard sock pre) \<in> set (clocks pre) \<and>
     ms = hb_poll_ms (fst (heard sock pre) + o_timeout_ms opts * 1000000 - rv c))"

lemma hb_turn_inv:
  assumes "hb_inv opts sock w s v" and "hb_turn opts sock sd hb s v = Some (c, v')"
  shows "(case c of Continue s' \<Rightarrow> hb_inv opts sock w s' v'
    | Break (Inl _) \<Rightarrow> True
    | Break (Inr res) \<Rightarrow> sr_outcome res = TimedOut \<longrightarrow> silent_end opts sock (since w v'))"
proof -
  from assms(1) have lv: "later w v" by (simp add: hb_inv_def)
  from assms(2) obtain k v1 where k: "sys Clock_ns v = Some (k, v1)"
    by (cases "sys Clock_ns v") (auto simp: hb_turn_def)
  let ?fds = "[(sd, POLLIN), (hb, POLLIN)] @ (if \<not> s_dead s then [(sock, POLLIN)] else [])"
  let ?ms = "hb_poll_ms (s_deadline s - rv k)"
  from assms(2) k obtain n v2 where n: "sys (Poll ?fds ?ms) v1 = Some (n, v2)"
    by (cases "sys (Poll ?fds ?ms) v1") (auto simp: hb_turn_def Let_def)
  note l1 = sys_after [OF lv k]
  note l2 = sys_after [OF l1(1) n]
  have i1: "hb_inv opts sock w s v1" by (rule hb_inv_clock [OF assms(1) k])
  have i2: "hb_inv opts sock w s v2"
    by (rule hb_inv_inert [OF i1]) (simp_all add: only_def sys_SomeE [OF n])
  consider (error) "rv n < 0" | (none) "rv n = 0" | (stop) "0 < rv n" "revents 0 n AND POLLIN \<noteq> 0"
    | (go) "0 < rv n" "revents 0 n AND POLLIN = 0" by linarith
  then show ?thesis
  proof cases
    case error
    with assms(2) k n i2 show ?thesis
      by (cases "eno n = EINTR") (auto simp: hb_turn_def Let_def hb_die_def split: sum.split)
  next
    case none
    with assms(2) k n have c: "c = Break (Inr (hb_result TimedOut s))" "v' = v2" by (simp_all add: hb_turn_def Let_def)
    from assms(1) obtain h where h: "heard sock (since w v) = (h, False)" "h \<in> set (clocks (since w v))"
      "s_deadline s = h + o_timeout_ms opts * 1000000" by (auto simp: hb_inv_def)
    have "silent_end opts sock (since w v2)"
      unfolding silent_end_def using l1(2) l2(2) none h
      by (intro exI [of _ "since w v"] exI [of _ k] exI [of _ ?fds] exI [of _ ?ms] exI [of _ n]) simp
    with c show ?thesis by simp
  next
    case stop
    with assms(2) k n show ?thesis by (auto simp: hb_turn_def Let_def hb_result_def)
  next
    case go
    define m where "m = (if revents 1 n AND POLLIN \<noteq> 0 then do {
           (_, w) \<leftarrow> sys (Read hb 8) v2;
           if \<not> s_dead s then do { (_, w) \<leftarrow> hb_send_frame sock hb_ping [] w; Some ((), w) }
           else Some ((), w) }
         else Some ((), v2))"
    have "keeps inert v2 m" unfolding m_def by (intro keeps_intros only_refl) simp_all
    from assms(2) k n go obtain v3 where v3: "m = Some ((), v3)"
      and r: "(if \<not> s_dead s \<and> revents 2 n AND (POLLIN OR POLLHUP) \<noteq> 0 then hb_read opts sock s v3
        else Some (Continue s, v3)) = Some (c, v')"
      unfolding m_def by (auto simp: hb_turn_def Let_def simp del: if_Some)
    have i3: "hb_inv opts sock w s v3" by (rule hb_inv_inert [OF i2 keepsD [OF \<open>keeps inert v2 m\<close> v3] refl])
    show ?thesis
    proof (cases "\<not> s_dead s \<and> revents 2 n AND (POLLIN OR POLLHUP) \<noteq> 0")
      case True
      with r have "hb_read opts sock s v3 = Some (c, v')" by simp
      from hb_read_inv [OF i3 this] show ?thesis by (auto simp: hb_result_def split: ctl.splits sum.splits)
    next
      case False
      with r i3 show ?thesis by (auto split: if_splits)
    qed
  qed
qed

lemma periodic_timerfd_keeps [keeps_intros]:
  "only P w0 w \<Longrightarrow> (\<And>c. P (Tm c)) \<Longrightarrow> (\<And>st m. P (Print st m)) \<Longrightarrow> keeps P w0 (periodic_timerfd ms w)"
  unfolding periodic_timerfd_def hb_die_def Let_def by (intro keeps_intros)

lemma run_session_silent:
  assumes "run_session opts sock sd peer w = Some (Inr res, w')" and "sr_outcome res = TimedOut"
  shows "silent_end opts sock (since w w')"
proof -
  from assms(1) obtain hb w1 where t: "periodic_timerfd (o_heartbeat_ms opts) w = Some (Inr hb, w1)"
    and r: "do {
     (j, w) \<leftarrow> hb_send_frame sock hb_join (bytes_of (o_name opts)) w1;
     (case j of
       Inl _ \<Rightarrow> Some (Inr \<lparr>sr_outcome = PeerError, sr_linked = False, sr_peer = peer\<rparr>, fd_reset sock (fd_reset hb w))
     | Inr _ \<Rightarrow> do {
         (c, w) \<leftarrow> sys Clock_ns w;
         (r, w) \<leftarrow> loop (hb_turn opts sock sd hb)
           \<lparr>s_buf = [], s_linked = False, s_dead = False, s_peer = peer,
            s_deadline = rv c + o_timeout_ms opts * 1000000\<rparr> w;
         (case r of Inl code \<Rightarrow> Some (Inl code, w)
          | Inr res \<Rightarrow> Some (Inr res, fd_reset sock (fd_reset hb w))) }) } = Some (Inr res, w')"
    unfolding run_session_def io_try_Some by blast
  from r obtain j w2 where j: "hb_send_frame sock hb_join (bytes_of (o_name opts)) w1 = Some (j, w2)"
    by (cases "hb_send_frame sock hb_join (bytes_of (o_name opts)) w1") auto
  with r assms(2) obtain u where j2: "j = Inr u" by (cases j) auto
  from r j j2 obtain k w3 w4 where k: "sys Clock_ns w2 = Some (k, w3)"
    and l: "loop (hb_turn opts sock sd hb)
        \<lparr>s_buf = [], s_linked = False, s_dead = False, s_peer = peer,
         s_deadline = rv k + o_timeout_ms opts * 1000000\<rparr> w3 = Some (Inr res, w4)"
    and w': "w' = fd_reset sock (fd_reset hb w4)"
    by (auto simp: run_cases)
  have o1: "only inert w w1" by (rule keepsD [OF periodic_timerfd_keeps [OF only_refl] t]) simp_all
  have o2: "only inert w1 w2" by (rule keepsD [OF hb_send_frame_keeps [OF only_refl] j]) simp_all
  have o: "later w w2" "heard sock (since w w2) = (0, True)"
    using o1 o2 later_trans [of w w1 w2] since_trans [of w w1 w2] inert_trace(1)
    by (simp_all add: only_def heard_def)
  note l3 = sys_after [OF o(1) k]
  have i: "hb_inv opts sock w \<lparr>s_buf = [], s_linked = False, s_dead = False, s_peer = peer,
         s_deadline = rv k + o_timeout_ms opts * 1000000\<rparr> w3"
    using l3 o by (simp add: hb_inv_def heard_step_def clock_by_def)
  have "later w w4 \<and> (case Inr res of Inl (_ :: int) \<Rightarrow> True | Inr x \<Rightarrow> sr_outcome x = TimedOut \<longrightarrow> silent_end opts sock (since w w4))"
  proof (rule loop_rule [OF l, where I = "hb_inv opts sock w" and
      Q = "\<lambda>r v'. later w v' \<and> (case r of Inl _ \<Rightarrow> True | Inr x \<Rightarrow> sr_outcome x = TimedOut \<longrightarrow> silent_end opts sock (since w v'))"],
      rule i, goal_cases)
    case (1 s v s1 v1)
    from hb_turn_inv [OF this] show ?case by simp
  next
    case (2 s v r v1)
    have "keeps (\<lambda>_. True) v (hb_turn opts sock sd hb s v)"
      unfolding hb_turn_def hb_read_def hb_die_def Let_def by (intro keeps_intros only_refl TrueI)
    from keepsD [OF this 2(2)] 2(1) have "later w v1" by (auto simp: only_def hb_inv_def intro: later_trans)
    with hb_turn_inv [OF 2] show ?case by simp
  qed
  then have s4: "later w w4" "silent_end opts sock (since w w4)" using assms(2) by simp_all
  have "only (\<lambda>_. True) w w'" unfolding w' using s4(1) by (intro keeps_intros TrueI) (simp add: only_def list_all_iff)
  moreover have "only (\<lambda>_. True) w4 w'" unfolding w' by (intro keeps_intros only_refl TrueI)
  ultimately have "prefix (since w w4) (since w w')" using since_trans [OF s4(1), of w'] by (simp add: only_def)
  with s4(2) show ?thesis unfolding silent_end_def by (meson prefix_order.trans)
qed

lemma sint_small: "0 \<le> n \<Longrightarrow> n < 2 ^ 31 \<Longrightarrow> sint (word_of_int n :: 32 word) = n"
  by (simp add: sint_sbintrunc' signed_take_bit_int_eq_self)

lemma hb_poll_ms_covers:
  assumes "left < 2 ^ 31 * 1000000"
  shows "left \<le> hb_poll_ms left * 1000000" and "left \<le> 0 \<longleftrightarrow> hb_poll_ms left = 0"
proof -
  have "sint (word_of_int (left div 1000000) :: 32 word) = left div 1000000" if "0 < left"
  proof (rule sint_small)
    from that show "0 \<le> left div 1000000" by simp
    from assms have "left < 2147483648 * 1000000" by simp
    then show "left div 1000000 < 2 ^ 31" by simp
  qed
  then have *: "hb_poll_ms left = left div 1000000 + 1" if "0 < left" using that by (simp add: hb_poll_ms_def)
  have "0 < left \<Longrightarrow> 0 \<le> left div 1000000" by (simp add: div_int_pos_iff)
  then show "left \<le> hb_poll_ms left * 1000000" "left \<le> 0 \<longleftrightarrow> hb_poll_ms left = 0"
    using * by (cases "0 < left"; (simp add: hb_poll_ms_def)?; linarith)+
qed

section \<open>A peer that stays silent\<close>

text \<open>
  What can happen to a session while its peer is silent: the heartbeat timer expires, or a signal
  interrupts the wait, each at some time. The kernel, as \<open>poll\<close>(2) and \<open>clock_gettime\<close>(2) document it, at a
  time and with the events still to come: the clock tells the time; a \<open>poll\<close> reports the next event if
  there is one before its timeout, or if it has none because the timeout is negative; else it reports
  nothing, and only when the timeout has passed. Other calls take no time here.
\<close>

datatype silence = Ping_due int | Interrupted int

fun time_of :: "silence \<Rightarrow> int" where
  "time_of (Ping_due c) = c" | "time_of (Interrupted c) = c"

fun reports :: "silence \<Rightarrow> answer \<Rightarrow> bool" where
  "reports (Ping_due c) p \<longleftrightarrow> 0 < rv p \<and> revents 0 p AND POLLIN = 0 \<and> revents 1 p AND POLLIN \<noteq> 0 \<and> revents 2 p AND (POLLIN OR POLLHUP) = 0"
| "reports (Interrupted c) p \<longleftrightarrow> rv p < 0 \<and> eno p = EINTR"

definition poll_silence :: "int \<Rightarrow> answer \<Rightarrow> int \<times> silence list \<Rightarrow> (int \<times> silence list) option" where
  "poll_silence ms p st = (case st of
     (t, e # es) \<Rightarrow>
       if ms < 0 \<or> time_of e \<le> t + ms * 1000000 then (if reports e p then Some (max t (time_of e), es) else None)
       else if rv p = 0 then Some (t + ms * 1000000, e # es) else None
   | (t, []) \<Rightarrow> if 0 \<le> ms \<and> rv p = 0 then Some (t + ms * 1000000, []) else None)"

definition silent_step :: "call \<times> answer option \<Rightarrow> int \<times> silence list \<Rightarrow> (int \<times> silence list) option" where
  "silent_step e st = (case e of
     (Clock_ns, Some a) \<Rightarrow> if rv a = fst st then Some st else None
   | (Ev (Ev_poll fds ms), Some p) \<Rightarrow> poll_silence ms p st
   | _ \<Rightarrow> Some st)"

fun silent_kernel :: "int \<times> silence list \<Rightarrow> (call \<times> answer option) list \<Rightarrow> (int \<times> silence list) option" where
  "silent_kernel st [] = Some st"
| "silent_kernel st (e # tr) = (case silent_step e st of None \<Rightarrow> None | Some st1 \<Rightarrow> silent_kernel st1 tr)"

lemma silent_step_simps [simp]:
  "silent_step (Clock_ns, Some a) st = (if rv a = fst st then Some st else None)"
  "silent_step (Poll fds ms, Some p) st = poll_silence ms p st"
  "silent_step (Read fd n, x) st = Some st" "silent_step (Send fd bs, x) st = Some st" "silent_step (Print o1 m, x) st = Some st"
  by (simp_all add: silent_step_def)

lemma silent_kernel_append:
  "silent_kernel st (tr @ us) = (case silent_kernel st tr of None \<Rightarrow> None | Some st1 \<Rightarrow> silent_kernel st1 us)"
  by (induction tr arbitrary: st) (auto split: option.split)

definition timeless :: "call \<Rightarrow> bool" where
  "timeless c \<longleftrightarrow> (case c of Clock_ns \<Rightarrow> False | Ev e \<Rightarrow> False | _ \<Rightarrow> True)"

lemma timeless_simps [simp]: "timeless (Send fd bs)" "timeless (Read fd n)" "timeless (Print o1 m)"
  by (simp_all add: timeless_def)

lemma timeless_kernel: "list_all (timeless \<circ> fst) tr \<Longrightarrow> silent_kernel st tr = Some st"
  by (induction tr) (auto simp: timeless_def silent_step_def split: call.splits option.splits)

lemma hb_poll_ms_window:
  assumes "d - t < 2 ^ 31 * 1000000"
  shows "0 \<le> hb_poll_ms (d - t)" and "d \<le> t + hb_poll_ms (d - t) * 1000000" and "t + hb_poll_ms (d - t) * 1000000 \<le> max t (d + 1000000)"
proof -
  have "hb_poll_ms (d - t) = (if d \<le> t then 0 else (d - t) div 1000000 + 1)"
  proof (cases "d \<le> t")
    case False
    with assms have "0 \<le> (d - t) div 1000000" "(d - t) div 1000000 < 2 ^ 31" by simp_all
    with False show ?thesis by (simp add: hb_poll_ms_def sint_small)
  qed (simp add: hb_poll_ms_def)
  moreover have "(d - t) div 1000000 * 1000000 \<le> d - t" by (simp add: minus_mod_eq_div_mult [symmetric])
  moreover have "0 < d - t \<Longrightarrow> 0 \<le> (d - t) div 1000000" by simp
  ultimately show "0 \<le> hb_poll_ms (d - t)" "t + hb_poll_ms (d - t) * 1000000 \<le> max t (d + 1000000)"
    by (simp_all add: algebra_simps)
  show "d \<le> t + hb_poll_ms (d - t) * 1000000" using hb_poll_ms_covers(1) [OF assms] by simp
qed

text \<open>A turn, in that kernel: the calls it makes, and what they leave.\<close>

lemma hb_turn_calls:
  assumes "hb_turn opts sock sd hb s v = Some (c, v')"
  shows "\<exists>a p v1 v2 fds. sys Clock_ns v = Some (a, v1) \<and> sys (Poll fds (hb_poll_ms (s_deadline s - rv a))) v1 = Some (p, v2) \<and>
    later v2 v' \<and> (rv p = 0 \<longrightarrow> v' = v2 \<and> c = Break (Inr (hb_result TimedOut s))) \<and>
    (\<forall>e. reports e p \<longrightarrow> only timeless v2 v' \<and> c = Continue s)"
proof -
  from assms obtain k v1 where k: "sys Clock_ns v = Some (k, v1)"
    by (cases "sys Clock_ns v") (auto simp: hb_turn_def)
  let ?fds = "[(sd, POLLIN), (hb, POLLIN)] @ (if \<not> s_dead s then [(sock, POLLIN)] else [])"
  let ?ms = "hb_poll_ms (s_deadline s - rv k)"
  from assms k obtain n v2 where n: "sys (Poll ?fds ?ms) v1 = Some (n, v2)"
    by (cases "sys (Poll ?fds ?ms) v1") (auto simp: hb_turn_def Let_def)
  define m where "m = (if revents 1 n AND POLLIN \<noteq> 0 then do {
           (_, w) \<leftarrow> sys (Read hb 8) v2;
           if \<not> s_dead s then do { (_, w) \<leftarrow> hb_send_frame sock hb_ping [] w; Some ((), w) }
           else Some ((), w) }
         else Some ((), v2))"
  have km: "keeps timeless v2 m" unfolding m_def by (intro keeps_intros only_refl) simp_all
  have turn_on: "\<exists>v3. m = Some ((), v3) \<and> (if \<not> s_dead s \<and> revents 2 n AND (POLLIN OR POLLHUP) \<noteq> 0 then hb_read opts sock s v3
        else Some (Continue s, v3)) = Some (c, v')" if "0 < rv n" "revents 0 n AND POLLIN = 0"
    using assms k n that unfolding m_def by (auto simp: hb_turn_def Let_def simp del: if_Some)
  have tail: "later v2 v'"
  proof -
    consider (error) "rv n < 0" | (none) "rv n = 0 \<or> 0 < rv n \<and> revents 0 n AND POLLIN \<noteq> 0" | (go) "0 < rv n" "revents 0 n AND POLLIN = 0"
      by linarith
    then show ?thesis
    proof cases
      case error
      with assms k n show ?thesis by (cases "eno n = EINTR") (auto simp: hb_turn_def Let_def hb_die_def println_def)
    next
      case none
      with assms k n show ?thesis by (auto simp: hb_turn_def Let_def)
    next
      case go
      from turn_on [OF go] obtain v3 where v3: "m = Some ((), v3)"
        "(if \<not> s_dead s \<and> revents 2 n AND (POLLIN OR POLLHUP) \<noteq> 0 then hb_read opts sock s v3 else Some (Continue s, v3)) = Some (c, v')"
        by blast
      have "keeps (\<lambda>_. True) v3 (hb_read opts sock s v3)"
        unfolding hb_read_def Let_def by (intro keeps_intros only_refl TrueI)
      from keepsD [OF this] v3(2) have "later v3 v'" by (auto simp: only_def split: if_splits)
      moreover have "later v2 v3" using keepsD [OF km v3(1)] by (simp add: only_def)
      ultimately show ?thesis by (rule later_trans [rotated])
    qed
  qed
  have zero: "v' = v2 \<and> c = Break (Inr (hb_result TimedOut s))" if "rv n = 0"
    using assms k n that by (simp add: hb_turn_def Let_def)
  have rep: "only timeless v2 v' \<and> c = Continue s" if "reports e n" for e
  proof (cases e)
    case (Interrupted u)
    with that assms k n show ?thesis by (simp add: hb_turn_def Let_def)
  next
    case (Ping_due u)
    with that turn_on obtain v3 where "m = Some ((), v3)" "v' = v3" "c = Continue s" by auto
    with keepsD [OF km] show ?thesis by simp
  qed
  from k n tail zero rep show ?thesis by blast
qed

lemma hb_turn_silent:
  assumes "hb_turn opts sock sd hb s v = Some (c, v')" and "silent_kernel (t, es) (since v v') = Some (t', es')"
    and "t \<le> s_deadline s + 1000000" and "s_deadline s - t < 2 ^ 31 * 1000000"
  shows "t \<le> t' \<and> t' \<le> s_deadline s + 1000000 \<and> (c = Continue s \<or> c = Break (Inr (hb_result TimedOut s)) \<and> s_deadline s \<le> t')"
proof -
  from hb_turn_calls [OF assms(1)] obtain a p v1 v2 fds where a: "sys Clock_ns v = Some (a, v1)"
    and p: "sys (Poll fds (hb_poll_ms (s_deadline s - rv a))) v1 = Some (p, v2)" and l: "later v2 v'"
    and z: "rv p = 0 \<Longrightarrow> v' = v2 \<and> c = Break (Inr (hb_result TimedOut s))" and r: "\<And>e. reports e p \<Longrightarrow> only timeless v2 v' \<and> c = Continue s"
    by blast
  let ?ms = "hb_poll_ms (s_deadline s - t)"
  note la = sys_since [OF a] and lp = sys_since [OF p]
  have tr: "since v v' = [(Clock_ns, Some a), (Poll fds (hb_poll_ms (s_deadline s - rv a)), Some p)] @ since v2 v'"
    using since_trans [OF la(1) later_trans [OF lp(1) l]] since_trans [OF lp(1) l] la(2) lp(2) by simp
  from assms(2) have ra: "rv a = t" by (simp add: tr split: if_splits)
  from assms(2) obtain st where st: "poll_silence ?ms p (t, es) = Some st" and k: "silent_kernel st (since v2 v') = Some (t', es')"
    by (auto simp: tr ra split: option.splits)
  note w = hb_poll_ms_window [OF assms(4)]
  from st w(1) consider (event) e es1 where "es = e # es1" "time_of e \<le> t + ?ms * 1000000" "reports e p" "st = (max t (time_of e), es1)"
    | (none) "rv p = 0" "st = (t + ?ms * 1000000, es)"
    by (cases es) (auto simp: poll_silence_def split: if_splits)
  then show ?thesis
  proof cases
    case event
    with r [OF event(3)] k have "t' = max t (time_of e)" "c = Continue s" by (auto simp: timeless_kernel onlyD(2))
    with event w assms(3) show ?thesis by auto
  next
    case none
    with z [OF none(1)] k have "t' = t + ?ms * 1000000" "c = Break (Inr (hb_result TimedOut s))" by (auto simp: since_def)
    with w assms(3) show ?thesis by auto
  qed
qed

lemma hb_turn_later: "hb_turn opts sock sd hb s v = Some (c, v') \<Longrightarrow> later v v'"
  using hb_turn_calls [of opts sock sd hb s v c v'] later_trans sys_since(1) by meson

text \<open>Every run of the loop in that kernel, and that there is one.\<close>

lemma hb_loop_silent:
  assumes "loop (hb_turn opts sock sd hb) s w = Some (r, w')" and "silent_kernel (t, es) (since w w') = Some (t', es')"
    and "t \<le> s_deadline s + 1000000" and "s_deadline s - t < 2 ^ 31 * 1000000"
  shows "r = Inr (hb_result TimedOut s) \<and> s_deadline s \<le> t' \<and> t' \<le> s_deadline s + 1000000"
proof -
  have "later w w' \<and> (\<forall>t' es'. silent_kernel (t, es) (since w w') = Some (t', es') \<longrightarrow>
      r = Inr (hb_result TimedOut s) \<and> s_deadline s \<le> t' \<and> t' \<le> s_deadline s + 1000000)"
  proof (rule loop_rule [OF assms(1), where I = "\<lambda>s1 v. later w v \<and> (\<forall>t1 es1. silent_kernel (t, es) (since w v) = Some (t1, es1) \<longrightarrow>
        s1 = s \<and> t \<le> t1 \<and> t1 \<le> s_deadline s + 1000000)"
      and Q = "\<lambda>r v. later w v \<and> (\<forall>t' es'. silent_kernel (t, es) (since w v) = Some (t', es') \<longrightarrow>
        r = Inr (hb_result TimedOut s) \<and> s_deadline s \<le> t' \<and> t' \<le> s_deadline s + 1000000)"], goal_cases)
    case 1
    with assms(3) show ?case by (simp add: since_def)
  next
    case (2 s1 v s2 v2)
    have l: "later w v" "later v v2" using 2 hb_turn_later by blast+
    have "s2 = s \<and> t \<le> t2 \<and> t2 \<le> s_deadline s + 1000000" if k2: "silent_kernel (t, es) (since w v2) = Some (t2, es2)" for t2 es2
    proof -
      from k2 obtain t1 es1 where k: "silent_kernel (t, es) (since w v) = Some (t1, es1)" "silent_kernel (t1, es1) (since v v2) = Some (t2, es2)"
        by (auto simp: since_trans [OF l] silent_kernel_append split: option.splits)
      with 2(1) have h: "s1 = s" "t \<le> t1" "t1 \<le> s_deadline s + 1000000" by blast+
      with assms(4) have "s_deadline s - t1 < 2 ^ 31 * 1000000" by linarith
      from hb_turn_silent [OF 2(2) k(2)] h this show ?thesis by auto
    qed
    with later_trans [OF l] show ?case by blast
  next
    case (3 s1 v r v2)
    have l: "later w v" "later v v2" using 3 hb_turn_later by blast+
    have "r = Inr (hb_result TimedOut s) \<and> s_deadline s \<le> t2 \<and> t2 \<le> s_deadline s + 1000000"
      if k2: "silent_kernel (t, es) (since w v2) = Some (t2, es2)" for t2 es2
    proof -
      from k2 obtain t1 es1 where k: "silent_kernel (t, es) (since w v) = Some (t1, es1)" "silent_kernel (t1, es1) (since v v2) = Some (t2, es2)"
        by (auto simp: since_trans [OF l] silent_kernel_append split: option.splits)
      with 3(1) have h: "s1 = s" "t \<le> t1" "t1 \<le> s_deadline s + 1000000" by blast+
      with assms(4) have "s_deadline s - t1 < 2 ^ 31 * 1000000" by linarith
      from hb_turn_silent [OF 3(2) k(2)] h this show ?thesis by auto
    qed
    with later_trans [OF l] show ?case by blast
  qed
  with assms(2) show ?thesis by blast
qed

lemma hb_ping_sent:
  assumes "script w = returned 6 # s"
  shows "hb_send_frame sock hb_ping [] w = Some (Inr (), w\<lparr>script := s, trace := trace w @ [(Send sock [67, 72, 1, 5, 0, 0], Some (returned 6))]\<rparr>)"
  using assms by (simp add: hb_send_frame_def hb_send_all_def hb_send_all_turn_def loop.simps hb_encode_def sys_def be16_eval)

text \<open>The answers of a turn that ends with an event: the time, the event, and, where the socket is not dead, the PING going out.\<close>

fun event_answers :: "bool \<Rightarrow> int \<Rightarrow> silence \<Rightarrow> answer list" where
  "event_answers dead t (Ping_due c) =
     [returned t, \<lparr>rv = 1, eno = 0, dat = [], evs = [(1, POLLIN)]\<rparr>, returned 8] @ (if dead then [] else [returned 6])"
| "event_answers dead t (Interrupted c) = [returned t, failed EINTR]"

lemma event_turn:
  assumes "script w = event_answers (s_dead s) t e @ rest" and "time_of e \<le> t + hb_poll_ms (s_deadline s - t) * 1000000"
  shows "\<exists>w1. hb_turn opts sock sd hb s w = Some (Continue s, w1) \<and> later w w1 \<and> script w1 = rest \<and>
    silent_kernel (t, e # es) (since w w1) = Some (max t (time_of e), es)"
proof (cases e)
  case (Ping_due c)
  with assms show ?thesis
    by (cases "s_dead s") (auto simp: hb_turn_def Let_def sys_def hb_ping_sent revents_def later_def since_def suffix_def poll_silence_def)
next
  case (Interrupted c)
  with assms show ?thesis
    by (auto simp: hb_turn_def Let_def sys_def later_def since_def suffix_def poll_silence_def)
qed

lemma last_turn:
  assumes "script w = [returned t, returned 0]" and "s_deadline s - t < 2 ^ 31 * 1000000"
    and "es = [] \<or> t + hb_poll_ms (s_deadline s - t) * 1000000 < time_of (hd es)"
  shows "\<exists>w1 t'. loop (hb_turn opts sock sd hb) s w = Some (Inr (hb_result TimedOut s), w1) \<and> later w w1 \<and>
    silent_kernel (t, es) (since w w1) = Some (t', es)"
proof -
  have "0 \<le> hb_poll_ms (s_deadline s - t)" by (rule hb_poll_ms_window(1) [OF assms(2)])
  with assms(1,3) show ?thesis
    by (subst loop.simps; cases es) (auto simp: hb_turn_def Let_def sys_def later_def since_def suffix_def poll_silence_def)
qed

lemma silent_run:
  assumes "t \<le> s_deadline s + 1000000" and "s_deadline s - t < 2 ^ 31 * 1000000"
  shows "\<exists>as. \<forall>w. script w = as \<longrightarrow> (\<exists>w' t' es'. loop (hb_turn opts sock sd hb) s w = Some (Inr (hb_result TimedOut s), w') \<and> later w w' \<and>
    silent_kernel (t, es) (since w w') = Some (t', es'))"
  using assms
proof (induction es arbitrary: t)
  case Nil
  then show ?case by (intro exI [of _ "[returned t, returned 0]"]) (blast dest: last_turn [where es = "[]"])
next
  case (Cons e es)
  show ?case
  proof (cases "time_of e \<le> t + hb_poll_ms (s_deadline s - t) * 1000000")
    case False
    with Cons.prems show ?thesis
      by (intro exI [of _ "[returned t, returned 0]"]) (use last_turn [where es = "e # es"] in force)
  next
    case True
    let ?t = "max t (time_of e)"
    have "?t \<le> s_deadline s + 1000000" "s_deadline s - ?t < 2 ^ 31 * 1000000"
      using True Cons.prems hb_poll_ms_window(3) [OF Cons.prems(2)] by auto
    from Cons.IH [OF this] obtain as where as: "\<And>w. script w = as \<Longrightarrow> \<exists>w' t' es'. loop (hb_turn opts sock sd hb) s w = Some (Inr (hb_result TimedOut s), w') \<and>
      later w w' \<and> silent_kernel (?t, es) (since w w') = Some (t', es')" by blast
    show ?thesis
    proof (intro exI [of _ "event_answers (s_dead s) t e @ as"] allI impI)
      fix w :: world assume "script w = event_answers (s_dead s) t e @ as"
      from event_turn [where es = es, OF this True] obtain w1 where w1: "hb_turn opts sock sd hb s w = Some (Continue s, w1)"
        "later w w1" "script w1 = as" "silent_kernel (t, e # es) (since w w1) = Some (?t, es)" by blast
      from as [OF w1(3)] obtain w' t' es' where w': "loop (hb_turn opts sock sd hb) s w1 = Some (Inr (hb_result TimedOut s), w')"
        "later w1 w'" "silent_kernel (?t, es) (since w1 w') = Some (t', es')" by blast
      with w1 show "\<exists>w' t' es'. loop (hb_turn opts sock sd hb) s w = Some (Inr (hb_result TimedOut s), w') \<and> later w w' \<and>
          silent_kernel (t, e # es) (since w w') = Some (t', es')"
        by (intro exI [of _ w'] exI [of _ t'] exI [of _ es'])
          (auto simp: loop_Continue since_trans [OF w1(2) w'(2)] silent_kernel_append intro: later_trans)
    qed
  qed
qed

section \<open>The back-off\<close>

lemma sleep_or_shutdown_polls:
  assumes "sleep_or_shutdown ms sd w = Some (Inr b, w')"
  shows "later w w' \<and> (\<exists>p. (Poll [(sd, POLLIN)] (sint (word_of_int ms :: 32 word)), Some p) \<in> set (since w w'))"
proof -
  let ?ms = "sint (word_of_int ms :: 32 word)"
  have "later w w' \<and> (case Inr b of Inl (_ :: int) \<Rightarrow> True
      | Inr _ \<Rightarrow> \<exists>p. (Poll [(sd, POLLIN)] ?ms, Some p) \<in> set (since w w'))"
  proof (rule loop_rule [OF assms [unfolded sleep_or_shutdown_def], where I = "\<lambda>_ v. later w v" and
      Q = "\<lambda>r v. later w v \<and> (case r of Inl _ \<Rightarrow> True | Inr _ \<Rightarrow> \<exists>p. (Poll [(sd, POLLIN)] ?ms, Some p) \<in> set (since w v))"],
      goal_cases)
    case 1
    show ?case by simp
  next
    case (2 u v u1 v1)
    then obtain n where "sys (Poll [(sd, POLLIN)] ?ms) v = Some (n, v1)"
      by (auto simp: sleep_turn_def hb_die_def split: if_splits)
    with 2(1) show ?case by (rule sys_after(1))
  next
    case (3 u v r v1)
    then obtain n v2 where n: "sys (Poll [(sd, POLLIN)] ?ms) v = Some (n, v2)"
      and r: "v1 = v2 \<or> (\<exists>m c. v1 = println Stderr m v2 \<and> r = Inl c)"
      by (auto simp: sleep_turn_def hb_die_def split: if_splits)
    from sys_after [OF 3(1) n] r show ?case by (auto split: sum.splits)
  qed
  then show ?thesis by simp
qed

lemma run_session_keeps: "keeps (\<lambda>_. True) w (run_session opts sock sd peer w)"
  unfolding run_session_def hb_turn_def hb_read_def hb_die_def Let_def
  by (intro keeps_intros only_refl TrueI)

lemma hb_dial_keeps: "keeps (\<lambda>_. True) w (hb_dial host port w)"
  unfolding hb_dial_def by (intro keeps_intros only_refl TrueI)

lemma connect_turn_backoff:
  assumes "connect_turn opts host port sd b w = Some (Continue b', w')"
  shows "\<exists>b0 j p. (b0 = b \<or> b0 = o_backoff_ms opts) \<and> b' = min (b0 * 2) (o_max_backoff_ms opts) \<and>
    (Tm Tm_random, Some j) \<in> set (since w w') \<and>
    (Poll [(sd, POLLIN)] (sint (word_of_int (b0 div 2 + rv j) :: 32 word)), Some p) \<in> set (since w w')"
proof -
  define m where "m d v = (case d of
         Inl _ \<Rightarrow> Some ((None :: (int + unit) option, b), v)
       | Inr sock \<Rightarrow> do {
           (r, w) \<leftarrow> run_session opts sock sd (o_peer_name opts) v;
           (case r of
             Inl code \<Rightarrow> Some ((Some (Inl code), o_backoff_ms opts), w)
           | Inr res \<Rightarrow>
               if sr_outcome res = Shutdown then Some ((Some (Inr ()), o_backoff_ms opts), hb_goodbye opts w)
               else if sr_outcome res = TimedOut
                 then Some ((None, o_backoff_ms opts), println Stdout [Txt (''chatterd: peer '' @ o_peer_name opts @ '' timed out'')] w)
               else Some ((None, o_backoff_ms opts), w)) })" for d :: "error_code + int" and v
  from assms obtain d w1 where d: "hb_dial host port w = Some (d, w1)"
    by (cases "hb_dial host port w") (auto simp: connect_turn_def)
  with assms obtain stop b0 w2 where m: "m d w1 = Some ((stop, b0), w2)"
    by (cases "m d w1") (auto simp: connect_turn_def m_def [symmetric])
  with assms d have "stop = None"
    by (cases stop) (auto simp: connect_turn_def m_def [symmetric])
  with assms d m obtain j w3 where j: "sys (Tm Tm_random) w2 = Some (j, w3)"
    by (cases "sys (Tm Tm_random) w2") (auto simp: connect_turn_def m_def [symmetric] Let_def)
  define msg where "msg = [Txt (''chatterd: reconnecting to '' @ o_peer_name opts @ '' in '' @ show_int (b0 div 2 + rv j) @ ''ms'')]"
  have rest: "do {
       (s, w) \<leftarrow> sleep_or_shutdown (b0 div 2 + rv j) sd (println Stdout msg w3);
       (case s of
           Inl code \<Rightarrow> Some (Break (Inl code), w)
         | Inr True \<Rightarrow> Some (Break (Inr ()), hb_goodbye opts w)
         | Inr False \<Rightarrow> Some (Continue (min (b0 * 2) (o_max_backoff_ms opts)), w)) } = Some (Continue b', w')"
    using assms d m j \<open>stop = None\<close> by (simp add: connect_turn_def m_def [symmetric] Let_def msg_def)
  obtain x w4 where x: "sleep_or_shutdown (b0 div 2 + rv j) sd (println Stdout msg w3) = Some (x, w4)"
    using rest by (cases "sleep_or_shutdown (b0 div 2 + rv j) sd (println Stdout msg w3)") auto
  with rest have e: "x = Inr False \<and> b' = min (b0 * 2) (o_max_backoff_ms opts) \<and> w' = w4"
    by (cases x) (auto split: bool.splits)
  with x have sl: "sleep_or_shutdown (b0 div 2 + rv j) sd (println Stdout msg w3) = Some (Inr False, w4)" by simp
  have l1: "later w w1" using keepsD [OF hb_dial_keeps d] by (rule onlyD)
  have "keeps (\<lambda>_. True) w1 (m d w1)"
    unfolding m_def hb_goodbye_def run_session_def hb_turn_def hb_read_def hb_die_def Let_def
    by (intro keeps_intros only_refl TrueI)
  from keepsD [OF this m] have l2: "later w1 w2" by (rule onlyD)
  have b0: "b0 = b \<or> b0 = o_backoff_ms opts" using m by (auto simp: m_def run_cases)
  note l12 = later_trans [OF l1 l2]
  note l3 = sys_after [OF l12 j]
  have l3': "later w (println Stdout msg w3)" using l3(1) by simp
  from sleep_or_shutdown_polls [OF sl] obtain p where l4: "later (println Stdout msg w3) w4"
    and p: "(Poll [(sd, POLLIN)] (sint (word_of_int (b0 div 2 + rv j) :: 32 word)), Some p) \<in> set (since (println Stdout msg w3) w4)" by blast
  have "since w w' = since w w2 @ [(Tm Tm_random, Some j), (Print Stdout msg, None)] @ since (println Stdout msg w3) w4"
    using since_trans [OF l3' l4] l3 by (simp add: e)
  with p b0 e show ?thesis by (intro exI [of _ b0] exI [of _ j] exI [of _ p]) simp
qed

section \<open>Properties\<close>

text \<open>C14: A peer is declared dead only by silence: when a session times out, its last poll reported nothing
  and was to wait at least until one whole timeout after the peer was last heard, both on the
  monotonic clock.\<close>

theorem heartbeat_death_is_silence:
  assumes "run_session opts sock sd peer w = Some (Inr res, w')" and "sr_outcome res = TimedOut"
    and "0 < o_timeout_ms opts" and "o_timeout_ms opts < 2 ^ 31" and "sorted (clocks (since w w'))"
  shows "\<exists>pre c fds ms p. prefix (pre @ [(Clock_ns, Some c), (Poll fds ms, Some p)]) (since w w') \<and> rv p = 0 \<and>
    fst (heard sock pre) + o_timeout_ms opts * 1000000 \<le> rv c + ms * 1000000"
proof -
  from run_session_silent [OF assms(1,2)] obtain pre c fds ms p
    where t: "prefix (pre @ [(Clock_ns, Some c), (Poll fds ms, Some p)]) (since w w')" "rv p = 0"
      and h: "fst (heard sock pre) \<in> set (clocks pre)" and ms: "ms = hb_poll_ms (fst (heard sock pre) + o_timeout_ms opts * 1000000 - rv c)"
    unfolding silent_end_def by blast
  from t(1) obtain q where "since w w' = (pre @ [(Clock_ns, Some c), (Poll fds ms, Some p)]) @ q" by (rule prefixE)
  with assms(5) have "sorted (clocks pre @ [rv c] @ clocks [(Poll fds ms, Some p)] @ clocks q)" by (simp add: clock_by_def)
  with h have "fst (heard sock pre) \<le> rv c" by (auto simp: sorted_append)
  with assms(4) have "fst (heard sock pre) + o_timeout_ms opts * 1000000 - rv c < 2 ^ 31 * 1000000" by simp
  from hb_poll_ms_covers(1) [OF this] t show ?thesis by (intro exI conjI) (auto simp: ms)
qed

definition quick_opts :: hb_opts where
  "quick_opts = default_opts\<lparr>o_name := ''a'', o_timeout_ms := 3\<rparr>"

theorem heartbeat_death_is_silence_witness:
  "\<exists>res w'. run_session quick_opts 5 4 ''b'' (answering [returned 8, returned 0, returned 7, returned 0, returned 1, returned 0])
      = Some (Inr res, w') \<and>
    (\<exists>pre c fds ms p. prefix (pre @ [(Clock_ns, Some c), (Poll fds ms, Some p)])
      (since (answering [returned 8, returned 0, returned 7, returned 0, returned 1, returned 0]) w') \<and> rv p = 0 \<and>
      fst (heard 5 pre) + 3 * 1000000 \<le> rv c + ms * 1000000)"
proof -
  let ?w = "answering [returned 8, returned 0, returned 7, returned 0, returned 1, returned 0]"
  have "\<exists>res w'. run_session quick_opts 5 4 ''b'' ?w = Some (Inr res, w') \<and> sr_outcome res = TimedOut \<and>
      sorted (clocks (since ?w w'))"
    by (simp add: run_session_def periodic_timerfd_def hb_send_frame_def hb_send_all_def hb_send_all_turn_def hb_encode_def
      hb_turn_def hb_result_def loop.simps io_defs quick_opts_def default_opts_def returned_def since_def clock_by_def
      fd_reset_def Let_def)
  then obtain res w' where r: "run_session quick_opts 5 4 ''b'' ?w = Some (Inr res, w')" "sr_outcome res = TimedOut"
    "sorted (clocks (since ?w w'))" by blast
  have t: "o_timeout_ms quick_opts = 3" by (simp add: quick_opts_def)
  from heartbeat_death_is_silence [OF r(1,2) _ _ r(3)] r(1) show ?thesis by (simp add: t)
qed

text \<open>C15: A silent peer is declared dead in time. In a kernel that tells the time and answers \<open>poll\<close> as
  documented, the socket giving nothing, whenever the heartbeat timer expires and signals interrupt: the
  session loop ends, as timed out, not before its deadline and at most one millisecond after it, and
  every run of it in that kernel ends so.\<close>

theorem heartbeat_silence_is_death:
  assumes "t \<le> s_deadline s" and "s_deadline s - t < 2 ^ 31 * 1000000"
  shows "(\<exists>as w' t' es'. loop (hb_turn opts sock sd hb) s (answering as) = Some (Inr (hb_result TimedOut s), w') \<and>
      silent_kernel (t, es) (since (answering as) w') = Some (t', es')) \<and>
    (\<forall>w r w' t' es'. loop (hb_turn opts sock sd hb) s w = Some (r, w') \<and> silent_kernel (t, es) (since w w') = Some (t', es') \<longrightarrow>
      r = Inr (hb_result TimedOut s) \<and> s_deadline s \<le> t' \<and> t' \<le> s_deadline s + 1000000)"
proof -
  have t: "t \<le> s_deadline s + 1000000" using assms(1) by simp
  from silent_run [OF t assms(2), of opts sock sd hb es] obtain as where as: "\<And>w. script w = as \<Longrightarrow>
      \<exists>w' t' es'. loop (hb_turn opts sock sd hb) s w = Some (Inr (hb_result TimedOut s), w') \<and> silent_kernel (t, es) (since w w') = Some (t', es')"
    by blast
  have "script (answering as) = as" by (simp add: answering_def)
  from as [OF this] hb_loop_silent [OF _ _ t assms(2)] show ?thesis by blast
qed

theorem heartbeat_silence_is_death_witness:
  "\<exists>as w' t'. loop (hb_turn quick_opts 5 4 8) \<lparr>s_buf = [], s_linked = True, s_dead = False, s_peer = ''b'', s_deadline = 3000000\<rparr> (answering as)
      = Some (Inr \<lparr>sr_outcome = TimedOut, sr_linked = True, sr_peer = ''b''\<rparr>, w') \<and> 3000000 \<le> t' \<and> t' \<le> (4000000 :: int)"
proof -
  let ?s = "\<lparr>s_buf = [], s_linked = True, s_dead = False, s_peer = ''b'', s_deadline = 3000000\<rparr>"
  have "500000 \<le> s_deadline ?s" "s_deadline ?s - 500000 < 2 ^ 31 * 1000000" by simp_all
  note d = heartbeat_silence_is_death [OF this, of quick_opts 5 4 8 "[Ping_due 1000000, Interrupted 2000000, Ping_due 2000000]"]
  then obtain as w' t' es' where r: "loop (hb_turn quick_opts 5 4 8) ?s (answering as) = Some (Inr (hb_result TimedOut ?s), w')"
    "silent_kernel (500000, [Ping_due 1000000, Interrupted 2000000, Ping_due 2000000]) (since (answering as) w') = Some (t', es')" by blast
  with d have "s_deadline ?s \<le> t' \<and> t' \<le> s_deadline ?s + 1000000" by blast
  with r(1) show ?thesis by (auto simp: hb_result_def)
qed

text \<open>The back-off stays in bounds: with a jitter of at most half of it, a round sleeps no longer than the
  larger of the two back-off options, and the next back-off is positive and within the maximum.\<close>

lemma heartbeat_backoff_bounds:
  assumes "connect_turn opts host port sd b w = Some (Continue b', w')" and "opts_ok opts" and "1 \<le> b" and "b \<le> m"
    and "o_backoff_ms opts \<le> m" and "m < 2 ^ 31"
    and "\<forall>j. (Tm Tm_random, Some j) \<in> set (since w w') \<longrightarrow> 0 \<le> rv j \<and> rv j \<le> m div 2"
  shows "1 \<le> b' \<and> b' \<le> o_max_backoff_ms opts \<and>
    (\<exists>d p. (Poll [(sd, POLLIN)] d, Some p) \<in> set (since w w') \<and> 0 \<le> d \<and> d \<le> m)"
proof -
  from connect_turn_backoff [OF assms(1)] obtain b0 j p where b0: "b0 = b \<or> b0 = o_backoff_ms opts"
    and b': "b' = min (b0 * 2) (o_max_backoff_ms opts)" and j: "(Tm Tm_random, Some j) \<in> set (since w w')"
    and p: "(Poll [(sd, POLLIN)] (sint (word_of_int (b0 div 2 + rv j) :: 32 word)), Some p) \<in> set (since w w')" by blast
  have o: "1 \<le> o_backoff_ms opts" "1 \<le> o_max_backoff_ms opts" using assms(2) by (simp_all add: opts_ok_def)
  from b0 o assms(3-5) have b1: "1 \<le> b0" "b0 \<le> m" by auto
  have jb: "0 \<le> rv j" "rv j \<le> m div 2" using j assms(7) by auto
  have "0 \<le> b0 div 2 + rv j" "b0 div 2 + rv j \<le> m" using b1 jb by presburger+
  with assms(6) have "sint (word_of_int (b0 div 2 + rv j) :: 32 word) = b0 div 2 + rv j" by (intro sint_small) simp_all
  with p b' b1 o \<open>0 \<le> b0 div 2 + rv j\<close> \<open>b0 div 2 + rv j \<le> m\<close> show ?thesis by auto
qed

text \<open>Every command line that is accepted gives options in their types' ranges: a name, times of at least
  one millisecond that fit a \<open>long\<close>, a seed of 32 bits.\<close>

lemma heartbeat_options_valid:
  assumes "parse_common args = Inr opts"
  shows "o_name opts \<noteq> [] \<and> opts_ok opts"
proof -
  have "opts_ok default_opts" by (simp add: opts_ok_def default_opts_def)
  with assms show ?thesis
    by (auto simp: parse_common_def split: sum.splits if_splits dest: parse_common_from_ok)
qed

text \<open>The reader of this program cuts the stream the capstone's writer puts on the wire: all complete
  frames, unchanged and in order, the incomplete one left in the buffer, and no complaint.\<close>

lemma heartbeat_reads_capstone:
  assumes "list_all (\<lambda>f. List.length (payload f) \<le> 0xFFFF) (fs @ gs)" and "partial proto_encode gs b"
  shows "pop_frames (stream_of proto_encode fs @ b) = (fs, b, False)"
proof -
  have "hb_drain (stream_of proto_encode fs @ b) = (fs, b)"
    using assms(1) by (intro hbs.drain_stream [OF _ assms(2)]) simp_all
  moreover have "snd (snd (pop_frames (stream_of proto_encode fs @ b))) = False"
    using assms(1) by (intro pop_frames_not_bad [OF _ _ assms(2)]) simp_all
  ultimately show ?thesis by (cases "pop_frames (stream_of proto_encode fs @ b)") simp
qed

end
