(* ===== verification/Refinement.thy ===== *)
theory Refinement
  imports Prelude
begin

text \<open>
  Runs of a machine whose steps are a function of the state and an action, and the interface
  \<open>refinement\<close>: a machine with an invariant, an abstraction of its states, and the abstract action,
  if any, that each step performs. The result is that every run performs a run of the abstract
  machine. The abstract machine of the queues, a bounded queue, comes with it.
\<close>

fun run :: "('s \<Rightarrow> 'a \<Rightarrow> 's option) \<Rightarrow> 's \<Rightarrow> 'a list \<Rightarrow> 's option" where
  "run next s [] = Some s"
| "run next s (a # as) = (case next s a of None \<Rightarrow> None | Some s1 \<Rightarrow> run next s1 as)"

lemma run_append: "run next s (as @ bs) = (case run next s as of None \<Rightarrow> None | Some s1 \<Rightarrow> run next s1 bs)"
  by (induction as arbitrary: s) (auto split: option.split)

lemma run_invariant:
  assumes "run next s as = Some s'" and "I s" and "\<And>s a s'. I s \<Longrightarrow> next s a = Some s' \<Longrightarrow> I s'"
  shows "I s'"
  using assms(1,2) by (induction as arbitrary: s) (auto split: option.splits intro: assms(3))

text \<open>The abstract actions along a run.\<close>

fun seen :: "('s \<Rightarrow> 'a \<Rightarrow> 's option) \<Rightarrow> ('s \<Rightarrow> 'a \<Rightarrow> 'b option) \<Rightarrow> 's \<Rightarrow> 'a list \<Rightarrow> 'b list" where
  "seen next label s [] = []"
| "seen next label s (a # as) =
     (case label s a of None \<Rightarrow> [] | Some b \<Rightarrow> [b]) @ (case next s a of None \<Rightarrow> [] | Some s1 \<Rightarrow> seen next label s1 as)"

locale refinement =
  fixes step :: "'s \<Rightarrow> 'a \<Rightarrow> 's option"
    and inv :: "'s \<Rightarrow> bool"
    and abs :: "'s \<Rightarrow> 't"
    and label :: "'s \<Rightarrow> 'a \<Rightarrow> 'b option"
    and astep :: "'t \<Rightarrow> 'b \<Rightarrow> 't option"
  assumes inv_step: "inv s \<Longrightarrow> step s a = Some s' \<Longrightarrow> inv s'"
    and silent: "inv s \<Longrightarrow> step s a = Some s' \<Longrightarrow> label s a = None \<Longrightarrow> abs s' = abs s"
    and visible: "inv s \<Longrightarrow> step s a = Some s' \<Longrightarrow> label s a = Some b \<Longrightarrow> astep (abs s) b = Some (abs s')"
begin

lemma run_inv: "run step s as = Some s' \<Longrightarrow> inv s \<Longrightarrow> inv s'"
  by (rule run_invariant) (auto intro: inv_step)

lemma run_refines: "run step s as = Some s' \<Longrightarrow> inv s \<Longrightarrow> run astep (abs s) (seen step label s as) = Some (abs s')"
proof (induction as arbitrary: s)
  case Nil
  then show ?case by simp
next
  case (Cons a as)
  from Cons.prems(1) obtain s1 where s1: "step s a = Some s1" "run step s1 as = Some s'"
    by (auto split: option.splits)
  have IH: "run astep (abs s1) (seen step label s1 as) = Some (abs s')"
    by (rule Cons.IH [OF s1(2) inv_step [OF Cons.prems(2) s1(1)]])
  show ?case
  proof (cases "label s a")
    case None
    with IH s1(1) silent [OF Cons.prems(2) s1(1)] show ?thesis by simp
  next
    case (Some b)
    with IH s1(1) visible [OF Cons.prems(2) s1(1) Some] show ?thesis by simp
  qed
qed

end

section \<open>A bounded queue\<close>

text \<open>The specification of the queues between threads: first in first out, at most \<open>cap\<close> items.\<close>

datatype queue_op = Enq u64 | Deq u64

fun queue_next :: "u64 \<Rightarrow> u64 list \<Rightarrow> queue_op \<Rightarrow> u64 list option" where
  "queue_next cap q (Enq x) = (if List.length q < unat cap then Some (q @ [x]) else None)"
| "queue_next cap [] (Deq x) = None"
| "queue_next cap (y # q) (Deq x) = (if x = y then Some q else None)"

end
