(* ===== verification/Spsc.thy ===== *)
theory Spsc
  imports Streams Refinement
begin

text \<open>
  The lock-free ring of one producer and one consumer, \<open>main.cpp\<close> of
  \<open>examples/26-atomics-and-lock-free\<close>: the two threads as a step function of the shared ring, one
  atomic access or one access to a slot per step, over the interleavings of sequential consistency
  (the release store of an index and the acquire load that sees it order the accesses to the
  slots between them, and nothing else is shared). Indices and items are 64-bit words.
\<close>

section \<open>The two threads\<close>

datatype p_pc = P_wait | P_store | P_publish | P_done
datatype c_pc = C_wait | C_load | C_publish | C_done
datatype side = Producer | Consumer

record spsc =
  ring :: "u64 list"
  head :: u64
  tail :: u64
  ppc :: p_pc
  p_t :: u64
  p_i :: u64
  cpc :: c_pc
  c_h :: u64
  c_i :: u64
  c_sum :: u64

definition spsc_start :: "u64 \<Rightarrow> u64 \<Rightarrow> spsc" where
  "spsc_start cap items = \<lparr>ring = replicate (unat cap) 0, head = 0, tail = 0,
     ppc = (if 0 < items then P_wait else P_done), p_t = 0, p_i = 0,
     cpc = (if 0 < items then C_wait else C_done), c_h = 0, c_i = 0, c_sum = 0\<rparr>"

definition slot :: "u64 \<Rightarrow> u64 \<Rightarrow> nat" where
  "slot cap i = unat (i mod cap)"

text \<open>
  The producer: wait for a free slot, store the item, publish the new tail. The consumer: wait for
  an item, load and add it, publish the new head. Waiting in vain is a step to the same state; a
  thread that is done has none.
\<close>

fun spsc_next :: "u64 \<Rightarrow> u64 \<Rightarrow> spsc \<Rightarrow> side \<Rightarrow> spsc option" where
  "spsc_next cap items s Producer = (case ppc s of
     P_wait \<Rightarrow> if p_t s - head s = cap then Some s else Some (s\<lparr>ppc := P_store\<rparr>)
   | P_store \<Rightarrow> Some (s\<lparr>ring := (ring s)[slot cap (p_t s) := p_i s], p_t := p_t s + 1, ppc := P_publish\<rparr>)
   | P_publish \<Rightarrow> Some (s\<lparr>tail := p_t s, p_i := p_i s + 1, ppc := (if p_i s + 1 < items then P_wait else P_done)\<rparr>)
   | P_done \<Rightarrow> None)"
| "spsc_next cap items s Consumer = (case cpc s of
     C_wait \<Rightarrow> if c_h s = tail s then Some s else Some (s\<lparr>cpc := C_load\<rparr>)
   | C_load \<Rightarrow> Some (s\<lparr>c_sum := c_sum s + ring s ! slot cap (c_h s), c_h := c_h s + 1, cpc := C_publish\<rparr>)
   | C_publish \<Rightarrow> Some (s\<lparr>head := c_h s, c_i := c_i s + 1, cpc := (if c_i s + 1 < items then C_wait else C_done)\<rparr>)
   | C_done \<Rightarrow> None)"

definition spsc_finished :: "spsc \<Rightarrow> bool" where
  "spsc_finished s \<longleftrightarrow> ppc s = P_done \<and> cpc s = C_done"

text \<open>
  The queue a ring stands for: the slots from the consumer's position to the tail. The producer
  enqueues its item when it publishes the tail; the consumer dequeues when it loads a slot, and the
  value it took out is what that step adds to its sum.
\<close>

definition ring_queue :: "u64 \<Rightarrow> spsc \<Rightarrow> u64 list" where
  "ring_queue cap s = List.map (\<lambda>k. ring s ! (k mod unat cap)) [unat (c_h s)..<unat (tail s)]"

definition added :: "u64 \<Rightarrow> u64 \<Rightarrow> spsc \<Rightarrow> u64" where
  "added cap items s = (case spsc_next cap items s Consumer of None \<Rightarrow> 0 | Some s' \<Rightarrow> c_sum s' - c_sum s)"

fun queue_label :: "u64 \<Rightarrow> u64 \<Rightarrow> spsc \<Rightarrow> side \<Rightarrow> queue_op option" where
  "queue_label cap items s Producer = (if ppc s = P_publish then Some (Enq (p_i s)) else None)"
| "queue_label cap items s Consumer = (if cpc s = C_load then Some (Deq (added cap items s)) else None)"

section \<open>The invariant\<close>

text \<open>
  The indices count the items: what each thread has in hand depends on where it is. The items
  between the head and the tail are the numbers themselves, and the sum is theirs so far.
\<close>

definition p_hand :: "p_pc \<Rightarrow> nat" where "p_hand p = (if p = P_publish then 1 else 0)"
definition c_hand :: "c_pc \<Rightarrow> nat" where "c_hand c = (if c = C_publish then 1 else 0)"

text \<open>The indices: capacity, items, head, tail, then the locals of the producer and of the consumer.\<close>

definition counted :: "nat \<Rightarrow> nat \<Rightarrow> p_pc \<Rightarrow> c_pc \<Rightarrow> nat \<Rightarrow> nat \<Rightarrow> nat \<Rightarrow> nat \<Rightarrow> nat \<Rightarrow> nat \<Rightarrow> bool" where
  "counted cap items p c h t pt pn ch ci \<longleftrightarrow>
     pt = t + p_hand p \<and> pn = t \<and> ch = h + c_hand c \<and> ci = h \<and> ch \<le> t \<and> t \<le> h + cap \<and> t \<le> items \<and>
     (p = P_done \<longleftrightarrow> t = items) \<and> (c = C_done \<longleftrightarrow> h = items) \<and>
     (p = P_store \<or> p = P_publish \<longrightarrow> t < h + cap) \<and> (c = C_load \<longrightarrow> h < t)"

abbreviation spsc_counted :: "u64 \<Rightarrow> u64 \<Rightarrow> spsc \<Rightarrow> bool" where
  "spsc_counted cap items s \<equiv> counted (unat cap) (unat items) (ppc s) (cpc s) (unat (head s)) (unat (tail s))
     (unat (p_t s)) (unat (p_i s)) (unat (c_h s)) (unat (c_i s))"

definition spsc_inv :: "u64 \<Rightarrow> u64 \<Rightarrow> spsc \<Rightarrow> bool" where
  "spsc_inv cap items s \<longleftrightarrow> 0 < unat cap \<and> List.length (ring s) = unat cap \<and> spsc_counted cap items s \<and>
     (\<forall>k. unat (head s) \<le> k \<and> k < unat (p_t s) \<longrightarrow> ring s ! (k mod unat cap) = word_of_nat k) \<and>
     c_sum s = word_of_nat (\<Sum>k < unat (c_h s). k)"

lemmas counted_simps = counted_def p_hand_def c_hand_def

text \<open>The steps on the indices alone.\<close>

lemma counted_wait: "counted cap items P_wait c h t pt pn ch ci \<Longrightarrow> t \<noteq> h + cap \<Longrightarrow> counted cap items P_store c h t pt pn ch ci"
  by (auto simp: counted_simps)

lemma counted_store: "counted cap items P_store c h t pt pn ch ci \<Longrightarrow> counted cap items P_publish c h t (pt + 1) pn ch ci"
  by (auto simp: counted_simps)

lemma counted_tail:
  "counted cap items P_publish c h t pt pn ch ci \<Longrightarrow>
    counted cap items (if pn + 1 < items then P_wait else P_done) c h pt pt (pn + 1) ch ci"
  by (auto simp: counted_simps)

lemma counted_c_wait: "counted cap items p C_wait h t pt pn ch ci \<Longrightarrow> ch \<noteq> t \<Longrightarrow> counted cap items p C_load h t pt pn ch ci"
  by (auto simp: counted_simps)

lemma counted_load: "counted cap items p C_load h t pt pn ch ci \<Longrightarrow> counted cap items p C_publish h t pt pn (ch + 1) ci"
  by (auto simp: counted_simps)

lemma counted_head:
  "counted cap items p C_publish h t pt pn ch ci \<Longrightarrow>
    counted cap items p (if ci + 1 < items then C_wait else C_done) ch t pt pn ch (ci + 1)"
  by (auto simp: counted_simps)

lemma countedD:
  assumes "counted cap items p c h t pt pn ch ci"
  shows "h \<le> t" "t \<le> items" "t \<le> pt" "pn = t" "ci = h" "pt = t + p_hand p" "ch = h + c_hand c" "t \<le> h + cap"
    "p = P_done \<longleftrightarrow> t = items" "c = C_done \<longleftrightarrow> h = items" "p = P_store \<or> p = P_publish \<Longrightarrow> t < h + cap \<and> t < items"
    "c = C_load \<Longrightarrow> h < t" "c = C_publish \<Longrightarrow> h < t"
  using assms by (auto simp: counted_simps split: if_splits)

lemma unat_succ:
  assumes "unat (a :: u64) < unat (b :: u64)"
  shows "unat (a + 1) = unat a + 1"
proof -
  have "unat b < 2 ^ LENGTH(64)" by (rule unsigned_less)
  with assms have "unat a + 1 < 2 ^ LENGTH(64)" by linarith
  then show ?thesis by (simp only: unat_word_ariths unsigned_1 mod_less)
qed

lemma slot_mod: "slot cap i = unat i mod unat cap"
  by (simp add: slot_def unat_mod)

lemma mod_distinct:
  assumes "h \<le> k" and "k < t" and "t < h + (c :: nat)"
  shows "k mod c \<noteq> t mod c"
proof
  assume "k mod c = t mod c"
  then obtain d where "t - k = c * d" by (metis assms(2) less_imp_le mod_eq_dvd_iff_nat dvd_def)
  with assms show False by (cases d) auto
qed

lemma unat_full:
  assumes "unat h \<le> unat (t :: u64)"
  shows "t - h = cap \<longleftrightarrow> unat t = unat h + unat cap"
proof -
  have "unat (t - h) = unat t - unat h" using assms by (simp add: unat_sub word_le_nat_alt)
  with assms show ?thesis by (auto simp: word_unat_eq_iff)
qed

lemma sum_word_step: "word_of_nat (\<Sum>k < n. k) + word_of_nat n = (word_of_nat (\<Sum>k < Suc n. k) :: u64)"
  by simp

lemma spsc_inv_start:
  assumes "0 < cap"
  shows "spsc_inv cap items (spsc_start cap items)"
proof -
  have "0 < unat cap" using assms by (simp add: unat_gt_0)
  moreover have "0 < items \<longleftrightarrow> 0 < unat items" by (simp add: unat_gt_0 word_neq_0_conv)
  ultimately show ?thesis by (auto simp: spsc_inv_def spsc_start_def counted_simps)
qed

lemma spsc_inv_producer:
  assumes "spsc_inv cap items s" and "spsc_next cap items s Producer = Some s'"
  shows "spsc_inv cap items s'"
proof -
  from assms(1) have c: "spsc_counted cap items s" and r: "0 < unat cap" "List.length (ring s) = unat cap"
    and content: "\<And>k. unat (head s) \<le> k \<Longrightarrow> k < unat (p_t s) \<Longrightarrow> ring s ! (k mod unat cap) = word_of_nat k"
    by (simp_all add: spsc_inv_def)
  note d = countedD [OF c]
  show ?thesis
  proof (cases "ppc s")
    case P_wait
    with d(6) have t: "p_t s = tail s" by (simp add: p_hand_def word_unat_eq_iff)
    show ?thesis
    proof (cases "p_t s - head s = cap")
      case True
      with assms P_wait show ?thesis by simp
    next
      case False
      with t d(1) have "unat (tail s) \<noteq> unat (head s) + unat cap" by (simp add: unat_full)
      with counted_wait [OF c [unfolded P_wait]] assms P_wait False show ?thesis by (auto simp: spsc_inv_def)
    qed
  next
    case P_store
    with d have i: "unat (p_t s) = unat (tail s)" "unat (tail s) < unat (head s) + unat cap" "unat (tail s) < unat items"
      by (simp_all add: p_hand_def)
    have t1: "unat (p_t s + 1) = unat (p_t s) + 1" using i unat_succ [of "p_t s" items] by simp
    from assms(2) P_store have s': "s' = s\<lparr>ring := (ring s)[slot cap (p_t s) := p_i s], p_t := p_t s + 1, ppc := P_publish\<rparr>" by simp
    have "ring s' ! (k mod unat cap) = word_of_nat k" if k: "unat (head s) \<le> k" "k < unat (p_t s) + 1" for k
    proof (cases "k = unat (p_t s)")
      case True
      with i d(4) have "p_i s = word_of_nat k" by (simp add: word_unat_eq_iff)
      with True r show ?thesis by (simp add: s' slot_mod)
    next
      case False
      with k i have "k mod unat cap \<noteq> unat (p_t s) mod unat cap" by (intro mod_distinct) simp_all
      with False k content show ?thesis by (simp add: s' slot_mod)
    qed
    with counted_store [OF c [unfolded P_store]] r t1 assms(1) show ?thesis by (simp add: spsc_inv_def s')
  next
    case P_publish
    with d have i1: "unat (p_i s + 1) = unat (p_i s) + 1" using unat_succ [of "p_i s" items] by simp
    have "p_i s + 1 < items \<longleftrightarrow> unat (p_i s) + 1 < unat items" by (simp add: word_less_nat_alt i1)
    with counted_tail [OF c [unfolded P_publish]] assms P_publish i1 show ?thesis by (auto simp: spsc_inv_def)
  next
    case P_done
    with assms(2) show ?thesis by simp
  qed
qed

lemma spsc_inv_consumer:
  assumes "spsc_inv cap items s" and "spsc_next cap items s Consumer = Some s'"
  shows "spsc_inv cap items s'"
proof -
  from assms(1) have c: "spsc_counted cap items s"
    and content: "\<And>k. unat (head s) \<le> k \<Longrightarrow> k < unat (p_t s) \<Longrightarrow> ring s ! (k mod unat cap) = word_of_nat k"
    and sum: "c_sum s = word_of_nat (\<Sum>k < unat (c_h s). k)"
    by (simp_all add: spsc_inv_def)
  note d = countedD [OF c]
  show ?thesis
  proof (cases "cpc s")
    case C_wait
    show ?thesis
    proof (cases "c_h s = tail s")
      case True
      with assms C_wait show ?thesis by simp
    next
      case False
      then have "unat (c_h s) \<noteq> unat (tail s)" by (simp add: word_unat_eq_iff)
      with counted_c_wait [OF c [unfolded C_wait]] assms C_wait False show ?thesis by (auto simp: spsc_inv_def)
    qed
  next
    case C_load
    with d have i: "unat (c_h s) = unat (head s)" "unat (head s) < unat (tail s)" by (simp_all add: c_hand_def)
    have h1: "unat (c_h s + 1) = unat (c_h s) + 1" using i unat_succ [of "c_h s" "tail s"] by simp
    have v: "ring s ! slot cap (c_h s) = word_of_nat (unat (c_h s))"
      using content [of "unat (c_h s)"] i d(3) by (simp add: slot_mod)
    from assms(2) C_load have s': "s' = s\<lparr>c_sum := c_sum s + ring s ! slot cap (c_h s), c_h := c_h s + 1, cpc := C_publish\<rparr>" by simp
    have "c_sum s' = word_of_nat (\<Sum>k < unat (c_h s) + 1. k)" unfolding s' v sum by simp
    with counted_load [OF c [unfolded C_load]] assms(1) h1 show ?thesis by (simp add: spsc_inv_def s')
  next
    case C_publish
    with d have i1: "unat (c_i s + 1) = unat (c_i s) + 1" using unat_succ [of "c_i s" items] by simp
    have ch: "unat (head s) \<le> unat (c_h s)" using d(7) by simp
    have "c_i s + 1 < items \<longleftrightarrow> unat (c_i s) + 1 < unat items" by (simp add: word_less_nat_alt i1)
    with counted_head [OF c [unfolded C_publish]] assms C_publish i1 ch show ?thesis by (auto simp: spsc_inv_def)
  next
    case C_done
    with assms(2) show ?thesis by simp
  qed
qed

lemma spsc_inv_step: "spsc_inv cap items s \<Longrightarrow> spsc_next cap items s a = Some s' \<Longrightarrow> spsc_inv cap items s'"
  by (cases a) (auto intro: spsc_inv_producer spsc_inv_consumer)

section \<open>The ring is a bounded queue\<close>

lemma ring_queue_cong:
  "c_h s' = c_h s \<Longrightarrow> tail s' = tail s \<Longrightarrow>
    (\<And>k. unat (c_h s) \<le> k \<Longrightarrow> k < unat (tail s) \<Longrightarrow> ring s' ! (k mod unat cap) = ring s ! (k mod unat cap)) \<Longrightarrow>
    ring_queue cap s' = ring_queue cap s"
  by (simp add: ring_queue_def)

lemma ring_queue_silent:
  assumes "spsc_inv cap items s" and "spsc_next cap items s a = Some s'" and "queue_label cap items s a = None"
  shows "ring_queue cap s' = ring_queue cap s"
proof (cases a)
  case Producer
  show ?thesis
  proof (cases "ppc s = P_store")
    case True
    with Producer assms(2) have s': "s' = s\<lparr>ring := (ring s)[slot cap (p_t s) := p_i s], p_t := p_t s + 1, ppc := P_publish\<rparr>" by simp
    from assms(1) have c: "spsc_counted cap items s" by (simp add: spsc_inv_def)
    note d = countedD [OF c]
    show ?thesis
    proof (rule ring_queue_cong)
      fix k assume k: "unat (c_h s) \<le> k" "k < unat (tail s)"
      with d(7) have "unat (head s) \<le> k" by simp
      with k True d have "k mod unat cap \<noteq> unat (p_t s) mod unat cap"
        by (intro mod_distinct) (simp_all add: p_hand_def)
      then show "ring s' ! (k mod unat cap) = ring s ! (k mod unat cap)" by (simp add: s' slot_mod)
    qed (simp_all add: s')
  next
    case False
    with Producer assms(2,3) have "ring s' = ring s \<and> c_h s' = c_h s \<and> tail s' = tail s"
      by (cases "ppc s") (auto split: if_splits)
    then show ?thesis by (simp add: ring_queue_def)
  qed
next
  case Consumer
  with assms(2,3) have "ring s' = ring s \<and> c_h s' = c_h s \<and> tail s' = tail s"
    by (cases "cpc s") (auto split: if_splits)
  then show ?thesis by (simp add: ring_queue_def)
qed

lemma ring_queue_visible:
  assumes "spsc_inv cap items s" and "spsc_next cap items s a = Some s'" and "queue_label cap items s a = Some b"
  shows "queue_next cap (ring_queue cap s) b = Some (ring_queue cap s')"
proof -
  from assms(1) have c: "spsc_counted cap items s"
    and content: "\<And>k. unat (head s) \<le> k \<Longrightarrow> k < unat (p_t s) \<Longrightarrow> ring s ! (k mod unat cap) = word_of_nat k"
    by (simp_all add: spsc_inv_def)
  note d = countedD [OF c]
  show ?thesis
  proof (cases a)
    case Producer
    with assms(3) have pc: "ppc s = P_publish" and b: "b = Enq (p_i s)" by (auto split: if_splits)
    with assms(2) Producer have s': "ring s' = ring s" "c_h s' = c_h s" "tail s' = p_t s" by auto
    have t: "unat (p_t s) = Suc (unat (tail s))" "unat (tail s) < unat (head s) + unat cap"
      using d pc by (simp_all add: p_hand_def)
    have ch: "unat (head s) \<le> unat (c_h s)" "unat (c_h s) \<le> unat (tail s)"
      using d(1,7,13) by (cases "cpc s"; simp add: c_hand_def)+
    have "ring s ! (unat (tail s) mod unat cap) = p_i s"
      using content [of "unat (tail s)"] d(1,4) t by (simp add: word_unat_eq_iff)
    then have "ring_queue cap s' = ring_queue cap s @ [p_i s]" using ch by (simp add: ring_queue_def s' t)
    with t ch show ?thesis by (simp add: b ring_queue_def)
  next
    case Consumer
    with assms(3) have pc: "cpc s = C_load" and b: "b = Deq (added cap items s)" by (auto split: if_splits)
    with assms(2) Consumer have s': "ring s' = ring s" "c_h s' = c_h s + 1" "tail s' = tail s" by auto
    have v: "added cap items s = ring s ! slot cap (c_h s)" by (simp add: added_def pc)
    have lt: "unat (c_h s) < unat (tail s)" using d pc by (simp add: c_hand_def)
    then have "ring_queue cap s = (ring s ! slot cap (c_h s)) # ring_queue cap s'"
      by (simp add: ring_queue_def s' slot_mod upt_conv_Cons unat_succ)
    then show ?thesis by (simp add: b v)
  qed
qed

interpretation spsc: refinement "spsc_next cap items" "spsc_inv cap items" "ring_queue cap" "queue_label cap items" "queue_next cap"
  for cap items
  by unfold_locales (auto intro: spsc_inv_step ring_queue_silent ring_queue_visible)

section \<open>Progress\<close>

fun p_stage :: "p_pc \<Rightarrow> nat" where
  "p_stage P_wait = 0" | "p_stage P_store = 1" | "p_stage P_publish = 2" | "p_stage P_done = 0"

fun c_stage :: "c_pc \<Rightarrow> nat" where
  "c_stage C_wait = 0" | "c_stage C_load = 1" | "c_stage C_publish = 2" | "c_stage C_done = 0"

text \<open>The steps still to be made that are not waiting.\<close>

definition spsc_work :: "u64 \<Rightarrow> spsc \<Rightarrow> nat" where
  "spsc_work items s = (3 * (unat items - unat (tail s)) - p_stage (ppc s)) + (3 * (unat items - unat (head s)) - c_stage (cpc s))"

lemma spsc_work_step:
  assumes "spsc_inv cap items s" and "spsc_next cap items s a = Some s'" and "s' \<noteq> s"
  shows "spsc_work items s' < spsc_work items s"
proof -
  from assms(1) have c: "spsc_counted cap items s" by (simp add: spsc_inv_def)
  note d = countedD [OF c]
  show ?thesis
  proof (cases a)
    case Producer
    with assms(2,3) have pc: "ppc s \<noteq> P_done" by auto
    with d have lt: "unat (tail s) < unat items" by simp
    from Producer assms(2,3) pc consider (a) "ppc s = P_wait" "ppc s' = P_store" "tail s' = tail s" "head s' = head s" "cpc s' = cpc s"
      | (b) "ppc s = P_store" "ppc s' = P_publish" "tail s' = tail s" "head s' = head s" "cpc s' = cpc s"
      | (c) "ppc s = P_publish" "ppc s' = P_wait \<or> ppc s' = P_done" "tail s' = p_t s" "head s' = head s" "cpc s' = cpc s"
      by (cases "ppc s") (auto split: if_splits)
    then show ?thesis using lt d(6) by cases (auto simp: spsc_work_def p_hand_def)
  next
    case Consumer
    with assms(2,3) have pc: "cpc s \<noteq> C_done" by auto
    with d have lt: "unat (head s) < unat items" by (simp add: le_neq_implies_less)
    from Consumer assms(2,3) pc consider (a) "cpc s = C_wait" "cpc s' = C_load" "tail s' = tail s" "head s' = head s" "ppc s' = ppc s"
      | (b) "cpc s = C_load" "cpc s' = C_publish" "tail s' = tail s" "head s' = head s" "ppc s' = ppc s"
      | (c) "cpc s = C_publish" "cpc s' = C_wait \<or> cpc s' = C_done" "head s' = c_h s" "tail s' = tail s" "ppc s' = ppc s"
      by (cases "cpc s") (auto split: if_splits)
    then show ?thesis using lt d(7) by cases (auto simp: spsc_work_def c_hand_def)
  qed
qed

text \<open>A ring that is full is not empty: one of the two can always go on.\<close>

lemma spsc_can_go_on:
  assumes "spsc_inv cap items s" and "\<not> spsc_finished s"
  shows "\<exists>a s'. spsc_next cap items s a = Some s' \<and> s' \<noteq> s"
proof -
  from assms(1) have c: "spsc_counted cap items s" and cap: "0 < unat cap" by (simp_all add: spsc_inv_def)
  note d = countedD [OF c]
  show ?thesis
  proof (cases "\<exists>s'. spsc_next cap items s Consumer = Some s' \<and> s' \<noteq> s")
    case True
    then show ?thesis by blast
  next
    case False
    then consider (ended) "cpc s = C_done" | (empty) "cpc s = C_wait" "c_h s = tail s"
      by (cases "cpc s") (auto dest: arg_cong [of _ _ cpc] split: if_splits)
    then have np: "ppc s \<noteq> P_done \<and> unat (head s) = unat (tail s)"
    proof cases
      case ended
      with assms(2) d show ?thesis by (auto simp: spsc_finished_def)
    next
      case empty
      with d show ?thesis by (auto simp: c_hand_def)
    qed
    have "p_t s - head s \<noteq> cap" if "ppc s = P_wait"
      using that np d cap by (simp add: unat_full p_hand_def)
    with np have "\<exists>s'. spsc_next cap items s Producer = Some s' \<and> ppc s' \<noteq> ppc s" by (cases "ppc s") auto
    then show ?thesis by blast
  qed
qed

section \<open>The result and the command line\<close>

text \<open>
  \<open>static_cast<double>(items) / secs / 1e6\<close> with the seconds at least \<open>1e-9\<close>, as an exact rational.
\<close>

definition spsc_mops :: "u64 \<Rightarrow> int \<Rightarrow> rat" where
  "spsc_mops items ns = (let secs = of_int ns / 1000000000; secs = (if secs < 1 / 1000000000 then 1 / 1000000000 else secs)
     in of_nat (unat items) / secs / 1000000)"

record spsc_args =
  a_capacity :: u64
  a_items :: u64
  a_pad :: bool

definition spsc_parse_u64 :: "string \<Rightarrow> u64 option" where
  "spsc_parse_u64 s = map_option word_of_nat (from_chars_u64 s)"

text \<open>The state: the options so far, with \<open>have_cap\<close> and \<open>have_items\<close>.\<close>

fun spsc_parse_from :: "string list \<Rightarrow> spsc_args \<times> bool \<times> bool \<Rightarrow> (spsc_args \<times> bool \<times> bool) option" where
  "spsc_parse_from [] st = Some st"
| "spsc_parse_from [flag] st = None"
| "spsc_parse_from (flag # v # rest) (a, have_cap, have_items) =
     (if flag = ''--capacity'' then
        (case spsc_parse_u64 v of
          None \<Rightarrow> None
        | Some n \<Rightarrow> if n = 0 then None else spsc_parse_from rest (a\<lparr>a_capacity := n\<rparr>, True, have_items))
      else if flag = ''--items'' then
        (case spsc_parse_u64 v of
          None \<Rightarrow> None
        | Some n \<Rightarrow> spsc_parse_from rest (a\<lparr>a_items := n\<rparr>, have_cap, True))
      else if flag = ''--pad'' then
        (if v = ''on'' then spsc_parse_from rest (a\<lparr>a_pad := True\<rparr>, have_cap, have_items)
         else if v = ''off'' then spsc_parse_from rest (a\<lparr>a_pad := False\<rparr>, have_cap, have_items)
         else None)
      else None)"

definition spsc_parse_args :: "string list \<Rightarrow> spsc_args option" where
  "spsc_parse_args args = (case spsc_parse_from args (\<lparr>a_capacity = 0, a_items = 0, a_pad = False\<rparr>, False, False) of
     None \<Rightarrow> None
   | Some (a, have_cap, have_items) \<Rightarrow> if have_cap \<and> have_items then Some a else None)"

text \<open>The outcome of a run, for a schedule of the two threads and the time it took: what is printed.\<close>

definition spsc_main :: "string list \<Rightarrow> side list \<Rightarrow> int \<Rightarrow> (int \<times> msg) option" where
  "spsc_main args schedule ns = (case spsc_parse_args args of
     None \<Rightarrow> Some (2, [Txt ''usage: spscring --capacity K --items N [--pad on|off]''])
   | Some a \<Rightarrow> (case run (spsc_next (a_capacity a) (a_items a)) (spsc_start (a_capacity a) (a_items a)) schedule of
       None \<Rightarrow> None
     | Some s \<Rightarrow> if spsc_finished s then Some (0,
         [Txt (''spscring: items='' @ show_nat (unat (a_items a)) @ '' sum='' @ show_nat (unat (c_sum s)) @ '' throughput_mops=''),
          Fixed2 (spsc_mops (a_items a) ns), Txt ('' pad='' @ (if a_pad a then ''on'' else ''off''))]) else None))"

section \<open>Properties\<close>

text \<open>C16: The lock-free ring is a bounded queue: in every interleaving of the producer and the consumer, the
  items the producer published and the values the consumer really took out of the slots (what its sum
  grew by) are a run of a first-in first-out queue of at most \<open>cap\<close> items, and what is left in that
  queue is what the slots between the consumer's position and the tail hold.\<close>

theorem spsc_refines_queue:
  assumes "0 < cap" and "run (spsc_next cap items) (spsc_start cap items) as = Some s"
  shows "run (queue_next cap) [] (seen (spsc_next cap items) (queue_label cap items) (spsc_start cap items) as) = Some (ring_queue cap s)"
  using spsc.run_refines [OF assms(2) spsc_inv_start [OF assms(1)]] by (simp add: ring_queue_def spsc_start_def)

theorem spsc_refines_queue_witness:
  "run (queue_next 1) [] (seen (spsc_next 1 2) (queue_label 1 2) (spsc_start 1 2)
     [Producer, Consumer, Producer, Producer, Producer, Consumer, Consumer, Consumer, Producer]) = Some []"
proof -
  have "\<exists>s. run (spsc_next 1 2) (spsc_start 1 2) [Producer, Consumer, Producer, Producer, Producer, Consumer, Consumer, Consumer, Producer] = Some s
      \<and> ring_queue 1 s = []"
    by (simp add: spsc_start_def slot_def ring_queue_def)
  then obtain s where s: "run (spsc_next 1 2) (spsc_start 1 2) [Producer, Consumer, Producer, Producer, Producer, Consumer, Consumer, Consumer, Producer] = Some s"
    "ring_queue 1 s = []" by blast
  have "(0 :: u64) < 1" by simp
  from spsc_refines_queue [OF this s(1)] show ?thesis unfolding s(2) .
qed

text \<open>When both threads are done every item has gone through the ring once: the sum is that of the numbers
  below \<open>items\<close>, modulo \<open>2 ^ 64\<close>, whatever the interleaving and the capacity.\<close>

lemma spsc_sum:
  assumes "0 < cap" and "run (spsc_next cap items) (spsc_start cap items) as = Some s" and "spsc_finished s"
  shows "c_sum s = word_of_nat (\<Sum>k < unat items. k)"
proof -
  have i: "spsc_inv cap items s" by (rule spsc.run_inv [OF assms(2) spsc_inv_start [OF assms(1)]])
  then have "unat (c_h s) = unat items" using assms(3)
    by (auto simp: spsc_inv_def spsc_finished_def counted_simps)
  with i show ?thesis by (simp add: spsc_inv_def)
qed

text \<open>C17: The two threads never wait for each other for good. In every reachable state that is not finished
  one of them has a step that is not waiting; every step of either thread that changes the state,
  whichever it is, makes \<open>spsc_work\<close> smaller, and that is at most six per item: the threads advance at
  most \<open>6 * items\<close> times between them and are then both done.\<close>

theorem spsc_progress:
  assumes "0 < cap" and "run (spsc_next cap items) (spsc_start cap items) as = Some s"
  shows "(spsc_finished s \<or> (\<exists>a s'. spsc_next cap items s a = Some s' \<and> s' \<noteq> s)) \<and>
    (\<forall>a s'. spsc_next cap items s a = Some s' \<and> s' \<noteq> s \<longrightarrow> spsc_work items s' < spsc_work items s) \<and>
    spsc_work items s \<le> 6 * unat items"
proof -
  have i: "spsc_inv cap items s" by (rule spsc.run_inv [OF assms(2) spsc_inv_start [OF assms(1)]])
  have "spsc_work items s \<le> 6 * unat items" by (simp add: spsc_work_def)
  with spsc_can_go_on [OF i] spsc_work_step [OF i] show ?thesis by blast
qed

theorem spsc_progress_witness:
  "\<exists>a s'. spsc_next 1 2 (spsc_start 1 2) a = Some s' \<and> spsc_work 2 s' < spsc_work 2 (spsc_start 1 2)"
proof -
  have "\<not> spsc_finished (spsc_start 1 2)" by (simp add: spsc_finished_def spsc_start_def)
  with spsc_progress [of 1 2 "[]" "spsc_start 1 2"] show ?thesis by (auto 0 3)
qed

end
