(* ===== verification/Shmkv.thy ===== *)
theory Shmkv
  imports Chatterd
begin

text \<open>
  The key-value file in shared memory, \<open>main.cpp\<close> of \<open>examples/20-shm-mqueues-futexes\<close>: a server
  publishes updates into a ring of eight slots under a sequence lock and wakes the watchers through
  a futex. First the slots as functions of their bytes, then the commands as runs; words of the
  mapping another process writes are answers of the kernel. \<open>ShmkvProps\<close> has the interleavings.
\<close>

section \<open>The layout and the slots\<close>

definition shm_magic :: "byte list" where
  "shm_magic = [83, 72, 75, 86, 50, 0, 0, 0]"

abbreviation kFileSize :: nat where "kFileSize \<equiv> 4096"
abbreviation kOffSlots :: nat where "kOffSlots \<equiv> 64"
abbreviation kSlotCount :: nat where "kSlotCount \<equiv> 8"
abbreviation kKeySize :: nat where "kKeySize \<equiv> 24"
abbreviation kValSize :: nat where "kValSize \<equiv> 40"
abbreviation kSlotSize :: nat where "kSlotSize \<equiv> 64"
abbreviation kSlotsBytes :: nat where "kSlotsBytes \<equiv> 512"

definition slot_offset :: "nat \<Rightarrow> nat" where
  "slot_offset i = ((i - 1) mod kSlotCount) * kSlotSize"

definition cstr :: "byte list \<Rightarrow> string" where
  "cstr p = chars_of (takeWhile (\<lambda>b. b \<noteq> 0) p)"

text \<open>\<open>std::memcpy\<close> of \<open>src\<close> at \<open>off\<close>; \<open>std::memset(slot, 0, ...)\<close> copies zeros.\<close>

definition mem_copy :: "nat \<Rightarrow> byte list \<Rightarrow> byte list \<Rightarrow> byte list" where
  "mem_copy off src m = take off m @ src @ drop (off + List.length src) m"

definition key_bytes :: "string \<Rightarrow> byte list" where
  "key_bytes key = take (min (List.length key) (kKeySize - 1)) (bytes_of key)"

definition val_bytes :: "string \<Rightarrow> byte list" where
  "val_bytes val = take (min (List.length val) (kValSize - 1)) (bytes_of val)"

definition write_slot :: "nat \<Rightarrow> string \<Rightarrow> string \<Rightarrow> byte list \<Rightarrow> byte list" where
  "write_slot i key val slots =
     (let off = slot_offset i;
          slots = mem_copy off (replicate kSlotSize 0) slots;
          slots = mem_copy off (key_bytes key) slots
      in mem_copy (off + kKeySize) (val_bytes val) slots)"

definition read_slot :: "byte list \<Rightarrow> nat \<Rightarrow> string \<times> string" where
  "read_slot slots i =
     (let slot = drop (slot_offset i) slots
      in (cstr (take kKeySize slot), cstr (take kValSize (drop kKeySize slot))))"

definition key_of :: "nat \<Rightarrow> string" where "key_of k = ''k'' @ show_nat k"
definition val_of :: "nat \<Rightarrow> string" where "val_of k = ''value-'' @ show_nat k"

section \<open>Opening the file\<close>

definition shm_close :: "int \<Rightarrow> world \<Rightarrow> world" where
  "shm_close fd w = fd_reset fd (emit (Mem (Mem_munmap kFileSize)) w)"

text \<open>\<open>Fs_fstat\<close> answers with the size; the result is the descriptor of the mapped file.\<close>

definition open_shm :: "string \<Rightarrow> bool \<Rightarrow> world \<Rightarrow> ((msg + int) \<times> world) option" where
  "open_shm path create w = do {
     (f, w) \<leftarrow> sys (Fs (Fs_open_rdwr path create)) w;
     let fd = rv f;
     if fd < 0 then Some (Inl [Txt (''open '' @ path @ '': ''), StrError (eno f)], w)
     else io_try (if create then do {
         (t, w) \<leftarrow> sys (Fs (Fs_ftruncate fd kFileSize)) w;
         if rv t \<noteq> 0 then Some (Inl [Txt (''ftruncate '' @ path @ '': ''), StrError (eno t)], fd_reset fd w)
         else Some (Inr (), w) }
       else do {
         (st, w) \<leftarrow> sys (Fs (Fs_fstat fd)) w;
         if rv st < 0 then Some (Inl [Txt (''fstat '' @ path @ '': ''), StrError (eno st)], fd_reset fd w)
         else if rv st < int kFileSize then Some (Inl [Txt (path @ '': bad magic (want SHKV2)'')], fd_reset fd w)
         else Some (Inr (), w) }) (\<lambda>_ w. do {
       (p, w) \<leftarrow> sys (Mem (Mem_mmap fd kFileSize)) w;
       if rv p < 0 then Some (Inl [Txt (''mmap '' @ path @ '': ''), StrError (eno p)], fd_reset fd w)
       else if create then
         Some (Inr fd, emit (Mem (Mem_write 0 shm_magic)) (emit (Mem (Mem_write 0 (replicate kFileSize 0))) w))
       else do {
         (m, w) \<leftarrow> sys (Mem (Mem_read 0 8)) w;
         if take 8 (dat m) \<noteq> shm_magic then Some (Inl [Txt (path @ '': bad magic (want SHKV2)'')], shm_close fd w)
         else Some (Inr fd, w) } }) }"

section \<open>The sequence lock\<close>

definition seqlock_write :: "call list \<Rightarrow> world \<Rightarrow> world" where
  "seqlock_write mutate w = emit (Store ''seq +'' 1) (fold emit mutate (emit (Store ''seq +'' 1) w))"

text \<open>The calls of \<open>write_slot\<close> on the mapping.\<close>

definition slot_calls :: "nat \<Rightarrow> string \<Rightarrow> string \<Rightarrow> call list" where
  "slot_calls i key val = (let off = kOffSlots + slot_offset i in
     [Mem (Mem_write off (replicate kSlotSize 0)), Mem (Mem_write off (key_bytes key)),
      Mem (Mem_write (off + kKeySize) (val_bytes val))])"

record snapshot =
  sn_counter :: nat
  sn_slots :: "byte list"

definition seqlock_read_turn :: "nat \<Rightarrow> world \<Rightarrow> ((nat, msg + snapshot) ctl \<times> world) option" where
  "seqlock_read_turn attempt w =
     (if attempt < 1000000 then do {
        (s1, w) \<leftarrow> sys (Load_flag ''seq'') w;
        if rv s1 mod 2 = 1 then Some (Continue (attempt + 1), emit (Proc Proc_yield) w)
        else do {
          (c, w) \<leftarrow> sys (Load_flag ''counter'') w;
          (m, w) \<leftarrow> sys (Mem (Mem_read kOffSlots kSlotsBytes)) w;
          (s2, w) \<leftarrow> sys (Load_flag ''seq'') w;
          if rv s2 = rv s1 then Some (Break (Inr \<lparr>sn_counter = nat (rv c), sn_slots = take kSlotsBytes (dat m)\<rparr>), w)
          else Some (Continue (attempt + 1), w) } }
      else Some (Break (Inl [Txt ''seqlock read livelocked'']), w))"

definition seqlock_read :: "world \<Rightarrow> ((msg + snapshot) \<times> world) option" where
  "seqlock_read = loop seqlock_read_turn 0"

section \<open>serve\<close>

definition publish :: "nat \<Rightarrow> world \<Rightarrow> world" where
  "publish k w =
     (let w = seqlock_write (slot_calls k (key_of k) (val_of k) @ [Store ''counter'' (int k)]) w;
          w = emit (Store ''futex'' (int k mod 2 ^ 32)) w;
          w = emit (Mem Mem_futex_wake) w
      in println Stdout [Txt (''published update '' @ show_nat k @ '': '' @ key_of k @ ''='' @ val_of k)] w)"

definition cmd_serve :: "string \<Rightarrow> nat \<Rightarrow> nat \<Rightarrow> world \<Rightarrow> (int \<times> world) option" where
  "cmd_serve path updates interval_ms w = do {
     (s, w) \<leftarrow> open_shm path True w;
     (case s of
       Inl e \<Rightarrow> Some (1, println Stderr (Txt ''shmkv: '' # e) w)
     | Inr fd \<Rightarrow>
         let w = println Stdout [Txt (''serve: file='' @ path @ '' updates='' @ show_nat updates @ '' interval_ms='' @ show_nat interval_ms)] w;
             w = fold (\<lambda>k w. publish k (emit (Sleep_ms (int interval_ms)) w)) [1..<updates + 1] w;
             w = println Stdout [Txt (''serve: complete updates='' @ show_nat updates)] w
         in Some (0, shm_close fd w)) }"

section \<open>watch\<close>

text \<open>The updates a snapshot brings: the lines of \<open>for (id = last + 1; id <= counter && printed < events; ...)\<close>.\<close>

definition missed :: "nat \<Rightarrow> snapshot \<Rightarrow> nat \<Rightarrow> nat \<Rightarrow> nat list" where
  "missed events snap prev printed = take (events - printed) [prev + 1..<sn_counter snap + 1]"

definition observed :: "snapshot \<Rightarrow> nat \<Rightarrow> string" where
  "observed snap i = (case read_slot (sn_slots snap) i of (key, val) \<Rightarrow>
     ''observed update '' @ show_nat i @ '': '' @ key @ ''='' @ val)"

definition watch_turn :: "nat \<Rightarrow> int \<Rightarrow> nat \<times> nat \<Rightarrow> world \<Rightarrow> ((nat \<times> nat, int) ctl \<times> world) option" where
  "watch_turn events deadline = (\<lambda>(prev, printed) w.
     if printed < events then do {
       (c, w) \<leftarrow> sys Clock_ns w;
       if rv c > deadline then Some (Break 1, println Stderr [Txt ''shmkv: watch: timed out waiting for updates''] w)
       else do {
         (s, w) \<leftarrow> seqlock_read w;
         (case s of
           Inl e \<Rightarrow> Some (Break 1, println Stderr (Txt ''shmkv: '' # e) w)
         | Inr snap \<Rightarrow>
             if prev < sn_counter snap then
               let ids = missed events snap prev printed
               in Some (Continue (sn_counter snap, printed + List.length ids),
                    fold (\<lambda>i. println Stdout [Txt (observed snap i)]) ids w)
             else do {
               (f, w) \<leftarrow> sys (Load_flag ''futex'') w;
               if rv f \<noteq> int prev mod 2 ^ 32 then Some (Continue (prev, printed), w)
               else do {
                 (_, w) \<leftarrow> sys (Mem (Mem_futex_wait (rv f) 2000)) w;
                 Some (Continue (prev, printed), w) } }) } }
     else Some (Break 0, println Stdout [Txt (''watch: complete events='' @ show_nat events)] w))"

definition cmd_watch :: "string \<Rightarrow> nat \<Rightarrow> world \<Rightarrow> (int \<times> world) option" where
  "cmd_watch path events w = do {
     (s, w) \<leftarrow> open_shm path False w;
     (case s of
       Inl e \<Rightarrow> Some (1, println Stderr (Txt ''shmkv: '' # e) w)
     | Inr fd \<Rightarrow> do {
         let w = println Stdout [Txt (''watch: file='' @ path @ '' events='' @ show_nat events)] w;
         (c, w) \<leftarrow> sys Clock_ns w;
         (rc, w) \<leftarrow> loop (watch_turn events (rv c + 30000000000)) (0, 0) w;
         Some (rc, shm_close fd w) }) }"

section \<open>bench\<close>

datatype channel = KFutex | KMq | KPoll

definition abs_deadline :: "int \<Rightarrow> world \<Rightarrow> (int \<times> world) option" where
  "abs_deadline ahead w = do { (t, w) \<leftarrow> sys Time w; Some (rv t + ahead, w) }"

text \<open>One round of the consumer's wait, on each channel; \<open>Inl 1\<close> is \<open>std::exit(1)\<close>.\<close>

definition bench_wait_turn :: "channel \<Rightarrow> int \<Rightarrow> nat \<Rightarrow> unit \<Rightarrow> world \<Rightarrow> ((unit, int + unit) ctl \<times> world) option" where
  "bench_wait_turn ch mq i _ w = (case ch of
     KFutex \<Rightarrow> do {
       (f, w) \<leftarrow> sys (Load_flag ''futex'') w;
       if rv f \<ge> int i mod 2 ^ 32 then Some (Break (Inr ()), w)
       else do { (_, w) \<leftarrow> sys (Mem (Mem_futex_wait (rv f) 200)) w; Some (Continue (), w) } }
   | KPoll \<Rightarrow> do {
       (c, w) \<leftarrow> sys (Load_flag ''counter'') (emit (Sleep_ms 1) w);
       if rv c \<ge> int i then Some (Break (Inr ()), w) else Some (Continue (), w) }
   | KMq \<Rightarrow> do {
       (ts, w) \<leftarrow> abs_deadline 10 w;
       (n, w) \<leftarrow> sys (Mem (Mem_mq_receive mq 8 ts)) w;
       if rv n = 8 then Some (Break (Inr ()), w)
       else if rv n < 0 \<and> eno n = EINTR then Some (Continue (), w)
       else Some (Break (Inl 1), println Stderr [Txt ''shmkv: mq_timedreceive: '', StrError (eno n)] w) })"

text \<open>The consumer thread: \<open>recv_ns\<close> in order.\<close>

fun bench_consumer :: "channel \<Rightarrow> int \<Rightarrow> nat list \<Rightarrow> world \<Rightarrow> ((int + int list) \<times> world) option" where
  "bench_consumer ch mq [] w = Some (Inr [], w)"
| "bench_consumer ch mq (i # is) w = io_try (loop (bench_wait_turn ch mq i) () w) (\<lambda>_ w. do {
     (t, w) \<leftarrow> sys Clock_ns w;
     io_try (bench_consumer ch mq is (emit (Store ''ack'' (int i)) w)) (\<lambda>ts w. Some (Inr (rv t # ts), w)) })"

definition bench_spin_turn :: "int \<Rightarrow> nat \<Rightarrow> unit \<Rightarrow> world \<Rightarrow> ((unit, int + unit) ctl \<times> world) option" where
  "bench_spin_turn spin_deadline i _ w = do {
     (a, w) \<leftarrow> sys (Load_flag ''ack'') w;
     if rv a = int i - 1 then Some (Break (Inr ()), w)
     else do {
       (c, w) \<leftarrow> sys Clock_ns w;
       if rv c > spin_deadline then Some (Break (Inl 1), println Stderr [Txt ''shmkv: bench: consumer stalled''] w)
       else Some (Continue (), emit (Proc Proc_yield) w) } }"

text \<open>The eight bytes of the message, little-endian as the machine stores them.\<close>

definition le64 :: "nat \<Rightarrow> byte list" where
  "le64 n = List.map (\<lambda>k. word_of_nat (n div 256 ^ k mod 256)) [0..<8]"

definition bench_send :: "channel \<Rightarrow> int \<Rightarrow> nat \<Rightarrow> world \<Rightarrow> ((int + unit) \<times> world) option" where
  "bench_send ch mq i w =
     (if ch = KMq then do {
        (ts, w) \<leftarrow> abs_deadline 10 w;
        (s, w) \<leftarrow> sys (Mem (Mem_mq_send mq (le64 i) ts)) w;
        if rv s \<noteq> 0 then Some (Inl 1, println Stderr [Txt ''shmkv: mq_timedsend: '', StrError (eno s)] w)
        else Some (Inr (), w) }
      else
        let w = seqlock_write [Store ''counter'' (int i)] w;
            w = emit (Store ''futex'' (int i mod 2 ^ 32)) w
        in Some (Inr (), if ch = KFutex then emit (Mem Mem_futex_wake) w else w))"

fun bench_producer :: "channel \<Rightarrow> int \<Rightarrow> int \<Rightarrow> nat list \<Rightarrow> world \<Rightarrow> ((int + int list) \<times> world) option" where
  "bench_producer ch mq dl [] w = Some (Inr [], w)"
| "bench_producer ch mq dl (i # is) w = io_try (loop (bench_spin_turn dl i) () w) (\<lambda>_ w. do {
     (t, w) \<leftarrow> sys Clock_ns w;
     io_try (bench_send ch mq i w) (\<lambda>_ w.
       io_try (bench_producer ch mq dl is w) (\<lambda>ts w. Some (Inr (rv t # ts), w))) })"

definition bench_us :: "int list \<Rightarrow> int list \<Rightarrow> int list" where
  "bench_us recv_ns send_ns = sort (List.map (\<lambda>(r, s). max 0 (r - s) div 1000) (zip recv_ns send_ns))"

definition bench_pct :: "int list \<Rightarrow> nat \<Rightarrow> int" where
  "bench_pct us p = (let rounds = List.length us; i = rounds * p div 100 in us ! (if i \<ge> rounds then rounds - 1 else i))"

text \<open>\<open>recv_ns\<close> is what the consumer thread has left when it is joined.\<close>

definition cmd_bench :: "int list \<Rightarrow> string \<Rightarrow> nat \<Rightarrow> channel \<Rightarrow> string \<Rightarrow> world \<Rightarrow> (int \<times> world) option" where
  "cmd_bench recv_ns path rounds ch name w = do {
     (s, w) \<leftarrow> open_shm path True w;
     (case s of
       Inl e \<Rightarrow> Some (1, println Stderr (Txt ''shmkv: '' # e) w)
     | Inr fd \<Rightarrow> do {
         (q, w) \<leftarrow> (if ch = KMq then do {
             (pid, w) \<leftarrow> sys (Proc Proc_getpid) w;
             let qname = ''/shmkv-bench-'' @ show_int (rv pid);
             (d, w) \<leftarrow> sys (Mem (Mem_mq_open qname)) w;
             if rv d = -1 then Some (Inl (1 :: int), shm_close fd (println Stderr [Txt (''shmkv: mq_open '' @ qname @ '': ''), StrError (eno d)] w))
             else Some (Inr (Some (rv d, qname)), w) }
           else Some (Inr None, w));
         (case q of
           Inl rc \<Rightarrow> Some (rc, w)
         | Inr mq \<Rightarrow> do {
             let mqd = (case mq of Some (d, _) \<Rightarrow> d | None \<Rightarrow> -1);
             let w = emit (Spawn ''consumer'' [] (int rounds)) w;
             (c, w) \<leftarrow> sys Clock_ns w;
             (r, w) \<leftarrow> bench_producer ch mqd (rv c + 30000000000) [1..<rounds + 1] w;
             (case r of
               Inl rc \<Rightarrow> Some (rc, w)
             | Inr send_ns \<Rightarrow> do {
                 (_, w) \<leftarrow> sys (Proc (Proc_join ''consumer'')) w;
                 let us = bench_us recv_ns send_ns;
                 let w = println Stdout [Txt (''bench: channel='' @ name @ '' rounds='' @ show_nat rounds @ '' p50_us=''
                   @ show_int (bench_pct us 50) @ '' p99_us='' @ show_int (bench_pct us 99))] w;
                 let w = (case mq of Some (d, qname) \<Rightarrow> emit (Mem (Mem_mq_unlink qname)) (emit (Mem (Mem_mq_close d)) w) | None \<Rightarrow> w);
                 Some (0, shm_close fd w) }) }) }) }"

section \<open>The command line\<close>

definition shm_usage :: "world \<Rightarrow> (int \<times> world) option" where
  "shm_usage w = Some (2, fold (\<lambda>l. println Stderr [Txt l])
     [''usage: shmkv serve FILE [--updates N] [--interval-ms T]'',
      ''       shmkv watch FILE [--events N]'',
      ''       shmkv bench FILE [--rounds N] [--channel futex|mq|poll]''] w)"

definition shm_parse_u64 :: "string \<Rightarrow> nat option" where
  "shm_parse_u64 s = (case from_chars_u64 s of
     None \<Rightarrow> None
   | Some v \<Rightarrow> if v = 0 \<or> v > 1000000 then None else Some v)"

record shm_opts =
  sh_updates :: nat
  sh_interval :: nat
  sh_events :: nat
  sh_rounds :: nat
  sh_channel :: string

fun shm_parse :: "string \<Rightarrow> string list \<Rightarrow> shm_opts \<Rightarrow> shm_opts option" where
  "shm_parse cmd [] ops = Some ops"
| "shm_parse cmd [flag] ops = None"
| "shm_parse cmd (flag # val # rest) ops =
     (if flag = ''--channel'' \<and> cmd = ''bench'' then shm_parse cmd rest (ops\<lparr>sh_channel := val\<rparr>)
      else (case shm_parse_u64 val of
          None \<Rightarrow> None
        | Some n \<Rightarrow>
            if flag = ''--updates'' \<and> cmd = ''serve'' then shm_parse cmd rest (ops\<lparr>sh_updates := n\<rparr>)
            else if flag = ''--interval-ms'' \<and> cmd = ''serve'' then shm_parse cmd rest (ops\<lparr>sh_interval := n\<rparr>)
            else if flag = ''--events'' \<and> cmd = ''watch'' then shm_parse cmd rest (ops\<lparr>sh_events := n\<rparr>)
            else if flag = ''--rounds'' \<and> cmd = ''bench'' then shm_parse cmd rest (ops\<lparr>sh_rounds := n\<rparr>)
            else None))"

definition shm_main :: "int list \<Rightarrow> string list \<Rightarrow> world \<Rightarrow> (int \<times> world) option" where
  "shm_main recv_ns args w = (case args of
     cmd # file # rest \<Rightarrow>
       (case shm_parse cmd rest \<lparr>sh_updates = 8, sh_interval = 100, sh_events = 4, sh_rounds = 100, sh_channel = ''futex''\<rparr> of
         None \<Rightarrow> shm_usage w
       | Some o' \<Rightarrow>
           if cmd = ''serve'' then cmd_serve file (sh_updates o') (sh_interval o') w
           else if cmd = ''watch'' then cmd_watch file (sh_events o') w
           else if cmd = ''bench'' then
             (if sh_channel o' = ''futex'' then cmd_bench recv_ns file (sh_rounds o') KFutex (sh_channel o') w
              else if sh_channel o' = ''mq'' then cmd_bench recv_ns file (sh_rounds o') KMq (sh_channel o') w
              else if sh_channel o' = ''poll'' then cmd_bench recv_ns file (sh_rounds o') KPoll (sh_channel o') w
              else shm_usage w)
           else shm_usage w)
   | _ \<Rightarrow> shm_usage w)"

end
