(* ===== verification/ShmkvProps.thy ===== *)
theory ShmkvProps
  imports Shmkv Refinement
begin

unbundle bit_operations_syntax

text \<open>
  What is proved of the shared key-value file: what a slot holds after updates of the ring, and so
  which missed updates a watcher can still print; and the sequence lock as a step function of the
  server and a reader, one access to a word or a byte of the mapping per step, which refines a
  register whose value changes atomically. The interleavings are sequentially consistent: the
  fences of the code order the relaxed accesses inside the lock against the accesses to \<open>seq\<close>.
\<close>

section \<open>Slots\<close>

lemma mem_copy_mid:
  "List.length src \<le> List.length b \<Longrightarrow> mem_copy (List.length a) src (a @ b @ c) = a @ (src @ drop (List.length src) b) @ c"
  by (simp add: mem_copy_def)

definition slot_bytes :: "string \<Rightarrow> string \<Rightarrow> byte list" where
  "slot_bytes key val = key_bytes key @ replicate (24 - List.length (key_bytes key)) 0 @
     val_bytes val @ replicate (40 - List.length (val_bytes val)) 0"

lemma length_key_val: "List.length (key_bytes key) \<le> 23" "List.length (val_bytes val) \<le> 39"
  by (simp_all add: key_bytes_def val_bytes_def)

lemma length_slot_bytes [simp]: "List.length (slot_bytes key val) = 64"
  using length_key_val(1) [of key] length_key_val(2) [of val] by (simp add: slot_bytes_def)

lemma slot_offset_le: "slot_offset i + 64 \<le> 512"
proof -
  have "(i - 1) mod 8 \<le> 7" using mod_less_divisor [of 8 "i - 1"] by linarith
  then show ?thesis by (simp add: slot_offset_def)
qed

lemma write_slot_parts:
  assumes "List.length a = slot_offset i" and "List.length b = 64"
  shows "write_slot i key val (a @ b @ c) = a @ slot_bytes key val @ c"
proof -
  let ?z = "replicate 64 0 :: byte list"
  let ?k = "key_bytes key" let ?v = "val_bytes val"
  let ?r = "replicate (24 - List.length ?k) 0 :: byte list"
  have k: "List.length ?k \<le> 23" and v: "List.length ?v \<le> 39" by (rule length_key_val)+
  have r: "replicate (64 - List.length ?k) 0 = ?r @ replicate 40 0"
    using k by (simp flip: replicate_add)
  have 1: "mem_copy (slot_offset i) ?z (a @ b @ c) = a @ ?z @ c"
    using mem_copy_mid [of ?z b a c] assms by simp
  have 2: "mem_copy (slot_offset i) ?k (a @ ?z @ c) = (a @ ?k @ ?r) @ replicate 40 0 @ c"
    using mem_copy_mid [of ?k ?z a c] assms k by (simp add: r)
  have l: "List.length (a @ ?k @ ?r) = slot_offset i + 24" using assms k by simp
  have 3: "mem_copy (slot_offset i + 24) ?v ((a @ ?k @ ?r) @ replicate 40 0 @ c) = (a @ ?k @ ?r) @ (?v @ replicate (40 - List.length ?v) 0) @ c"
    using mem_copy_mid [of ?v "replicate 40 0" "a @ ?k @ ?r" c] v unfolding l by simp
  show ?thesis unfolding write_slot_def Let_def 1 2 3 by (simp add: slot_bytes_def)
qed

lemma split_at_slot:
  assumes "List.length m = 512"
  obtains a b c where "m = a @ b @ c" "List.length a = slot_offset i" "List.length b = 64"
proof
  show "m = take (slot_offset i) m @ take 64 (drop (slot_offset i) m) @ drop (slot_offset i + 64) m"
    by (metis add.commute append_take_drop_id drop_drop)
qed (use assms slot_offset_le [of i] in simp_all)

lemma length_write_slot [simp]: "List.length m = 512 \<Longrightarrow> List.length (write_slot i key val m) = 512"
  by (rule split_at_slot [of m i]) (auto simp: write_slot_parts)

text \<open>A slot of its 64 bytes.\<close>

lemma read_slot_bytes: "read_slot m i = (cstr (take 24 (take 64 (drop (slot_offset i) m))), cstr (take 40 (drop 24 (take 64 (drop (slot_offset i) m)))))"
  by (simp add: read_slot_def Let_def drop_take)

lemma byte_zero: "byte_of_char c = 0 \<longleftrightarrow> c = CHR 0x00"
proof -
  have "byte_of_char (CHR 0x00) = 0" by (simp add: byte_of_char_def)
  then show ?thesis by (metis byte_of_char_eq_iff)
qed

lemma cstr_padded: "CHR 0x00 \<notin> set s \<Longrightarrow> cstr (bytes_of s @ replicate n 0) = s"
proof -
  assume s: "CHR 0x00 \<notin> set s"
  have "b \<noteq> 0" if "b \<in> set (bytes_of s)" for b
  proof -
    from that obtain c where c: "c \<in> set s" "b = byte_of_char c" unfolding set_map by (rule imageE)
    from c s have "c \<noteq> CHR 0x00" by blast
    with c(2) show ?thesis by (simp add: byte_zero)
  qed
  then have "takeWhile (\<lambda>b. b \<noteq> 0) (bytes_of s @ replicate n 0) = bytes_of s @ takeWhile (\<lambda>b. b \<noteq> 0) (replicate n 0)"
    by (rule takeWhile_append2)
  moreover have "takeWhile (\<lambda>b. b \<noteq> 0) (replicate n (0 :: byte)) = []" by (cases n) simp_all
  ultimately have "takeWhile (\<lambda>b. b \<noteq> 0) (bytes_of s @ replicate n 0) = bytes_of s" by (simp only: append_Nil2)
  then show ?thesis unfolding cstr_def by (simp only:) simp
qed

lemma read_slot_written:
  assumes "drop (slot_offset i) m = slot_bytes key val @ c"
    and "CHR 0x00 \<notin> set key" and "CHR 0x00 \<notin> set val" and "List.length key \<le> 23" and "List.length val \<le> 39"
  shows "read_slot m i = (key, val)"
proof -
  have kb: "key_bytes key = bytes_of key" "val_bytes val = bytes_of val"
    using assms(4,5) by (simp_all add: key_bytes_def val_bytes_def)
  have "take 24 (drop (slot_offset i) m) = bytes_of key @ replicate (24 - List.length key) 0"
    "take 40 (drop 24 (drop (slot_offset i) m)) = bytes_of val @ replicate (40 - List.length val) 0"
    using assms(4,5) by (simp_all add: assms(1) slot_bytes_def kb)
  then show ?thesis using assms(2,3) by (simp add: read_slot_def Let_def cstr_padded)
qed

lemma read_slot_other:
  assumes "List.length m = 512" and "slot_offset i \<noteq> slot_offset j"
  shows "read_slot (write_slot i key val m) j = read_slot m j"
proof -
  obtain a b c where m: "m = a @ b @ c" "List.length a = slot_offset i" "List.length b = 64"
    by (rule split_at_slot [OF assms(1)])
  have w: "write_slot i key val m = a @ slot_bytes key val @ c" using m(2,3) by (simp add: m(1) write_slot_parts)
  have "(i - 1) mod 8 \<noteq> (j - 1) mod 8" using assms(2) by (auto simp: slot_offset_def)
  then consider "slot_offset j + 64 \<le> List.length a" | "List.length a + 64 \<le> slot_offset j"
    unfolding slot_offset_def m(2) by linarith
  then have "take 64 (drop (slot_offset j) (a @ slot_bytes key val @ c)) = take 64 (drop (slot_offset j) (a @ b @ c))"
    by cases (simp_all add: m(3))
  then have "take 64 (drop (slot_offset j) (write_slot i key val m)) = take 64 (drop (slot_offset j) m)"
    unfolding w unfolding m(1) .
  then show ?thesis by (simp only: read_slot_bytes [of _ j])
qed

section \<open>The ring of the last eight updates\<close>

fun slots_after :: "nat \<Rightarrow> byte list" where
  "slots_after 0 = replicate 512 0"
| "slots_after (Suc n) = write_slot (Suc n) (key_of (Suc n)) (val_of (Suc n)) (slots_after n)"

lemma length_slots_after [simp]: "List.length (slots_after n) = 512"
  by (induction n) simp_all

lemma length_show_nat: "0 < k \<Longrightarrow> n < 10 ^ k \<Longrightarrow> List.length (show_nat n) \<le> k"
proof (induction k arbitrary: n)
  case (Suc k)
  show ?case
  proof (cases "n < 10")
    case True
    then show ?thesis by (simp add: show_nat.simps [of n])
  next
    case False
    have "n div 10 < 10 ^ k" using Suc.prems(2) by (simp add: div_less_iff_less_mult mult.commute)
    moreover from this False have "0 < k" by (cases k) auto
    ultimately have "List.length (show_nat (n div 10)) \<le> k" by (intro Suc.IH)
    with False show ?thesis by (simp add: show_nat.simps [of n])
  qed
qed simp

lemma show_nat_plain: "CHR 0x00 \<notin> set (show_nat n)"
proof -
  have "\<not> is_digit (CHR 0x00)" by (simp add: is_digit_def)
  then show ?thesis using show_nat_digits [of n] by (auto simp: list.pred_set)
qed

lemma entry_fits:
  assumes "n < 10 ^ 7"
  shows "CHR 0x00 \<notin> set (key_of n)" "CHR 0x00 \<notin> set (val_of n)" "List.length (key_of n) \<le> 23" "List.length (val_of n) \<le> 39"
  using length_show_nat [of 7 n] assms show_nat_plain [of n] by (simp_all add: key_of_def val_of_def)

lemma key_of_inj: "key_of m = key_of n \<longleftrightarrow> m = n"
  by (metis decimal_show_nat key_of_def append_same_eq append_eq_append_conv same_append_eq)

text \<open>A slot holds the last update of its residue.\<close>

lemma same_slot: "slot_offset (Suc n) = slot_offset i \<longleftrightarrow> (Suc n - i) mod 8 = 0" if "1 \<le> i" and "i \<le> Suc n"
proof -
  have "n mod 8 = (i - 1) mod 8 \<longleftrightarrow> 8 dvd (n - (i - 1))" using that by (intro mod_eq_dvd_iff_nat) simp
  moreover have "n - (i - 1) = Suc n - i" using that by simp
  ultimately show ?thesis by (auto simp: slot_offset_def mod_eq_0_iff_dvd)
qed

lemma read_slot_here:
  assumes "List.length m = 512" and "slot_offset i = slot_offset j" and "j < 10 ^ 7"
  shows "read_slot (write_slot j (key_of j) (val_of j) m) i = (key_of j, val_of j)"
proof -
  obtain a b c where m: "m = a @ b @ c" "List.length a = slot_offset j" "List.length b = 64"
    by (rule split_at_slot [OF assms(1)])
  have "drop (slot_offset i) (write_slot j (key_of j) (val_of j) m) = slot_bytes (key_of j) (val_of j) @ c"
    using m(2,3) by (simp add: m(1) write_slot_parts assms(2))
  then show ?thesis by (rule read_slot_written) (rule entry_fits [OF assms(3)])+
qed

lemma read_slot_after:
  assumes "1 \<le> i" and "i \<le> n" and "n < 10 ^ 7"
  shows "read_slot (slots_after n) i = (key_of (i + 8 * ((n - i) div 8)), val_of (i + 8 * ((n - i) div 8)))"
  using assms(2,3)
proof (induction n rule: dec_induct)
  case base
  obtain k where i: "i = Suc k" using assms(1) by (cases i) auto
  show ?case using read_slot_here [of "slots_after k" i i] base by (simp add: i)
next
  case (step n)
  show ?case
  proof (cases "(Suc n - i) mod 8 = 0")
    case True
    then have "8 * ((Suc n - i) div 8) = Suc n - i" by presburger
    then have "i + 8 * ((Suc n - i) div 8) = Suc n" using step.hyps by simp
    then show ?thesis
      using read_slot_here [of "slots_after n" i "Suc n"] True same_slot [of i n] assms(1) step by simp
  next
    case False
    then have "(Suc n - i) div 8 = (n - i) div 8" using step.hyps by (simp add: Suc_diff_le div_Suc)
    then show ?thesis
      using read_slot_other [of "slots_after n" "Suc n" i] False same_slot [of i n] assms(1) step by simp
  qed
qed

text \<open>
  Which missed updates a watcher can print. After the updates 1 to n the slot of update i still
  holds its key and value exactly when i is one of the last eight; a watcher that slept longer
  prints a younger update under the older number. The comment of \<open>cmd_watch\<close> promises every missed id.
\<close>

lemma shmkv_backfill:
  assumes "1 \<le> i" and "i \<le> n" and "n \<le> 1000000"
  shows "(read_slot (slots_after n) i = (key_of i, val_of i)) = (n < i + 8)"
proof -
  have "read_slot (slots_after n) i = (key_of (i + 8 * ((n - i) div 8)), val_of (i + 8 * ((n - i) div 8)))"
    using assms by (intro read_slot_after) simp_all
  then have "(read_slot (slots_after n) i = (key_of i, val_of i)) = ((n - i) div 8 = 0)"
    by (auto simp: key_of_inj)
  also have "\<dots> = (n < i + 8)" using assms(2) by (simp add: div_eq_0_iff) linarith
  finally show ?thesis .
qed

section \<open>The sequence lock, one access at a time\<close>

text \<open>
  The stores of \<open>write_slot\<close> byte by byte: \<open>memset\<close>, then the two \<open>memcpy\<close>.
\<close>

definition puts :: "nat \<Rightarrow> byte list \<Rightarrow> (nat \<times> byte) list" where
  "puts off bs = zip [off..<off + List.length bs] bs"

definition slot_puts :: "nat \<Rightarrow> string \<Rightarrow> string \<Rightarrow> (nat \<times> byte) list" where
  "slot_puts i key val = (let off = slot_offset i in
     puts off (replicate 64 0) @ puts off (key_bytes key) @ puts (off + 24) (val_bytes val))"

definition put :: "nat \<times> byte \<Rightarrow> byte list \<Rightarrow> byte list" where
  "put = (\<lambda>(i, b) m. m[i := b])"

text \<open>The server at update k: before its first store, inside \<open>write_slot\<close>, after \<open>counter.store\<close>.\<close>

datatype lock_writer = W_idle nat | W_put nat "(nat \<times> byte) list" | W_count nat

text \<open>A reader: before the load of \<open>seq\<close>, before the load of \<open>counter\<close>, inside the \<open>memcpy\<close>, returned.\<close>

datatype lock_reader = R_start | R_counter "32 word" | R_copy "32 word" nat "byte list" | R_got snapshot

record lock_state =
  lk_seq :: "32 word"
  lk_counter :: nat
  lk_slots :: "byte list"
  lk_writer :: lock_writer
  lk_reader :: lock_reader

datatype lock_side = Writer | Reader

definition lock_start :: lock_state where
  "lock_start = \<lparr>lk_seq = 0, lk_counter = 0, lk_slots = replicate 512 0, lk_writer = W_idle 1, lk_reader = R_start\<rparr>"

fun writer_next :: "nat \<Rightarrow> lock_writer \<Rightarrow> lock_state \<Rightarrow> lock_state option" where
  "writer_next updates (W_idle k) s =
     (if k \<le> updates then Some (s\<lparr>lk_seq := lk_seq s + 1, lk_writer := W_put k (slot_puts k (key_of k) (val_of k))\<rparr>) else None)"
| "writer_next updates (W_put k (p # ps)) s = Some (s\<lparr>lk_slots := put p (lk_slots s), lk_writer := W_put k ps\<rparr>)"
| "writer_next updates (W_put k []) s = Some (s\<lparr>lk_counter := k, lk_writer := W_count k\<rparr>)"
| "writer_next updates (W_count k) s = Some (s\<lparr>lk_seq := lk_seq s + 1, lk_writer := W_idle (k + 1)\<rparr>)"

fun reader_next :: "lock_reader \<Rightarrow> lock_state \<Rightarrow> lock_reader" where
  "reader_next R_start s = (if lk_seq s AND 1 = 1 then R_start else R_counter (lk_seq s))"
| "reader_next (R_counter s1) s = R_copy s1 (lk_counter s) []"
| "reader_next (R_copy s1 c bs) s =
     (if List.length bs < 512 then R_copy s1 c (bs @ [lk_slots s ! List.length bs])
      else if lk_seq s = s1 then R_got \<lparr>sn_counter = c, sn_slots = bs\<rparr> else R_start)"
| "reader_next (R_got snap) s = R_start"

fun lock_next :: "nat \<Rightarrow> lock_state \<Rightarrow> lock_side \<Rightarrow> lock_state option" where
  "lock_next updates s Writer = writer_next updates (lk_writer s) s"
| "lock_next updates s Reader = Some (s\<lparr>lk_reader := reader_next (lk_reader s) s\<rparr>)"

text \<open>The register the lock implements: updates are published in order, and a read returns the last one.\<close>

datatype lock_event = Published nat | Got snapshot

fun lock_label :: "lock_state \<Rightarrow> lock_side \<Rightarrow> lock_event option" where
  "lock_label s Writer = (case lk_writer s of W_count k \<Rightarrow> Some (Published k) | _ \<Rightarrow> None)"
| "lock_label s Reader = (case reader_next (lk_reader s) s of R_got snap \<Rightarrow> Some (Got snap) | _ \<Rightarrow> None)"

fun register :: "nat \<Rightarrow> lock_event \<Rightarrow> nat option" where
  "register n (Published k) = (if k = n + 1 then Some k else None)"
| "register n (Got snap) = (if snap = \<lparr>sn_counter = n, sn_slots = slots_after n\<rparr> then Some n else None)"

fun published :: "lock_writer \<Rightarrow> nat" where
  "published (W_idle k) = k - 1"
| "published (W_put k ps) = k - 1"
| "published (W_count k) = k - 1"

text \<open>The byte stores of an update add up to \<open>write_slot\<close>.\<close>

lemma puts_Cons: "puts off (b # bs) = (off, b) # puts (Suc off) bs"
  by (simp add: puts_def upt_conv_Cons del: upt_Suc)

lemma fold_puts: "off + List.length bs \<le> List.length m \<Longrightarrow> fold put (puts off bs) m = mem_copy off bs m"
proof (induction bs arbitrary: off m)
  case Nil
  then show ?case by (simp add: puts_def mem_copy_def)
next
  case (Cons b bs)
  have "fold put (puts off (b # bs)) m = mem_copy (Suc off) bs (m[off := b])"
    using Cons by (simp add: puts_Cons put_def)
  then show ?case using Cons.prems by (simp add: mem_copy_def upd_conv_take_nth_drop)
qed

lemma length_mem_copy: "off + List.length bs \<le> List.length m \<Longrightarrow> List.length (mem_copy off bs m) = List.length m"
  by (simp add: mem_copy_def)

lemma fold_slot_puts:
  assumes "List.length m = 512"
  shows "fold put (slot_puts i key val) m = write_slot i key val m"
proof -
  have k: "slot_offset i + List.length (key_bytes key) \<le> 512" and v: "slot_offset i + 24 + List.length (val_bytes val) \<le> 512"
    using slot_offset_le [of i] length_key_val(1) [of key] length_key_val(2) [of val] by linarith+
  show ?thesis
    using slot_offset_le [of i] k v assms
    by (simp add: slot_puts_def Let_def fold_puts length_mem_copy write_slot_def)
qed

section \<open>The lock refines the register\<close>

text \<open>The value of \<open>seq\<close> without the wrap-around of its 32 bits.\<close>

fun ticket :: "lock_writer \<Rightarrow> nat" where
  "ticket (W_idle k) = 2 * (k - 1)"
| "ticket (W_put k ps) = 2 * (k - 1) + 1"
| "ticket (W_count k) = 2 * (k - 1) + 1"

fun writer_ok :: "nat \<Rightarrow> lock_writer \<Rightarrow> nat \<Rightarrow> byte list \<Rightarrow> bool" where
  "writer_ok N (W_idle k) c m = (1 \<le> k \<and> k \<le> N + 1 \<and> c = k - 1 \<and> m = slots_after (k - 1))"
| "writer_ok N (W_put k ps) c m = (1 \<le> k \<and> k \<le> N \<and> fold put ps m = slots_after k)"
| "writer_ok N (W_count k) c m = (1 \<le> k \<and> k \<le> N \<and> c = k \<and> m = slots_after k)"

fun reader_ok :: "nat \<Rightarrow> lock_reader \<Rightarrow> bool" where
  "reader_ok t R_start = True"
| "reader_ok t (R_counter s1) = (\<exists>v. s1 = word_of_nat (2 * v) \<and> 2 * v \<le> t)"
| "reader_ok t (R_copy s1 c bs) = (List.length bs \<le> 512 \<and>
     (\<exists>v. s1 = word_of_nat (2 * v) \<and> 2 * v \<le> t \<and> (2 * v = t \<longrightarrow> c = v \<and> bs = take (List.length bs) (slots_after v))))"
| "reader_ok t (R_got snap) = True"

definition lock_ok :: "nat \<Rightarrow> lock_state \<Rightarrow> bool" where
  "lock_ok N s = (N \<le> 1000000 \<and> lk_seq s = word_of_nat (ticket (lk_writer s)) \<and>
     writer_ok N (lk_writer s) (lk_counter s) (lk_slots s) \<and> reader_ok (ticket (lk_writer s)) (lk_reader s))"

lemma ticket_bound: "writer_ok N p c m \<Longrightarrow> N \<le> 1000000 \<Longrightarrow> ticket p < 2 ^ 32"
  by (cases p) auto

lemma reader_ok_later: "reader_ok t r \<Longrightarrow> t < t' \<Longrightarrow> reader_ok t' r"
  by (cases r) fastforce+

lemma published_ticket: "published p = ticket p div 2"
  by (cases p) simp_all

lemma seq_parity: "((word_of_nat t :: 32 word) AND 1 = 1) = odd t"
  by (simp add: and_one_eq odd_iff_mod_2_eq_one [symmetric])

lemma seq_inj: "t < 2 ^ 32 \<Longrightarrow> u < 2 ^ 32 \<Longrightarrow> (word_of_nat t :: 32 word) = word_of_nat u \<longleftrightarrow> t = u"
  by (simp add: word_of_nat_eq_iff take_bit_nat_eq_self)

lemma writer_even: "writer_ok N p c m \<Longrightarrow> 2 * v = ticket p \<Longrightarrow> c = v \<and> m = slots_after v"
  by (cases p) (auto, presburger+)

lemma lock_ok_start: "N \<le> 1000000 \<Longrightarrow> lock_ok N lock_start"
  by (simp add: lock_ok_def lock_start_def)

lemma lock_ok_writer:
  assumes "lock_ok N s" and "lock_next N s Writer = Some s'"
  shows "lock_ok N s'"
proof (cases "lk_writer s")
  case (W_idle k)
  then show ?thesis using assms reader_ok_later [of "2 * (k - 1)" "lk_reader s" "2 * (k - 1) + 1"]
    by (cases k) (auto simp: lock_ok_def fold_slot_puts split: if_splits)
next
  case (W_put k ps)
  then show ?thesis using assms by (cases ps) (auto simp: lock_ok_def)
next
  case (W_count k)
  then show ?thesis using assms reader_ok_later [of "2 * (k - 1) + 1" "lk_reader s" "2 * k"]
    by (cases k) (auto simp: lock_ok_def)
qed

lemma reader_ok_next:
  assumes "lock_ok N s"
  shows "reader_ok (ticket (lk_writer s)) (reader_next (lk_reader s) s)"
proof (cases "lk_reader s")
  case R_start
  then show ?thesis using assms
    by (auto simp: lock_ok_def seq_parity elim!: evenE)
next
  case (R_counter s1)
  with assms obtain v where v: "s1 = word_of_nat (2 * v)" "2 * v \<le> ticket (lk_writer s)"
    by (auto simp: lock_ok_def)
  have "2 * v = ticket (lk_writer s) \<longrightarrow> lk_counter s = v"
    using assms writer_even [of N "lk_writer s" "lk_counter s" "lk_slots s" v] by (auto simp: lock_ok_def)
  with R_counter v show ?thesis by auto
next
  case (R_copy s1 c bs)
  show ?thesis
  proof (cases "List.length bs < 512")
    case True
    from assms R_copy obtain v where v: "s1 = word_of_nat (2 * v)" "2 * v \<le> ticket (lk_writer s)"
      "2 * v = ticket (lk_writer s) \<longrightarrow> c = v \<and> bs = take (List.length bs) (slots_after v)"
      by (auto simp: lock_ok_def)
    have "lk_slots s = slots_after v" if "2 * v = ticket (lk_writer s)"
      using that assms writer_even [of N "lk_writer s" "lk_counter s" "lk_slots s" v] by (auto simp: lock_ok_def)
    with v True have "2 * v = ticket (lk_writer s) \<longrightarrow>
      c = v \<and> bs @ [lk_slots s ! List.length bs] = take (Suc (List.length bs)) (slots_after v)"
      by (metis length_slots_after take_Suc_conv_app_nth)
    with R_copy True v(1,2) show ?thesis by auto
  next
    case False
    with R_copy show ?thesis by simp
  qed
next
  case (R_got snap)
  then show ?thesis by simp
qed

lemma lock_label_got:
  assumes "lock_ok N s" and "reader_next (lk_reader s) s = R_got snap"
  shows "snap = \<lparr>sn_counter = published (lk_writer s), sn_slots = slots_after (published (lk_writer s))\<rparr>"
proof -
  from assms(2) obtain s1 c bs where r: "lk_reader s = R_copy s1 c bs" "\<not> List.length bs < 512" "lk_seq s = s1"
    "snap = \<lparr>sn_counter = c, sn_slots = bs\<rparr>"
    by (cases "lk_reader s") (auto split: if_splits)
  from assms(1) r(1) obtain v where v: "s1 = word_of_nat (2 * v)" "2 * v \<le> ticket (lk_writer s)" "List.length bs \<le> 512"
    "2 * v = ticket (lk_writer s) \<longrightarrow> c = v \<and> bs = take (List.length bs) (slots_after v)"
    by (auto simp: lock_ok_def)
  have "ticket (lk_writer s) < 2 ^ 32" using assms(1) unfolding lock_ok_def by (blast intro: ticket_bound)
  moreover have "(word_of_nat (ticket (lk_writer s)) :: 32 word) = word_of_nat (2 * v)"
    using assms(1) r(3) v(1) by (simp add: lock_ok_def)
  ultimately have t: "2 * v = ticket (lk_writer s)"
    using v(2) seq_inj [of "ticket (lk_writer s)" "2 * v"] le_less_trans [OF v(2)] by metis
  have "List.length bs = 512" using r(2) v(3) by simp
  then have "bs = slots_after v" using v(4) t length_slots_after [of v] by (metis order_refl take_all)
  moreover have "published (lk_writer s) = v" by (simp add: published_ticket t [symmetric])
  ultimately show ?thesis using r(4) v(4) t by blast
qed

interpretation lkr: refinement "lock_next N" "lock_ok N" "\<lambda>s. published (lk_writer s)" lock_label register
proof (unfold_locales)
  fix s a s'
  assume ok: "lock_ok N s" and step: "lock_next N s a = Some s'"
  show "lock_ok N s'"
    using ok step reader_ok_next [OF ok] lock_ok_writer [OF ok] by (cases a) (auto simp: lock_ok_def)
  show "published (lk_writer s') = published (lk_writer s)" if "lock_label s a = None"
    using step that by (cases a; cases "lk_writer s") (auto split: if_splits list.splits elim!: writer_next.elims)
  show "register (published (lk_writer s)) b = Some (published (lk_writer s'))" if "lock_label s a = Some b" for b
  proof (cases a)
    case Writer
    with step that ok show ?thesis by (auto simp: lock_ok_def split: lock_writer.splits)
  next
    case Reader
    with that obtain snap where "reader_next (lk_reader s) s = R_got snap" "b = Got snap"
      by (auto split: lock_reader.splits)
    with Reader step lock_label_got [OF ok] show ?thesis by auto
  qed
qed

text \<open>A reader the server leaves alone copies the slots and returns.\<close>

lemma reader_copies:
  assumes "List.length (lk_slots s) = 512" and "j \<le> 512"
    and "lk_reader s = R_copy (lk_seq s) c (take (512 - j) (lk_slots s))"
  shows "run (lock_next N) s (replicate (Suc j) Reader) = Some (s\<lparr>lk_reader := R_got \<lparr>sn_counter = c, sn_slots = lk_slots s\<rparr>\<rparr>)"
  using assms
proof (induction j arbitrary: s)
  case 0
  then show ?case by simp
next
  case (Suc j)
  let ?s = "s\<lparr>lk_reader := R_copy (lk_seq s) c (take (512 - j) (lk_slots s))\<rparr>"
  have "512 - j = Suc (512 - Suc j)" using Suc.prems(2) by simp
  then have "lock_next N s Reader = Some ?s"
    using Suc.prems take_Suc_conv_app_nth [of "512 - Suc j" "lk_slots s"] by simp
  moreover have "run (lock_next N) ?s (replicate (Suc j) Reader) = Some (?s\<lparr>lk_reader := R_got \<lparr>sn_counter = c, sn_slots = lk_slots s\<rparr>\<rparr>)"
    using Suc.IH [of ?s] Suc.prems by simp
  ultimately show ?case by simp
qed

lemma reader_alone:
  assumes "lock_ok N s" and "lk_writer s = W_idle (n + 1)" and "lk_reader s = R_start"
  shows "run (lock_next N) s (replicate 515 Reader) = Some (s\<lparr>lk_reader := R_got \<lparr>sn_counter = n, sn_slots = slots_after n\<rparr>\<rparr>)"
proof -
  have w: "lk_counter s = n" "lk_slots s = slots_after n" "lk_seq s = word_of_nat (2 * n)"
    using assms(1,2) by (simp_all add: lock_ok_def)
  let ?s1 = "s\<lparr>lk_reader := R_counter (lk_seq s)\<rparr>" and ?s2 = "s\<lparr>lk_reader := R_copy (lk_seq s) n []\<rparr>"
  have "\<not> lk_seq s AND 1 = 1" using seq_parity [of "2 * n"] w(3) by simp
  then have 1: "lock_next N s Reader = Some ?s1" using assms(3) by simp
  have 2: "lock_next N ?s1 Reader = Some ?s2" using w(1) by simp
  have 3: "run (lock_next N) ?s2 (replicate (Suc 512) Reader) = Some (?s2\<lparr>lk_reader := R_got \<lparr>sn_counter = n, sn_slots = slots_after n\<rparr>\<rparr>)"
    using reader_copies [of ?s2 512 n N] by (simp add: w(2) del: replicate_Suc run.simps)
  have "replicate 515 Reader = replicate (Suc (Suc (Suc 512))) Reader" by (rule arg_cong) simp
  also have "\<dots> = Reader # Reader # replicate (Suc 512) Reader" by (simp only: replicate_Suc)
  finally show ?thesis using 1 2 3 by (simp del: replicate_Suc lock_next.simps)
qed

text \<open>
  C18: A reader of the sequence lock sees no torn update. For up to a million updates, whatever the
  interleaving of the server's byte stores with the readers' byte loads, a snapshot that
  \<open>seqlock_read\<close> returns is the counter and the slots of one and the same update, the last one
  published at that moment: the lock refines a register that is written and read atomically.
\<close>

theorem shmkv_snapshot_consistent:
  assumes "updates \<le> 1000000" and "run (lock_next updates) lock_start sched = Some s"
  shows "run register 0 (seen (lock_next updates) lock_label lock_start sched) = Some (published (lk_writer s))"
  using lkr.run_refines [OF assms(2) lock_ok_start [OF assms(1)]] by (simp add: lock_start_def)

theorem shmkv_snapshot_consistent_witness:
  "run register 0 (seen (lock_next 1) lock_label lock_start (replicate 515 Reader)) = Some 0"
proof -
  have "run (lock_next 1) lock_start (replicate 515 Reader)
      = Some (lock_start\<lparr>lk_reader := R_got \<lparr>sn_counter = 0, sn_slots = slots_after 0\<rparr>\<rparr>)"
    by (rule reader_alone) (simp_all only: lock_ok_start One_nat_def, simp_all add: lock_ok_start lock_start_def)
  from shmkv_snapshot_consistent [OF _ this] show ?thesis by (simp add: lock_start_def)
qed

end
