(* ===== verification/Fastpath.thy ===== *)
theory Fastpath
  imports Chatterd
begin

text \<open>
  The low-latency echo server and its measuring client, \<open>main.cpp\<close> of
  \<open>examples/40-low-latency-fastpath\<close>: the 64-byte frame with its two 64-bit big-endian fields, the
  two ways of reading one, both servers, the client and the command line, each a run against the
  kernel's answers. \<open>FastpathProps\<close> has the theorems.
\<close>

section \<open>The frame\<close>

abbreviation kFrameSize :: nat where "kFrameSize \<equiv> 64"

text \<open>\<open>p[7 - i] = (v >> (i * 8)) & 0xff\<close> for \<open>i\<close> from 7 down to 0, and the reverse.\<close>

definition put_u64be :: "u64 \<Rightarrow> byte list" where
  "put_u64be v = List.map (\<lambda>i. ucast (drop_bit (i * 8) v AND 0xff)) (rev [0..<8])"

definition get_u64be :: "byte list \<Rightarrow> u64" where
  "get_u64be p = foldl (\<lambda>v b. push_bit 8 v OR ucast b) 0 (take 8 p)"

definition build_frame :: "u64 \<Rightarrow> u64 \<Rightarrow> byte list" where
  "build_frame seq send_ns = [0x43, 0x46, 0x01, 0x01] @ put_u64be seq @ put_u64be send_ns @ replicate 44 0"

definition frame_header_ok :: "byte list \<Rightarrow> bool" where
  "frame_header_ok f \<longleftrightarrow> f ! 0 = 0x43 \<and> f ! 1 = 0x46 \<and> f ! 2 = 0x01 \<and> f ! 3 = 0x01"

definition now_ns :: "world \<Rightarrow> (u64 \<times> world) option" where
  "now_ns w = do { (t, w) \<leftarrow> sys Clock_ns w; Some (word_of_int (rv t), w) }"

section \<open>Sockets\<close>

definition fast_listen_tcp :: "int \<Rightarrow> world \<Rightarrow> ((msg + int) \<times> world) option" where
  "fast_listen_tcp port w = do {
     (s, w) \<leftarrow> sys Socket w;
     let sock = rv s;
     if sock < 0 then Some (Inl [Txt ''socket: '', ErrorCode (System_error (eno s))], w)
     else do {
       (b, w) \<leftarrow> sys (Bind sock ''0.0.0.0'' port) (emit (Reuseaddr sock) w);
       if rv b < 0 then Some (Inl [Txt (''bind 0.0.0.0:'' @ show_int port @ '': ''), ErrorCode (System_error (eno b))], fd_reset sock w)
       else do {
         (l, w) \<leftarrow> sys (Listen sock 16) w;
         if rv l < 0 then Some (Inl [Txt ''listen: '', ErrorCode (System_error (eno l))], fd_reset sock w)
         else Some (Inr sock, w) } } }"

definition fast_connect_tcp :: "string \<Rightarrow> int \<Rightarrow> world \<Rightarrow> ((msg + int) \<times> world) option" where
  "fast_connect_tcp host port w = do {
     (s, w) \<leftarrow> sys Socket w;
     let sock = rv s;
     if sock < 0 then Some (Inl [Txt ''socket: '', ErrorCode (System_error (eno s))], w)
     else do {
       (p, w) \<leftarrow> sys (Inet_pton host) w;
       if rv p \<noteq> 1 then Some (Inl [Txt (host @ '': not an IPv4 address'')], fd_reset sock w)
       else do {
         (c, w) \<leftarrow> sys (Connect sock host port) w;
         if rv c < 0 then Some (Inl [Txt (''connect '' @ host @ '':'' @ show_int port @ '': ''), ErrorCode (System_error (eno c))], fd_reset sock w)
         else Some (Inr sock, w) } } }"

section \<open>Reading and writing a frame\<close>

text \<open>
  The loop state is the part of the buffer already filled. \<open>Inl ()\<close> is the result false, on which
  no caller looks at the buffer again.
\<close>

definition read_blocking_turn :: "int \<Rightarrow> nat \<Rightarrow> byte list \<Rightarrow> world \<Rightarrow> ((byte list, unit + byte list) ctl \<times> world) option" where
  "read_blocking_turn fd n buf w =
     (if List.length buf < n then do {
        (r, w) \<leftarrow> sys (Read fd (n - List.length buf)) w;
        if rv r < 0 then Some (Break (Inl ()), w)
        else if rv r = 0 then Some (Break (Inl ()), w)
        else Some (Continue (buf @ filled r), w) }
      else Some (Break (Inr buf), w))"

definition read_full_blocking :: "int \<Rightarrow> nat \<Rightarrow> world \<Rightarrow> ((unit + byte list) \<times> world) option" where
  "read_full_blocking fd n = loop (read_blocking_turn fd n) []"

definition read_busy_turn :: "int \<Rightarrow> nat \<Rightarrow> byte list \<Rightarrow> world \<Rightarrow> ((byte list, unit + byte list) ctl \<times> world) option" where
  "read_busy_turn fd n buf w =
     (if List.length buf < n then do {
        (r, w) \<leftarrow> sys (Recv fd (n - List.length buf)) w;
        if rv r < 0 then
          if eno r = EAGAIN then do {
            (g, w) \<leftarrow> sys (Load_flag ''stop'') w;
            if rv g \<noteq> 0 then Some (Break (Inl ()), w) else Some (Continue buf, w) }
          else Some (Break (Inl ()), w)
        else if rv r = 0 then Some (Break (Inl ()), w)
        else Some (Continue (buf @ filled r), w) }
      else Some (Break (Inr buf), w))"

definition read_full_busy :: "int \<Rightarrow> nat \<Rightarrow> world \<Rightarrow> ((unit + byte list) \<times> world) option" where
  "read_full_busy fd n = loop (read_busy_turn fd n) []"

definition fast_write_turn :: "int \<Rightarrow> byte list \<Rightarrow> nat \<Rightarrow> world \<Rightarrow> ((nat, unit) ctl \<times> world) option" where
  "fast_write_turn fd buf off w =
     (if off < List.length buf then do {
        (n, w) \<leftarrow> sys (Write fd (drop off buf)) w;
        if rv n < 0 then
          if eno n = EINTR then Some (Continue off, w) else Some (Break (), w)
        else Some (Continue (off + nat (rv n)), w) }
      else Some (Break (), w))"

definition fast_write_all :: "int \<Rightarrow> byte list \<Rightarrow> world \<Rightarrow> (unit \<times> world) option" where
  "fast_write_all fd buf = loop (fast_write_turn fd buf) 0"

text \<open>\<open>install_signal_handlers\<close> is the call \<^const>\<open>Proc_install_handlers\<close>; the handler sets the flag \<open>stop\<close>.\<close>

definition pin_to_cpu :: "int \<Rightarrow> world \<Rightarrow> ((msg + unit) \<times> world) option" where
  "pin_to_cpu cpu w = do {
     (p, w) \<leftarrow> sys (Proc Proc_nproc) w;
     let nproc = rv p;
     if cpu < 0 \<or> (nproc > 0 \<and> cpu \<ge> nproc) then
       Some (Inl [Txt (''cpu '' @ show_int cpu @ '' out of range (0..'' @ show_int (if nproc > 0 then nproc - 1 else 0) @ '')'')], w)
     else do {
       (a, w) \<leftarrow> sys (Proc (Proc_setaffinity cpu)) w;
       if rv a \<noteq> 0 then Some (Inl [Txt (''sched_setaffinity('' @ show_int cpu @ ''): ''), ErrorCode (System_error (eno a))], w)
       else Some (Inr (), w) } }"

section \<open>The servers\<close>

text \<open>One message of a connection; reading is what the two servers and the two modes differ in.\<close>

definition echo_turn :: "(int \<Rightarrow> nat \<Rightarrow> world \<Rightarrow> ((unit + byte list) \<times> world) option) \<Rightarrow> int \<Rightarrow> unit \<Rightarrow> world \<Rightarrow> ((unit, unit) ctl \<times> world) option" where
  "echo_turn read_full fd _ w = do {
     (r, w) \<leftarrow> read_full fd kFrameSize w;
     (case r of
       Inl _ \<Rightarrow> Some (Break (), w)
     | Inr buf \<Rightarrow> do { (_, w) \<leftarrow> fast_write_all fd buf w; Some (Continue (), w) }) }"

definition fast_serve_turn :: "int \<Rightarrow> bool \<Rightarrow> unit \<Rightarrow> world \<Rightarrow> ((unit, int) ctl \<times> world) option" where
  "fast_serve_turn lfd busy_poll _ w = do {
     (g, w) \<leftarrow> sys (Load_flag ''stop'') w;
     if rv g \<noteq> 0 then Some (Break 0, println Stderr [Txt ''app: fastpath shutting down''] w)
     else do {
       (pr, w) \<leftarrow> sys (Poll [(lfd, POLLIN)] 200) w;
       if rv pr < 0 then
         if eno pr = EINTR then Some (Continue (), w)
         else Some (Break 1, println Stderr [Txt ''app: error: poll: '', ErrorCode (System_error (eno pr))] w)
       else if rv pr = 0 \<or> revents 0 pr AND POLLIN = 0 then Some (Continue (), w)
       else do {
         (c, w) \<leftarrow> sys (Accept lfd) w;
         if rv c < 0 then
           if eno c = EINTR \<or> eno c = EAGAIN then Some (Continue (), w)
           else Some (Break 1, println Stderr [Txt ''app: error: accept: '', ErrorCode (System_error (eno c))] w)
         else do {
           let conn = rv c;
           let w = emit (Net (Net_nodelay conn)) w;
           (_, w) \<leftarrow> (if busy_poll then do {
               (fl, w) \<leftarrow> sys (Getfl conn) w;
               Some ((), emit (Setfl conn (rv fl) True) w) }
             else Some ((), w));
           (_, w) \<leftarrow> loop (echo_turn (if busy_poll then read_full_busy else read_full_blocking) conn) () w;
           Some (Continue (), fd_reset conn w) } } } }"

definition cmd_fastpath :: "int \<Rightarrow> int \<Rightarrow> bool \<Rightarrow> world \<Rightarrow> (int \<times> world) option" where
  "cmd_fastpath port pin_cpu busy_poll w = do {
     (p, w) \<leftarrow> pin_to_cpu pin_cpu w;
     (case p of
       Inl e \<Rightarrow> Some (1, println Stderr (Txt ''app: error: '' # e) w)
     | Inr _ \<Rightarrow> do {
         (l, w) \<leftarrow> fast_listen_tcp port w;
         (case l of
           Inl e \<Rightarrow> Some (1, println Stderr (Txt ''app: error: '' # e) w)
         | Inr lfd \<Rightarrow> do {
             let w = println Stderr [Txt (''app: fastpath listening on 0.0.0.0:'' @ show_int port @ '' pinned-cpu=''
               @ show_int pin_cpu @ '' busy-poll='' @ (if busy_poll then ''on'' else ''off''))] (emit Install_handlers w);
             (rc, w) \<leftarrow> loop (fast_serve_turn lfd busy_poll) () w;
             Some (rc, fd_reset lfd w) }) }) }"

definition naive_serve_turn :: "int \<Rightarrow> unit \<Rightarrow> world \<Rightarrow> ((unit, int) ctl \<times> world) option" where
  "naive_serve_turn lfd _ w = do {
     (g, w) \<leftarrow> sys (Load_flag ''stop'') w;
     if rv g \<noteq> 0 then Some (Break 0, println Stderr [Txt ''app: naive shutting down''] w)
     else do {
       (pr, w) \<leftarrow> sys (Poll [(lfd, POLLIN)] 200) w;
       if rv pr < 0 then
         if eno pr = EINTR then Some (Continue (), w)
         else Some (Break 1, println Stderr [Txt ''app: error: poll: '', ErrorCode (System_error (eno pr))] w)
       else if rv pr = 0 \<or> revents 0 pr AND POLLIN = 0 then Some (Continue (), w)
       else do {
         (c, w) \<leftarrow> sys (Accept lfd) w;
         if rv c < 0 then
           if eno c = EINTR \<or> eno c = EAGAIN then Some (Continue (), w)
           else Some (Break 1, println Stderr [Txt ''app: error: accept: '', ErrorCode (System_error (eno c))] w)
         else do {
           (_, w) \<leftarrow> loop (echo_turn read_full_blocking (rv c)) () w;
           Some (Continue (), fd_reset (rv c) w) } } } }"

definition cmd_naive :: "int \<Rightarrow> world \<Rightarrow> (int \<times> world) option" where
  "cmd_naive port w = do {
     (l, w) \<leftarrow> fast_listen_tcp port w;
     (case l of
       Inl e \<Rightarrow> Some (1, println Stderr (Txt ''app: error: '' # e) w)
     | Inr lfd \<Rightarrow> do {
         let w = println Stderr [Txt (''app: naive listening on 0.0.0.0:'' @ show_int port)] (emit Install_handlers w);
         (rc, w) \<leftarrow> loop (naive_serve_turn lfd) () w;
         Some (rc, fd_reset lfd w) }) }"

section \<open>The measuring client\<close>

text \<open>
  Floating-point results are rounded by the machine: \<open>rnd\<close> is that rounding, a parameter, applied to
  each literal, conversion and operation.
\<close>

definition percentile_ns :: "(rat \<Rightarrow> rat) \<Rightarrow> u64 list \<Rightarrow> rat \<Rightarrow> u64" where
  "percentile_ns rnd xs p =
     (if xs = [] then 0
      else let n = List.length xs;
               idx = nat \<lceil>rnd (rnd (rnd p / 100) * rnd (of_nat n))\<rceil>;
               idx = (if idx = 0 then 1 else idx);
               idx = (if idx > n then n else idx)
           in xs ! (idx - 1))"

text \<open>
  How \<open>measure\<close> ends: with an exit code, in the exception \<open>reserve\<close> throws above \<open>max_size()\<close>, which
  nothing catches, or with the behaviour of \<open>front()\<close> on an empty vector, which is undefined.
\<close>

datatype fast_end = Exit_with int | Uncaught_length_error | Undefined_front

definition measure_turn ::
  "int \<Rightarrow> u64 \<Rightarrow> u64 \<Rightarrow> u64 \<times> u64 list \<Rightarrow> world \<Rightarrow> ((u64 \<times> u64 list, msg + u64 list) ctl \<times> world) option" where
  "measure_turn fd count warmup = (\<lambda>(i, samples) w.
     if i < count then do {
       (t_send, w) \<leftarrow> now_ns w;
       (_, w) \<leftarrow> fast_write_all fd (build_frame i 0) w;
       (r, w) \<leftarrow> read_full_blocking fd kFrameSize w;
       (case r of
         Inl _ \<Rightarrow> Some (Break (Inl [Txt (''app: error: measure: connection closed at iteration '' @ show_nat (unat i))]), w)
       | Inr inb \<Rightarrow> do {
           (t_recv, w) \<leftarrow> now_ns w;
           if \<not> frame_header_ok inb \<or> get_u64be (drop 4 inb) \<noteq> i then
             Some (Break (Inl [Txt (''app: error: measure: malformed/mismatched echo at iteration '' @ show_nat (unat i))]), w)
           else Some (Continue (i + 1, if warmup \<le> i then samples @ [t_recv - t_send] else samples), w) }) }
     else Some (Break (Inr samples), w))"

definition measure_report :: "(rat \<Rightarrow> rat) \<Rightarrow> string \<Rightarrow> u64 list \<Rightarrow> world \<Rightarrow> world" where
  "measure_report rnd tag samples w =
     (let shown = (\<lambda>v. show_nat (unat v));
          p50 = percentile_ns rnd samples 50; p90 = percentile_ns rnd samples 90;
          p99 = percentile_ns rnd samples 99; p999 = percentile_ns rnd samples (999 / 10);
          mn = hd samples; mx = last samples;
          total = foldl (\<lambda>s v. rnd (s + rnd (of_nat (unat v)))) 0 samples;
          mean = rnd (total / rnd (of_nat (List.length samples)));
          w = println Stdout [Txt (''app: percentiles_ns tag='' @ (if tag = [] then ''-'' else tag) @ '' p50='' @ shown p50 @ '' p90='' @ shown p90
            @ '' p99='' @ shown p99 @ '' p99.9='' @ shown p999 @ '' min='' @ shown mn @ '' max='' @ shown mx @ '' mean=''),
            Fixed2 mean, Txt ('' n='' @ show_nat (List.length samples))] w;
          w = println Stdout [Txt ''app: table''] w;
          w = println Stdout [Txt (''  p50    '' @ shown p50 @ '' ns'')] w;
          w = println Stdout [Txt (''  p90    '' @ shown p90 @ '' ns'')] w;
          w = println Stdout [Txt (''  p99    '' @ shown p99 @ '' ns'')] w;
          w = println Stdout [Txt (''  p99.9  '' @ shown p999 @ '' ns'')] w;
          w = println Stdout [Txt (''  min    '' @ shown mn @ '' ns'')] w;
          w = println Stdout [Txt (''  max    '' @ shown mx @ '' ns'')] w
      in println Stdout [Txt ''  mean   '', Fixed2 mean, Txt '' ns''] w)"

text \<open>\<open>std::vector<std::uint64_t>::max_size()\<close> is \<open>2 ^ 60 - 1\<close>.\<close>

definition cmd_measure :: "(rat \<Rightarrow> rat) \<Rightarrow> string \<Rightarrow> int \<Rightarrow> u64 \<Rightarrow> u64 \<Rightarrow> string \<Rightarrow> world \<Rightarrow> (fast_end \<times> world) option" where
  "cmd_measure rnd host port n warmup tag w = do {
     (c, w) \<leftarrow> fast_connect_tcp host port w;
     (case c of
       Inl e \<Rightarrow> Some (Exit_with 1, println Stderr (Txt ''app: error: '' # e) w)
     | Inr conn \<Rightarrow> do {
         let w = println Stdout [Txt (''app: measure target='' @ host @ '':'' @ show_int port @ '' n='' @ show_nat (unat n)
           @ '' warmup='' @ show_nat (unat warmup))] (emit (Net (Net_nodelay conn)) w);
         if unat n > 1152921504606846975 then Some (Uncaught_length_error, w)
         else do {
           (r, w) \<leftarrow> loop (measure_turn conn (n + warmup) warmup) (0, []) w;
           (case r of
             Inl m \<Rightarrow> Some (Exit_with 1, fd_reset conn (println Stderr m w))
           | Inr [] \<Rightarrow> Some (Undefined_front, w)
           | Inr samples \<Rightarrow> Some (Exit_with 0, fd_reset conn (measure_report rnd tag (sort samples) w))) } }) }"

section \<open>The command line\<close>

definition fast_usage :: "world \<Rightarrow> (fast_end \<times> world) option" where
  "fast_usage w = Some (Exit_with 2, fold (\<lambda>l. println Stderr [Txt l])
     [''usage: app fastpath --port P --pin CPU [--busy-poll]'',
      ''       app naive --port P'',
      ''       app measure --target HOST:PORT --n N [--warmup W] [--tag TAG]''] w)"

definition fast_parse_port :: "string \<Rightarrow> int option" where
  "fast_parse_port s = (case from_chars_u64 s of
     None \<Rightarrow> None
   | Some v \<Rightarrow> if v = 0 \<or> v > 65535 then None else Some (int v))"

definition fast_parse_u64 :: "string \<Rightarrow> u64 option" where
  "fast_parse_u64 s = map_option word_of_nat (from_chars_u64 s)"

text \<open>The three option loops; \<open>static_cast<int>\<close> keeps the low 32 bits.\<close>

fun fastpath_args :: "string list \<Rightarrow> string \<times> int \<times> bool \<Rightarrow> (string \<times> int \<times> bool) option" where
  "fastpath_args [] st = Some st"
| "fastpath_args [a] (port, pin, busy) = (if a = ''--busy-poll'' then Some (port, pin, True) else None)"
| "fastpath_args (a # v # rest) (port, pin, busy) =
     (if a = ''--port'' then fastpath_args rest (v, pin, busy)
      else if a = ''--pin'' then (case fast_parse_u64 v of
          None \<Rightarrow> None
        | Some n \<Rightarrow> fastpath_args rest (port, sint (ucast n :: 32 word), busy))
      else if a = ''--busy-poll'' then fastpath_args (v # rest) (port, pin, True)
      else None)"

fun naive_args :: "string list \<Rightarrow> string \<Rightarrow> string option" where
  "naive_args [] port = Some port"
| "naive_args [a] port = None"
| "naive_args (a # v # rest) port = (if a = ''--port'' then naive_args rest v else None)"

record measure_opts =
  m_target :: string
  m_n :: "u64 option"
  m_warmup :: u64
  m_tag :: string

fun measure_args :: "string list \<Rightarrow> measure_opts \<Rightarrow> measure_opts option" where
  "measure_args [] m = Some m"
| "measure_args [a] m = None"
| "measure_args (a # v # rest) m =
     (if a = ''--target'' then measure_args rest (m\<lparr>m_target := v\<rparr>)
      else if a = ''--n'' then (case fast_parse_u64 v of
          None \<Rightarrow> None | Some n \<Rightarrow> measure_args rest (m\<lparr>m_n := Some n\<rparr>))
      else if a = ''--warmup'' then (case fast_parse_u64 v of
          None \<Rightarrow> None | Some n \<Rightarrow> measure_args rest (m\<lparr>m_warmup := n\<rparr>))
      else if a = ''--tag'' then measure_args rest (m\<lparr>m_tag := v\<rparr>)
      else None)"

definition exits :: "(int \<times> world) option \<Rightarrow> (fast_end \<times> world) option" where
  "exits m = do { (rc, w) \<leftarrow> m; Some (Exit_with rc, w) }"

definition fast_main :: "(rat \<Rightarrow> rat) \<Rightarrow> string list \<Rightarrow> world \<Rightarrow> (fast_end \<times> world) option" where
  "fast_main rnd args w = (case args of
     [] \<Rightarrow> fast_usage w
   | sub # rest \<Rightarrow>
       if sub = ''fastpath'' then (case fastpath_args rest ([], -1, False) of
           None \<Rightarrow> fast_usage w
         | Some (port_str, pin_cpu, busy_poll) \<Rightarrow> (case fast_parse_port port_str of
               None \<Rightarrow> fast_usage w
             | Some port \<Rightarrow> if pin_cpu < 0 then fast_usage w else exits (cmd_fastpath port pin_cpu busy_poll w)))
       else if sub = ''naive'' then (case naive_args rest [] of
           None \<Rightarrow> fast_usage w
         | Some port_str \<Rightarrow> (case fast_parse_port port_str of
               None \<Rightarrow> fast_usage w
             | Some port \<Rightarrow> exits (cmd_naive port w)))
       else if sub = ''measure'' then
         (case measure_args rest \<lparr>m_target = [], m_n = None, m_warmup = 200, m_tag = []\<rparr> of
           None \<Rightarrow> fast_usage w
         | Some m \<Rightarrow> (case (m_n m, rfind (CHR '':'') (m_target m)) of
               (Some n, Some colon) \<Rightarrow> if n = 0 then fast_usage w
                 else (case fast_parse_port (drop (colon + 1) (m_target m)) of
                     None \<Rightarrow> fast_usage w
                   | Some port \<Rightarrow> cmd_measure rnd (take colon (m_target m)) port n (m_warmup m) (m_tag m) w)
             | _ \<Rightarrow> fast_usage w))
       else fast_usage w)"

end
