(* ===== verification/FastpathProps.thy ===== *)
theory FastpathProps
  imports Fastpath
begin

text \<open>
  What is proved of the echo server and its client: the 64-bit fields survive the frame, a server
  echoes exactly the whole frames it received as long as the kernel takes its writes, the busy-poll
  mode breaks this on a full socket buffer, and a warm-up that wraps the counter leaves no sample.
\<close>

section \<open>The big-endian fields\<close>

lemma be64_step:
  "push_bit 8 (drop_bit (m + 8) (v :: u64)) OR ucast (ucast (drop_bit m v AND 0xff) :: byte) = drop_bit m v"
proof -
  have m: "(0xff :: u64) = mask 8" by (simp add: mask_eq_exp_minus_1)
  have e: "m + 8 + (n - 8) = m + n" if "\<not> n < 8" for n using that by simp
  show ?thesis unfolding m
  proof (rule bit_word_eqI)
    fix n
    assume "n < LENGTH(64)"
    then show "bit (push_bit 8 (drop_bit (m + 8) v) OR ucast (ucast (drop_bit m v AND mask 8) :: byte)) n = bit (drop_bit m v) n"
      by (cases "n < 8") (auto simp: bit_simps e dest: bit_imp_le_length)
  qed
qed

lemma get_put_u64be [simp]: "get_u64be (put_u64be v @ rest) = v"
proof -
  have "drop_bit 64 v = 0" by (intro bit_word_eqI) (auto simp: bit_simps dest: bit_imp_le_length)
  then show ?thesis
    using be64_step [of 56 v] be64_step [of 48 v] be64_step [of 40 v] be64_step [of 32 v]
      be64_step [of 24 v] be64_step [of 16 v] be64_step [of 8 v] be64_step [of 0 v]
    by (simp add: get_u64be_def put_u64be_def upt_conv_Cons)
qed

lemma length_put_u64be [simp]: "List.length (put_u64be v) = 8"
  by (simp add: put_u64be_def)

lemma length_build_frame [simp]: "List.length (build_frame seq t) = 64"
  by (simp add: build_frame_def)

lemma build_frame_ok [simp]:
  "frame_header_ok (build_frame seq t)" "get_u64be (drop 4 (build_frame seq t)) = seq" "get_u64be (drop 12 (build_frame seq t)) = t"
proof -
  have "drop 12 (build_frame seq t) = put_u64be t @ replicate 44 0"
    by (simp add: build_frame_def)
  then show "get_u64be (drop 12 (build_frame seq t)) = t" by simp
qed (simp_all add: build_frame_def frame_header_ok_def)

section \<open>Readers and the writer\<close>

text \<open>No write failed but by an interruption.\<close>

definition unfailed :: "(call \<times> answer option) list \<Rightarrow> bool" where
  "unfailed t \<longleftrightarrow> list_all (\<lambda>e. case e of (Write f bs, Some a) \<Rightarrow> rv a < 0 \<longrightarrow> eno a = EINTR | _ \<Rightarrow> True) t"

lemma unfailed_simps [simp]:
  "unfailed []" "unfailed (t @ u) \<longleftrightarrow> unfailed t \<and> unfailed u" "unfailed ((c, None) # t) = unfailed t"
  "unfailed ((Write f bs, Some a) # t) \<longleftrightarrow> (rv a < 0 \<longrightarrow> eno a = EINTR) \<and> unfailed t"
  "unfailed ((Read f n, x) # t) = unfailed t" "unfailed ((Recv f n, x) # t) = unfailed t" "unfailed ((Load_flag s, x) # t) = unfailed t"
  by (simp_all add: unfailed_def split: call.split)

text \<open>
  What a server needs of its reader: it consumes a whole frame or less than one, and writes nothing.
\<close>

locale frame_source = exact_reader read_all
  for read_all :: "int \<Rightarrow> nat \<Rightarrow> world \<Rightarrow> ((unit + byte list) \<times> world) option" +
  assumes reader_short: "read_all fd n w = Some (Inl e, w') \<Longrightarrow> honest (since w w') \<Longrightarrow> 0 < n \<Longrightarrow>
      List.length (received fd (since w w')) < n"
    and reader_quiet: "read_all fd n w = Some (r, w') \<Longrightarrow> accepted fd (since w w') = []"

lemma read_full_blocking_spec:
  assumes "read_full_blocking fd n w = Some (r, w')"
  shows "later w w' \<and> accepted fd (since w w') = [] \<and> (honest (since w w') \<longrightarrow>
    (case r of Inl e \<Rightarrow> List.length (received fd (since w w')) < n
     | Inr bs \<Rightarrow> received fd (since w w') = bs \<and> List.length bs = n))"
  using assms unfolding read_full_blocking_def
proof (rule loop_rule [where I = "\<lambda>buf v. later w v \<and> accepted fd (since w v) = [] \<and>
    (honest (since w v) \<longrightarrow> List.length buf \<le> n \<and> received fd (since w v) = buf)"], goal_cases)
  case 1
  show ?case by simp
next
  case (2 buf v buf' v')
  then obtain a where a: "sys (Read fd (n - List.length buf)) v = Some (a, v')"
    and "List.length buf < n" and o: "buf' = buf @ filled a"
    by (auto simp: read_blocking_turn_def split: if_splits)
  have "later w v'" and "since w v' = since w v @ [(Read fd (n - List.length buf), Some a)]"
    using 2 sys_after [OF _ a, of w] by simp_all
  with 2 o \<open>List.length buf < n\<close> show ?case by auto
next
  case (3 buf v r v')
  show ?case
  proof (cases "List.length buf < n")
    case True
    with 3 obtain a where a: "sys (Read fd (n - List.length buf)) v = Some (a, v')" and r: "r = Inl ()"
      and "filled a = []" by (auto simp: read_blocking_turn_def split: if_splits)
    moreover have "later w v'" and "since w v' = since w v @ [(Read fd (n - List.length buf), Some a)]"
      using 3 sys_after [OF _ a, of w] by simp_all
    ultimately show ?thesis using 3 True by auto
  next
    case False
    with 3 show ?thesis by (auto simp: read_blocking_turn_def)
  qed
qed

lemma read_full_busy_spec:
  assumes "read_full_busy fd n w = Some (r, w')"
  shows "later w w' \<and> accepted fd (since w w') = [] \<and> (honest (since w w') \<longrightarrow>
    (case r of Inl e \<Rightarrow> List.length (received fd (since w w')) < n
     | Inr bs \<Rightarrow> received fd (since w w') = bs \<and> List.length bs = n))"
  using assms unfolding read_full_busy_def
proof (rule loop_rule [where I = "\<lambda>buf v. later w v \<and> accepted fd (since w v) = [] \<and>
    (honest (since w v) \<longrightarrow> List.length buf \<le> n \<and> received fd (since w v) = buf)"], goal_cases)
  case 1
  show ?case by simp
next
  case (2 buf v buf' v')
  then obtain a v1 where a: "sys (Recv fd (n - List.length buf)) v = Some (a, v1)" and n: "List.length buf < n"
    and o: "v' = v1 \<and> buf' = buf @ filled a \<or> (\<exists>g. sys (Load_flag ''stop'') v1 = Some (g, v') \<and> buf' = buf \<and> rv a < 0)"
    by (auto simp: read_busy_turn_def split: if_splits)
  have s: "later w v1" "since w v1 = since w v @ [(Recv fd (n - List.length buf), Some a)]"
    using 2 sys_after [OF _ a, of w] by simp_all
  from o show ?case
  proof
    assume "v' = v1 \<and> buf' = buf @ filled a"
    with 2 s n show ?case by auto
  next
    assume "\<exists>g. sys (Load_flag ''stop'') v1 = Some (g, v') \<and> buf' = buf \<and> rv a < 0"
    then obtain g where g: "sys (Load_flag ''stop'') v1 = Some (g, v')" "buf' = buf" "filled a = []" by auto
    with 2 s sys_after [OF s(1) g(1)] show ?case by auto
  qed
next
  case (3 buf v r v')
  show ?case
  proof (cases "List.length buf < n")
    case True
    with 3 obtain a v1 where a: "sys (Recv fd (n - List.length buf)) v = Some (a, v1)" and r: "r = Inl ()"
      and f: "filled a = []" and o: "v' = v1 \<or> (\<exists>g. sys (Load_flag ''stop'') v1 = Some (g, v'))"
      by (auto simp: read_busy_turn_def split: if_splits)
    have s: "later w v1" "since w v1 = since w v @ [(Recv fd (n - List.length buf), Some a)]"
      using 3 sys_after [OF _ a, of w] by simp_all
    from o show ?thesis
    proof
      assume "v' = v1"
      with 3 s r f True show ?thesis by auto
    next
      assume "\<exists>g. sys (Load_flag ''stop'') v1 = Some (g, v')"
      then obtain g where g: "sys (Load_flag ''stop'') v1 = Some (g, v')" by blast
      from 3 s r f True sys_after [OF s(1) g] show ?thesis by auto
    qed
  next
    case False
    with 3 show ?thesis by (auto simp: read_busy_turn_def)
  qed
qed

interpretation fast_blocking: frame_source read_full_blocking
  by unfold_locales (auto dest: read_full_blocking_spec)

interpretation fast_busy: frame_source read_full_busy
  by unfold_locales (auto dest: read_full_busy_spec)

lemma fast_write_all_spec:
  assumes "fast_write_all fd data w = Some (r, w')"
  shows "later w w' \<and> received fd (since w w') = [] \<and>
    (honest (since w w') \<longrightarrow> unfailed (since w w') \<longrightarrow> accepted fd (since w w') = data)"
  using assms unfolding fast_write_all_def
proof (rule loop_rule [where I = "\<lambda>off v. later w v \<and> received fd (since w v) = [] \<and>
    (honest (since w v) \<longrightarrow> off \<le> List.length data \<and> accepted fd (since w v) = take off data)"],
    goal_cases)
  case 1
  show ?case by simp
next
  case (2 off v off' v')
  then obtain a where a: "sys (Write fd (drop off data)) v = Some (a, v')" and "off < List.length data"
    and o: "off' = off + nat (rv a)"
    by (auto simp: fast_write_turn_def split: if_splits)
  have "later w v'" and *: "since w v' = since w v @ [(Write fd (drop off data), Some a)]"
    using 2 sys_after [OF _ a, of w] by simp_all
  with 2 o show ?case by (auto simp: take_add)
next
  case (3 off v r v')
  show ?case
  proof (cases "off < List.length data")
    case True
    with 3 obtain a where a: "sys (Write fd (drop off data)) v = Some (a, v')" and "rv a < 0" "eno a \<noteq> EINTR"
      by (auto simp: fast_write_turn_def split: if_splits)
    moreover have "later w v'" and "since w v' = since w v @ [(Write fd (drop off data), Some a)]"
      using 3 sys_after [OF _ a, of w] by simp_all
    ultimately show ?thesis using 3 by auto
  next
    case False
    with 3 show ?thesis by (auto simp: fast_write_turn_def)
  qed
qed

section \<open>The echo\<close>

context frame_source
begin

lemma echoes:
  assumes "loop (echo_turn read_all fd) () w = Some (r, w')" and "honest (since w w')" and "unfailed (since w w')"
  shows "\<exists>rest. received fd (since w w') = accepted fd (since w w') @ rest \<and> List.length rest < 64 \<and>
    64 dvd List.length (accepted fd (since w w'))"
proof -
  have "later w w' \<and> (honest (since w w') \<and> unfailed (since w w') \<longrightarrow>
      (\<exists>rest. received fd (since w w') = accepted fd (since w w') @ rest \<and> List.length rest < 64 \<and>
        64 dvd List.length (accepted fd (since w w'))))"
    using assms(1)
  proof (rule loop_rule [where I = "\<lambda>_ v. later w v \<and> (honest (since w v) \<and> unfailed (since w v) \<longrightarrow>
      received fd (since w v) = accepted fd (since w v) \<and> 64 dvd List.length (accepted fd (since w v)))"], goal_cases)
    case 1
    show ?case by simp
  next
    case (2 u v u' v')
    then obtain buf v1 x where rd: "read_all fd 64 v = Some (Inr buf, v1)" and wr: "fast_write_all fd buf v1 = Some (x, v')"
      by (auto simp: echo_turn_def case_sum_Some)
    have l: "later v v1" "later v1 v'" using reader_later [OF rd] fast_write_all_spec [OF wr] by simp_all
    have "later w v'" using 2 l by (blast intro: later_trans)
    moreover have s: "since w v' = since w v @ since v v1 @ since v1 v'"
      using 2 l since_trans [of w v v'] since_trans [of v v1 v'] later_trans [of v v1 v'] by simp
    ultimately show ?case
      using 2 reader_quiet [OF rd] reader_exact [OF rd] fast_write_all_spec [OF wr] by auto
  next
    case (3 u v r v')
    then obtain e where rd: "read_all fd 64 v = Some (Inl e, v')"
      by (auto simp: echo_turn_def case_sum_Some)
    have l: "later v v'" by (rule reader_later [OF rd])
    then show ?case
      using 3 reader_quiet [OF rd] reader_short [OF rd] later_trans [of w v v'] since_trans [of w v v'] by auto
  qed
  with assms(2,3) show ?thesis by blast
qed

end

text \<open>
  C19: The server echoes. On one connection, in either mode, as long as no write of the server fails
  for good, what it sent back when the connection ends is exactly the whole frames it received, in
  order, and less than one frame is left unanswered.
\<close>

theorem fast_echo:
  assumes "loop (echo_turn (if busy_poll then read_full_busy else read_full_blocking) fd) () w = Some ((), w')"
    and "honest (since w w')" and "unfailed (since w w')"
  shows "\<exists>rest. received fd (since w w') = accepted fd (since w w') @ rest \<and> List.length rest < 64 \<and>
    64 dvd List.length (accepted fd (since w w'))"
  using assms fast_busy.echoes [of fd w "()" w'] fast_blocking.echoes [of fd w "()" w'] by (cases busy_poll) simp_all

theorem fast_echo_witness:
  "let t = trace (snd (the (loop (echo_turn read_full_blocking 5) ()
        (answering [gave (replicate 20 7), gave (replicate 44 8), returned 30, failed EINTR, returned 34, gave []])))) in
    \<exists>rest. received 5 t = accepted 5 t @ rest \<and> List.length rest < 64 \<and> 64 dvd List.length (accepted 5 t)"
proof -
  let ?w = "answering [gave (replicate 20 7), gave (replicate 44 8), returned 30, failed EINTR, returned 34, gave []]"
  obtain w' where w': "loop (echo_turn read_full_blocking 5) () ?w = Some ((), w')"
    and s: "since ?w w' = trace w'" "honest (trace w')" "unfailed (trace w')"
    by (simp add: echo_turn_def read_full_blocking_def read_blocking_turn_def fast_write_all_def fast_write_turn_def loop.simps io_defs since_def)
  from fast_echo [of False 5 ?w w'] w' s show ?thesis by simp
qed

text \<open>
  A full socket buffer breaks the busy-poll echo. The socket is non-blocking there, and \<open>write_all\<close>
  gives up on the first \<open>EAGAIN\<close> with the rest of the frame unsent, but the loop goes on: after ten
  bytes of the first frame the client receives the second one, and every later frame out of step.
\<close>

lemma fast_busy_desync:
  "\<exists>w w'. loop (echo_turn read_full_busy 5) () w = Some ((), w') \<and> honest (since w w') \<and>
    received 5 (since w w') = replicate 64 7 @ replicate 64 8 \<and>
    accepted 5 (since w w') = replicate 10 7 @ replicate 64 8"
proof -
  let ?w = "answering [gave (replicate 64 7), returned 10, failed EAGAIN, gave (replicate 64 8), returned 64, gave []]"
  obtain w' where "loop (echo_turn read_full_busy 5) () ?w = Some ((), w')" "honest (since ?w w')"
    "received 5 (since ?w w') = replicate 64 7 @ replicate 64 8" "accepted 5 (since ?w w') = replicate 10 7 @ replicate 64 8"
    by (simp add: echo_turn_def read_full_busy_def read_busy_turn_def fast_write_all_def fast_write_turn_def loop.simps io_defs since_def)
  then show ?thesis by blast
qed

section \<open>The measurement\<close>

lemma measure_turnE:
  assumes "measure_turn fd count warmup (i, samples) w = Some (Continue st, w')"
  obtains t_send t_recv inb w1 w2 w3 u where "i < count" "now_ns w = Some (t_send, w1)" "fast_write_all fd (build_frame i 0) w1 = Some (u, w2)"
    "read_full_blocking fd 64 w2 = Some (Inr inb, w3)" "now_ns w3 = Some (t_recv, w')" "frame_header_ok inb" "get_u64be (drop 4 inb) = i"
    "st = (i + 1, if warmup \<le> i then samples @ [t_recv - t_send] else samples)"
  using assms by (auto simp: measure_turn_def case_sum_Some split: if_splits)

lemma now_ns_quiet: "now_ns w = Some (t, w') \<Longrightarrow> later w w' \<and> accepted fd (since w w') = [] \<and> honest (since w w') \<and> unfailed (since w w')"
proof -
  assume "now_ns w = Some (t, w')"
  then obtain a where "sys Clock_ns w = Some (a, w')" by (auto simp: now_ns_def simp del: sys_Some_iff)
  from sys_SomeE(1,2) [OF this] show ?thesis by (simp add: unfailed_def)
qed

definition pings :: "nat \<Rightarrow> byte list" where
  "pings k = concat (List.map (\<lambda>i. build_frame (word_of_nat i) 0) [0..<k])"

definition measure_inv :: "int \<Rightarrow> u64 \<Rightarrow> u64 \<Rightarrow> world \<Rightarrow> u64 \<times> u64 list \<Rightarrow> world \<Rightarrow> bool" where
  "measure_inv fd count warmup w st v \<longleftrightarrow> later w v \<and> fst st \<le> count \<and> List.length (snd st) = unat (fst st) - unat warmup \<and>
     (honest (since w v) \<and> unfailed (since w v) \<longrightarrow> accepted fd (since w v) = pings (unat (fst st)))"

lemma measure_inv_turn:
  assumes inv: "measure_inv fd count warmup w st v" and turn: "measure_turn fd count warmup st v = Some (Continue st', v')"
  shows "measure_inv fd count warmup w st' v'"
proof -
  obtain i samples where st: "st = (i, samples)" by (cases st)
  from turn [unfolded st] obtain t_send t_recv inb w1 w2 w3 u where t: "i < count" "now_ns v = Some (t_send, w1)"
    "fast_write_all fd (build_frame i 0) w1 = Some (u, w2)" "read_full_blocking fd 64 w2 = Some (Inr inb, w3)"
    "now_ns w3 = Some (t_recv, v')" "st' = (i + 1, if warmup \<le> i then samples @ [t_recv - t_send] else samples)"
    by (rule measure_turnE)
  have "unat i < unat count" using t(1) by (simp add: word_less_nat_alt)
  moreover have "unat count < 2 ^ 64" by (rule order.strict_trans2 [OF unsigned_less]) simp
  ultimately have "unat i + 1 < 2 ^ 64" by linarith
  then have i: "unat (i + 1) = Suc (unat i)" by (simp add: unat_word_ariths)
  have l: "later v w1" "later w1 w2" "later w2 w3" "later w3 v'"
    using now_ns_quiet [OF t(2)] fast_write_all_spec [OF t(3)] read_full_blocking_spec [OF t(4)] now_ns_quiet [OF t(5)] by blast+
  then have l': "later v v'" "since v v' = since v w1 @ since w1 w2 @ since w2 w3 @ since w3 v'"
    using later_trans [of v w1 w2] later_trans [of v w2 w3] later_trans [of v w3 v']
      since_trans [of v w1 w2] since_trans [of v w2 w3] since_trans [of v w3 v'] by simp_all
  have w: "later w v" using inv by (simp add: measure_inv_def)
  have w': "later w v'" "since w v' = since w v @ since v v'" using w l'(1) later_trans [of w v v'] since_trans [of w v v'] by simp_all
  have "pings (unat (i + 1)) = pings (unat i) @ build_frame i 0" by (simp add: pings_def i)
  moreover have "honest (since v v') \<Longrightarrow> unfailed (since v v') \<Longrightarrow> accepted fd (since v v') = build_frame i 0"
    using now_ns_quiet [OF t(2)] fast_write_all_spec [OF t(3)] read_full_blocking_spec [OF t(4)] now_ns_quiet [OF t(5)]
    by (simp add: l'(2))
  moreover have "i + 1 \<le> count" using t(1) by (simp add: word_le_nat_alt word_less_nat_alt i)
  ultimately show ?thesis
    using inv w' i by (auto simp: measure_inv_def st t(6) word_le_nat_alt)
qed

lemma measure_loop_spec:
  assumes "loop (measure_turn fd (n + warmup) warmup) (0, []) w = Some (r, w')"
    and "unat n + unat warmup < 2 ^ 64" and "r = Inr samples"
  shows "List.length samples = unat n \<and> (honest (since w w') \<and> unfailed (since w w') \<longrightarrow>
    accepted fd (since w w') = pings (unat n + unat warmup))"
proof -
  have count: "unat (n + warmup) = unat n + unat warmup" using assms(2) by (simp add: unat_word_ariths)
  have "\<forall>samples. r = Inr samples \<longrightarrow> List.length samples = unat n \<and> (honest (since w w') \<and> unfailed (since w w') \<longrightarrow>
      accepted fd (since w w') = pings (unat n + unat warmup))"
    using assms(1)
  proof (rule loop_rule [where I = "measure_inv fd (n + warmup) warmup w"], goal_cases)
    case 1
    show ?case by (simp add: measure_inv_def pings_def)
  next
    case (2 st v st' v')
    then show ?case by (rule measure_inv_turn)
  next
    case (3 st v r v')
    obtain i xs where st: "st = (i, xs)" by (cases st)
    show ?case
    proof (intro allI impI)
      fix samples
      assume "r = Inr samples"
      with 3(2) have "\<not> i < n + warmup" "samples = xs" "v' = v" by (auto simp: st measure_turn_def case_sum_Some split: if_splits)
      moreover from this 3(1) have "i = n + warmup" by (simp add: measure_inv_def st)
      ultimately show "List.length samples = unat n \<and> (honest (since w v') \<and> unfailed (since w v') \<longrightarrow>
          accepted fd (since w v') = pings (unat n + unat warmup))"
        using 3(1) by (simp add: measure_inv_def st count)
    qed
  qed
  with assms(3) show ?thesis by blast
qed

text \<open>
  A measurement that succeeds measured what it was asked to. Where the number of samples and the
  warm-up do not wrap around 64 bits, a loop that ends without an error has exactly n samples, and
  what it sent is the frames numbered from 0 to the last, each once and in order.
\<close>

lemma fast_measure_samples:
  assumes "loop (measure_turn fd (n + warmup) warmup) (0, []) w = Some (Inr samples, w')"
    and "unat n + unat warmup < 2 ^ 64" and "honest (since w w')" and "unfailed (since w w')"
  shows "List.length samples = unat n \<and> accepted fd (since w w') = pings (unat n + unat warmup)"
  using measure_loop_spec [OF assms(1,2) refl] assms(3,4) by simp

text \<open>
  A warm-up that wraps the count leaves nothing to report: with the two's complement of n as the
  warm-up, which the command line accepts, the client connects, exchanges no frame and reads the
  first element of an empty vector.
\<close>

lemma fast_warmup_wraps:
  assumes "fast_connect_tcp host port w = Some (Inr conn, w1)" and "unat n \<le> 1152921504606846975"
  shows "\<exists>w'. cmd_measure rnd host port n (- n) tag w = Some (Undefined_front, w')"
  using assms by (simp add: cmd_measure_def measure_turn_def loop.simps not_less)

end
