(* ===== verification/Std_Map.thy ===== *)
theory Std_Map
  imports Main
begin

text \<open>
  \<open>std::map\<close> as the programs use it: an interface with what insertion, removal and iteration in key
  order promise, the lemmas its clients need proved from these laws, and the model, a list of pairs
  sorted by key.
\<close>

section \<open>The interface\<close>

locale ordered_map =
  fixes empty :: "'m"
    and put :: "'k::linorder \<Rightarrow> 'v \<Rightarrow> 'm \<Rightarrow> 'm"
    and get :: "'m \<Rightarrow> 'k \<Rightarrow> 'v option"
    and items :: "'m \<Rightarrow> ('k \<times> 'v) list"
    and ok :: "'m \<Rightarrow> bool"
  assumes ok_empty: "ok empty"
    and ok_put: "ok m \<Longrightarrow> ok (put k v m)"
    and get_empty: "get empty = (\<lambda>_. None)"
    and get_put: "ok m \<Longrightarrow> get (put k v m) = (get m)(k \<mapsto> v)"
    and items_get: "ok m \<Longrightarrow> (k, v) \<in> set (items m) \<longleftrightarrow> get m k = Some v"
    and items_sorted: "ok m \<Longrightarrow> sorted_wrt (<) (List.map fst (items m))"
begin

lemma ok_puts: "ok m \<Longrightarrow> ok (fold (\<lambda>(k, v). put k v) kvs m)"
  by (induction kvs arbitrary: m) (auto simp: ok_put split: prod.split)

lemma get_puts: "ok m \<Longrightarrow> get (fold (\<lambda>(k, v). put k v) kvs m) = get m ++ map_of (rev kvs)"
  by (induction kvs arbitrary: m) (auto simp: ok_put get_put map_add_def fun_eq_iff split: option.split)

lemma distinct_keys: "ok m \<Longrightarrow> distinct (List.map fst (items m))"
  using items_sorted [of m] by (simp add: strict_sorted_iff)

lemma items_map_of: "ok m \<Longrightarrow> map_of (items m) = get m"
proof
  fix k
  assume m: "ok m"
  show "map_of (items m) k = get m k"
  proof (cases "get m k")
    case None
    with m have "k \<notin> fst ` set (items m)" by (auto simp: items_get)
    with None show ?thesis by (simp add: map_of_eq_None_iff)
  next
    case (Some v)
    with m show ?thesis by (simp add: items_get distinct_keys)
  qed
qed

lemma keys_dom: "ok m \<Longrightarrow> set (List.map fst (items m)) = dom (get m)"
  by (simp add: dom_map_of_conv_image_fst flip: items_map_of)

end

section \<open>The model\<close>

fun map_put :: "'k::linorder \<Rightarrow> 'v \<Rightarrow> ('k \<times> 'v) list \<Rightarrow> ('k \<times> 'v) list" where
  "map_put k v [] = [(k, v)]"
| "map_put k v ((a, b) # m) =
     (if k < a then (k, v) # (a, b) # m
      else if k = a then (k, v) # m
      else (a, b) # map_put k v m)"

abbreviation map_ok :: "('k::linorder \<times> 'v) list \<Rightarrow> bool" where
  "map_ok m \<equiv> sorted_wrt (<) (List.map fst m)"

lemma map_put_keys: "fst ` set (map_put k v m) = insert k (fst ` set m)"
proof (induction m)
  case Nil
  then show ?case by simp
next
  case (Cons p m)
  then show ?case by (cases p) (simp add: insert_commute)
qed

lemma map_ok_Cons: "map_ok ((a, b) # m) \<longleftrightarrow> (\<forall>x \<in> fst ` set m. a < x) \<and> map_ok m"
  by simp

lemma map_ok_put: "map_ok m \<Longrightarrow> map_ok (map_put k v m)"
proof (induction m)
  case Nil
  then show ?case by simp
next
  case (Cons p m)
  obtain a b where p: "p = (a, b)" by (cases p)
  from Cons.prems have m: "\<forall>x \<in> fst ` set m. a < x" "map_ok m" unfolding p map_ok_Cons by simp_all
  consider "k < a" | "k = a" | "a < k" by (rule linorder_cases)
  then show ?case
  proof cases
    case 1
    then show ?thesis using m by (auto simp: p intro: less_trans)
  next
    case 2
    then show ?thesis using m by (simp add: p)
  next
    case 3
    then have put: "map_put k v (p # m) = (a, b) # map_put k v m" by (auto simp: p)
    show ?thesis using Cons.IH [OF m(2)] m(1) 3 unfolding put map_ok_Cons map_put_keys by simp
  qed
qed

lemma map_of_put: "map_of (map_put k v m) = (map_of m)(k \<mapsto> v)"
  by (induction m) auto

interpretation smap: ordered_map "[]" map_put map_of "\<lambda>m. m" map_ok
proof unfold_locales
  fix m :: "('k::linorder \<times> 'v) list" and k v
  assume "map_ok m"
  then have "distinct (List.map fst m)" by (simp add: strict_sorted_iff)
  then show "(k, v) \<in> set m \<longleftrightarrow> map_of m k = Some v" by simp
qed (simp_all add: map_ok_put map_of_put)

text \<open>\<open>std::set\<close>: the insertion of an element that may be there.\<close>

definition set_ins :: "'a::linorder \<Rightarrow> 'a list \<Rightarrow> 'a list" where
  "set_ins x s = (if x \<in> set s then s else insort x s)"

lemma set_set_ins [simp]: "set (set_ins x s) = insert x (set s)"
  by (auto simp: set_ins_def set_insort_key)

lemma set_ins_fold: "set (fold set_ins xs s) = set xs \<union> set s"
  by (induction xs arbitrary: s) auto

lemma sorted_set_ins: "sorted s \<and> distinct s \<Longrightarrow> sorted (set_ins x s) \<and> distinct (set_ins x s)"
  by (simp add: set_ins_def sorted_insort distinct_insort)

lemma sorted_set_ins_fold: "sorted s \<and> distinct s \<Longrightarrow> sorted (fold set_ins xs s) \<and> distinct (fold set_ins xs s)"
  by (induction xs arbitrary: s) (simp_all add: sorted_set_ins)

end
