(* ===== verification/Sandbox.thy ===== *)
theory Sandbox
  imports Fwatch Streams Std_Map
begin

text \<open>
  The sandboxed watcher, \<open>main.cpp\<close> of \<open>examples/33-seccomp-and-landlock\<close>: snapshots of a directory
  and their comparison, the Landlock domain and the system call filter, the event loop that
  debounces the events of a file, the two probes and the command line. \<open>SandboxProps\<close> has the
  theorems.
\<close>

section \<open>Landlock and seccomp\<close>

definition sb_landlock_abi :: "world \<Rightarrow> (int \<times> world) option" where
  "sb_landlock_abi w = do {
     (v, w) \<leftarrow> sys (Fs Fs_landlock_version) w;
     Some (if rv v < 0 then 0 else rv v, w) }"

text \<open>The descriptor of the directory is closed early on success, and by its destructor otherwise.\<close>

definition sb_apply_landlock :: "string \<Rightarrow> world \<Rightarrow> ((error_code + unit) \<times> world) option" where
  "sb_apply_landlock dir w = do {
     (rs, w) \<leftarrow> sys (Fs (Fs_landlock_create landlock_access)) w;
     if rv rs < 0 then Some (Inl (System_error (eno rs)), w)
     else do {
       let ruleset = rv rs;
       (d, w) \<leftarrow> sys (Fs (Fs_open_dir dir)) w;
       if rv d < 0 then Some (Inl (System_error (eno d)), fd_reset ruleset w)
       else do {
         (added, w) \<leftarrow> sys (Fs (Fs_landlock_add ruleset (rv d) landlock_access)) w;
         let w = fd_reset (rv d) w;
         if rv added < 0 then Some (Inl (System_error (eno added)), fd_reset ruleset w)
         else do {
           (p, w) \<leftarrow> sys (Proc Proc_no_new_privs) w;
           if rv p < 0 then Some (Inl (System_error (eno p)), fd_reset ruleset w)
           else do {
             (r, w) \<leftarrow> sys (Fs (Fs_landlock_restrict ruleset)) w;
             if rv r < 0 then Some (Inl (System_error (eno r)), fd_reset ruleset w)
             else Some (Inr (), fd_reset ruleset w) } } } } }"

definition kWatchSyscalls :: "string list" where
  "kWatchSyscalls =
     [''read'', ''write'', ''close'', ''inotify_init1'', ''inotify_add_watch'', ''timerfd_create'',
      ''timerfd_settime'', ''signalfd4'', ''epoll_create1'', ''epoll_ctl'', ''epoll_wait'', ''rt_sigprocmask'',
      ''mmap'', ''munmap'', ''mremap'', ''brk'', ''rt_sigreturn'', ''exit_group'', ''exit'', ''fstat'', ''newfstatat'',
      ''lseek'', ''clock_gettime'', ''clock_nanosleep'', ''nanosleep'', ''getrandom'']"

abbreviation EPERM :: int where "EPERM \<equiv> 1"
abbreviation ENOMEM :: int where "ENOMEM \<equiv> 12"
abbreviation EACCES :: int where "EACCES \<equiv> 13"

text \<open>
  \<open>seccomp_rule_add\<close> returns its error and leaves \<open>errno\<close> alone, but the code reports \<open>errno\<close>; what it
  holds is the \<open>errno\<close> of the answer. \<open>seccomp_init\<close> answers 0 for a null context.
\<close>

fun seccomp_allow_each :: "string list \<Rightarrow> world \<Rightarrow> ((error_code + unit) \<times> world) option" where
  "seccomp_allow_each [] w = Some (Inr (), w)"
| "seccomp_allow_each (c # cs) w = do {
     (r, w) \<leftarrow> sys (Proc (Proc_seccomp_allow c)) w;
     if rv r < 0 then Some (Inl (System_error (eno r)), emit (Proc Proc_seccomp_release) w)
     else seccomp_allow_each cs w }"

definition install_seccomp :: "string list \<Rightarrow> int \<Rightarrow> world \<Rightarrow> ((error_code + nat) \<times> world) option" where
  "install_seccomp allowed deny_errno w = do {
     (ctx, w) \<leftarrow> sys (Proc (Proc_seccomp_init deny_errno)) w;
     if rv ctx = 0 then Some (Inl (System_error ENOMEM), w)
     else io_try (seccomp_allow_each allowed w) (\<lambda>_ w. do {
       (loaded, w) \<leftarrow> sys (Proc Proc_seccomp_load) w;
       let w = emit (Proc Proc_seccomp_release) w;
       if rv loaded < 0 then Some (Inl (System_error (- rv loaded)), w)
       else Some (Inr (List.length allowed), w) }) }"

section \<open>Snapshots\<close>

record file_state =
  fs_name :: string
  fs_size :: u64
  fs_mtime_ns :: int

text \<open>
  The directory is a parameter: the error \<open>directory_iterator\<close> reports, or the names it yields, each
  with what \<open>fstatat\<close> says (nothing where it fails): regular or not, size, seconds and nanoseconds
  of the modification time. The order on strings is the byte-wise order of \<open>std::string\<close>.
\<close>

type_synonym dir_entry = "string \<times> (bool \<times> u64 \<times> int \<times> int) option"

fun file_states :: "dir_entry list \<Rightarrow> file_state list" where
  "file_states [] = []"
| "file_states ((name, None) # es) = file_states es"
| "file_states ((name, Some (regular, sz, sec, nsec)) # es) =
     (if regular then \<lparr>fs_name = name, fs_size = sz, fs_mtime_ns = sec * 1000000000 + nsec\<rparr> # file_states es
      else file_states es)"

definition scan_dir :: "error_code + dir_entry list \<Rightarrow> error_code + file_state list" where
  "scan_dir d = (case d of
     Inl e \<Rightarrow> Inl e
   | Inr es \<Rightarrow> Inr (sort_key fs_name (file_states es)))"

definition snapshot_line :: "file_state \<Rightarrow> string" where
  "snapshot_line f = fs_name f @ [CHR 0x09] @ show_nat (unat (fs_size f)) @ [CHR 0x09] @ show_int (fs_mtime_ns f)"

definition sb_cmd_snapshot :: "error_code + dir_entry list \<Rightarrow> string \<Rightarrow> world \<Rightarrow> int \<times> world" where
  "sb_cmd_snapshot d dir w = (case scan_dir d of
     Inl e \<Rightarrow> (1, println Stderr [Txt (''fwatch: snapshot: '' @ dir @ '': ''), ErrorCode e] w)
   | Inr files \<Rightarrow> (0, fold (\<lambda>f. println Stdout [Txt (snapshot_line f)]) files w))"

text \<open>A line is split at its last two tabs, or skipped.\<close>

definition split_line :: "string \<Rightarrow> (string \<times> string) option" where
  "split_line line = (case rfind (CHR 0x09) line of
     None \<Rightarrow> None
   | Some tab2 \<Rightarrow> if tab2 = 0 then None
       else (case rfind (CHR 0x09) (take tab2 line) of
         None \<Rightarrow> None
       | Some tab1 \<Rightarrow> Some (take tab1 line, drop (tab1 + 1) line)))"

definition parse_snapshot :: "string \<Rightarrow> (string \<times> string) list" where
  "parse_snapshot content = fold (\<lambda>line m. case split_line line of None \<Rightarrow> m | Some (k, v) \<Rightarrow> map_put k v m) (getlines content) []"

abbreviation ENOENT :: int where "ENOENT \<equiv> 2"

definition load_snapshot :: "string \<Rightarrow> world \<Rightarrow> ((error_code + (string \<times> string) list) \<times> world) option" where
  "load_snapshot path w = do {
     (f, w) \<leftarrow> sys (Fs (Fs_read_file path)) w;
     if rv f < 0 then Some (Inl (System_error ENOENT), w)
     else Some (Inr (parse_snapshot (chars_of (dat f))), w) }"

definition diff_line :: "(string \<times> string) list \<Rightarrow> (string \<times> string) list \<Rightarrow> string \<Rightarrow> string list" where
  "diff_line old_snap new_snap name = (case map_of old_snap name of
     None \<Rightarrow> [''created '' @ name]
   | Some s \<Rightarrow> (case map_of new_snap name of
       None \<Rightarrow> [''deleted '' @ name]
     | Some s' \<Rightarrow> if s \<noteq> s' then [''modified '' @ name] else []))"

definition diff_lines :: "(string \<times> string) list \<Rightarrow> (string \<times> string) list \<Rightarrow> string list" where
  "diff_lines old_snap new_snap =
     (let names = fold set_ins (List.map fst new_snap) (fold set_ins (List.map fst old_snap) [])
      in concat (List.map (diff_line old_snap new_snap) names))"

definition sb_cmd_diff :: "string \<Rightarrow> string \<Rightarrow> world \<Rightarrow> (int \<times> world) option" where
  "sb_cmd_diff old_path new_path w = do {
     (old_snap, w) \<leftarrow> load_snapshot old_path w;
     (case old_snap of
       Inl e \<Rightarrow> Some (1, println Stderr [Txt (''fwatch: diff: '' @ old_path @ '': ''), ErrorCode e] w)
     | Inr old_snap \<Rightarrow> do {
         (new_snap, w) \<leftarrow> load_snapshot new_path w;
         (case new_snap of
           Inl e \<Rightarrow> Some (1, println Stderr [Txt (''fwatch: diff: '' @ new_path @ '': ''), ErrorCode e] w)
         | Inr new_snap \<Rightarrow> Some (0, fold (\<lambda>l. println Stdout [Txt l]) (diff_lines old_snap new_snap) w)) }) }"

section \<open>Events\<close>

datatype kind = Created | Modified | Deleted

fun kind_name :: "kind \<Rightarrow> string" where
  "kind_name Created = ''created''"
| "kind_name Modified = ''modified''"
| "kind_name Deleted = ''deleted''"

abbreviation IN_ATTRIB :: u32 where "IN_ATTRIB \<equiv> 4"
abbreviation IN_MOVED_FROM :: u32 where "IN_MOVED_FROM \<equiv> 64"
abbreviation IN_MOVED_TO :: u32 where "IN_MOVED_TO \<equiv> 128"

definition sb_classify :: "u32 \<Rightarrow> kind option" where
  "sb_classify m =
     (if m AND (IN_CREATE OR IN_MOVED_TO) \<noteq> 0 then Some Created
      else if m AND (IN_DELETE OR IN_MOVED_FROM) \<noteq> 0 then Some Deleted
      else if m AND (IN_MODIFY OR IN_ATTRIB) \<noteq> 0 then Some Modified
      else None)"

definition merge :: "kind option \<Rightarrow> kind \<Rightarrow> kind" where
  "merge old_kind new_kind = (case old_kind of
     None \<Rightarrow> new_kind
   | Some old_kind \<Rightarrow>
       if new_kind = Deleted then Deleted
       else if old_kind = Created then Created
       else Modified)"

text \<open>A pending event: its kind and when it is due, in nanoseconds of the steady clock.\<close>

type_synonym pending = "(string \<times> kind \<times> int) list"

abbreviation kDebounce :: int where "kDebounce \<equiv> 100000000"

definition note_event :: "int \<Rightarrow> u32 \<times> string \<Rightarrow> pending \<Rightarrow> pending" where
  "note_event now = (\<lambda>(m, name) pending. case sb_classify m of
     None \<Rightarrow> pending
   | Some k \<Rightarrow> map_put name (merge (map_option fst (map_of pending name)) k, now + kDebounce) pending)"

text \<open>
  The pointer walk over the buffer: \<open>p\<close> runs up to \<open>got\<close>, and what lies beyond is whatever the 4096
  bytes held, the parameter \<open>stale\<close>. The length field decides, not the bytes read.
\<close>

function walk_events :: "byte list \<Rightarrow> nat \<Rightarrow> nat \<Rightarrow> (u32 \<times> string) list" where
  "walk_events mem p got =
     (if p < got then
        let m = word_of_nat (le32_at (p + 4) mem); len = le32_at (p + 12) mem
        in (if len = 0 then [] else [(m, c_string (drop (p + 16) mem))]) @ walk_events mem (p + 16 + len) got
      else [])"
  by pat_completeness auto
termination by (relation "measure (\<lambda>(mem, p, got). got - p)") auto

declare walk_events.simps [simp del]

section \<open>The timer and the report\<close>

definition arm_timer :: "int \<Rightarrow> int \<Rightarrow> world \<Rightarrow> ((error_code + unit) \<times> world) option" where
  "arm_timer tfd rel w =
     (let rel = (if rel \<le> 0 then 1 else rel)
      in do {
        (s, w) \<leftarrow> sys (Tm (Tm_settime tfd 0 rel)) w;
        if rv s \<noteq> 0 then Some (Inl (System_error (eno s)), w) else Some (Inr (), w) })"

definition is_due :: "int \<Rightarrow> bool \<Rightarrow> string \<times> kind \<times> int \<Rightarrow> bool" where
  "is_due now every p \<longleftrightarrow> every \<or> snd (snd p) \<le> now"

definition event_line :: "string \<times> kind \<times> int \<Rightarrow> string" where
  "event_line p = ''event: '' @ kind_name (fst (snd p)) @ '' '' @ fst p"

definition sb_flush :: "pending \<Rightarrow> int \<Rightarrow> bool \<Rightarrow> world \<Rightarrow> pending \<times> world" where
  "sb_flush pending now every w =
     (filter (\<lambda>p. \<not> is_due now every p) pending,
      emit (Fflush Stdout) (fold (\<lambda>p. println Stdout [Txt (event_line p)]) (filter (is_due now every) pending) w))"

section \<open>The watch loop\<close>

definition sb_read_turn :: "int \<Rightarrow> byte list \<Rightarrow> pending \<Rightarrow> world \<Rightarrow> ((pending, pending) ctl \<times> world) option" where
  "sb_read_turn ifd stale pending w = do {
     (got, w) \<leftarrow> sys (Read ifd 4096) w;
     if rv got \<le> 0 then Some (Break pending, w)
     else do {
       (now, w) \<leftarrow> sys Clock_ns w;
       Some (Continue (fold (note_event (rv now)) (walk_events (filled got @ stale) 0 (nat (rv got))) pending), w) } }"

abbreviation tok_inotify :: nat where "tok_inotify \<equiv> 0"
abbreviation tok_timer :: nat where "tok_timer \<equiv> 1"
abbreviation tok_signal :: nat where "tok_signal \<equiv> 2"

text \<open>The ready tokens of one \<open>epoll_wait\<close>: the pending map, or the end of the loop.\<close>

fun sb_tokens :: "int \<Rightarrow> int \<Rightarrow> int \<Rightarrow> byte list \<Rightarrow> int \<Rightarrow> nat list \<Rightarrow> pending \<Rightarrow> world \<Rightarrow> ((int + pending) \<times> world) option" where
  "sb_tokens ifd tfd sfd stale deadline [] pending w = Some (Inr pending, w)"
| "sb_tokens ifd tfd sfd stale deadline (tok # toks) pending w =
     (if tok = tok_inotify then do {
        (pending, w) \<leftarrow> loop (sb_read_turn ifd stale) pending w;
        sb_tokens ifd tfd sfd stale deadline toks pending w }
      else if tok = tok_timer then do {
        (_, w) \<leftarrow> sys (Read tfd 8) w;
        (now, w) \<leftarrow> sys Clock_ns w;
        if rv now \<ge> deadline then
          Some (Inl 0, println Stdout [Txt ''fwatch: exiting (timeout)''] (snd (sb_flush pending (rv now) True w)))
        else (case sb_flush pending (rv now) False w of (pending, w) \<Rightarrow>
          sb_tokens ifd tfd sfd stale deadline toks pending w) }
      else if tok = tok_signal then do {
        (_, w) \<leftarrow> sys (Read sfd 128) w;
        (now, w) \<leftarrow> sys Clock_ns w;
        Some (Inl 0, println Stdout [Txt ''fwatch: exiting (signal)''] (snd (sb_flush pending (rv now) True w))) }
      else sb_tokens ifd tfd sfd stale deadline toks pending w)"

definition next_due :: "int \<Rightarrow> pending \<Rightarrow> int" where
  "next_due deadline pending = fold (\<lambda>p d. min d (snd (snd p))) pending deadline"

definition sb_watch_turn :: "int \<Rightarrow> int \<Rightarrow> int \<Rightarrow> int \<Rightarrow> byte list \<Rightarrow> int \<Rightarrow> pending \<Rightarrow> world \<Rightarrow> ((pending, int) ctl \<times> world) option" where
  "sb_watch_turn ifd tfd sfd efd stale deadline pending w = do {
     (now, w) \<leftarrow> sys Clock_ns w;
     (armed, w) \<leftarrow> arm_timer tfd (next_due deadline pending - rv now) w;
     (case armed of
       Inl e \<Rightarrow> Some (Break 1, println Stderr [Txt ''fwatch: watch: timerfd_settime: '', ErrorCode e] w)
     | Inr _ \<Rightarrow> do {
         (n, w) \<leftarrow> sys (Ev (Ev_epoll_wait 8)) w;
         if rv n < 0 then
           if eno n = EINTR then Some (Continue pending, w)
           else Some (Break 1, println Stderr [Txt ''fwatch: watch: epoll_wait: '', ErrorCode (System_error (eno n))] w)
         else do {
           (r, w) \<leftarrow> sb_tokens ifd tfd sfd stale deadline (List.map fst (take (nat (rv n)) (evs n))) pending w;
           (case r of Inl rc \<Rightarrow> Some (Break rc, w) | Inr pending \<Rightarrow> Some (Continue pending, w)) } }) }"

definition sb_make_signalfd :: "world \<Rightarrow> ((error_code + int) \<times> world) option" where
  "sb_make_signalfd w = do {
     (m, w) \<leftarrow> sys (Proc Proc_block_signals) w;
     if rv m \<noteq> 0 then Some (Inl (System_error (eno m)), w)
     else do {
       (s, w) \<leftarrow> sys (Ev Ev_signalfd) w;
       if rv s < 0 then Some (Inl (System_error (eno s)), w) else Some (Inr (rv s), w) } }"

text \<open>\<open>add(...).and_then(...)\<close>: the first failure ends the chain. \<open>EPOLLIN\<close> has the value of \<open>POLLIN\<close>.\<close>

fun epoll_add_each :: "(int \<times> nat) list \<Rightarrow> world \<Rightarrow> ((error_code + unit) \<times> world) option" where
  "epoll_add_each [] w = Some (Inr (), w)"
| "epoll_add_each ((fd, tok) # fds) w = do {
     (a, w) \<leftarrow> sys (Ev (Ev_epoll_add fd tok POLLIN)) w;
     if rv a \<noteq> 0 then Some (Inl (System_error (eno a)), w) else epoll_add_each fds w }"

definition watch_mask :: u32 where
  "watch_mask = IN_CREATE OR IN_MODIFY OR IN_ATTRIB OR IN_DELETE OR IN_MOVED_FROM OR IN_MOVED_TO"

definition run_watch_loop :: "byte list \<Rightarrow> string \<Rightarrow> int \<Rightarrow> world \<Rightarrow> (int \<times> world) option" where
  "run_watch_loop stale dir timeout_ms w = do {
     (i, w) \<leftarrow> sys (Fs Fs_inotify_init) w;
     let ifd = rv i;
     if ifd < 0 then Some (1, println Stderr [Txt ''fwatch: watch: inotify_init1: '', ErrorCode (System_error (eno i))] w)
     else do {
     (a, w) \<leftarrow> sys (Fs (Fs_inotify_add ifd dir watch_mask)) w;
     if rv a < 0 then Some (1, fd_reset ifd (println Stderr [Txt (''fwatch: watch: '' @ dir @ '': ''), ErrorCode (System_error (eno a))] w))
     else do {
     (t, w) \<leftarrow> sys (Tm Tm_timerfd) w;
     let tfd = rv t;
     if tfd < 0 then Some (1, fd_reset ifd (println Stderr [Txt ''fwatch: watch: timerfd_create: '', ErrorCode (System_error (eno t))] w))
     else do {
     (s, w) \<leftarrow> sb_make_signalfd w;
     (case s of
       Inl e \<Rightarrow> Some (1, fd_reset ifd (fd_reset tfd (println Stderr [Txt ''fwatch: watch: signalfd: '', ErrorCode e] w)))
     | Inr sfd \<Rightarrow> do {
     (ep, w) \<leftarrow> sys (Ev Ev_epoll_create) w;
     let efd = rv ep;
     if efd < 0 then Some (1, fd_reset ifd (fd_reset tfd (fd_reset sfd (println Stderr [Txt ''fwatch: watch: epoll_create1: '', ErrorCode (System_error (eno ep))] w))))
     else do {
     (registered, w) \<leftarrow> epoll_add_each [(ifd, tok_inotify), (tfd, tok_timer), (sfd, tok_signal)] w;
     (case registered of
       Inl e \<Rightarrow> Some (1, fd_reset ifd (fd_reset tfd (fd_reset sfd (fd_reset efd (println Stderr [Txt ''fwatch: watch: epoll_ctl: '', ErrorCode e] w)))))
     | Inr _ \<Rightarrow> do {
         (now, w) \<leftarrow> sys Clock_ns (println Stderr [Txt (''fwatch: watching '' @ dir)] w);
         (rc, w) \<leftarrow> loop (sb_watch_turn ifd tfd sfd efd stale (rv now + timeout_ms * 1000000)) [] w;
         Some (rc, fd_reset ifd (fd_reset tfd (fd_reset sfd (fd_reset efd w)))) }) } }) } } } }"

text \<open>Both layers, before anything is opened; \<^const>\<open>True\<close>: one failed, and \<open>watch\<close> returns 1.\<close>

definition sb_sandbox :: "string \<Rightarrow> world \<Rightarrow> (bool \<times> world) option" where
  "sb_sandbox dir w = do {
     (abi, w) \<leftarrow> sb_landlock_abi w;
     if abi \<le> 0 then Some (True, println Stderr [Txt ''fwatch: watch: Landlock not supported by this kernel''] w)
     else do {
       (ll, w) \<leftarrow> sb_apply_landlock dir w;
       (case ll of
         Inl e \<Rightarrow> Some (True, println Stderr [Txt ''fwatch: watch: landlock: '', ErrorCode e] w)
       | Inr _ \<Rightarrow> do {
           let w = println Stderr [Txt (''fwatch: landlock ABI='' @ show_int abi @ '' enforced'')] w;
           (installed, w) \<leftarrow> install_seccomp kWatchSyscalls EPERM w;
           (case installed of
             Inl e \<Rightarrow> Some (True, println Stderr [Txt ''fwatch: watch: seccomp: '', ErrorCode e] w)
           | Inr n \<Rightarrow> Some (False, println Stderr [Txt (''fwatch: seccomp filter installed ('' @ show_nat n @ '' syscalls allowed)'')] w)) }) } }"

definition sb_cmd_watch :: "byte list \<Rightarrow> string \<Rightarrow> int \<Rightarrow> bool \<Rightarrow> world \<Rightarrow> (int \<times> world) option" where
  "sb_cmd_watch stale dir timeout_ms sandbox w = do {
     (stop, w) \<leftarrow> (if sandbox then sb_sandbox dir w else Some (False, w));
     if stop then Some (1, w) else run_watch_loop stale dir timeout_ms w }"

section \<open>The probes\<close>

abbreviation kProbeDenied :: int where "kProbeDenied \<equiv> 20"
abbreviation kProbeNotDenied :: int where "kProbeNotDenied \<equiv> 21"

definition probe_outside :: "string \<Rightarrow> string \<Rightarrow> world \<Rightarrow> (int \<times> world) option" where
  "probe_outside sandbox_dir outside_path w = do {
     (abi, w) \<leftarrow> sb_landlock_abi w;
     if abi \<le> 0 then Some (1, println Stderr [Txt ''fwatch: probe: Landlock not supported by this kernel''] w)
     else do {
       (ll, w) \<leftarrow> sb_apply_landlock sandbox_dir w;
       (case ll of
         Inl e \<Rightarrow> Some (1, println Stderr [Txt ''fwatch: probe: landlock: '', ErrorCode e] w)
       | Inr _ \<Rightarrow> do {
           (f, w) \<leftarrow> sys (Fs (Fs_open_rdonly outside_path)) (println Stderr [Txt (''fwatch: landlock ABI='' @ show_int abi @ '' enforced'')] w);
           if rv f \<ge> 0 then Some (kProbeNotDenied,
             println Stdout [Txt (''fwatch: probe outside '' @ outside_path @ '': opened (landlock did NOT block this)'')] (emit (Close (rv f)) w))
           else if eno f = EACCES then Some (kProbeDenied,
             println Stdout [Txt (''fwatch: probe outside '' @ outside_path @ '': EACCES (''), ErrorCode (System_error (eno f)), Txt '')''] w)
           else Some (1, println Stdout [Txt (''fwatch: probe outside '' @ outside_path @ '': unexpected error: ''), ErrorCode (System_error (eno f))] w) }) } }"

definition probe_forbidden_syscall :: "world \<Rightarrow> (int \<times> world) option" where
  "probe_forbidden_syscall w = do {
     (installed, w) \<leftarrow> install_seccomp kWatchSyscalls EPERM w;
     (case installed of
       Inl e \<Rightarrow> Some (1, println Stderr [Txt ''fwatch: probe: seccomp: '', ErrorCode e] w)
     | Inr n \<Rightarrow> do {
         (s, w) \<leftarrow> sys Socket (println Stderr [Txt (''fwatch: seccomp filter installed ('' @ show_nat n @ '' syscalls allowed)'')] w);
         if rv s \<ge> 0 then Some (kProbeNotDenied,
           println Stdout [Txt ''fwatch: probe forbidden-syscall: socket() unexpectedly succeeded''] (emit (Close (rv s)) w))
         else if eno s = EPERM then Some (kProbeDenied,
           println Stdout [Txt ''fwatch: probe forbidden-syscall: EPERM ('', ErrorCode (System_error (eno s)), Txt '')''] w)
         else Some (1, println Stdout [Txt ''fwatch: probe forbidden-syscall: unexpected error: '', ErrorCode (System_error (eno s))] w) }) }"

section \<open>The command line\<close>

definition sb_usage :: "world \<Rightarrow> int \<times> world" where
  "sb_usage w = (2, fold (\<lambda>l. println Stderr [Txt l])
     [''usage: fwatch <command>'',
      ''  snapshot DIR                              one line per regular file'',
      ''  diff OLD NEW                              compare two snapshots'',
      ''  watch DIR [--timeout-ms T]                unsandboxed watch'',
      ''  watch --sandbox DIR [--timeout-ms T]      Landlock+seccomp sandboxed watch'',
      ''  probe --sandbox DIR --outside PATH        negative control: open PATH (outside DIR) under Landlock'',
      ''  probe --forbidden-syscall                 negative control: socket(2) under a seccomp allowlist that omits it''] w)"

text \<open>The options of \<open>watch\<close>: sandbox, directory, timeout. A last argument is never an option with a value.\<close>

fun sb_watch_args :: "string list \<Rightarrow> bool \<times> string option \<times> int \<Rightarrow> (bool \<times> string option \<times> int) option" where
  "sb_watch_args [] st = Some st"
| "sb_watch_args (a # rest) (sandbox, dir, timeout) =
     (if a = ''--sandbox'' \<and> rest \<noteq> [] then sb_watch_args (tl rest) (True, Some (hd rest), timeout)
      else if a = ''--timeout-ms'' \<and> rest \<noteq> [] then (case stoi (hd rest) of
          Inl _ \<Rightarrow> None
        | Inr (v, _) \<Rightarrow> if v \<le> 0 then None else sb_watch_args (tl rest) (sandbox, dir, v))
      else if dir = None then sb_watch_args rest (sandbox, Some a, timeout)
      else None)"

fun sb_probe_args :: "string list \<Rightarrow> string option \<times> string option \<times> bool \<Rightarrow> (string option \<times> string option \<times> bool) option" where
  "sb_probe_args [] st = Some st"
| "sb_probe_args (a # rest) (sandbox_dir, outside, forbidden) =
     (if a = ''--sandbox'' \<and> rest \<noteq> [] then sb_probe_args (tl rest) (Some (hd rest), outside, forbidden)
      else if a = ''--outside'' \<and> rest \<noteq> [] then sb_probe_args (tl rest) (sandbox_dir, Some (hd rest), forbidden)
      else if a = ''--forbidden-syscall'' then sb_probe_args rest (sandbox_dir, outside, True)
      else None)"

definition sb_main :: "(string \<Rightarrow> error_code + dir_entry list) \<Rightarrow> byte list \<Rightarrow> string list \<Rightarrow> world \<Rightarrow> (int \<times> world) option" where
  "sb_main dirs stale args w = (case args of
     [] \<Rightarrow> Some (sb_usage w)
   | cmd # rest \<Rightarrow>
       if cmd = ''snapshot'' \<and> List.length rest = 1 then Some (sb_cmd_snapshot (dirs (rest ! 0)) (rest ! 0) w)
       else if cmd = ''diff'' \<and> List.length rest = 2 then sb_cmd_diff (rest ! 0) (rest ! 1) w
       else if cmd = ''watch'' then (case sb_watch_args rest (False, None, 2000) of
           Some (sandbox, Some dir, timeout_ms) \<Rightarrow> sb_cmd_watch stale dir timeout_ms sandbox w
         | _ \<Rightarrow> Some (sb_usage w))
       else if cmd = ''probe'' then (case sb_probe_args rest (None, None, False) of
           None \<Rightarrow> Some (sb_usage w)
         | Some (sandbox_dir, outside, forbidden) \<Rightarrow>
             if forbidden \<and> sandbox_dir = None \<and> outside = None then probe_forbidden_syscall w
             else (case (sandbox_dir, outside) of
                 (Some d, Some p) \<Rightarrow> if forbidden then Some (sb_usage w) else probe_outside d p w
               | _ \<Rightarrow> Some (sb_usage w)))
       else Some (sb_usage w))"

end
