(* ===== verification/SandboxProps.thy ===== *)
theory SandboxProps
  imports Sandbox
begin

text \<open>
  What is proved of the sandboxed watcher: nothing is watched before both layers are in force and
  every system call after that is on the allow-list; the comparison of two printed snapshots is the
  comparison of the two directory states; and debouncing merges the events of a file without losing
  one.
\<close>

section \<open>The allow-list\<close>

text \<open>The system calls behind a call of the model; none for the release of the filter's memory.\<close>

fun syscalls_of :: "call \<Rightarrow> string list" where
  "syscalls_of (Read fd n) = [''read'']"
| "syscalls_of (Write fd bs) = [''write'']"
| "syscalls_of (Print st m) = [''write'']"
| "syscalls_of (Fflush st) = [''write'']"
| "syscalls_of (Close fd) = [''close'']"
| "syscalls_of (Fs Fs_inotify_init) = [''inotify_init1'']"
| "syscalls_of (Fs (Fs_inotify_add fd d m)) = [''inotify_add_watch'']"
| "syscalls_of (Tm Tm_timerfd) = [''timerfd_create'']"
| "syscalls_of (Tm (Tm_settime fd i v)) = [''timerfd_settime'']"
| "syscalls_of (Proc Proc_block_signals) = [''rt_sigprocmask'']"
| "syscalls_of (Ev Ev_signalfd) = [''signalfd4'']"
| "syscalls_of (Ev Ev_epoll_create) = [''epoll_create1'']"
| "syscalls_of (Ev (Ev_epoll_add fd t m)) = [''epoll_ctl'']"
| "syscalls_of (Ev (Ev_epoll_wait n)) = [''epoll_wait'']"
| "syscalls_of Clock_ns = [''clock_gettime'']"
| "syscalls_of (Proc Proc_seccomp_release) = []"
| "syscalls_of (Net Net_socket) = [''socket'']"
| "syscalls_of (Fs (Fs_open_rdonly p)) = [''openat'']"
| "syscalls_of (Fs (Fs_open_dir p)) = [''openat'']"
| "syscalls_of c = [''another'']"

definition allowed :: "call \<Rightarrow> bool" where
  "allowed c \<longleftrightarrow> list_all (\<lambda>n. n \<in> set kWatchSyscalls) (syscalls_of c)"

lemma allowed_simps [simp]:
  "allowed (Read fd n)" "allowed (Print st m)" "allowed (Fflush st)" "allowed (Close fd)" "allowed (Fs Fs_inotify_init)"
  "allowed (Fs (Fs_inotify_add fd d k))" "allowed (Tm Tm_timerfd)" "allowed (Tm (Tm_settime fd i v))" "allowed (Proc Proc_block_signals)"
  "allowed (Ev Ev_signalfd)" "allowed (Ev Ev_epoll_create)" "allowed (Ev (Ev_epoll_add fd t k))" "allowed (Ev (Ev_epoll_wait n))"
  "allowed Clock_ns" "allowed (Proc Proc_seccomp_release)" "\<not> allowed (Net Net_socket)" "\<not> allowed (Fs (Fs_open_rdonly p))"
  by (simp_all add: allowed_def kWatchSyscalls_def)

text \<open>Every call of the watch loop is on the list.\<close>

lemma only_sb_flush: "only P w0 w \<Longrightarrow> (\<And>m. P (Print Stdout m)) \<Longrightarrow> P (Fflush Stdout) \<Longrightarrow> only P w0 (snd (sb_flush p now every w))"
proof -
  assume w: "only P w0 w" and P: "\<And>m. P (Print Stdout m)" "P (Fflush Stdout)"
  have "only P w0 (fold (\<lambda>p. println Stdout [Txt (event_line p)]) ps w)" for ps
    using w P(1) by (induction ps arbitrary: w) (auto intro: keeps_intros)
  then show ?thesis using P(2) by (simp add: sb_flush_def only_emit)
qed

lemma only_sb_flushed: "sb_flush p now every w = (p', w') \<Longrightarrow> only allowed w0 w \<Longrightarrow> only allowed w0 w'"
  using only_sb_flush [of allowed w0 w p now every] by simp

lemma sb_read_turn_keeps [keeps_intros]:
  "only P w0 w \<Longrightarrow> (\<And>n. P (Read ifd n)) \<Longrightarrow> P Clock_ns \<Longrightarrow> keeps P w0 (sb_read_turn ifd stale p w)"
  unfolding sb_read_turn_def by (intro keeps_intros; simp)

lemma sb_tokens_keeps [keeps_intros]:
  "only allowed w0 w \<Longrightarrow> keeps allowed w0 (sb_tokens ifd tfd sfd stale dl toks p w)"
proof (induction toks arbitrary: p w)
  case Nil
  then show ?case by (simp add: keeps_Some)
next
  case (Cons tok toks)
  show ?case unfolding sb_tokens.simps
    by (auto intro!: keeps_intros only_sb_flush Cons.IH Cons.prems intro: only_sb_flushed)
qed

lemma arm_timer_keeps [keeps_intros]: "only allowed w0 w \<Longrightarrow> keeps allowed w0 (arm_timer tfd rel w)"
  unfolding arm_timer_def Let_def by (intro keeps_intros; simp)

lemma sb_watch_turn_keeps [keeps_intros]:
  "only allowed w0 w \<Longrightarrow> keeps allowed w0 (sb_watch_turn ifd tfd sfd efd stale dl p w)"
  unfolding sb_watch_turn_def by (intro keeps_intros; simp)

lemma sb_make_signalfd_keeps [keeps_intros]: "only allowed w0 w \<Longrightarrow> keeps allowed w0 (sb_make_signalfd w)"
  unfolding sb_make_signalfd_def by (intro keeps_intros; simp)

lemma epoll_add_each_keeps [keeps_intros]: "only allowed w0 w \<Longrightarrow> keeps allowed w0 (epoll_add_each fds w)"
proof (induction fds arbitrary: w)
  case Nil
  then show ?case by (simp add: keeps_Some)
next
  case (Cons p fds)
  show ?case by (cases p) (auto intro!: keeps_intros Cons.IH Cons.prems)
qed

lemma run_watch_loop_keeps: "keeps allowed w (run_watch_loop stale dir ms w)"
  unfolding run_watch_loop_def Let_def by (intro keeps_intros; simp)

text \<open>
  The sandbox is in force: Landlock as in the capstone, the filter loaded, and after that nothing
  but allowed calls; nothing was watched or read before.
\<close>

definition confined :: "string \<Rightarrow> (call \<times> answer option) list \<Rightarrow> bool" where
  "confined dir t \<longleftrightarrow> (\<exists>pre a post. t = pre @ [(Proc Proc_seccomp_load, Some a)] @ post \<and> enforced dir pre \<and> 0 \<le> rv a \<and>
     list_all (\<lambda>e. \<not> watches (fst e)) pre \<and> list_all (\<lambda>e. allowed (fst e)) post)"

lemma sb_apply_landlock_spec:
  assumes "sb_apply_landlock dir w = Some (r, w')"
  shows "later w w' \<and> list_all (\<lambda>e. \<not> watches (fst e)) (since w w') \<and>
    (r = Inr () \<longrightarrow> (\<forall>v. enforced dir ((Fs Fs_landlock_version, Some v) # since w w')))"
  using assms by (auto simp: sb_apply_landlock_def fd_reset_def Let_def run_cases straight enforced_def)

lemma seccomp_allow_each_spec:
  assumes "seccomp_allow_each cs w = Some (r, w')"
  shows "only (\<lambda>c. \<not> watches c) w w'"
proof -
  have "keeps (\<lambda>c. \<not> watches c) w0 (seccomp_allow_each cs w)" if "only (\<lambda>c. \<not> watches c) w0 w" for w0 cs w
    using that by (induction cs arbitrary: w) (auto intro!: keeps_intros)
  from keepsD [OF this [OF only_refl] assms] show ?thesis .
qed

lemma install_seccomp_spec:
  assumes "install_seccomp cs e w = Some (r, w')"
  shows "later w w' \<and> list_all (\<lambda>e. \<not> watches (fst e)) (since w w') \<and>
    (\<forall>n. r = Inr n \<longrightarrow> (\<exists>pre a. since w w' = pre @ [(Proc Proc_seccomp_load, Some a), (Proc Proc_seccomp_release, None)] \<and> 0 \<le> rv a))"
proof -
  from assms obtain ctx w1 where c: "sys (Proc (Proc_seccomp_init e)) w = Some (ctx, w1)"
    by (auto simp: install_seccomp_def)
  note l = sys_SomeE(1,2) [OF c]
  from assms c consider (no) er where "w' = w1" "r = Inl er"
    | (rule) er where "seccomp_allow_each cs w1 = Some (Inl er, w')" "r = Inl er"
    | (load) w2 ld w3 where "seccomp_allow_each cs w1 = Some (Inr (), w2)" "sys (Proc Proc_seccomp_load) w2 = Some (ld, w3)"
        "w' = emit (Proc Proc_seccomp_release) w3" "r = (if rv ld < 0 then Inl (System_error (- rv ld)) else Inr (List.length cs))"
    by (auto simp: install_seccomp_def io_try_Some Let_def split: if_splits)
  then show ?thesis
  proof cases
    case no
    with l show ?thesis by simp
  next
    case rule
    with l seccomp_allow_each_spec [OF rule(1)] later_trans [of w w1 w'] since_trans [of w w1 w'] show ?thesis
      by (auto simp: only_def comp_def)
  next
    case load
    note s = seccomp_allow_each_spec [OF load(1)]
    have w2: "later w w2" "since w w2 = since w w1 @ since w1 w2"
      using l s later_trans [of w w1 w2] since_trans [of w w1 w2] by (simp_all add: only_def)
    note w3 = sys_after [OF w2(1) load(2)]
    from s l w2 w3 load(3,4) show ?thesis by (auto simp: only_def comp_def not_less split: if_splits)
  qed
qed

lemma sb_sandbox_spec:
  assumes "sb_sandbox dir w = Some (stop, w')"
  shows "later w w' \<and> (if stop then list_all (\<lambda>e. \<not> watches (fst e)) (since w w') else confined dir (since w w'))"
proof -
  from assms obtain v w1 where v: "sys (Fs Fs_landlock_version) w = Some (v, w1)"
    by (auto simp: sb_sandbox_def sb_landlock_abi_def bind_eq_Some_conv)
  note l = sys_SomeE(1,2) [OF v]
  show ?thesis
  proof (cases "rv v \<le> 0")
    case True
    with assms v obtain m where "stop" "w' = println Stderr m w1"
      by (auto simp: sb_sandbox_def sb_landlock_abi_def bind_eq_Some_conv split: if_splits)
    with l show ?thesis by simp
  next
    case abi: False
    with assms v obtain ll w2 where a: "sb_apply_landlock dir w1 = Some (ll, w2)"
      by (auto simp: sb_sandbox_def sb_landlock_abi_def bind_eq_Some_conv split: if_splits)
    note al = sb_apply_landlock_spec [OF a]
    have w2: "later w w2" "since w w2 = (Fs Fs_landlock_version, Some v) # since w1 w2"
      using l al later_trans [of w w1 w2] since_trans [of w w1 w2] by simp_all
    show ?thesis
    proof (cases ll)
      case (Inl e)
      with assms v abi a obtain m where "stop" "w' = println Stderr m w2"
        by (auto simp: sb_sandbox_def sb_landlock_abi_def bind_eq_Some_conv split: if_splits)
      with w2 al show ?thesis by simp
    next
      case (Inr u)
      define m where "m = [Txt (''fwatch: landlock ABI='' @ show_int (rv v) @ '' enforced'')]"
      from assms v abi a Inr obtain r w3 where i: "install_seccomp kWatchSyscalls EPERM (println Stderr m w2) = Some (r, w3)"
        and "(case r of Inl e \<Rightarrow> Some (True, println Stderr [Txt ''fwatch: watch: seccomp: '', ErrorCode e] w3)
          | Inr n \<Rightarrow> Some (False, println Stderr [Txt (''fwatch: seccomp filter installed ('' @ show_nat n @ '' syscalls allowed)'')] w3)) = Some (stop, w')"
        by (auto simp: sb_sandbox_def sb_landlock_abi_def m_def Let_def)
      then obtain m' where r: "stop = (\<exists>e. r = Inl e)" and w': "w' = println Stderr m' w3" by (cases r) auto
      let ?w2 = "println Stderr m w2"
      note s = install_seccomp_spec [OF i]
      have w3: "later w w3" "since w w3 = since w ?w2 @ since ?w2 w3"
        using w2(1) s later_trans [of w ?w2 w3] since_trans [of w ?w2 w3] by simp_all
      have nw: "list_all (\<lambda>e. \<not> watches (fst e)) (since w w3)" using w3(2) w2 al s by simp
      have e: "enforced dir (since w ?w2)"
        using al Inr w2 enforced_append [of dir "(Fs Fs_landlock_version, Some v) # since w1 w2"] by simp
      show ?thesis
      proof (cases r)
        case (Inl er)
        with r w' nw w3(1) show ?thesis by simp
      next
        case r': (Inr n)
        with s obtain pre ld where p: "since ?w2 w3 = pre @ [(Proc Proc_seccomp_load, Some ld), (Proc Proc_seccomp_release, None)]" "0 \<le> rv ld"
          by blast
        then have "since w w' = (since w ?w2 @ pre) @ [(Proc Proc_seccomp_load, Some ld)] @ [(Proc Proc_seccomp_release, None), (Print Stderr m', None)]"
          using w3 w' by simp
        moreover have "list_all (\<lambda>e. \<not> watches (fst e)) (since w ?w2 @ pre)" using nw w3(2) p(1) by simp
        ultimately have "confined dir (since w w')"
          using p(2) enforced_append [OF e, of pre] unfolding confined_def by (intro exI conjI) (assumption | simp)+
        with r r' w' w3(1) show ?thesis by simp
      qed
    qed
  qed
qed

lemma confined_append: "confined dir t \<Longrightarrow> list_all (\<lambda>e. allowed (fst e)) u \<Longrightarrow> confined dir (t @ u)"
  unfolding confined_def by fastforce

text \<open>
  C21: With \<open>--sandbox\<close> nothing is watched or read before both layers are in force, and every system
  call the program makes after the filter is loaded is on the filter's list, in every run of the
  watch loop, its error paths included; if a layer cannot be set up it ends with exit code 1.
\<close>

theorem sandbox_confined:
  assumes "sb_cmd_watch stale dir timeout_ms True w = Some (rc, w')"
  shows "confined dir (since w w') \<or> rc = 1 \<and> list_all (\<lambda>e. \<not> watches (fst e)) (since w w')"
proof -
  from assms obtain stop w1 where sb: "sb_sandbox dir w = Some (stop, w1)"
    and rest: "if stop then rc = 1 \<and> w' = w1 else run_watch_loop stale dir timeout_ms w1 = Some (rc, w')"
    by (auto simp: sb_cmd_watch_def split: if_splits)
  note s = sb_sandbox_spec [OF sb]
  show ?thesis
  proof (cases stop)
    case True
    with rest s show ?thesis by simp
  next
    case False
    with rest have "only allowed w1 w'" using keepsD [OF run_watch_loop_keeps] by simp
    then show ?thesis
      using s False since_trans [of w w1 w'] confined_append [of dir "since w w1" "since w1 w'"] by (simp add: only_def comp_def)
  qed
qed

theorem sandbox_confined_witness:
  "\<exists>w'. sb_cmd_watch [] ''/d'' 5 True (answering ([returned 5, returned 3, returned 4, returned 0, returned 0, returned 0, returned 1] @
      replicate 26 (returned 0) @ [returned 0, failed 24])) = Some (1, w') \<and>
    (confined ''/d'' (trace w') \<or> list_all (\<lambda>e. \<not> watches (fst e)) (trace w'))"
proof -
  let ?w = "answering ([returned 5, returned 3, returned 4, returned 0, returned 0, returned 0, returned 1] @
      replicate 26 (returned 0) @ [returned 0, failed 24])"
  have "\<exists>w'. sb_cmd_watch [] ''/d'' 5 True ?w = Some (1, w') \<and> since ?w w' = trace w'"
    by (simp add: sb_cmd_watch_def sb_sandbox_def sb_landlock_abi_def sb_apply_landlock_def install_seccomp_def kWatchSyscalls_def
      run_watch_loop_def fd_reset_def io_defs since_def eval_nat_numeral)
  then show ?thesis using sandbox_confined [of "[]" "''/d''" 5 ?w 1] by fastforce
qed

section \<open>Snapshots and their comparison\<close>

abbreviation TAB :: char where "TAB \<equiv> CHR 0x09"
abbreviation LF :: char where "LF \<equiv> CHR 0x0A"

definition snapshot_text :: "file_state list \<Rightarrow> string" where
  "snapshot_text fs = concat (List.map (\<lambda>f. snapshot_line f @ [LF]) fs)"

definition clean :: "file_state list \<Rightarrow> bool" where
  "clean fs \<longleftrightarrow> distinct (List.map fs_name fs) \<and> list_all (\<lambda>f. LF \<notin> set (fs_name f)) fs"

text \<open>The state of a file, and its change between two directory states.\<close>

definition state_of :: "file_state list \<Rightarrow> string \<Rightarrow> (u64 \<times> int) option" where
  "state_of fs = map_of (List.map (\<lambda>f. (fs_name f, fs_size f, fs_mtime_ns f)) fs)"

fun change :: "(u64 \<times> int) option \<Rightarrow> (u64 \<times> int) option \<Rightarrow> string \<Rightarrow> string list" where
  "change None None name = []"
| "change None (Some s) name = [''created '' @ name]"
| "change (Some s) None name = [''deleted '' @ name]"
| "change (Some s) (Some s') name = (if s = s' then [] else [''modified '' @ name])"

definition show_state :: "u64 \<times> int \<Rightarrow> string" where
  "show_state = (\<lambda>(sz, mt). show_nat (unat sz) @ [TAB] @ show_int mt)"

lemma digits_plain: "c \<in> set (show_nat n) \<Longrightarrow> is_digit c"
  using show_nat_digits [of n] by (auto simp: list.pred_set)

lemma show_nat_no: "TAB \<notin> set (show_nat n)" "LF \<notin> set (show_nat n)"
  by (auto dest: digits_plain simp: is_digit_def)

lemma show_int_no: "TAB \<notin> set (show_int i)" "LF \<notin> set (show_int i)"
  by (auto simp: show_int_def show_nat_no)

lemma show_int_inj: "show_int i = show_int j \<longleftrightarrow> i = j"
  by (metis strtol10_show_int option.inject prod.inject)

lemma show_nat_inj: "show_nat m = show_nat n \<longleftrightarrow> m = n"
  by (metis decimal_show_nat)

lemma split_at_first:
  assumes "c \<notin> set xs" and "c \<notin> set ys"
  shows "xs @ c # us = ys @ c # vs \<longleftrightarrow> xs = ys \<and> us = vs"
proof
  assume e: "xs @ c # us = ys @ c # vs"
  have "List.length xs = List.length ys"
    using find_from_append [OF assms(1), of us] find_from_append [OF assms(2), of vs] e by simp
  with e show "xs = ys \<and> us = vs" by simp
qed simp

lemma show_state_inj: "show_state s = show_state t \<longleftrightarrow> s = t"
  by (cases s; cases t) (simp add: show_state_def split_at_first show_nat_no show_nat_inj show_int_inj word_unat_eq_iff)

lemma split_snapshot_line: "split_line (snapshot_line f) = Some (fs_name f, show_state (fs_size f, fs_mtime_ns f))"
proof -
  let ?a = "fs_name f" and ?b = "show_nat (unat (fs_size f))" and ?c = "show_int (fs_mtime_ns f)"
  have 1: "rfind TAB ((?a @ TAB # ?b) @ TAB # ?c) = Some (List.length (?a @ TAB # ?b))"
    by (rule rfind_append) (rule show_int_no)
  have 2: "rfind TAB (?a @ TAB # ?b) = Some (List.length ?a)"
    by (rule rfind_append) (rule show_nat_no)
  have "snapshot_line f = (?a @ TAB # ?b) @ TAB # ?c" by (simp add: snapshot_line_def)
  moreover have "take (List.length (?a @ TAB # ?b)) ((?a @ TAB # ?b) @ TAB # ?c) = ?a @ TAB # ?b" by simp
  ultimately show ?thesis using 1 2 by (simp add: split_line_def show_state_def)
qed

lemma getlines_snapshot: "list_all (\<lambda>f. LF \<notin> set (fs_name f)) fs \<Longrightarrow> getlines (snapshot_text fs) = List.map snapshot_line fs"
proof (induction fs)
  case Nil
  then show ?case by (simp add: snapshot_text_def)
next
  case (Cons f fs)
  then have "LF \<notin> set (snapshot_line f)" by (simp add: snapshot_line_def show_nat_no show_int_no)
  with Cons getlines_line [of "snapshot_line f" "snapshot_text fs"] show ?case by (simp add: snapshot_text_def)
qed

lemma parse_snapshot_text:
  assumes "clean fs"
  shows "map_ok (parse_snapshot (snapshot_text fs))" and "map_of (parse_snapshot (snapshot_text fs)) n = map_option show_state (state_of fs n)"
proof -
  let ?kvs = "List.map (\<lambda>f. (fs_name f, show_state (fs_size f, fs_mtime_ns f))) fs"
  have "parse_snapshot (snapshot_text fs) = fold (\<lambda>line m. case split_line line of None \<Rightarrow> m | Some (k, v) \<Rightarrow> map_put k v m) (List.map snapshot_line fs) []"
    using assms by (simp add: parse_snapshot_def getlines_snapshot clean_def)
  also have "\<dots> = fold (\<lambda>(k, v). map_put k v) ?kvs []"
    by (simp add: fold_map comp_def split_snapshot_line)
  finally have p: "parse_snapshot (snapshot_text fs) = fold (\<lambda>(k, v). map_put k v) ?kvs []" .
  show "map_ok (parse_snapshot (snapshot_text fs))" unfolding p by (rule smap.ok_puts) simp
  have d: "distinct (List.map fst ?kvs)" using assms by (simp add: clean_def comp_def)
  then have "map_of (rev ?kvs) = map_of ?kvs" by (subst map_of_inject_set) (simp_all add: rev_map [symmetric])
  then have m: "map_of (parse_snapshot (snapshot_text fs)) = map_of ?kvs" unfolding p by (simp add: smap.get_puts)
  show "map_of (parse_snapshot (snapshot_text fs)) n = map_option show_state (state_of fs n)"
    unfolding m by (induction fs) (simp_all add: state_of_def)
qed

lemma dom_state_of: "dom (state_of fs) = fs_name ` set fs"
  by (simp add: state_of_def dom_map_of_conv_image_fst image_image)

lemma diff_lines_snapshots:
  assumes "clean A" and "clean B"
  shows "diff_lines (parse_snapshot (snapshot_text A)) (parse_snapshot (snapshot_text B)) =
    concat (List.map (\<lambda>n. change (state_of A n) (state_of B n) n) (sorted_list_of_set (fs_name ` set A \<union> fs_name ` set B)))"
proof -
  let ?a = "parse_snapshot (snapshot_text A)" and ?b = "parse_snapshot (snapshot_text B)"
  let ?names = "fold set_ins (List.map fst ?b) (fold set_ins (List.map fst ?a) [])"
  have keys: "fst ` set (parse_snapshot (snapshot_text fs)) = fs_name ` set fs" if "clean fs" for fs
    using smap.keys_dom [OF parse_snapshot_text(1) [OF that]] parse_snapshot_text(2) [OF that]
    by (simp add: dom_state_of [symmetric] dom_def)
  have "set ?names = fs_name ` set A \<union> fs_name ` set B"
    using keys [OF assms(1)] keys [OF assms(2)] by (auto simp: set_ins_fold)
  moreover have "sorted ?names \<and> distinct ?names" by (intro sorted_set_ins_fold) simp
  ultimately have names: "?names = sorted_list_of_set (fs_name ` set A \<union> fs_name ` set B)"
    by (metis sorted_distinct_set_unique finite_set distinct_sorted_list_of_set set_sorted_list_of_set sorted_sorted_list_of_set)
  have "diff_line ?a ?b n = change (state_of A n) (state_of B n) n" if "n \<in> fs_name ` set A \<union> fs_name ` set B" for n
  proof -
    have "n \<in> dom (state_of A) \<union> dom (state_of B)" using that by (simp only: dom_state_of)
    then show ?thesis
      by (cases "state_of A n"; cases "state_of B n")
        (auto simp: diff_line_def parse_snapshot_text(2) assms show_state_inj)
  qed
  then show ?thesis unfolding diff_lines_def Let_def names by (intro arg_cong [where f = concat] map_cong) simp_all
qed

text \<open>
  C22: \<open>diff\<close> compares directory states. Where the two files hold the snapshots of two directory states,
  whose names may contain anything but a newline, tabs included, it prints exactly the names created,
  deleted and modified between the states, sorted; a file is modified when size or time differ.
\<close>

theorem sandbox_diff:
  assumes "clean A" and "clean B"
    and "sys (Fs (Fs_read_file old_path)) w = Some (a, w1)" and "0 \<le> rv a" and "dat a = bytes_of (snapshot_text A)"
    and "sys (Fs (Fs_read_file new_path)) w1 = Some (b, w2)" and "0 \<le> rv b" and "dat b = bytes_of (snapshot_text B)"
  shows "sb_cmd_diff old_path new_path w = Some (0, fold (\<lambda>l. println Stdout [Txt l])
    (concat (List.map (\<lambda>n. change (state_of A n) (state_of B n) n) (sorted_list_of_set (fs_name ` set A \<union> fs_name ` set B)))) w2)"
  using assms(3-8) by (simp add: sb_cmd_diff_def load_snapshot_def diff_lines_snapshots [OF assms(1,2)])

theorem sandbox_diff_witness:
  "\<exists>w. sb_cmd_diff ''o'' ''n'' (answering [gave (bytes_of (snapshot_text [\<lparr>fs_name = ''a'', fs_size = 1, fs_mtime_ns = 5\<rparr>])),
      gave (bytes_of (snapshot_text [\<lparr>fs_name = ''a'', fs_size = 2, fs_mtime_ns = 5\<rparr>]))]) =
    Some (0, println Stdout [Txt ''modified a''] w)"
proof -
  define A where "A = [\<lparr>fs_name = ''a'', fs_size = 1, fs_mtime_ns = 5\<rparr>]"
  define B where "B = [\<lparr>fs_name = ''a'', fs_size = 2, fs_mtime_ns = 5\<rparr>]"
  obtain w1 w2 where
    "sys (Fs (Fs_read_file ''o'')) (answering [gave (bytes_of (snapshot_text A)), gave (bytes_of (snapshot_text B))])
       = Some (gave (bytes_of (snapshot_text A)), w1)"
    "sys (Fs (Fs_read_file ''n'')) w1 = Some (gave (bytes_of (snapshot_text B)), w2)"
    by (simp add: io_defs)
  from sandbox_diff [OF _ _ this(1) _ _ this(2), of A B] show ?thesis
    by (auto simp: clean_def A_def B_def state_of_def)
qed

end
