(* ===== verification/SandboxEvents.thy ===== *)
theory SandboxEvents
  imports SandboxProps
begin

text \<open>
  Debouncing: what a run of pending events of one file merges to, and that the watch loop loses no
  event. For every file the events read are cut into consecutive groups, and each group is reported
  as one line, the merge of its events.
\<close>

section \<open>Merging\<close>

definition merged :: "kind list \<Rightarrow> kind option" where
  "merged ks = foldl (\<lambda>k k'. Some (merge k k')) None ks"

lemma merged_Nil [simp]: "merged [] = None"
  by (simp add: merged_def)

lemma merged_snoc [simp]: "merged (ks @ [k]) = Some (merge (merged ks) k)"
  by (simp add: merged_def)

lemma merged_closed:
  "ks \<noteq> [] \<Longrightarrow> merged ks = Some (if last ks = Deleted then Deleted
     else if hd ks = Created \<and> Deleted \<notin> set ks then Created else Modified)"
proof (induction ks rule: rev_induct)
  case Nil
  then show ?case by simp
next
  case (snoc k ks)
  show ?case
  proof (cases "ks = []")
    case True
    then show ?thesis by (cases k) (simp_all add: merge_def merged_def)
  next
    case False
    have "last ks = Deleted \<Longrightarrow> Deleted \<in> set ks" using False last_in_set by metis
    with snoc.IH [OF False] False show ?thesis by (cases k) (auto simp: merge_def)
  qed
qed

text \<open>
  The kind reported for a group of events of one file: deleted if the last event deletes, created
  if the first event creates and none deletes, and modified otherwise.
\<close>

lemma sandbox_merge_closed:
  assumes "ks \<noteq> []"
  shows "foldl (\<lambda>k k'. Some (merge k k')) None ks = Some (if last ks = Deleted then Deleted
     else if hd ks = Created \<and> Deleted \<notin> set ks then Created else Modified)"
  using merged_closed [OF assms] unfolding merged_def .

section \<open>The ledger of one file\<close>

text \<open>
  \<open>raw\<close> events of the file were read and \<open>shown\<close> reported, and \<open>cur\<close> is pending.
\<close>

definition ledger :: "kind list \<Rightarrow> kind list \<Rightarrow> kind option \<Rightarrow> bool" where
  "ledger raw shown cur \<longleftrightarrow> (\<exists>groups rest. raw = concat groups @ rest \<and> [] \<notin> set groups \<and>
     List.map merged groups = List.map Some shown \<and> cur = merged rest)"

lemma ledger_start: "ledger [] [] None"
  unfolding ledger_def by (intro exI [of _ "[]"]) simp

lemma ledger_event: "ledger raw shown cur \<Longrightarrow> ledger (raw @ [k]) shown (Some (merge cur k))"
  unfolding ledger_def
proof (elim exE conjE)
  fix groups rest
  assume "raw = concat groups @ rest" "[] \<notin> set groups" "List.map merged groups = List.map Some shown" "cur = merged rest"
  then show "\<exists>groups rest. raw @ [k] = concat groups @ rest \<and> [] \<notin> set groups \<and>
     List.map merged groups = List.map Some shown \<and> Some (merge cur k) = merged rest"
    by (intro exI [of _ groups] exI [of _ "rest @ [k]"]) simp
qed

lemma ledger_report: "ledger raw shown (Some k) \<Longrightarrow> ledger raw (shown @ [k]) None"
  unfolding ledger_def
proof (elim exE conjE)
  fix groups rest
  assume "raw = concat groups @ rest" "[] \<notin> set groups" "List.map merged groups = List.map Some shown" "Some k = merged rest"
  then show "\<exists>groups rest. raw = concat groups @ rest \<and> [] \<notin> set groups \<and>
     List.map merged groups = List.map Some (shown @ [k]) \<and> None = merged rest"
    by (intro exI [of _ "groups @ [rest]"] exI [of _ "[]"]) auto
qed

section \<open>What the trace says of a file\<close>

text \<open>The events of one file in a decoded buffer.\<close>

definition kinds_of :: "string \<Rightarrow> (u32 \<times> string) list \<Rightarrow> kind list" where
  "kinds_of name es = concat (List.map (\<lambda>(m, nm). if nm = name then (case sb_classify m of None \<Rightarrow> [] | Some k \<Rightarrow> [k]) else []) es)"

text \<open>The events of the reads on the inotify descriptor, as the walk over the buffer finds them.\<close>

definition read_by :: "int \<Rightarrow> byte list \<Rightarrow> string \<Rightarrow> call \<times> answer option \<Rightarrow> kind list" where
  "read_by ifd stale name e = (case e of
     (Read fd n, Some a) \<Rightarrow> if fd = ifd \<and> n = 4096 \<and> 0 < rv a then
         kinds_of name (walk_events (filled a @ stale) 0 (nat (rv a))) else []
   | _ \<Rightarrow> [])"

definition events_read :: "int \<Rightarrow> byte list \<Rightarrow> string \<Rightarrow> (call \<times> answer option) list \<Rightarrow> kind list" where
  "events_read ifd stale name t = concat (List.map (read_by ifd stale name) t)"

text \<open>The report lines of a file.\<close>

definition reported_by :: "string \<Rightarrow> call \<Rightarrow> kind list" where
  "reported_by name c = (case c of
     Print st m \<Rightarrow> if st = Stdout then filter (\<lambda>k. m = [Txt (event_line (name, k, 0))]) [Created, Modified, Deleted] else []
   | _ \<Rightarrow> [])"

abbreviation reports :: "string \<Rightarrow> (call \<times> answer option) list \<Rightarrow> kind list" where
  "reports name t \<equiv> proj (reported_by name) t"

lemma events_read_simps [simp]:
  "events_read ifd stale name [] = []" "events_read ifd stale name (e # t) = read_by ifd stale name e @ events_read ifd stale name t"
  "events_read ifd stale name (t @ u) = events_read ifd stale name t @ events_read ifd stale name u"
  by (simp_all add: events_read_def)

lemma event_line_eq: "event_line (n, k, d) = event_line (n', k', d') \<longleftrightarrow> n = n' \<and> k = k'"
  by (cases k; cases k') (auto simp: event_line_def)

lemma reported_by_line: "reported_by name (Print Stdout [Txt (event_line p)]) = (if fst p = name then [fst (snd p)] else [])"
  by (cases p; cases "fst (snd p)") (auto simp: reported_by_def event_line_eq)

lemma reported_by_others [simp]:
  "reported_by name (Read fd n) = []" "reported_by name Clock_ns = []" "reported_by name (Fflush st) = []"
  "reported_by name (Tm tc) = []" "reported_by name (Ev ec) = []" "reported_by name (Print Stderr m) = []"
  "reported_by name (Print Stdout [Txt ''fwatch: exiting (timeout)'']) = []"
  "reported_by name (Print Stdout [Txt ''fwatch: exiting (signal)'']) = []"
  by (simp_all add: reported_by_def event_line_def)

lemma read_by_others [simp]:
  "read_by ifd stale name (Clock_ns, x) = []" "read_by ifd stale name (Fflush st, x) = []"
  "read_by ifd stale name (Tm tc, x) = []" "read_by ifd stale name (Ev ec, x) = []" "read_by ifd stale name (Print st m, x) = []"
  "n \<noteq> 4096 \<Longrightarrow> read_by ifd stale name (Read fd n, x) = []" "read_by ifd stale name (c, None) = []"
  by (auto simp: read_by_def split: option.split call.split)

section \<open>The loop keeps the ledger\<close>

definition kept :: "int \<Rightarrow> byte list \<Rightarrow> world \<Rightarrow> pending \<Rightarrow> world \<Rightarrow> bool" where
  "kept ifd stale w0 pending w \<longleftrightarrow> later w0 w \<and> map_ok pending \<and>
     (\<forall>name. ledger (events_read ifd stale name (since w0 w)) (reports name (since w0 w)) (map_option fst (map_of pending name)))"

lemma note_event_ok: "map_ok p \<Longrightarrow> map_ok (note_event now e p)"
  by (cases e) (auto simp: note_event_def map_ok_put split: option.split)

lemma note_events_ok: "map_ok p \<Longrightarrow> map_ok (fold (note_event now) es p)"
  by (induction es arbitrary: p) (simp_all add: note_event_ok)

lemma note_events_ledger:
  "ledger raw shown (map_option fst (map_of p name)) \<Longrightarrow>
     ledger (raw @ kinds_of name es) shown (map_option fst (map_of (fold (note_event now) es p) name))"
proof (induction es arbitrary: p raw)
  case Nil
  then show ?case by (simp add: kinds_of_def)
next
  case (Cons e es)
  obtain m nm where e: "e = (m, nm)" by (cases e)
  show ?case
  proof (cases "nm = name \<and> sb_classify m \<noteq> None")
    case True
    then obtain k where k: "sb_classify m = Some k" "nm = name" by auto
    then have "map_option fst (map_of (note_event now e p) name) = Some (merge (map_option fst (map_of p name)) k)"
      by (simp add: e note_event_def map_of_put)
    with ledger_event [OF Cons.prems, of k]
    have "ledger (raw @ [k]) shown (map_option fst (map_of (note_event now e p) name))" by (simp only:)
    from Cons.IH [OF this] k show ?thesis by (simp add: e kinds_of_def)
  next
    case False
    then have "map_of (note_event now e p) name = map_of p name"
      by (auto simp: e note_event_def map_of_put split: option.split)
    with Cons.prems have "ledger raw shown (map_option fst (map_of (note_event now e p) name))" by (simp only:)
    moreover have "kinds_of name (e # es) = kinds_of name es" using False by (auto simp: kinds_of_def e)
    ultimately show ?thesis using Cons.IH by simp
  qed
qed

lemma sb_read_turn_kept:
  assumes "kept ifd stale w0 p w" and "sb_read_turn ifd stale p w = Some (c, w')"
  shows "case c of Continue p' \<Rightarrow> kept ifd stale w0 p' w' | Break p' \<Rightarrow> kept ifd stale w0 p' w'"
proof -
  from assms(2) obtain a w1 where a: "sys (Read ifd 4096) w = Some (a, w1)" by (auto simp: sb_read_turn_def)
  have l: "later w0 w" "map_ok p" using assms(1) by (simp_all add: kept_def)
  note s = sys_after [OF l(1) a]
  show ?thesis
  proof (cases "rv a \<le> 0")
    case True
    with assms(2) a have "c = Break p" "w' = w1" by (auto simp: sb_read_turn_def)
    with True assms(1) s show ?thesis by (simp add: kept_def read_by_def reported_by_def)
  next
    case False
    with assms(2) a obtain now where n: "sys Clock_ns w1 = Some (now, w')"
      and c: "c = Continue (fold (note_event (rv now)) (walk_events (filled a @ stale) 0 (nat (rv a))) p)"
      by (auto simp: sb_read_turn_def)
    note s' = sys_after [OF s(1) n]
    have r: "read_by ifd stale name (Read ifd 4096, Some a) = kinds_of name (walk_events (filled a @ stale) 0 (nat (rv a)))" for name
      using False by (simp add: read_by_def)
    show ?thesis
      using assms(1) s s' note_events_ok [OF l(2)] note_events_ledger by (simp add: c kept_def r)
  qed
qed

lemma sb_reads_kept: "kept ifd stale w0 p w \<Longrightarrow> loop (sb_read_turn ifd stale) p w = Some (p', w') \<Longrightarrow> kept ifd stale w0 p' w'"
  by (erule loop_rule [where I = "kept ifd stale w0" and Q = "kept ifd stale w0"]) (auto dest: sb_read_turn_kept)

text \<open>Reporting: each due entry of the map becomes one line and leaves the map.\<close>

lemma reports_lines:
  "List.concat (List.map (\<lambda>p. reported_by name (Print Stdout [Txt (event_line p)])) ps) = List.map (\<lambda>p. fst (snd p)) (filter (\<lambda>p. fst p = name) ps)"
  by (induction ps) (auto simp: reported_by_line)

lemma since_lines:
  "later w0 w \<Longrightarrow> later w0 (fold (\<lambda>p. println Stdout [Txt (event_line p)]) ps w) \<and>
     since w0 (fold (\<lambda>p. println Stdout [Txt (event_line p)]) ps w) = since w0 w @ List.map (\<lambda>p. (Print Stdout [Txt (event_line p)], None)) ps"
  by (induction ps arbitrary: w) simp_all

lemma sorted_filter_name:
  assumes "map_ok p"
  shows "filter (\<lambda>q. fst q = name) p = (case map_of p name of None \<Rightarrow> [] | Some v \<Rightarrow> [(name, v)])"
proof -
  have "distinct (List.map fst p)" using assms by (simp add: strict_sorted_iff)
  then show ?thesis
  proof (induction p)
    case Nil
    then show ?case by simp
  next
    case (Cons q p)
    obtain a b where q: "q = (a, b)" by (cases q)
    have "a = name \<Longrightarrow> map_of p name = None" using Cons.prems q by (auto simp: map_of_eq_None_iff)
    with Cons q show ?case by auto
  qed
qed

lemma sb_flush_kept:
  assumes "kept ifd stale w0 p w" and "sb_flush p now every w = (p', w')"
  shows "kept ifd stale w0 p' w'" and "every \<Longrightarrow> p' = []"
proof -
  have l: "later w0 w" "map_ok p" using assms(1) by (simp_all add: kept_def)
  have p': "p' = filter (\<lambda>q. \<not> is_due now every q) p"
    and w': "w' = emit (Fflush Stdout) (fold (\<lambda>q. println Stdout [Txt (event_line q)]) (filter (is_due now every) p) w)"
    using assms(2) by (simp_all add: sb_flush_def)
  show "every \<Longrightarrow> p' = []" by (simp add: p' is_due_def)
  have s: "later w0 w'" "since w0 w' = since w0 w @ List.map (\<lambda>q. (Print Stdout [Txt (event_line q)], None)) (filter (is_due now every) p) @ [(Fflush Stdout, None)]"
    using since_lines [OF l(1)] by (simp_all add: w')
  have ok: "map_ok p'" using l(2) unfolding p' by (induction p) auto
  have "ledger (events_read ifd stale name (since w0 w')) (reports name (since w0 w')) (map_option fst (map_of p' name))" for name
  proof -
    let ?due = "filter (is_due now every) p"
    have e: "events_read ifd stale name (since w0 w') = events_read ifd stale name (since w0 w)"
      by (simp add: s(2) events_read_def comp_def)
    have "proj (reported_by name) (List.map (\<lambda>q. (Print Stdout [Txt (event_line q)], None)) ?due) = List.map (\<lambda>q. fst (snd q)) (filter (\<lambda>q. fst q = name) ?due)"
      by (simp add: proj_def comp_def reports_lines)
    also have "filter (\<lambda>q. fst q = name) ?due = filter (is_due now every) (filter (\<lambda>q. fst q = name) p)"
      by (simp add: conj_commute)
    finally have r: "reports name (since w0 w') = reports name (since w0 w) @
        List.map (\<lambda>q. fst (snd q)) (filter (is_due now every) (filter (\<lambda>q. fst q = name) p))"
      by (simp add: s(2))
    have "filter (\<lambda>q. fst q = name) p' = filter (\<lambda>q. \<not> is_due now every q) (filter (\<lambda>q. fst q = name) p)"
      by (simp add: p' conj_commute)
    then have m: "(case map_of p' name of None \<Rightarrow> [] | Some v \<Rightarrow> [(name, v)]) =
        filter (\<lambda>q. \<not> is_due now every q) (case map_of p name of None \<Rightarrow> [] | Some v \<Rightarrow> [(name, v)])"
      by (simp only: sorted_filter_name [OF ok] sorted_filter_name [OF l(2)])
    have "ledger (events_read ifd stale name (since w0 w)) (reports name (since w0 w)) (map_option fst (map_of p name))"
      using assms(1) by (simp add: kept_def)
    then show ?thesis
      using m r e sorted_filter_name [OF l(2), of name] ledger_report
      by (cases "map_of p name"; cases "map_of p' name") (auto split: if_splits)
  qed
  with s(1) ok show "kept ifd stale w0 p' w'" by (simp add: kept_def)
qed

definition neutral :: "call \<Rightarrow> bool" where
  "neutral c \<longleftrightarrow> (\<forall>ifd stale name x. read_by ifd stale name (c, x) = []) \<and> (\<forall>name. reported_by name c = [])"

lemma neutral_simps [simp]:
  "neutral Clock_ns" "neutral (Fflush st)" "neutral (Tm tc)" "neutral (Ev ec)" "n \<noteq> 4096 \<Longrightarrow> neutral (Read fd n)" "neutral (Print Stderr m)"
  "neutral (Print Stdout [Txt ''fwatch: exiting (timeout)''])" "neutral (Print Stdout [Txt ''fwatch: exiting (signal)''])"
  by (simp_all add: neutral_def)

lemma kept_sys: "kept ifd stale w0 p w \<Longrightarrow> sys c w = Some (a, w1) \<Longrightarrow> neutral c \<Longrightarrow> kept ifd stale w0 p w1"
  using sys_after [of w0 w c a w1] by (simp add: kept_def neutral_def)

lemma kept_println: "kept ifd stale w0 p w \<Longrightarrow> neutral (Print st m) \<Longrightarrow> kept ifd stale w0 p (println st m w)"
  by (simp add: kept_def neutral_def)

lemma sb_tokens_kept:
  assumes "kept ifd stale w0 p w" and "sb_tokens ifd tfd sfd stale dl toks p w = Some (r, w')"
  shows "case r of Inl rc \<Rightarrow> kept ifd stale w0 [] w' | Inr p' \<Rightarrow> kept ifd stale w0 p' w'"
  using assms
proof (induction toks arbitrary: p w)
  case Nil
  then show ?case by auto
next
  case (Cons tok toks)
  show ?case
  proof (cases "tok = 0 \<or> tok = 1 \<or> tok = 2")
    case False
    with Cons show ?thesis by simp
  next
    case True
    then consider "tok = 0" | "tok = 1" | "tok = 2" by blast
    then show ?thesis
    proof cases
      case 1
      with Cons.prems(2) obtain p1 w1 where "loop (sb_read_turn ifd stale) p w = Some (p1, w1)"
        "sb_tokens ifd tfd sfd stale dl toks p1 w1 = Some (r, w')" by auto
      with Cons.IH sb_reads_kept [OF Cons.prems(1)] show ?thesis by blast
    next
      case 2
      with Cons.prems(2) obtain a w1 now w2 where t: "sys (Read tfd 8) w = Some (a, w1)" "sys Clock_ns w1 = Some (now, w2)"
        by (auto simp: case_prod_beta split: if_splits)
      have k: "kept ifd stale w0 p w2" using kept_sys [OF kept_sys [OF Cons.prems(1) t(1)] t(2)] by simp
      show ?thesis
      proof (cases "rv now \<ge> dl")
        case True
        obtain p3 w3 where f: "sb_flush p (rv now) True w2 = (p3, w3)" by fastforce
        with 2 True Cons.prems(2) t have "r = Inl 0" "w' = println Stdout [Txt ''fwatch: exiting (timeout)''] w3" by simp_all
        with sb_flush_kept [OF k f] show ?thesis by (simp add: kept_println)
      next
        case False
        obtain p3 w3 where f: "sb_flush p (rv now) False w2 = (p3, w3)" by fastforce
        with 2 False Cons.prems(2) t have "sb_tokens ifd tfd sfd stale dl toks p3 w3 = Some (r, w')" by simp
        with Cons.IH sb_flush_kept(1) [OF k f] show ?thesis by blast
      qed
    next
      case 3
      with Cons.prems(2) obtain a w1 now w2 where t: "sys (Read sfd 128) w = Some (a, w1)" "sys Clock_ns w1 = Some (now, w2)"
        by auto
      have k: "kept ifd stale w0 p w2" using kept_sys [OF kept_sys [OF Cons.prems(1) t(1)] t(2)] by simp
      obtain p3 w3 where f: "sb_flush p (rv now) True w2 = (p3, w3)" by fastforce
      with 3 Cons.prems(2) t have "r = Inl 0" "w' = println Stdout [Txt ''fwatch: exiting (signal)''] w3" by simp_all
      with sb_flush_kept [OF k f] show ?thesis by (simp add: kept_println)
    qed
  qed
qed

lemma arm_timer_kept: "arm_timer tfd rel w = Some (r, w1) \<Longrightarrow> kept ifd stale w0 p w \<Longrightarrow> kept ifd stale w0 p w1"
proof -
  assume "arm_timer tfd rel w = Some (r, w1)" and k: "kept ifd stale w0 p w"
  then obtain a i v where "sys (Tm (Tm_settime tfd i v)) w = Some (a, w1)"
    by (auto simp: arm_timer_def Let_def split: if_splits)
  from kept_sys [OF k this] show ?thesis by simp
qed

lemma sb_watch_turn_kept:
  assumes "kept ifd stale w0 p w" and "sb_watch_turn ifd tfd sfd efd stale dl p w = Some (c, w')"
  shows "case c of Continue p' \<Rightarrow> kept ifd stale w0 p' w' | Break rc \<Rightarrow> rc = 0 \<longrightarrow> kept ifd stale w0 [] w'"
proof -
  from assms(2) obtain now w1 armed w2 where t: "sys Clock_ns w = Some (now, w1)"
    "arm_timer tfd (next_due dl p - rv now) w1 = Some (armed, w2)"
    by (auto simp: sb_watch_turn_def)
  have k: "kept ifd stale w0 p w2" using arm_timer_kept [OF t(2)] kept_sys [OF assms(1) t(1)] by simp
  show ?thesis
  proof (cases armed)
    case (Inl e)
    with assms(2) t have "c = Break 1" by (simp add: sb_watch_turn_def)
    then show ?thesis by simp
  next
    case (Inr u)
    with assms(2) t obtain n w3 where n: "sys (Ev (Ev_epoll_wait 8)) w2 = Some (n, w3)"
      by (auto simp: sb_watch_turn_def)
    have k3: "kept ifd stale w0 p w3" using kept_sys [OF k n] by simp
    show ?thesis
    proof (cases "rv n < 0")
      case True
      with assms(2) t Inr n k3 show ?thesis by (auto simp: sb_watch_turn_def split: if_splits)
    next
      case False
      with assms(2) t Inr n obtain r w4 where r: "sb_tokens ifd tfd sfd stale dl (List.map fst (take (nat (rv n)) (evs n))) p w3 = Some (r, w4)"
        and "(case r of Inl rc \<Rightarrow> Some (Break rc, w4) | Inr pending \<Rightarrow> Some (Continue pending, w4)) = Some (c, w')"
        by (auto simp: sb_watch_turn_def)
      with sb_tokens_kept [OF k3 r] show ?thesis by (cases r) auto
    qed
  qed
qed

lemma sb_watch_loop_kept:
  assumes "loop (sb_watch_turn ifd tfd sfd efd stale dl) [] w = Some (rc, w')"
  shows "rc = 0 \<longrightarrow> kept ifd stale w [] w'"
  using assms
proof (rule loop_rule [where I = "kept ifd stale w" and Q = "\<lambda>rc v. rc = 0 \<longrightarrow> kept ifd stale w [] v"], goal_cases)
  case 1
  show ?case using ledger_start by (simp add: kept_def)
next
  case (2 p v p' v')
  then show ?case by (auto dest: sb_watch_turn_kept)
next
  case (3 p v r v')
  then show ?case by (auto dest: sb_watch_turn_kept)
qed

lemma ledger_settled: "ledger raw shown None \<Longrightarrow> \<exists>groups. raw = concat groups \<and> [] \<notin> set groups \<and> List.map merged groups = List.map Some shown"
  unfolding ledger_def
proof (elim exE conjE)
  fix groups rest
  assume g: "raw = concat groups @ rest" "[] \<notin> set groups" "List.map merged groups = List.map Some shown" "None = merged rest"
  from g(4) have "rest = []" by (cases rest rule: rev_cases) simp_all
  with g show "\<exists>groups. raw = concat groups \<and> [] \<notin> set groups \<and> List.map merged groups = List.map Some shown"
    by (intro exI [of _ groups]) simp
qed

text \<open>
  C20: The watcher loses no event. When the loop ends on its timeout or on a signal, then for every file
  the events read from the kernel are, in order, a sequence of non-empty groups, and the lines
  printed for the file are exactly the merged kinds of these groups, one line each.
\<close>

theorem sandbox_no_event_lost:
  assumes "loop (sb_watch_turn ifd tfd sfd efd stale deadline) [] w = Some (0, w')"
  shows "\<exists>groups. events_read ifd stale name (since w w') = concat groups \<and> [] \<notin> set groups \<and>
    List.map merged groups = List.map Some (reports name (since w w'))"
  using sb_watch_loop_kept [OF assms] ledger_settled by (simp add: kept_def)

definition one_event :: "byte list" where
  "one_event = [1, 0, 0, 0, 0, 1, 0, 0, 0, 0, 0, 0, 4, 0, 0, 0, 97, 0, 0, 0]"

theorem sandbox_no_event_lost_witness:
  "\<exists>w' groups. loop (sb_watch_turn 3 4 5 6 [] 1000) [] (answering [returned 0, returned 0,
        \<lparr>rv = 2, eno = 0, dat = [], evs = [(0, 1), (2, 1)]\<rparr>, gave one_event, returned 7, failed EAGAIN, returned 128, returned 9])
      = Some (0, w') \<and> events_read 3 [] ''a'' (trace w') = concat groups \<and> [] \<notin> set groups"
proof -
  let ?w = "answering [returned 0, returned 0,
        \<lparr>rv = 2, eno = 0, dat = [], evs = [(0, 1), (2, 1)]\<rparr>, gave one_event, returned 7, failed EAGAIN, returned 128, returned 9]"
  have "\<exists>w'. loop (sb_watch_turn 3 4 5 6 [] 1000) [] ?w = Some (0, w') \<and> since ?w w' = trace w'"
    by (simp add: sb_watch_turn_def arm_timer_def next_due_def sb_read_turn_def sb_flush_def loop.simps io_defs since_def one_event_def)
  then show ?thesis using sandbox_no_event_lost [of 3 4 5 6 "[]" 1000 ?w] by metis
qed

end
