(* ===== verification/Workq.thy ===== *)
theory Workq
  imports Sys Refinement "HOL-Library.Multiset"
begin

text \<open>
  The bounded job queue and its worker pool, \<open>main.cpp\<close> of \<open>examples/25-shared-state-and-the-futex\<close>:
  producers, consumers and the main thread as a step function, over a mutex and two condition
  variables. A step is one acquisition or release of the mutex, one evaluation of the predicate of a
  \<open>wait\<close> with what follows it under the lock, one notification, or one access to a shared variable.
  A thread that waits has released the mutex and stays until a notification picks it or until it
  wakes for no reason (\<open>Spurious_p\<close>, \<open>Spurious_c\<close>); either way it takes the mutex again and evaluates
  the predicate again. \<open>notify_one\<close> wakes any one of the waiting threads, the choice being part of
  the action. The indices are below \<open>items\<close>, and \<open>i + producers\<close> is taken not to overflow a \<open>long\<close>.
\<close>

section \<open>Configuration\<close>

record wq_config =
  q_producers :: int
  q_consumers :: int
  q_items :: int
  q_seed :: u64
  q_cap :: int
  q_buggy :: bool

abbreviation np :: "wq_config \<Rightarrow> nat" where "np c \<equiv> nat (q_producers c)"
abbreviation nc :: "wq_config \<Rightarrow> nat" where "nc c \<equiv> nat (q_consumers c)"
abbreviation ni :: "wq_config \<Rightarrow> nat" where "ni c \<equiv> nat (q_items c)"

text \<open>\<open>static_cast<std::size_t>(cfg.cap)\<close>.\<close>

definition wq_cap :: "wq_config \<Rightarrow> u64" where
  "wq_cap c = word_of_int (q_cap c)"

definition wq_payload :: "u64 \<Rightarrow> u64 \<Rightarrow> u64" where
  "wq_payload seed i =
     (let x = seed + (i + 1) * 0x9E3779B97F4A7C15;
          x = (x XOR drop_bit 30 x) * 0xBF58476D1CE4E5B9;
          x = (x XOR drop_bit 27 x) * 0x94D049BB133111EB
      in x XOR drop_bit 31 x)"

abbreviation payload_at :: "wq_config \<Rightarrow> nat \<Rightarrow> u64" where
  "payload_at c i \<equiv> wq_payload (q_seed c) (word_of_nat i)"

text \<open>\<open>std::from_chars\<close> on a \<open>long\<close>, and on an unsigned 64-bit number in base 10 or 16.\<close>

definition wq_parse_long :: "string \<Rightarrow> string + int" where
  "wq_parse_long s =
     (let neg = (s \<noteq> [] \<and> hd s = CHR ''-'');
          ds = (if neg then tl s else s);
          v = (if neg then - int (decimal ds) else int (decimal ds))
      in if ds \<noteq> [] \<and> list_all is_digit ds \<and> - (2 ^ 63) \<le> v \<and> v < 2 ^ 63 then Inr v
         else Inl (''not an integer: '' @ s))"

definition hex_value :: "char \<Rightarrow> nat option" where
  "hex_value ch = (let n = (of_char ch :: nat) in
     if 48 \<le> n \<and> n \<le> 57 then Some (n - 48)
     else if 97 \<le> n \<and> n \<le> 102 then Some (n - 87)
     else if 65 \<le> n \<and> n \<le> 70 then Some (n - 55) else None)"

fun hexadecimal :: "nat \<Rightarrow> string \<Rightarrow> nat option" where
  "hexadecimal acc [] = Some acc"
| "hexadecimal acc (ch # cs) = (case hex_value ch of None \<Rightarrow> None | Some d \<Rightarrow> hexadecimal (16 * acc + d) cs)"

definition wq_parse_seed :: "string \<Rightarrow> string + u64" where
  "wq_parse_seed s =
     (let hex = (2 < List.length s \<and> (take 2 s = ''0x'' \<or> take 2 s = ''0X''));
          v = (if hex then (case hexadecimal 0 (drop 2 s) of None \<Rightarrow> None | Some v \<Rightarrow> if v < 2 ^ 64 then Some v else None)
               else from_chars_u64 s)
      in case v of None \<Rightarrow> Inl (''not an integer: '' @ s) | Some v \<Rightarrow> Inr (word_of_nat v))"

text \<open>The options so far, with \<open>has_p\<close>, \<open>has_c\<close> and \<open>has_n\<close>.\<close>

fun wq_parse_from :: "string list \<Rightarrow> wq_config \<times> bool \<times> bool \<times> bool \<Rightarrow> string + wq_config \<times> bool \<times> bool \<times> bool" where
  "wq_parse_from [] st = Inr st"
| "wq_parse_from (a # rest) (c, p, k, n) =
     (if a = ''--buggy'' then wq_parse_from rest (c\<lparr>q_buggy := True\<rparr>, p, k, n)
      else if a \<in> {''--producers'', ''--consumers'', ''--items'', ''--cap''} then
        (case rest of [] \<Rightarrow> Inl (a @ '' needs a value'')
         | v # rest1 \<Rightarrow> (case wq_parse_long v of Inl e \<Rightarrow> Inl e
            | Inr x \<Rightarrow>
               if a = ''--producers'' then wq_parse_from rest1 (c\<lparr>q_producers := x\<rparr>, True, k, n)
               else if a = ''--consumers'' then wq_parse_from rest1 (c\<lparr>q_consumers := x\<rparr>, p, True, n)
               else if a = ''--items'' then wq_parse_from rest1 (c\<lparr>q_items := x\<rparr>, p, k, True)
               else wq_parse_from rest1 (c\<lparr>q_cap := x\<rparr>, p, k, n)))
      else if a = ''--seed'' then
        (case rest of [] \<Rightarrow> Inl (a @ '' needs a value'')
         | v # rest1 \<Rightarrow> (case wq_parse_seed v of Inl e \<Rightarrow> Inl e
            | Inr x \<Rightarrow> wq_parse_from rest1 (c\<lparr>q_seed := x\<rparr>, p, k, n)))
      else Inl (''unknown flag: '' @ a))"

definition wq_defaults :: wq_config where
  "wq_defaults = \<lparr>q_producers = 0, q_consumers = 0, q_items = 0, q_seed = 0x0123456789ABCDEF, q_cap = 256, q_buggy = False\<rparr>"

text \<open>The message is empty where only the usage is printed.\<close>

definition wq_parse :: "string list \<Rightarrow> string + wq_config" where
  "wq_parse args = (case wq_parse_from args (wq_defaults, False, False, False) of
     Inl e \<Rightarrow> Inl e
   | Inr (c, p, k, n) \<Rightarrow>
      if \<not> p \<or> \<not> k \<or> \<not> n then Inl []
      else if q_producers c < 1 \<or> q_consumers c < 1 then Inl ''--producers and --consumers must be >= 1''
      else if q_items c < 0 then Inl ''--items must be >= 0''
      else if q_cap c < 1 then Inl ''--cap must be >= 1''
      else Inr c)"

section \<open>The threads\<close>

text \<open>
  Where a producer is, with its loop variable \<open>i\<close>; where a consumer is, with the item it took; where
  the main thread is, with the number of the thread it spawns or joins. \<open>_want\<close>: about to take the
  mutex; \<open>_test\<close>: holds it and evaluates the predicate; \<open>_notify\<close> and \<open>_unlock\<close>: holds it.
\<close>

datatype wp_pc = P_none | P_loop nat | P_want nat | P_test nat | P_wait nat | P_notify nat | P_unlock nat | P_count nat | P_done

datatype wc_pc = C_none | C_want | C_test | C_wait | C_notify u64 | C_unlock "u64 option" | C_fold u64
  | C_inc u64 int | C_sum u64 | C_mix u64 u64 | C_done

datatype wm_pc = M_spawn_p nat | M_spawn_c nat | M_join_p nat | M_lock | M_close | M_unlock | M_notify_all | M_join_c nat | M_done

record wq =
  wq_q :: "u64 list"
  wq_closed :: bool
  wq_held :: bool
  wq_ps :: "wp_pc list"
  wq_cs :: "wc_pc list"
  wq_m :: wm_pc
  wq_produced :: int
  wq_counts :: "int list"
  wq_sums :: "u64 list"
  wq_shared_consumed :: int
  wq_shared_checksum :: u64

definition wq_start :: "wq_config \<Rightarrow> wq" where
  "wq_start c = \<lparr>wq_q = [], wq_closed = False, wq_held = False, wq_ps = replicate (np c) P_none, wq_cs = replicate (nc c) C_none,
     wq_m = M_spawn_p 0, wq_produced = 0, wq_counts = replicate (nc c) 0, wq_sums = replicate (nc c) 0,
     wq_shared_consumed = 0, wq_shared_checksum = 0\<rparr>"

text \<open>The second number of \<open>Prod\<close> and \<open>Cons\<close> is the waiting thread that a notification wakes, if any waits.\<close>

datatype wq_act = Main | Prod nat nat | Cons nat nat | Spurious_p nat | Spurious_c nat

fun waiting_p :: "wp_pc \<Rightarrow> bool" where
  "waiting_p (P_wait i) = True" | "waiting_p _ = False"

fun woken_p :: "wp_pc \<Rightarrow> wp_pc" where
  "woken_p (P_wait i) = P_want i" | "woken_p p = p"

fun woken_c :: "wc_pc \<Rightarrow> wc_pc" where
  "woken_c C_wait = C_want" | "woken_c k = k"

text \<open>\<open>not_empty_.notify_one()\<close>, \<open>not_full_.notify_one()\<close>, \<open>not_empty_.notify_all()\<close>.\<close>

definition notify_one_c :: "nat \<Rightarrow> wc_pc list \<Rightarrow> wc_pc list option" where
  "notify_one_c w cs = (if C_wait \<notin> set cs then Some cs
     else if w < List.length cs \<and> cs ! w = C_wait then Some (cs[w := C_want]) else None)"

definition notify_one_p :: "nat \<Rightarrow> wp_pc list \<Rightarrow> wp_pc list option" where
  "notify_one_p w ps = (if \<not> list_ex waiting_p ps then Some ps
     else if w < List.length ps \<and> waiting_p (ps ! w) then Some (ps[w := woken_p (ps ! w)]) else None)"

definition notify_all_c :: "wc_pc list \<Rightarrow> wc_pc list" where
  "notify_all_c cs = List.map woken_c cs"

text \<open>One step of producer \<open>p\<close>: its loop, \<open>Push\<close> and the counter.\<close>

definition prod_step :: "wq_config \<Rightarrow> nat \<Rightarrow> nat \<Rightarrow> wq \<Rightarrow> wq option" where
  "prod_step c p w s = (if p < List.length (wq_ps s) then (case wq_ps s ! p of
     P_none \<Rightarrow> None
   | P_loop i \<Rightarrow> Some (s\<lparr>wq_ps := (wq_ps s)[p := (if i < ni c then P_want i else P_done)]\<rparr>)
   | P_want i \<Rightarrow> if wq_held s then None else Some (s\<lparr>wq_held := True, wq_ps := (wq_ps s)[p := P_test i]\<rparr>)
   | P_test i \<Rightarrow> if List.length (wq_q s) < unat (wq_cap c)
       then Some (s\<lparr>wq_q := wq_q s @ [payload_at c i], wq_ps := (wq_ps s)[p := P_notify i]\<rparr>)
       else Some (s\<lparr>wq_held := False, wq_ps := (wq_ps s)[p := P_wait i]\<rparr>)
   | P_wait i \<Rightarrow> None
   | P_notify i \<Rightarrow> (case notify_one_c w (wq_cs s) of None \<Rightarrow> None
       | Some cs \<Rightarrow> Some (s\<lparr>wq_cs := cs, wq_ps := (wq_ps s)[p := P_unlock i]\<rparr>))
   | P_unlock i \<Rightarrow> Some (s\<lparr>wq_held := False, wq_ps := (wq_ps s)[p := P_count i]\<rparr>)
   | P_count i \<Rightarrow> Some (s\<lparr>wq_produced := wq_produced s + 1, wq_ps := (wq_ps s)[p := P_loop (i + np c)]\<rparr>)
   | P_done \<Rightarrow> None) else None)"

text \<open>
  One step of consumer \<open>k\<close>: \<open>Pop\<close> and the accumulation, which with \<open>--buggy\<close> loads and stores the
  shared variables with nothing to order it.
\<close>

definition cons_step :: "wq_config \<Rightarrow> nat \<Rightarrow> nat \<Rightarrow> wq \<Rightarrow> wq option" where
  "cons_step c k w s = (if k < List.length (wq_cs s) then (case wq_cs s ! k of
     C_none \<Rightarrow> None
   | C_want \<Rightarrow> if wq_held s then None else Some (s\<lparr>wq_held := True, wq_cs := (wq_cs s)[k := C_test]\<rparr>)
   | C_test \<Rightarrow> (case wq_q s of
       [] \<Rightarrow> if wq_closed s then Some (s\<lparr>wq_cs := (wq_cs s)[k := C_unlock None]\<rparr>)
             else Some (s\<lparr>wq_held := False, wq_cs := (wq_cs s)[k := C_wait]\<rparr>)
     | v # q \<Rightarrow> Some (s\<lparr>wq_q := q, wq_cs := (wq_cs s)[k := C_notify v]\<rparr>))
   | C_wait \<Rightarrow> None
   | C_notify v \<Rightarrow> (case notify_one_p w (wq_ps s) of None \<Rightarrow> None
       | Some ps \<Rightarrow> Some (s\<lparr>wq_ps := ps, wq_cs := (wq_cs s)[k := C_unlock (Some v)]\<rparr>))
   | C_unlock r \<Rightarrow> Some (s\<lparr>wq_held := False, wq_cs := (wq_cs s)[k := (case r of None \<Rightarrow> C_done | Some v \<Rightarrow> C_fold v)]\<rparr>)
   | C_fold v \<Rightarrow> if q_buggy c then Some (s\<lparr>wq_cs := (wq_cs s)[k := C_inc v (wq_shared_consumed s)]\<rparr>)
       else Some (s\<lparr>wq_counts := (wq_counts s)[k := wq_counts s ! k + 1], wq_sums := (wq_sums s)[k := wq_sums s ! k XOR v],
                    wq_cs := (wq_cs s)[k := C_want]\<rparr>)
   | C_inc v n \<Rightarrow> Some (s\<lparr>wq_shared_consumed := n + 1, wq_cs := (wq_cs s)[k := C_sum v]\<rparr>)
   | C_sum v \<Rightarrow> Some (s\<lparr>wq_cs := (wq_cs s)[k := C_mix v (wq_shared_checksum s)]\<rparr>)
   | C_mix v x \<Rightarrow> Some (s\<lparr>wq_shared_checksum := x XOR v, wq_cs := (wq_cs s)[k := C_want]\<rparr>)
   | C_done \<Rightarrow> None) else None)"

text \<open>One step of the main thread: it spawns the producers, then the consumers, joins the producers, closes the queue, joins the consumers.\<close>

definition main_step :: "wq_config \<Rightarrow> wq \<Rightarrow> wq option" where
  "main_step c s = (case wq_m s of
     M_spawn_p p \<Rightarrow> if p < np c then Some (s\<lparr>wq_ps := (wq_ps s)[p := P_loop p], wq_m := M_spawn_p (p + 1)\<rparr>)
       else Some (s\<lparr>wq_m := M_spawn_c 0\<rparr>)
   | M_spawn_c k \<Rightarrow> if k < nc c then Some (s\<lparr>wq_cs := (wq_cs s)[k := C_want], wq_m := M_spawn_c (k + 1)\<rparr>)
       else Some (s\<lparr>wq_m := M_join_p 0\<rparr>)
   | M_join_p p \<Rightarrow> if p < np c then (if wq_ps s ! p = P_done then Some (s\<lparr>wq_m := M_join_p (p + 1)\<rparr>) else None)
       else Some (s\<lparr>wq_m := M_lock\<rparr>)
   | M_lock \<Rightarrow> if wq_held s then None else Some (s\<lparr>wq_held := True, wq_m := M_close\<rparr>)
   | M_close \<Rightarrow> Some (s\<lparr>wq_closed := True, wq_m := M_unlock\<rparr>)
   | M_unlock \<Rightarrow> Some (s\<lparr>wq_held := False, wq_m := M_notify_all\<rparr>)
   | M_notify_all \<Rightarrow> Some (s\<lparr>wq_cs := notify_all_c (wq_cs s), wq_m := M_join_c 0\<rparr>)
   | M_join_c k \<Rightarrow> if k < nc c then (if wq_cs s ! k = C_done then Some (s\<lparr>wq_m := M_join_c (k + 1)\<rparr>) else None)
       else Some (s\<lparr>wq_m := M_done\<rparr>)
   | M_done \<Rightarrow> None)"

fun wq_next :: "wq_config \<Rightarrow> wq \<Rightarrow> wq_act \<Rightarrow> wq option" where
  "wq_next c s Main = main_step c s"
| "wq_next c s (Prod p w) = prod_step c p w s"
| "wq_next c s (Cons k w) = cons_step c k w s"
| "wq_next c s (Spurious_p p) = (if p < List.length (wq_ps s) \<and> waiting_p (wq_ps s ! p)
     then Some (s\<lparr>wq_ps := (wq_ps s)[p := woken_p (wq_ps s ! p)]\<rparr>) else None)"
| "wq_next c s (Spurious_c k) = (if k < List.length (wq_cs s) \<and> wq_cs s ! k = C_wait
     then Some (s\<lparr>wq_cs := (wq_cs s)[k := C_want]\<rparr>) else None)"

definition wq_finished :: "wq \<Rightarrow> bool" where
  "wq_finished s \<longleftrightarrow> wq_m s = M_done"

definition xors :: "u64 list \<Rightarrow> u64" where
  "xors xs = foldr (XOR) xs 0"

text \<open>What is reported: produced, consumed, checksum.\<close>

definition wq_report :: "wq_config \<Rightarrow> wq \<Rightarrow> int \<times> int \<times> u64" where
  "wq_report c s = (if q_buggy c then (wq_produced s, wq_shared_consumed s, wq_shared_checksum s)
     else (wq_produced s, sum_list (wq_counts s), xors (wq_sums s)))"

text \<open>The 16 hexadecimal digits of a checksum, and the outcome for a schedule and the time it took.\<close>

definition hex_char :: "nat \<Rightarrow> char" where
  "hex_char d = char_of (if d < 10 then 48 + d else 87 + d)"

definition show_hex16 :: "u64 \<Rightarrow> string" where
  "show_hex16 x = List.map (\<lambda>i. hex_char (unat (drop_bit (4 * i) x AND 0xF))) (rev [0..<16])"

definition wq_main :: "string list \<Rightarrow> wq_act list \<Rightarrow> int \<Rightarrow> (int \<times> string list) option" where
  "wq_main args schedule ms = (case wq_parse args of
     Inl e \<Rightarrow> Some (2, (if e \<noteq> [] then [''workq: '' @ e] else []) @
       [''usage: workq --producers P --consumers C --items N [--buggy] [--seed S] [--cap K]''])
   | Inr c \<Rightarrow> (case run (wq_next c) (wq_start c) schedule of
       None \<Rightarrow> None
     | Some s \<Rightarrow> if wq_finished s then (case wq_report c s of (produced, consumed, checksum) \<Rightarrow>
         Some (0, [''workq: produced='' @ show_int produced @ '' consumed='' @ show_int consumed @
           '' checksum='' @ show_hex16 checksum @ '' ms='' @ show_int ms])) else None))"

end
