(* ===== verification/WorkqInv.thy ===== *)
theory WorkqInv
  imports Workq
begin

text \<open>
  The invariant of the job queue, kept by every step of every thread: where the main thread is and what
  has been spawned and joined, who holds the mutex, the bound of the queue, and that no wake-up is
  lost. Threads are counted: each part is an equation or a bound on how many are at which place.
\<close>

section \<open>Counting threads\<close>

definition cnt :: "('a \<Rightarrow> nat) \<Rightarrow> 'a list \<Rightarrow> nat" where
  "cnt f xs = sum_list (List.map f xs)"

lemma cnt_simps [simp]: "cnt f [] = 0" "cnt f (x # xs) = f x + cnt f xs" "cnt f (replicate n x) = n * f x"
  by (simp_all add: cnt_def sum_list_replicate)

lemma cnt_member: "i < List.length xs \<Longrightarrow> f (xs ! i) \<le> cnt f xs"
  by (simp add: cnt_def member_le_sum_list)

lemma cnt_update: "i < List.length xs \<Longrightarrow> cnt f (xs[i := y]) = cnt f xs + f y - f (xs ! i)"
  by (simp add: cnt_def map_update sum_list_update)

lemma cnt_zero: "cnt f xs = 0 \<longleftrightarrow> (\<forall>x \<in> set xs. f x = 0)"
  by (induction xs) auto

lemma cnt_map: "cnt f (List.map g xs) = cnt (\<lambda>x. f (g x)) xs"
  by (simp add: cnt_def comp_def)

fun crit_p :: "wp_pc \<Rightarrow> nat" where
  "crit_p (P_test i) = 1" | "crit_p (P_notify i) = 1" | "crit_p (P_unlock i) = 1" | "crit_p _ = 0"

fun act_p :: "wp_pc \<Rightarrow> nat" where
  "act_p (P_want i) = 1" | "act_p (P_test i) = 1" | "act_p _ = 0"

fun notif_p :: "wp_pc \<Rightarrow> nat" where
  "notif_p (P_notify i) = 1" | "notif_p _ = 0"

fun waits_p :: "wp_pc \<Rightarrow> nat" where
  "waits_p (P_wait i) = 1" | "waits_p _ = 0"

fun crit_c :: "wc_pc \<Rightarrow> nat" where
  "crit_c C_test = 1" | "crit_c (C_notify v) = 1" | "crit_c (C_unlock r) = 1" | "crit_c _ = 0"

fun act_c :: "wc_pc \<Rightarrow> nat" where
  "act_c C_want = 1" | "act_c C_test = 1" | "act_c _ = 0"

fun notif_c :: "wc_pc \<Rightarrow> nat" where
  "notif_c (C_notify v) = 1" | "notif_c _ = 0"

fun waits_c :: "wc_pc \<Rightarrow> nat" where
  "waits_c C_wait = 1" | "waits_c _ = 0"

fun crit_m :: "wm_pc \<Rightarrow> nat" where
  "crit_m M_close = 1" | "crit_m M_unlock = 1" | "crit_m _ = 0"

lemma waiting_p_iff: "waiting_p p \<longleftrightarrow> waits_p p = 1"
  by (cases p) auto

lemma no_waits_p: "\<not> list_ex waiting_p ps \<longleftrightarrow> cnt waits_p ps = 0"
proof -
  have "waits_p x = 0 \<longleftrightarrow> \<not> waiting_p x" for x by (cases x) auto
  then show ?thesis by (simp add: cnt_zero list_ex_iff)
qed

lemma no_waits_c: "C_wait \<notin> set cs \<longleftrightarrow> cnt waits_c cs = 0"
proof -
  have "waits_c x = 0 \<longleftrightarrow> x \<noteq> C_wait" for x by (cases x) auto
  then show ?thesis by (auto simp: cnt_zero)
qed

section \<open>The invariant\<close>

text \<open>What the position of the main thread says of the others.\<close>

fun spawned_p :: "nat \<Rightarrow> wm_pc \<Rightarrow> nat" where
  "spawned_p n (M_spawn_p k) = k" | "spawned_p n _ = n"

fun spawned_c :: "nat \<Rightarrow> wm_pc \<Rightarrow> nat" where
  "spawned_c n (M_spawn_p k) = 0" | "spawned_c n (M_spawn_c k) = k" | "spawned_c n _ = n"

fun joined_p :: "nat \<Rightarrow> wm_pc \<Rightarrow> nat" where
  "joined_p n (M_spawn_p k) = 0" | "joined_p n (M_spawn_c k) = 0" | "joined_p n (M_join_p k) = k" | "joined_p n _ = n"

fun joined_c :: "nat \<Rightarrow> wm_pc \<Rightarrow> nat" where
  "joined_c n (M_join_c k) = k" | "joined_c n M_done = n" | "joined_c n _ = 0"

fun has_closed :: "wm_pc \<Rightarrow> bool" where
  "has_closed M_unlock = True" | "has_closed M_notify_all = True" | "has_closed (M_join_c k) = True"
| "has_closed M_done = True" | "has_closed _ = False"

definition wq_stage :: "wq_config \<Rightarrow> wq \<Rightarrow> bool" where
  "wq_stage c s \<longleftrightarrow> List.length (wq_ps s) = np c \<and> List.length (wq_cs s) = nc c \<and>
     spawned_p (np c) (wq_m s) \<le> np c \<and> spawned_c (nc c) (wq_m s) \<le> nc c \<and>
     joined_p (np c) (wq_m s) \<le> np c \<and> joined_c (nc c) (wq_m s) \<le> nc c \<and>
     (\<forall>j < np c. wq_ps s ! j = P_none \<longleftrightarrow> spawned_p (np c) (wq_m s) \<le> j) \<and>
     (\<forall>j < nc c. wq_cs s ! j = C_none \<longleftrightarrow> spawned_c (nc c) (wq_m s) \<le> j) \<and>
     (\<forall>j < joined_p (np c) (wq_m s). wq_ps s ! j = P_done) \<and>
     (\<forall>j < joined_c (nc c) (wq_m s). wq_cs s ! j = C_done) \<and>
     wq_closed s = has_closed (wq_m s)"

definition wq_mutex :: "wq \<Rightarrow> bool" where
  "wq_mutex s \<longleftrightarrow> cnt crit_p (wq_ps s) + cnt crit_c (wq_cs s) + crit_m (wq_m s) = (if wq_held s then 1 else 0)"

text \<open>
  No wake-up is lost: while a producer waits, there are no more free places than producers about to
  evaluate the predicate and notifications about to be sent; and so for the consumers and the items,
  unless the notification of the end is still to come.
\<close>

definition wq_room :: "wq_config \<Rightarrow> wq \<Rightarrow> bool" where
  "wq_room c s \<longleftrightarrow> List.length (wq_q s) \<le> unat (wq_cap c) \<and>
     (0 < cnt waits_p (wq_ps s) \<longrightarrow> unat (wq_cap c) \<le> List.length (wq_q s) + cnt act_p (wq_ps s) + cnt notif_c (wq_cs s))"

definition wq_jobs :: "wq \<Rightarrow> bool" where
  "wq_jobs s \<longleftrightarrow> 0 < cnt waits_c (wq_cs s) \<longrightarrow>
     wq_m s = M_unlock \<or> wq_m s = M_notify_all \<or>
     (\<not> wq_closed s \<and> List.length (wq_q s) \<le> cnt act_c (wq_cs s) + cnt notif_p (wq_ps s))"

definition wq_ended :: "wq \<Rightarrow> bool" where
  "wq_ended s \<longleftrightarrow> (\<forall>x \<in> set (wq_cs s). x = C_done \<or> x = C_unlock None \<longrightarrow> wq_closed s \<and> wq_q s = [])"

definition wq_inv :: "wq_config \<Rightarrow> wq \<Rightarrow> bool" where
  "wq_inv c s \<longleftrightarrow> wq_stage c s \<and> wq_mutex s \<and> wq_room c s \<and> wq_jobs s \<and> wq_ended s"

text \<open>The notifications, by what they do to the counts.\<close>

lemma notify_one_c_cases:
  assumes "notify_one_c w cs = Some cs'"
  obtains "cnt waits_c cs = 0" "cs' = cs" | "w < List.length cs" "cs ! w = C_wait" "cs' = cs[w := C_want]"
proof (cases "cnt waits_c cs = 0")
  case True
  then have "C_wait \<notin> set cs" by (simp only: no_waits_c)
  with assms have "cs' = cs" unfolding notify_one_c_def by simp
  with True show thesis by (rule that(1))
next
  case False
  then have "C_wait \<in> set cs" by (metis no_waits_c)
  with assms have "w < List.length cs" "cs ! w = C_wait" "cs' = cs[w := C_want]"
    unfolding notify_one_c_def by (simp_all split: if_splits)
  then show thesis by (rule that(2))
qed

lemma notify_one_p_cases:
  assumes "notify_one_p w ps = Some ps'"
  obtains "cnt waits_p ps = 0" "ps' = ps" | i where "w < List.length ps" "ps ! w = P_wait i" "ps' = ps[w := P_want i]"
proof (cases "cnt waits_p ps = 0")
  case True
  then have "\<not> list_ex waiting_p ps" by (simp only: no_waits_p)
  with assms have "ps' = ps" unfolding notify_one_p_def by simp
  with True show thesis by (rule that(1))
next
  case False
  then have "list_ex waiting_p ps" by (metis no_waits_p)
  with assms have w: "w < List.length ps" "waiting_p (ps ! w)" "ps' = ps[w := woken_p (ps ! w)]"
    unfolding notify_one_p_def by (simp_all split: if_splits)
  with that(2) show thesis by (cases "ps ! w") auto
qed

lemma notify_all_cnt:
  "cnt crit_c (notify_all_c cs) = cnt crit_c cs" "cnt waits_c (notify_all_c cs) = 0"
  "cnt notif_c (notify_all_c cs) = cnt notif_c cs"
proof -
  have "crit_c (woken_c x) = crit_c x \<and> waits_c (woken_c x) = 0 \<and> notif_c (woken_c x) = notif_c x" for x by (cases x) auto
  then show "cnt crit_c (notify_all_c cs) = cnt crit_c cs" "cnt waits_c (notify_all_c cs) = 0"
    "cnt notif_c (notify_all_c cs) = cnt notif_c cs"
    by (simp_all add: notify_all_c_def cnt_map cnt_zero)
qed

lemma wq_inv_start: "wq_inv c (wq_start c)"
  by (simp add: wq_inv_def wq_stage_def wq_mutex_def wq_room_def wq_jobs_def wq_ended_def wq_start_def)

lemma notify_one_c_cnt:
  assumes "notify_one_c w cs = Some cs'"
  shows "cnt crit_c cs' = cnt crit_c cs" "cnt notif_c cs' = cnt notif_c cs"
    "cnt waits_c cs = 0 \<and> cnt waits_c cs' = 0 \<and> cnt act_c cs' = cnt act_c cs \<or>
     cnt waits_c cs = Suc (cnt waits_c cs') \<and> cnt act_c cs' = Suc (cnt act_c cs)"
proof -
  have "cnt crit_c cs' = cnt crit_c cs \<and> cnt notif_c cs' = cnt notif_c cs \<and>
    (cnt waits_c cs = 0 \<and> cnt waits_c cs' = 0 \<and> cnt act_c cs' = cnt act_c cs \<or>
     cnt waits_c cs = Suc (cnt waits_c cs') \<and> cnt act_c cs' = Suc (cnt act_c cs))"
  proof (rule notify_one_c_cases [OF assms])
    assume w: "w < List.length cs" "cs ! w = C_wait" "cs' = cs[w := C_want]"
    from cnt_member [OF w(1), of waits_c] w(2) have "0 < cnt waits_c cs" by simp
    then show ?thesis by (simp add: cnt_update [OF w(1)] w(2,3))
  qed simp
  then show "cnt crit_c cs' = cnt crit_c cs" "cnt notif_c cs' = cnt notif_c cs"
    "cnt waits_c cs = 0 \<and> cnt waits_c cs' = 0 \<and> cnt act_c cs' = cnt act_c cs \<or>
     cnt waits_c cs = Suc (cnt waits_c cs') \<and> cnt act_c cs' = Suc (cnt act_c cs)" by simp_all
qed

lemma notify_one_p_cnt:
  assumes "notify_one_p w ps = Some ps'"
  shows "cnt crit_p ps' = cnt crit_p ps" "cnt notif_p ps' = cnt notif_p ps"
    "cnt waits_p ps = 0 \<and> cnt waits_p ps' = 0 \<and> cnt act_p ps' = cnt act_p ps \<or>
     cnt waits_p ps = Suc (cnt waits_p ps') \<and> cnt act_p ps' = Suc (cnt act_p ps)"
proof -
  have "cnt crit_p ps' = cnt crit_p ps \<and> cnt notif_p ps' = cnt notif_p ps \<and>
    (cnt waits_p ps = 0 \<and> cnt waits_p ps' = 0 \<and> cnt act_p ps' = cnt act_p ps \<or>
     cnt waits_p ps = Suc (cnt waits_p ps') \<and> cnt act_p ps' = Suc (cnt act_p ps))"
  proof (rule notify_one_p_cases [OF assms])
    fix i assume w: "w < List.length ps" "ps ! w = P_wait i" "ps' = ps[w := P_want i]"
    from cnt_member [OF w(1), of waits_p] w(2) have "0 < cnt waits_p ps" by simp
    then show ?thesis by (simp add: cnt_update [OF w(1)] w(2,3))
  qed simp
  then show "cnt crit_p ps' = cnt crit_p ps" "cnt notif_p ps' = cnt notif_p ps"
    "cnt waits_p ps = 0 \<and> cnt waits_p ps' = 0 \<and> cnt act_p ps' = cnt act_p ps \<or>
     cnt waits_p ps = Suc (cnt waits_p ps') \<and> cnt act_p ps' = Suc (cnt act_p ps)" by simp_all
qed

section \<open>Every step keeps it\<close>

text \<open>The steps of a producer and of a consumer, one by one.\<close>

lemma prod_cases [consumes 1, case_names loop want push full notify unlock count]:
  assumes "prod_step c p w s = Some s'"
  obtains i where "p < List.length (wq_ps s)" "wq_ps s ! p = P_loop i"
      "s' = s\<lparr>wq_ps := (wq_ps s)[p := (if i < ni c then P_want i else P_done)]\<rparr>"
    | i where "p < List.length (wq_ps s)" "wq_ps s ! p = P_want i" "\<not> wq_held s"
      "s' = s\<lparr>wq_held := True, wq_ps := (wq_ps s)[p := P_test i]\<rparr>"
    | i where "p < List.length (wq_ps s)" "wq_ps s ! p = P_test i" "List.length (wq_q s) < unat (wq_cap c)"
      "s' = s\<lparr>wq_q := wq_q s @ [payload_at c i], wq_ps := (wq_ps s)[p := P_notify i]\<rparr>"
    | i where "p < List.length (wq_ps s)" "wq_ps s ! p = P_test i" "unat (wq_cap c) \<le> List.length (wq_q s)"
      "s' = s\<lparr>wq_held := False, wq_ps := (wq_ps s)[p := P_wait i]\<rparr>"
    | i cs where "p < List.length (wq_ps s)" "wq_ps s ! p = P_notify i" "notify_one_c w (wq_cs s) = Some cs"
      "s' = s\<lparr>wq_cs := cs, wq_ps := (wq_ps s)[p := P_unlock i]\<rparr>"
    | i where "p < List.length (wq_ps s)" "wq_ps s ! p = P_unlock i"
      "s' = s\<lparr>wq_held := False, wq_ps := (wq_ps s)[p := P_count i]\<rparr>"
    | i where "p < List.length (wq_ps s)" "wq_ps s ! p = P_count i"
      "s' = s\<lparr>wq_produced := wq_produced s + 1, wq_ps := (wq_ps s)[p := P_loop (i + np c)]\<rparr>"
proof -
  from assms have p: "p < List.length (wq_ps s)" by (simp add: prod_step_def split: if_splits)
  show thesis
  proof (cases "wq_ps s ! p")
    case (P_test i)
    show thesis
    proof (cases "List.length (wq_q s) < unat (wq_cap c)")
      case True
      from assms p P_test True show thesis by (intro that(3)) (auto simp: prod_step_def)
    next
      case False
      from assms p P_test False show thesis by (intro that(4)) (auto simp: prod_step_def)
    qed
  next
    case (P_notify i)
    with assms p that(5) show thesis by (auto simp: prod_step_def split: option.splits)
  next
    case (P_loop i)
    with assms p that(1) show thesis by (simp add: prod_step_def split: if_splits)
  next
    case (P_want i)
    with assms p that(2) show thesis by (simp add: prod_step_def split: if_splits)
  next
    case (P_unlock i)
    with assms p that(6) show thesis by (simp add: prod_step_def split: if_splits)
  next
    case (P_count i)
    with assms p that(7) show thesis by (simp add: prod_step_def split: if_splits)
  qed (insert assms p, simp_all add: prod_step_def)
qed

lemma cons_cases [consumes 1, case_names want pop close block notify leave take_v fold inc sum mix_in load]:
  assumes "cons_step c k w s = Some s'"
  obtains "k < List.length (wq_cs s)" "wq_cs s ! k = C_want" "\<not> wq_held s"
      "s' = s\<lparr>wq_held := True, wq_cs := (wq_cs s)[k := C_test]\<rparr>"
    | v q where "k < List.length (wq_cs s)" "wq_cs s ! k = C_test" "wq_q s = v # q"
      "s' = s\<lparr>wq_q := q, wq_cs := (wq_cs s)[k := C_notify v]\<rparr>"
    | "k < List.length (wq_cs s)" "wq_cs s ! k = C_test" "wq_q s = []" "wq_closed s"
      "s' = s\<lparr>wq_cs := (wq_cs s)[k := C_unlock None]\<rparr>"
    | "k < List.length (wq_cs s)" "wq_cs s ! k = C_test" "wq_q s = []" "\<not> wq_closed s"
      "s' = s\<lparr>wq_held := False, wq_cs := (wq_cs s)[k := C_wait]\<rparr>"
    | v ps where "k < List.length (wq_cs s)" "wq_cs s ! k = C_notify v" "notify_one_p w (wq_ps s) = Some ps"
      "s' = s\<lparr>wq_ps := ps, wq_cs := (wq_cs s)[k := C_unlock (Some v)]\<rparr>"
    | "k < List.length (wq_cs s)" "wq_cs s ! k = C_unlock None" "s' = s\<lparr>wq_held := False, wq_cs := (wq_cs s)[k := C_done]\<rparr>"
    | v where "k < List.length (wq_cs s)" "wq_cs s ! k = C_unlock (Some v)"
      "s' = s\<lparr>wq_held := False, wq_cs := (wq_cs s)[k := C_fold v]\<rparr>"
    | v where "k < List.length (wq_cs s)" "wq_cs s ! k = C_fold v" "\<not> q_buggy c"
      "s' = s\<lparr>wq_counts := (wq_counts s)[k := wq_counts s ! k + 1], wq_sums := (wq_sums s)[k := wq_sums s ! k XOR v],
              wq_cs := (wq_cs s)[k := C_want]\<rparr>"
    | v n where "k < List.length (wq_cs s)" "wq_cs s ! k = C_inc v n"
      "s' = s\<lparr>wq_shared_consumed := n + 1, wq_cs := (wq_cs s)[k := C_sum v]\<rparr>"
    | v where "k < List.length (wq_cs s)" "wq_cs s ! k = C_sum v"
      "s' = s\<lparr>wq_cs := (wq_cs s)[k := C_mix v (wq_shared_checksum s)]\<rparr>"
    | v x where "k < List.length (wq_cs s)" "wq_cs s ! k = C_mix v x"
      "s' = s\<lparr>wq_shared_checksum := x XOR v, wq_cs := (wq_cs s)[k := C_want]\<rparr>"
    | v where "k < List.length (wq_cs s)" "wq_cs s ! k = C_fold v" "q_buggy c"
      "s' = s\<lparr>wq_cs := (wq_cs s)[k := C_inc v (wq_shared_consumed s)]\<rparr>"
proof -
  from assms have k: "k < List.length (wq_cs s)" by (simp add: cons_step_def split: if_splits)
  show thesis
  proof (cases "wq_cs s ! k")
    case C_test
    show thesis
    proof (cases "wq_q s")
      case Nil
      show thesis
      proof (cases "wq_closed s")
        case True
        from assms k C_test Nil True show thesis by (intro that(3)) (auto simp: cons_step_def)
      next
        case False
        from assms k C_test Nil False show thesis by (intro that(4)) (auto simp: cons_step_def)
      qed
    next
      case (Cons v q)
      from assms k C_test Cons show thesis by (intro that(2)) (auto simp: cons_step_def)
    qed
  next
    case (C_notify v)
    with assms k that(5) show thesis by (auto simp: cons_step_def split: option.splits)
  next
    case (C_unlock r)
    with assms k that(6,7) show thesis by (cases r) (simp_all add: cons_step_def)
  next
    case (C_fold v)
    with assms k that(8,12) show thesis by (cases "q_buggy c") (simp_all add: cons_step_def)
  next
    case C_want
    with assms k that(1) show thesis by (simp add: cons_step_def split: if_splits)
  next
    case (C_inc v n)
    with assms k that(9) show thesis by (simp add: cons_step_def split: if_splits)
  next
    case (C_sum v)
    with assms k that(10) show thesis by (simp add: cons_step_def split: if_splits)
  next
    case (C_mix v x)
    with assms k that(11) show thesis by (simp add: cons_step_def split: if_splits)
  qed (insert assms k, simp_all add: cons_step_def)
qed

text \<open>The parts on the counts, for each kind of thread.\<close>

lemma wq_mutex_prod:
  assumes "prod_step c p w s = Some s'" and "wq_mutex s"
  shows "wq_mutex s'"
proof -
  have m: "p < List.length (wq_ps s) \<Longrightarrow> crit_p (wq_ps s ! p) \<le> cnt crit_p (wq_ps s)" by (rule cnt_member)
  from assms(1) show ?thesis
  proof (cases rule: prod_cases)
    case (notify v cs)
    with assms(2) m notify_one_c_cnt(1) [OF notify(3)] show ?thesis by (auto simp: wq_mutex_def cnt_update)
  qed (use assms(2) m in \<open>auto simp: wq_mutex_def cnt_update\<close>)
qed

lemma wq_mutex_cons:
  assumes "cons_step c k w s = Some s'" and "wq_mutex s"
  shows "wq_mutex s'"
proof -
  have m: "k < List.length (wq_cs s) \<Longrightarrow> crit_c (wq_cs s ! k) \<le> cnt crit_c (wq_cs s)" by (rule cnt_member)
  from assms(1) show ?thesis
  proof (cases rule: cons_cases)
    case (notify v ps)
    with assms(2) m notify_one_p_cnt(1) [OF notify(3)] show ?thesis by (auto simp: wq_mutex_def cnt_update)
  qed (use assms(2) m in \<open>auto simp: wq_mutex_def cnt_update\<close>)
qed

lemma wq_room_prod:
  assumes "prod_step c p w s = Some s'" and "wq_room c s"
  shows "wq_room c s'"
proof -
  have m: "p < List.length (wq_ps s) \<Longrightarrow> act_p (wq_ps s ! p) \<le> cnt act_p (wq_ps s) \<and> waits_p (wq_ps s ! p) \<le> cnt waits_p (wq_ps s)"
    by (simp add: cnt_member)
  from assms(1) show ?thesis
  proof (cases rule: prod_cases)
    case (notify v cs)
    with assms(2) m notify_one_c_cnt(2) [OF notify(3)] show ?thesis by (auto simp: wq_room_def cnt_update)
  qed (use assms(2) m in \<open>auto simp: wq_room_def cnt_update\<close>)
qed

lemma wq_room_cons:
  assumes "cons_step c k w s = Some s'" and "wq_room c s"
  shows "wq_room c s'"
proof -
  have m: "k < List.length (wq_cs s) \<Longrightarrow> notif_c (wq_cs s ! k) \<le> cnt notif_c (wq_cs s)" by (rule cnt_member)
  from assms(1) show ?thesis
  proof (cases rule: cons_cases)
    case (notify v ps)
    with assms(2) m notify_one_p_cnt(3) [OF notify(3)] show ?thesis by (auto simp: wq_room_def cnt_update)
  qed (use assms(2) m in \<open>auto simp: wq_room_def cnt_update\<close>)
qed

lemma wq_jobs_prod:
  assumes "prod_step c p w s = Some s'" and "wq_jobs s" and "wq_closed s \<longrightarrow> wq_ps s ! p = P_done"
  shows "wq_jobs s'"
proof -
  have m: "p < List.length (wq_ps s) \<Longrightarrow> notif_p (wq_ps s ! p) \<le> cnt notif_p (wq_ps s)" by (rule cnt_member)
  from assms(1) show ?thesis
  proof (cases rule: prod_cases)
    case (notify v cs)
    with assms(2) m notify_one_c_cnt(3) [OF notify(3)] show ?thesis by (auto simp: wq_jobs_def cnt_update)
  qed (use assms(2,3) m in \<open>auto simp: wq_jobs_def cnt_update\<close>)
qed

lemma wq_jobs_cons:
  assumes "cons_step c k w s = Some s'" and "wq_jobs s" and "wq_closed s \<longrightarrow> has_closed (wq_m s)"
  shows "wq_jobs s'"
proof -
  have m: "k < List.length (wq_cs s) \<Longrightarrow> act_c (wq_cs s ! k) \<le> cnt act_c (wq_cs s) \<and> waits_c (wq_cs s ! k) \<le> cnt waits_c (wq_cs s)"
    by (simp add: cnt_member)
  from assms(1) show ?thesis
  proof (cases rule: cons_cases)
    case (notify v ps)
    with assms(2,3) m notify_one_p_cnt(2) [OF notify(3)] show ?thesis by (auto simp: wq_jobs_def cnt_update)
  qed (use assms(2,3) m in \<open>auto simp: wq_jobs_def cnt_update\<close>)
qed

text \<open>The stage: a step of a thread neither unspawns nor revives one.\<close>

definition same_life :: "wq \<Rightarrow> wq \<Rightarrow> bool" where
  "same_life s s' \<longleftrightarrow> wq_m s' = wq_m s \<and> wq_closed s' = wq_closed s \<and>
     List.length (wq_ps s') = List.length (wq_ps s) \<and> List.length (wq_cs s') = List.length (wq_cs s) \<and>
     (\<forall>j < List.length (wq_ps s). (wq_ps s' ! j = P_none \<longleftrightarrow> wq_ps s ! j = P_none) \<and> (wq_ps s ! j = P_done \<longrightarrow> wq_ps s' ! j = P_done)) \<and>
     (\<forall>j < List.length (wq_cs s). (wq_cs s' ! j = C_none \<longleftrightarrow> wq_cs s ! j = C_none) \<and> (wq_cs s ! j = C_done \<longrightarrow> wq_cs s' ! j = C_done))"

lemma wq_stage_same_life: "same_life s s' \<Longrightarrow> wq_stage c s \<Longrightarrow> wq_stage c s'"
proof -
  assume l: "same_life s s'" and st: "wq_stage c s"
  from l have ps: "\<And>j. j < List.length (wq_ps s) \<Longrightarrow> (wq_ps s' ! j = P_none \<longleftrightarrow> wq_ps s ! j = P_none) \<and> (wq_ps s ! j = P_done \<longrightarrow> wq_ps s' ! j = P_done)"
    and cs: "\<And>j. j < List.length (wq_cs s) \<Longrightarrow> (wq_cs s' ! j = C_none \<longleftrightarrow> wq_cs s ! j = C_none) \<and> (wq_cs s ! j = C_done \<longrightarrow> wq_cs s' ! j = C_done)"
    and e: "wq_m s' = wq_m s" "wq_closed s' = wq_closed s" "List.length (wq_ps s') = List.length (wq_ps s)"
      "List.length (wq_cs s') = List.length (wq_cs s)"
    unfolding same_life_def by blast+
  from st ps cs show "wq_stage c s'" unfolding wq_stage_def e by auto
qed

lemma same_life_update_p:
  assumes "p < List.length (wq_ps s)" and "wq_ps s ! p \<noteq> P_none" and "wq_ps s ! p \<noteq> P_done" and "x \<noteq> P_none"
    and "wq_ps s' = (wq_ps s)[p := x]" and "wq_m s' = wq_m s" and "wq_closed s' = wq_closed s" and "wq_cs s' = wq_cs s"
  shows "same_life s s'"
  using assms(1-4) unfolding same_life_def assms(5-8) by (auto simp: nth_list_update)

lemma same_life_update_c:
  assumes "k < List.length (wq_cs s)" and "wq_cs s ! k \<noteq> C_none" and "wq_cs s ! k \<noteq> C_done" and "y \<noteq> C_none"
    and "wq_cs s' = (wq_cs s)[k := y]" and "wq_m s' = wq_m s" and "wq_closed s' = wq_closed s" and "wq_ps s' = wq_ps s"
  shows "same_life s s'"
  using assms(1-4) unfolding same_life_def assms(5-8) by (auto simp: nth_list_update)

lemma same_life_trans: "same_life s s1 \<Longrightarrow> same_life s1 s' \<Longrightarrow> same_life s s'"
  unfolding same_life_def by simp

lemma notify_one_c_same_life:
  assumes "notify_one_c w (wq_cs s) = Some cs"
  shows "same_life s (s\<lparr>wq_cs := cs\<rparr>)"
  using assms by (rule notify_one_c_cases) (simp_all add: same_life_def nth_list_update)

lemma notify_one_p_same_life:
  assumes "notify_one_p w (wq_ps s) = Some ps"
  shows "same_life s (s\<lparr>wq_ps := ps\<rparr>)"
  using assms by (rule notify_one_p_cases) (simp_all add: same_life_def nth_list_update)

lemma same_life_prod:
  assumes "prod_step c p w s = Some s'"
  shows "same_life s s'"
  using assms
proof (cases rule: prod_cases)
  case (notify i cs)
  have "same_life (s\<lparr>wq_cs := cs\<rparr>) s'"
    by (rule same_life_update_p [of p _ "P_unlock i"]) (simp_all add: notify)
  with notify_one_c_same_life [OF notify(3)] show ?thesis by (rule same_life_trans)
next
  case (loop i)
  then show ?thesis by (intro same_life_update_p [of p]) simp_all
qed (rule same_life_update_p [of p], simp_all)+

lemma same_life_cons:
  assumes "cons_step c k w s = Some s'"
  shows "same_life s s'"
  using assms
proof (cases rule: cons_cases)
  case (notify v ps)
  have "same_life (s\<lparr>wq_ps := ps\<rparr>) s'"
    by (rule same_life_update_c [of k _ "C_unlock (Some v)"]) (simp_all add: notify)
  with notify_one_p_same_life [OF notify(3)] show ?thesis by (rule same_life_trans)
qed (rule same_life_update_c [of k], simp_all)+

text \<open>A consumer leaves only a queue that is closed and empty, and nothing enters it any more.\<close>

lemma wq_closed_all_done:
  assumes "wq_stage c s" and "wq_closed s" and "p < List.length (wq_ps s)"
  shows "wq_ps s ! p = P_done"
proof -
  from assms(1,2) have "has_closed (wq_m s)" by (simp add: wq_stage_def)
  then have "joined_p (np c) (wq_m s) = np c" by (cases "wq_m s") simp_all
  with assms(1,3) show ?thesis by (simp add: wq_stage_def)
qed

lemma wq_ended_prod:
  assumes "prod_step c p w s = Some s'" and "wq_ended s" and "wq_stage c s"
  shows "wq_ended s'"
proof -
  have nd: "wq_ps s ! p \<noteq> P_done" using assms(1) by (cases rule: prod_cases) simp_all
  from assms(1) have "p < List.length (wq_ps s)" by (cases rule: prod_cases) simp_all
  with nd wq_closed_all_done [OF assms(3)] have open_q: "\<not> wq_closed s" by blast
  from assms(1) show ?thesis
  proof (cases rule: prod_cases)
    case (notify i cs)
    have "\<forall>x \<in> set cs. x = C_done \<or> x = C_unlock None \<longrightarrow> x \<in> set (wq_cs s)"
      using notify(3) by (rule notify_one_c_cases) (auto dest: set_update_subset_insert [THEN subsetD])
    with assms(2) notify(4) show ?thesis by (auto simp: wq_ended_def)
  next
    case push
    with assms(2) open_q show ?thesis by (auto simp: wq_ended_def)
  qed (use assms(2) in \<open>auto simp: wq_ended_def\<close>)
qed

lemma wq_ended_cons:
  assumes "cons_step c k w s = Some s'" and "wq_ended s"
  shows "wq_ended s'"
proof -
  have sub: "set ((wq_cs s)[k := x]) \<subseteq> insert x (set (wq_cs s))" for x by (rule set_update_subset_insert)
  have at: "k < List.length (wq_cs s) \<Longrightarrow> wq_cs s ! k \<in> set (wq_cs s)" by simp
  from assms(1) show ?thesis
  proof (cases rule: cons_cases)
    case (leave)
    with at have "C_unlock None \<in> set (wq_cs s)" by simp
    with assms(2) have "wq_closed s \<and> wq_q s = []" by (simp add: wq_ended_def)
    with leave(3) show ?thesis by (simp add: wq_ended_def)
  next
    case (pop v q)
    with assms(2) have "\<forall>x \<in> set (wq_cs s). x \<noteq> C_done \<and> x \<noteq> C_unlock None" by (auto simp: wq_ended_def)
    with pop(4) sub [of "C_notify v"] show ?thesis by (auto simp: wq_ended_def)
  next
    case close
    then show ?thesis by (simp add: wq_ended_def)
  qed (use assms(2) sub in \<open>auto simp: wq_ended_def\<close>)
qed

text \<open>The main thread.\<close>

lemma main_cases [consumes 1, case_names spawn_p spawn_c join_p lock close unlock notify join_c to_c to_p to_lock ended]:
  assumes "main_step c s = Some s'"
  obtains p where "wq_m s = M_spawn_p p" "p < np c" "s' = s\<lparr>wq_ps := (wq_ps s)[p := P_loop p], wq_m := M_spawn_p (p + 1)\<rparr>"
    | k where "wq_m s = M_spawn_c k" "k < nc c" "s' = s\<lparr>wq_cs := (wq_cs s)[k := C_want], wq_m := M_spawn_c (k + 1)\<rparr>"
    | p where "wq_m s = M_join_p p" "p < np c" "wq_ps s ! p = P_done" "s' = s\<lparr>wq_m := M_join_p (p + 1)\<rparr>"
    | "wq_m s = M_lock" "\<not> wq_held s" "s' = s\<lparr>wq_held := True, wq_m := M_close\<rparr>"
    | "wq_m s = M_close" "s' = s\<lparr>wq_closed := True, wq_m := M_unlock\<rparr>"
    | "wq_m s = M_unlock" "s' = s\<lparr>wq_held := False, wq_m := M_notify_all\<rparr>"
    | "wq_m s = M_notify_all" "s' = s\<lparr>wq_cs := notify_all_c (wq_cs s), wq_m := M_join_c 0\<rparr>"
    | k where "wq_m s = M_join_c k" "k < nc c" "wq_cs s ! k = C_done" "s' = s\<lparr>wq_m := M_join_c (k + 1)\<rparr>"
    | p where "wq_m s = M_spawn_p p" "np c \<le> p" "s' = s\<lparr>wq_m := M_spawn_c 0\<rparr>"
    | k where "wq_m s = M_spawn_c k" "nc c \<le> k" "s' = s\<lparr>wq_m := M_join_p 0\<rparr>"
    | p where "wq_m s = M_join_p p" "np c \<le> p" "s' = s\<lparr>wq_m := M_lock\<rparr>"
    | k where "wq_m s = M_join_c k" "nc c \<le> k" "s' = s\<lparr>wq_m := M_done\<rparr>"
proof (cases "wq_m s")
  case (M_spawn_p p)
  with assms that(1,9) show thesis by (auto simp: main_step_def split: if_splits)
next
  case (M_spawn_c k)
  with assms that(2,10) show thesis by (auto simp: main_step_def split: if_splits)
next
  case (M_join_p p)
  with assms that(3,11) show thesis by (auto simp: main_step_def split: if_splits)
next
  case M_lock
  with assms that(4) show thesis by (auto simp: main_step_def split: if_splits)
next
  case M_close
  with assms that(5) show thesis by (auto simp: main_step_def)
next
  case M_unlock
  with assms that(6) show thesis by (auto simp: main_step_def)
next
  case M_notify_all
  with assms that(7) show thesis by (auto simp: main_step_def)
next
  case (M_join_c k)
  with assms that(8,12) show thesis by (auto simp: main_step_def split: if_splits)
next
  case M_done
  with assms show thesis by (simp add: main_step_def)
qed

lemma less_Suc_all: "(\<forall>j < Suc n. P j) \<longleftrightarrow> P n \<and> (\<forall>j < n. P j)"
  using less_Suc_eq by auto

lemma wq_stage_main:
  assumes "main_step c s = Some s'" and "wq_stage c s"
  shows "wq_stage c s'"
  using assms(1)
proof (cases rule: main_cases)
  case notify
  have "woken_c x = C_none \<longleftrightarrow> x = C_none" for x by (cases x) auto
  with assms(2) notify show ?thesis by (auto simp: wq_stage_def notify_all_c_def)
qed (use assms(2) in \<open>auto simp: wq_stage_def nth_list_update less_Suc_all le_Suc_eq\<close>)

lemma wq_spawning:
  assumes "wq_stage c s"
  shows "wq_m s = M_spawn_p p \<Longrightarrow> p < np c \<Longrightarrow> p < List.length (wq_ps s) \<and> wq_ps s ! p = P_none"
    and "wq_m s = M_spawn_c k \<Longrightarrow> k < nc c \<Longrightarrow> k < List.length (wq_cs s) \<and> wq_cs s ! k = C_none"
  using assms by (auto simp: wq_stage_def)

lemma wq_mutex_main:
  assumes "main_step c s = Some s'" and "wq_mutex s" and "wq_stage c s"
  shows "wq_mutex s'"
  using assms(1)
proof (cases rule: main_cases)
  case (spawn_p p)
  with wq_spawning(1) [OF assms(3)] assms(2) show ?thesis by (simp add: wq_mutex_def cnt_update)
next
  case (spawn_c k)
  with wq_spawning(2) [OF assms(3)] assms(2) show ?thesis by (simp add: wq_mutex_def cnt_update)
next
  case notify
  with assms(2) show ?thesis by (simp add: wq_mutex_def notify_all_cnt)
qed (use assms(2) in \<open>simp_all add: wq_mutex_def split: if_splits\<close>)

lemma wq_room_main:
  assumes "main_step c s = Some s'" and "wq_room c s" and "wq_stage c s"
  shows "wq_room c s'"
  using assms(1)
proof (cases rule: main_cases)
  case (spawn_p p)
  with wq_spawning(1) [OF assms(3)] assms(2) show ?thesis by (simp add: wq_room_def cnt_update)
next
  case (spawn_c k)
  with wq_spawning(2) [OF assms(3)] assms(2) show ?thesis by (simp add: wq_room_def cnt_update)
next
  case notify
  with assms(2) show ?thesis by (simp add: wq_room_def notify_all_cnt)
qed (use assms(2) in \<open>simp_all add: wq_room_def\<close>)

lemma wq_jobs_main:
  assumes "main_step c s = Some s'" and "wq_jobs s" and "wq_stage c s"
  shows "wq_jobs s'"
  using assms(1)
proof (cases rule: main_cases)
  case (spawn_p p)
  with wq_spawning(1) [OF assms(3)] assms(2) show ?thesis by (simp add: wq_jobs_def cnt_update)
next
  case (spawn_c k)
  with wq_spawning(2) [OF assms(3)] assms(2) show ?thesis by (auto simp: wq_jobs_def cnt_update)
next
  case notify
  then show ?thesis by (simp add: wq_jobs_def notify_all_cnt)
qed (use assms(2) in \<open>simp_all add: wq_jobs_def\<close>)

lemma wq_ended_main:
  assumes "main_step c s = Some s'" and "wq_ended s"
  shows "wq_ended s'"
  using assms(1)
proof (cases rule: main_cases)
  case (spawn_c k)
  have "set ((wq_cs s)[k := C_want]) \<subseteq> insert C_want (set (wq_cs s))" by (rule set_update_subset_insert)
  with assms(2) spawn_c(3) show ?thesis by (auto simp: wq_ended_def)
next
  case notify
  have "x = C_done \<or> x = C_unlock None" if "woken_c x = C_done \<or> woken_c x = C_unlock None" for x using that by (cases x) auto
  with assms(2) notify(2) show ?thesis by (auto simp: wq_ended_def notify_all_c_def)
qed (use assms(2) in \<open>simp_all add: wq_ended_def\<close>)

text \<open>Waking up for no reason.\<close>

lemma wq_inv_spurious_p:
  assumes "wq_next c s (Spurious_p p) = Some s'" and "wq_inv c s"
  shows "wq_inv c s'"
proof -
  from assms(1) have p: "p < List.length (wq_ps s)" "waiting_p (wq_ps s ! p)"
    and s': "s' = s\<lparr>wq_ps := (wq_ps s)[p := woken_p (wq_ps s ! p)]\<rparr>" by (auto split: if_splits)
  from p(2) obtain i where i: "wq_ps s ! p = P_wait i" by (cases "wq_ps s ! p") auto
  have "same_life s s'" by (rule same_life_update_p [of p _ "P_want i"]) (simp_all add: s' p i)
  with assms(2) have "wq_stage c s'" by (simp add: wq_inv_def wq_stage_same_life)
  moreover have "wq_mutex s' \<and> wq_room c s' \<and> wq_jobs s'"
    using assms(2) by (auto simp: s' i wq_inv_def wq_mutex_def wq_room_def wq_jobs_def cnt_update [OF p(1)])
  moreover have "wq_ended s'" using assms(2) by (simp add: s' wq_inv_def wq_ended_def)
  ultimately show ?thesis by (simp add: wq_inv_def)
qed

lemma wq_inv_spurious_c:
  assumes "wq_next c s (Spurious_c k) = Some s'" and "wq_inv c s"
  shows "wq_inv c s'"
proof -
  from assms(1) have k: "k < List.length (wq_cs s)" "wq_cs s ! k = C_wait"
    and s': "s' = s\<lparr>wq_cs := (wq_cs s)[k := C_want]\<rparr>" by (auto split: if_splits)
  have "same_life s s'" by (rule same_life_update_c [of k _ C_want]) (simp_all add: s' k)
  with assms(2) have "wq_stage c s'" by (simp add: wq_inv_def wq_stage_same_life)
  moreover have "wq_mutex s' \<and> wq_room c s' \<and> wq_jobs s'"
    using assms(2) k(2) by (auto simp: s' wq_inv_def wq_mutex_def wq_room_def wq_jobs_def cnt_update [OF k(1)])
  moreover have "wq_ended s'"
    using assms(2) set_update_subset_insert [of "wq_cs s" k C_want] by (auto simp: s' wq_inv_def wq_ended_def)
  ultimately show ?thesis by (simp add: wq_inv_def)
qed

lemma wq_inv_step:
  assumes "wq_inv c s" and "wq_next c s a = Some s'"
  shows "wq_inv c s'"
proof (cases a)
  case Main
  with assms show ?thesis
    by (auto simp: wq_inv_def intro: wq_stage_main wq_mutex_main wq_room_main wq_jobs_main wq_ended_main)
next
  case (Prod p w)
  with assms have st: "wq_stage c s" and step: "prod_step c p w s = Some s'" by (simp_all add: wq_inv_def)
  from step have "p < List.length (wq_ps s)" by (cases rule: prod_cases) simp_all
  with st have "wq_closed s \<longrightarrow> wq_ps s ! p = P_done" by (auto dest: wq_closed_all_done)
  with assms(1) step show ?thesis
    by (auto simp: wq_inv_def intro: wq_stage_same_life same_life_prod wq_mutex_prod wq_room_prod wq_jobs_prod wq_ended_prod)
next
  case (Cons k w)
  with assms have step: "cons_step c k w s = Some s'" by simp
  from assms(1) have "wq_closed s \<longrightarrow> has_closed (wq_m s)" by (simp add: wq_inv_def wq_stage_def)
  with assms(1) step show ?thesis
    by (auto simp: wq_inv_def intro: wq_stage_same_life same_life_cons wq_mutex_cons wq_room_cons wq_jobs_cons wq_ended_cons)
next
  case (Spurious_p p)
  with assms show ?thesis by (auto intro: wq_inv_spurious_p)
next
  case (Spurious_c k)
  with assms show ?thesis by (auto intro: wq_inv_spurious_c)
qed

lemma wq_inv_run: "run (wq_next c) (wq_start c) as = Some s \<Longrightarrow> wq_inv c s"
  by (rule run_invariant [where I = "wq_inv c", OF _ wq_inv_start]) (auto intro: wq_inv_step)

end
