(* ===== verification/WorkqProps.thy ===== *)
theory WorkqProps
  imports WorkqInv
begin

text \<open>
  The job queue in every interleaving, with any wake-up that happens for no reason: the queue keeps its
  bound and its order, some thread can always go on, every run ends, and what is reported does not
  depend on the schedule; and how \<open>--buggy\<close> loses a job.
\<close>

section \<open>A bounded queue\<close>

text \<open>
  What a step does to the abstract queue: a producer that finds room enters the payload of its index;
  a consumer that finds an item takes out the value it then has in hand, which is read off the state
  it gets to.
\<close>

fun in_hand :: "wc_pc \<Rightarrow> u64 option" where
  "in_hand (C_notify v) = Some v" | "in_hand _ = None"

definition popped :: "wq_config \<Rightarrow> wq \<Rightarrow> nat \<Rightarrow> nat \<Rightarrow> u64 option" where
  "popped c s k w = (case cons_step c k w s of None \<Rightarrow> None | Some s' \<Rightarrow> in_hand (wq_cs s' ! k))"

fun wq_label :: "wq_config \<Rightarrow> wq \<Rightarrow> wq_act \<Rightarrow> queue_op option" where
  "wq_label c s (Prod p w) = (if p < List.length (wq_ps s) then (case wq_ps s ! p of
     P_test i \<Rightarrow> if List.length (wq_q s) < unat (wq_cap c) then Some (Enq (payload_at c i)) else None
   | _ \<Rightarrow> None) else None)"
| "wq_label c s (Cons k w) = (if k < List.length (wq_cs s) \<and> wq_cs s ! k = C_test then map_option Deq (popped c s k w) else None)"
| "wq_label c s _ = None"

lemma wq_queue_main: "main_step c s = Some s' \<Longrightarrow> wq_q s' = wq_q s"
  by (cases rule: main_cases, assumption) simp_all

lemma wq_queue_silent:
  assumes "wq_next c s a = Some s'" and "wq_label c s a = None"
  shows "wq_q s' = wq_q s"
proof (cases a)
  case Main
  with assms(1) show ?thesis by (simp add: wq_queue_main)
next
  case (Prod p w)
  with assms(1) have "prod_step c p w s = Some s'" by simp
  then show ?thesis by (cases rule: prod_cases) (use Prod assms(2) in simp_all)
next
  case (Cons k w)
  with assms(1) have "cons_step c k w s = Some s'" by simp
  then show ?thesis
  proof (cases rule: cons_cases)
    case (pop v q)
    with Cons assms(2) show ?thesis by (simp add: popped_def cons_step_def)
  qed simp_all
next
  case (Spurious_p p)
  with assms(1) show ?thesis by (auto split: if_splits)
next
  case (Spurious_c k)
  with assms(1) show ?thesis by (auto split: if_splits)
qed

lemma wq_queue_visible:
  assumes "wq_next c s a = Some s'" and "wq_label c s a = Some b"
  shows "queue_next (wq_cap c) (wq_q s) b = Some (wq_q s')"
proof (cases a)
  case (Prod p w)
  with assms(1) have "prod_step c p w s = Some s'" by simp
  then show ?thesis by (cases rule: prod_cases) (use Prod assms(2) in auto)
next
  case (Cons k w)
  with assms(1) have "cons_step c k w s = Some s'" by simp
  then show ?thesis
    by (cases rule: cons_cases) (use Cons assms(2) in \<open>auto simp: popped_def cons_step_def split: if_splits\<close>)
qed (use assms(2) in simp_all)

interpretation wqr: refinement "wq_next c" "wq_inv c" wq_q "wq_label c" "queue_next (wq_cap c)"
  for c
  by unfold_locales (auto intro: wq_inv_step wq_queue_silent wq_queue_visible)

section \<open>Some thread can go on\<close>

fun busy_p :: "wp_pc \<Rightarrow> bool" where
  "busy_p P_none = False" | "busy_p (P_wait i) = False" | "busy_p (P_want i) = False" | "busy_p P_done = False" | "busy_p _ = True"

fun busy_c :: "wc_pc \<Rightarrow> bool" where
  "busy_c C_none = False" | "busy_c C_wait = False" | "busy_c C_want = False" | "busy_c C_done = False" | "busy_c _ = True"

lemma notify_possible: "\<exists>w cs'. notify_one_c w cs = Some cs'" "\<exists>w ps'. notify_one_p w ps = Some ps'"
proof -
  show "\<exists>w cs'. notify_one_c w cs = Some cs'"
  proof (cases "C_wait \<in> set cs")
    case True
    then obtain w where "w < List.length cs" "cs ! w = C_wait" by (metis in_set_conv_nth)
    with True show ?thesis by (auto simp: notify_one_c_def)
  qed (simp add: notify_one_c_def)
  show "\<exists>w ps'. notify_one_p w ps = Some ps'"
  proof (cases "list_ex waiting_p ps")
    case True
    then obtain w where "w < List.length ps" "waiting_p (ps ! w)" by (auto simp: list_ex_iff in_set_conv_nth)
    with True show ?thesis by (auto simp: notify_one_p_def)
  qed (simp add: notify_one_p_def)
qed

lemma busy_p_steps:
  assumes "p < List.length (wq_ps s)" and "busy_p (wq_ps s ! p) \<or> (\<exists>i. wq_ps s ! p = P_want i) \<and> \<not> wq_held s"
  shows "\<exists>w s'. prod_step c p w s = Some s'"
proof (cases "wq_ps s ! p")
  case (P_notify i)
  from notify_possible(1) [of "wq_cs s"] obtain w cs where "notify_one_c w (wq_cs s) = Some cs" by blast
  with P_notify assms(1) show ?thesis by (intro exI [of _ w]) (simp add: prod_step_def)
qed (use assms in \<open>simp_all add: prod_step_def\<close>)

lemma busy_c_steps:
  assumes "k < List.length (wq_cs s)" and "busy_c (wq_cs s ! k) \<or> wq_cs s ! k = C_want \<and> \<not> wq_held s"
  shows "\<exists>w s'. cons_step c k w s = Some s'"
proof (cases "wq_cs s ! k")
  case (C_notify i)
  from notify_possible(2) [of "wq_ps s"] obtain w ps where "notify_one_p w (wq_ps s) = Some ps" by blast
  with C_notify assms(1) show ?thesis by (intro exI [of _ w]) (simp add: cons_step_def)
next
  case C_test
  with assms(1) show ?thesis by (cases "wq_q s") (simp_all add: cons_step_def)
qed (use assms in \<open>simp_all add: cons_step_def\<close>)

fun spurious :: "wq_act \<Rightarrow> bool" where
  "spurious (Spurious_p p) = True" | "spurious (Spurious_c k) = True" | "spurious _ = False"

text \<open>A queue that is full has an item: if everybody waits, somebody's notification is still to come.\<close>

lemma wq_can_go_on:
  assumes inv: "wq_inv c s" and m: "wq_m s \<noteq> M_done" and c: "0 < nc c" "0 < unat (wq_cap c)"
  shows "\<exists>a s'. \<not> spurious a \<and> wq_next c s a = Some s'"
proof (rule ccontr)
  assume stuck: "\<not> ?thesis"
  then have no: "\<And>p w. prod_step c p w s = None" "\<And>k w. cons_step c k w s = None" "main_step c s = None"
    by (metis not_None_eq spurious.simps(4) wq_next.simps(2), metis not_None_eq spurious.simps(5) wq_next.simps(3),
        metis not_None_eq spurious.simps(3) wq_next.simps(1))
  from inv have st: "wq_stage c s" and mu: "wq_mutex s" and ro: "wq_room c s" and jo: "wq_jobs s" and en: "wq_ended s"
    by (simp_all add: wq_inv_def)
  have nb: "\<not> busy_p (wq_ps s ! p)" if "p < List.length (wq_ps s)" for p using busy_p_steps [OF that, of c] no(1) by auto
  have nbc: "\<not> busy_c (wq_cs s ! k)" if "k < List.length (wq_cs s)" for k using busy_c_steps [OF that, of c] no(2) by auto
  have setp: "\<not> busy_p x" if "x \<in> set (wq_ps s)" for x using nb that by (metis in_set_conv_nth)
  have setc: "\<not> busy_c x" if "x \<in> set (wq_cs s)" for x using nbc that by (metis in_set_conv_nth)
  have "crit_p x = 0 \<and> notif_p x = 0" if "x \<in> set (wq_ps s)" for x
    using setp [OF that] by (cases x) simp_all
  then have cp: "cnt crit_p (wq_ps s) = 0" "cnt notif_p (wq_ps s) = 0" by (simp_all add: cnt_zero)
  have "crit_c x = 0 \<and> notif_c x = 0" if "x \<in> set (wq_cs s)" for x
    using setc [OF that] by (cases x) simp_all
  then have cc: "cnt crit_c (wq_cs s) = 0" "cnt notif_c (wq_cs s) = 0" by (simp_all add: cnt_zero)
  have "crit_m (wq_m s) = 0" using no(3) by (cases "wq_m s") (simp_all add: main_step_def)
  with mu cp cc have free: "\<not> wq_held s" by (simp add: wq_mutex_def split: if_splits)
  have nw: "wq_ps s ! p \<noteq> P_want i" if "p < List.length (wq_ps s)" for p i using busy_p_steps [OF that, of c] no(1) free by auto
  have nwc: "wq_cs s ! k \<noteq> C_want" if "k < List.length (wq_cs s)" for k using busy_c_steps [OF that, of c] no(2) free by auto
  have "x \<noteq> P_want i" if "x \<in> set (wq_ps s)" for x i using nw that by (metis in_set_conv_nth)
  then have "act_p x = 0" if "x \<in> set (wq_ps s)" for x using that setp [OF that] by (cases x) auto
  then have ap: "cnt act_p (wq_ps s) = 0" by (simp add: cnt_zero)
  have "x \<noteq> C_want" if "x \<in> set (wq_cs s)" for x using nwc that by (metis in_set_conv_nth)
  then have "act_c x = 0" if "x \<in> set (wq_cs s)" for x using that setc [OF that] by (cases x) auto
  then have ac: "cnt act_c (wq_cs s) = 0" by (simp add: cnt_zero)
  have rest_c: "wq_cs s ! k \<in> {C_none, C_done, C_wait}" if "k < List.length (wq_cs s)" for k
    using nbc [OF that] nwc [OF that] by (cases "wq_cs s ! k") auto
  have waiting_c: "0 < cnt waits_c (wq_cs s)" if "k < List.length (wq_cs s)" "wq_cs s ! k = C_wait" for k
    using cnt_member [OF that(1), of waits_c] that(2) by simp
  from no(3) m free consider (p) p where "wq_m s = M_join_p p" "p < np c" "wq_ps s ! p \<noteq> P_done"
    | (k) k where "wq_m s = M_join_c k" "k < nc c" "wq_cs s ! k \<noteq> C_done"
    by (cases "wq_m s") (auto simp: main_step_def split: if_splits)
  then show False
  proof cases
    case p
    then have len: "p < List.length (wq_ps s)" "0 < List.length (wq_cs s)" and "wq_ps s ! p \<noteq> P_none" "wq_cs s ! 0 \<noteq> C_none"
      using st c(1) by (auto simp: wq_stage_def)
    moreover obtain i where "wq_ps s ! p = P_wait i" using nb [OF len(1)] nw [OF len(1)] p(3) calculation(3) by (cases "wq_ps s ! p") auto
    ultimately have "0 < cnt waits_p (wq_ps s)" using cnt_member [OF len(1), of waits_p] by simp
    with ro ap cc have full: "0 < List.length (wq_q s)" using c(2) by (auto simp: wq_room_def)
    have "\<not> wq_closed s" using st p(1) by (simp add: wq_stage_def)
    with en len(2) have "wq_cs s ! 0 \<noteq> C_done" by (auto simp: wq_ended_def)
    with rest_c [OF len(2)] \<open>wq_cs s ! 0 \<noteq> C_none\<close> have "wq_cs s ! 0 = C_wait" by simp
    with waiting_c [OF len(2)] jo ac cp p(1) full show False by (simp add: wq_jobs_def)
  next
    case k
    then have len: "k < List.length (wq_cs s)" and "wq_cs s ! k \<noteq> C_none" and cl: "wq_closed s" using st by (auto simp: wq_stage_def)
    with rest_c k(3) have "wq_cs s ! k = C_wait" by blast
    with waiting_c [OF len] jo k(1) cl show False by (simp add: wq_jobs_def)
  qed
qed

section \<open>What is left to do\<close>

text \<open>The indices a producer that is at \<open>i\<close> still has; together they are all of them, once each.\<close>

function stride :: "nat \<Rightarrow> nat \<Rightarrow> nat \<Rightarrow> nat list" where
  "stride n items i = (if i < items \<and> 0 < n then i # stride n items (i + n) else [])"
  by pat_completeness auto
termination by (relation "measure (\<lambda>(n, items, i). items - i)") auto

declare stride.simps [simp del]

lemma stride_set: "0 < n \<Longrightarrow> set (stride n items i) = {j. i \<le> j \<and> j < items \<and> j mod n = i mod n} \<and> distinct (stride n items i)"
proof (induction n items i rule: stride.induct)
  case (1 n items i)
  show ?case
  proof (cases "i < items")
    case True
    from 1 True have IH: "set (stride n items (i + n)) = {j. i + n \<le> j \<and> j < items \<and> j mod n = i mod n}" "distinct (stride n items (i + n))"
      by simp_all
    have "i + n \<le> j" if "i < j" "j mod n = i mod n" for j
    proof -
      from that obtain d where d: "j - i = n * d" by (metis dvdE less_imp_le mod_eq_dvd_iff_nat)
      with that(1) have "d \<noteq> 0" by (intro notI) simp
      then have "n \<le> n * d" by simp
      with d that(1) show ?thesis by linarith
    qed
    then have "insert i {j. i + n \<le> j \<and> j < items \<and> j mod n = i mod n} = {j. i \<le> j \<and> j < items \<and> j mod n = i mod n}"
      using True by (auto simp: le_less)
    with IH True 1 show ?thesis by (simp add: stride.simps [of n items i])
  next
    case False
    then show ?thesis by (auto simp: stride.simps [of n items i])
  qed
qed

definition unspawned :: "wq_config \<Rightarrow> nat \<Rightarrow> nat list" where
  "unspawned c p = concat (List.map (stride (np c) (ni c)) [p..<np c])"

lemma unspawned_step: "p < np c \<Longrightarrow> unspawned c p = stride (np c) (ni c) p @ unspawned c (p + 1)"
  by (simp add: unspawned_def upt_rec [of p "np c"])

lemma unspawned_end [simp]: "np c \<le> p \<Longrightarrow> unspawned c p = []"
  by (simp add: unspawned_def)

lemma distinct_concat_map:
  assumes "distinct xs" and "\<And>x. x \<in> set xs \<Longrightarrow> distinct (f x)"
    and "\<And>x y. x \<in> set xs \<Longrightarrow> y \<in> set xs \<Longrightarrow> x \<noteq> y \<Longrightarrow> set (f x) \<inter> set (f y) = {}"
  shows "distinct (concat (List.map f xs))"
  using assms
proof (induction xs)
  case (Cons x xs)
  then have "distinct (concat (List.map f xs))" by simp
  moreover have "set (f x) \<inter> set (f y) = {}" if "y \<in> set xs" for y
    using Cons.prems(1,3) that by (metis distinct.simps(2) list.set_intros)
  moreover have "distinct (f x)" by (simp add: Cons.prems(2))
  ultimately show ?case by auto
qed simp

lemma unspawned_all:
  assumes "0 < np c"
  shows "mset (unspawned c 0) = mset [0..<ni c]"
proof -
  have "j \<in> set (unspawned c 0) \<longleftrightarrow> j < ni c" for j
  proof -
    have "j \<in> set (unspawned c 0) \<longleftrightarrow> (\<exists>p < np c. p \<le> j \<and> j < ni c \<and> j mod np c = p mod np c)"
      using stride_set [OF assms, of "ni c"] by (auto simp: unspawned_def)
    also have "\<dots> \<longleftrightarrow> j < ni c"
    proof
      assume "j < ni c"
      with mod_less_divisor [OF assms] mod_less_eq_dividend mod_mod_trivial [symmetric]
      show "\<exists>p < np c. p \<le> j \<and> j < ni c \<and> j mod np c = p mod np c" by blast
    qed blast
    finally show ?thesis .
  qed
  then have s: "set (unspawned c 0) = set [0..<ni c]" by (intro set_eqI) (simp only: set_upt atLeastLessThan_iff le0 simp_thms)
  have "distinct (unspawned c 0)"
    unfolding unspawned_def
  proof (rule distinct_concat_map)
    fix p q assume "p \<in> set [0..<np c]" "q \<in> set [0..<np c]" and pq: "p \<noteq> q"
    then have "p < np c" "q < np c" by (simp_all only: set_upt atLeastLessThan_iff)
    then have "p mod np c = p" "q mod np c = q" by (simp_all only: mod_less)
    then have "j mod np c = p" "k mod np c = q" if "j \<in> set (stride (np c) (ni c) p)" "k \<in> set (stride (np c) (ni c) q)" for j k
      using that stride_set [OF assms, of "ni c"] by simp_all
    with pq show "set (stride (np c) (ni c) p) \<inter> set (stride (np c) (ni c) q) = {}" by blast
  next
    fix p show "distinct (stride (np c) (ni c) p)" using stride_set [OF assms] by blast
  qed simp
  from set_eq_iff_mset_eq_distinct [OF this distinct_upt] s show ?thesis by blast
qed

fun work_p :: "wq_config \<Rightarrow> wp_pc \<Rightarrow> nat" where
  "work_p c P_none = 0"
| "work_p c (P_loop i) = 19 * List.length (stride (np c) (ni c) i) + 1"
| "work_p c (P_want i) = 19 * List.length (stride (np c) (ni c) (i + np c)) + 19"
| "work_p c (P_test i) = 19 * List.length (stride (np c) (ni c) (i + np c)) + 18"
| "work_p c (P_wait i) = 19 * List.length (stride (np c) (ni c) (i + np c)) + 17"
| "work_p c (P_notify i) = 19 * List.length (stride (np c) (ni c) (i + np c)) + 7"
| "work_p c (P_unlock i) = 19 * List.length (stride (np c) (ni c) (i + np c)) + 4"
| "work_p c (P_count i) = 19 * List.length (stride (np c) (ni c) (i + np c)) + 3"
| "work_p c P_done = 0"

fun work_c :: "wc_pc \<Rightarrow> nat" where
  "work_c C_none = 0" | "work_c C_want = 4" | "work_c C_test = 3" | "work_c C_wait = 2" | "work_c (C_notify v) = 12"
| "work_c (C_unlock r) = (case r of None \<Rightarrow> 2 | Some v \<Rightarrow> 9)" | "work_c (C_fold v) = 8" | "work_c (C_inc v n) = 7"
| "work_c (C_sum v) = 6" | "work_c (C_mix v x) = 5" | "work_c C_done = 0"

fun work_m :: "wq_config \<Rightarrow> wm_pc \<Rightarrow> nat" where
  "work_m c (M_spawn_p p) = 8 * nc c + 8 + np c + 2 * (np c - p) + 19 * List.length (unspawned c p)"
| "work_m c (M_spawn_c k) = 3 * nc c + 7 + np c + 5 * (nc c - k)"
| "work_m c (M_join_p p) = 3 * nc c + 6 + (np c - p)"
| "work_m c M_lock = 3 * nc c + 5" | "work_m c M_close = 3 * nc c + 4" | "work_m c M_unlock = 3 * nc c + 3"
| "work_m c M_notify_all = 3 * nc c + 2" | "work_m c (M_join_c k) = nc c - k + 1" | "work_m c M_done = 0"

definition wq_work :: "wq_config \<Rightarrow> wq \<Rightarrow> nat" where
  "wq_work c s = cnt (work_p c) (wq_ps s) + cnt work_c (wq_cs s) + 10 * List.length (wq_q s) + work_m c (wq_m s)"

lemma work_waiting:
  "notify_one_c w cs = Some cs' \<Longrightarrow> cnt work_c cs' \<le> cnt work_c cs + 2"
  "notify_one_p w ps = Some ps' \<Longrightarrow> cnt (work_p c) ps' \<le> cnt (work_p c) ps + 2"
proof -
  assume "notify_one_c w cs = Some cs'"
  then show "cnt work_c cs' \<le> cnt work_c cs + 2"
  proof (rule notify_one_c_cases)
    assume w: "w < List.length cs" "cs ! w = C_wait" "cs' = cs[w := C_want]"
    from cnt_member [OF w(1), of work_c] show ?thesis by (simp add: w(2,3) cnt_update [OF w(1)])
  qed simp
next
  assume "notify_one_p w ps = Some ps'"
  then show "cnt (work_p c) ps' \<le> cnt (work_p c) ps + 2"
  proof (rule notify_one_p_cases)
    fix i assume w: "w < List.length ps" "ps ! w = P_wait i" "ps' = ps[w := P_want i]"
    from cnt_member [OF w(1), of "work_p c"] show ?thesis by (simp add: w(2,3) cnt_update [OF w(1)])
  qed simp
qed

lemma work_notify_all: "cnt work_c (notify_all_c cs) \<le> cnt work_c cs + 2 * List.length cs"
proof -
  have "work_c (woken_c x) \<le> work_c x + 2" for x by (cases x) (simp_all split: option.split)
  then show ?thesis by (induction cs) (auto simp: notify_all_c_def add_mono intro: le_trans [OF add_mono])
qed

lemma work_prod:
  assumes "prod_step c p w s = Some s'" and "0 < np c"
  shows "wq_work c s' < wq_work c s"
proof -
  have m: "p < List.length (wq_ps s) \<Longrightarrow> work_p c (wq_ps s ! p) \<le> cnt (work_p c) (wq_ps s)" by (rule cnt_member)
  from assms(1) show ?thesis
  proof (cases rule: prod_cases)
    case (loop i)
    with m assms(2) show ?thesis by (auto simp: wq_work_def cnt_update stride.simps [of "np c" "ni c" i])
  next
    case (notify i cs)
    with m work_waiting(1) [OF notify(3)] show ?thesis by (simp add: wq_work_def cnt_update)
  qed (use m in \<open>simp_all add: wq_work_def cnt_update\<close>)
qed

lemma work_cons:
  assumes "cons_step c k w s = Some s'"
  shows "wq_work c s' < wq_work c s"
proof -
  have m: "k < List.length (wq_cs s) \<Longrightarrow> work_c (wq_cs s ! k) \<le> cnt work_c (wq_cs s)" by (rule cnt_member)
  from assms(1) show ?thesis
  proof (cases rule: cons_cases)
    case (notify v ps)
    with m work_waiting(2) [OF notify(3), of c] show ?thesis by (simp add: wq_work_def cnt_update)
  qed (use m in \<open>simp_all add: wq_work_def cnt_update\<close>)
qed

lemma work_main:
  assumes "main_step c s = Some s'" and "wq_stage c s"
  shows "wq_work c s' < wq_work c s"
  using assms(1)
proof (cases rule: main_cases)
  case (spawn_p p)
  with wq_spawning(1) [OF assms(2)] show ?thesis by (simp add: wq_work_def cnt_update unspawned_step)
next
  case (spawn_c k)
  with wq_spawning(2) [OF assms(2)] show ?thesis by (simp add: wq_work_def cnt_update)
next
  case notify
  from assms(2) have "List.length (wq_cs s) = nc c" by (simp add: wq_stage_def)
  with notify work_notify_all [of "wq_cs s"] show ?thesis by (simp add: wq_work_def)
qed (simp_all add: wq_work_def)

lemma work_step:
  assumes "wq_inv c s" and "wq_next c s a = Some s'" and "0 < np c"
  shows "wq_work c s' < wq_work c s + (if spurious a then 3 else 0)"
proof (cases a)
  case (Spurious_p p)
  with assms(2) have p: "p < List.length (wq_ps s)" "waiting_p (wq_ps s ! p)"
    and s': "s' = s\<lparr>wq_ps := (wq_ps s)[p := woken_p (wq_ps s ! p)]\<rparr>" by (auto split: if_splits)
  from p(2) obtain i where i: "wq_ps s ! p = P_wait i" by (cases "wq_ps s ! p") auto
  from cnt_member [OF p(1), of "work_p c"] Spurious_p show ?thesis by (simp add: s' i wq_work_def cnt_update [OF p(1)])
next
  case (Spurious_c k)
  with assms(2) have k: "k < List.length (wq_cs s)" "wq_cs s ! k = C_wait"
    and s': "s' = s\<lparr>wq_cs := (wq_cs s)[k := C_want]\<rparr>" by (auto split: if_splits)
  from cnt_member [OF k(1), of work_c] Spurious_c show ?thesis by (simp add: s' k wq_work_def cnt_update [OF k(1)])
qed (use assms in \<open>auto simp: wq_inv_def work_main work_prod work_cons\<close>)

lemma work_run:
  "run (wq_next c) s as = Some s' \<Longrightarrow> wq_inv c s \<Longrightarrow> 0 < np c \<Longrightarrow>
    wq_work c s' + List.length as \<le> wq_work c s + 3 * List.length (filter spurious as)"
proof (induction as arbitrary: s)
  case Nil
  then show ?case by simp
next
  case (Cons a as)
  from Cons.prems(1) obtain s1 where s1: "wq_next c s a = Some s1" "run (wq_next c) s1 as = Some s'"
    by (auto split: option.splits)
  from Cons.IH [OF s1(2) wq_inv_step [OF Cons.prems(2) s1(1)] Cons.prems(3)] work_step [OF Cons.prems(2) s1(1) Cons.prems(3)]
  show ?case by auto
qed

lemma work_start:
  assumes "0 < np c"
  shows "wq_work c (wq_start c) = 19 * ni c + 8 * nc c + 3 * np c + 8"
proof -
  have "List.length (unspawned c 0) = ni c" using arg_cong [OF unspawned_all [OF assms], of size] by simp
  then show ?thesis by (simp add: wq_work_def wq_start_def)
qed

section \<open>Where the jobs are\<close>

lemma xors_simps [simp]: "xors [] = 0" "xors (x # xs) = x XOR xors xs" "xors (xs @ ys) = xors xs XOR xors ys"
  by (simp_all add: xors_def) (induction xs, simp_all add: xors_def ac_simps)

lemma xors_replicate [simp]: "xors (replicate n 0) = 0"
  by (induction n) simp_all

lemma xor_cancel [simp]: "(x :: u64) XOR (x XOR y) = y"
  by (simp add: xor.assoc [symmetric])

lemma xors_update: "i < List.length xs \<Longrightarrow> xors (xs[i := y]) = xors xs XOR (xs ! i XOR y)"
proof (induction xs arbitrary: i)
  case (Cons x xs)
  then show ?case by (cases i) (simp_all add: ac_simps)
qed simp

lemma xors_mset: "mset xs = mset ys \<Longrightarrow> xors xs = xors ys"
proof (induction xs arbitrary: ys)
  case (Cons x xs)
  from Cons.prems have "x \<in> set ys" by (metis list.set_intros(1) mset_eq_setD)
  then obtain as bs where ys: "ys = as @ x # bs" by (metis split_list)
  with Cons.prems have "mset xs = mset (as @ bs)" by simp
  from Cons.IH [OF this] show ?case by (simp add: ys ac_simps)
qed simp

definition pays :: "wq_config \<Rightarrow> nat list \<Rightarrow> u64" where
  "pays c is = xors (List.map (payload_at c) is)"

lemma pays_simps [simp]: "pays c [] = 0" "pays c (i # is) = payload_at c i XOR pays c is" "pays c (is @ js) = pays c is XOR pays c js"
  by (simp_all add: pays_def)

text \<open>The indices a producer has not put in the queue yet, and whether it has put one that it has not counted.\<close>

fun todo_p :: "wq_config \<Rightarrow> wp_pc \<Rightarrow> nat list" where
  "todo_p c (P_loop i) = stride (np c) (ni c) i"
| "todo_p c (P_want i) = i # stride (np c) (ni c) (i + np c)"
| "todo_p c (P_test i) = i # stride (np c) (ni c) (i + np c)"
| "todo_p c (P_wait i) = i # stride (np c) (ni c) (i + np c)"
| "todo_p c (P_notify i) = stride (np c) (ni c) (i + np c)"
| "todo_p c (P_unlock i) = stride (np c) (ni c) (i + np c)"
| "todo_p c (P_count i) = stride (np c) (ni c) (i + np c)"
| "todo_p c _ = []"

fun uncounted_p :: "wp_pc \<Rightarrow> nat" where
  "uncounted_p (P_notify i) = 1" | "uncounted_p (P_unlock i) = 1" | "uncounted_p (P_count i) = 1" | "uncounted_p _ = 0"

fun hand_c :: "wc_pc \<Rightarrow> u64 list" where
  "hand_c (C_notify v) = [v]" | "hand_c (C_unlock (Some v)) = [v]" | "hand_c (C_fold v) = [v]" | "hand_c _ = []"

fun unspawned_m :: "wq_config \<Rightarrow> wm_pc \<Rightarrow> nat list" where
  "unspawned_m c (M_spawn_p p) = unspawned c p" | "unspawned_m c _ = []"

abbreviation xmap :: "('a \<Rightarrow> u64) \<Rightarrow> 'a list \<Rightarrow> u64" where
  "xmap f xs \<equiv> xors (List.map f xs)"

lemma xmap_update: "i < List.length xs \<Longrightarrow> xmap f (xs[i := y]) = xmap f xs XOR (f (xs ! i) XOR f y)"
  by (simp add: map_update xors_update)

lemma xmap_zero: "(\<And>x. x \<in> set xs \<Longrightarrow> f x = 0) \<Longrightarrow> xmap f xs = 0"
  by (induction xs) simp_all

text \<open>The checksum of all the jobs, and their number, by where they are.\<close>

definition all_xor :: "wq_config \<Rightarrow> wq \<Rightarrow> u64" where
  "all_xor c s = pays c (unspawned_m c (wq_m s)) XOR xmap (\<lambda>x. pays c (todo_p c x)) (wq_ps s) XOR xors (wq_q s) XOR
     xmap (\<lambda>x. xors (hand_c x)) (wq_cs s) XOR xors (wq_sums s)"

definition unsent :: "wq_config \<Rightarrow> wq \<Rightarrow> nat" where
  "unsent c s = List.length (unspawned_m c (wq_m s)) + cnt (\<lambda>x. List.length (todo_p c x)) (wq_ps s)"

definition flow :: "wq_config \<Rightarrow> wq \<Rightarrow> bool" where
  "flow c s \<longleftrightarrow> List.length (wq_counts s) = nc c \<and> List.length (wq_sums s) = nc c \<and>
     all_xor c s = pays c [0..<ni c] \<and>
     int (unsent c s) + int (List.length (wq_q s)) + int (cnt (\<lambda>x. List.length (hand_c x)) (wq_cs s)) + sum_list (wq_counts s) = int (ni c)"

definition produced :: "wq_config \<Rightarrow> wq \<Rightarrow> bool" where
  "produced c s \<longleftrightarrow> int (unsent c s) + int (cnt uncounted_p (wq_ps s)) + wq_produced s = int (ni c)"

lemma notify_maps:
  "notify_one_c w cs = Some cs' \<Longrightarrow> f C_wait = f C_want \<Longrightarrow> List.map f cs' = List.map f cs"
  "notify_one_p w ps = Some ps' \<Longrightarrow> (\<And>i. g (P_wait i) = g (P_want i)) \<Longrightarrow> List.map g ps' = List.map g ps"
proof -
  assume "notify_one_c w cs = Some cs'" and f: "f C_wait = f C_want"
  then show "List.map f cs' = List.map f cs"
  proof (elim notify_one_c_cases)
    assume w: "w < List.length cs" "cs ! w = C_wait" "cs' = cs[w := C_want]"
    with f have "f C_want = List.map f cs ! w" by simp
    then show ?thesis by (simp add: w(3) map_update)
  qed simp
next
  assume "notify_one_p w ps = Some ps'" and g: "\<And>i. g (P_wait i) = g (P_want i)"
  then show "List.map g ps' = List.map g ps"
  proof (elim notify_one_p_cases)
    fix i assume w: "w < List.length ps" "ps ! w = P_wait i" "ps' = ps[w := P_want i]"
    with g have "g (P_want i) = List.map g ps ! w" by simp
    then show ?thesis by (simp add: w(3) map_update)
  qed simp
qed

lemma notify_all_map: "f C_wait = f C_want \<Longrightarrow> List.map f (notify_all_c cs) = List.map f cs"
proof -
  assume "f C_wait = f C_want"
  then have "f (woken_c x) = f x" for x by (cases x) simp_all
  then show ?thesis by (simp add: notify_all_c_def)
qed

lemma sum_list_int_update: "i < List.length xs \<Longrightarrow> sum_list (xs[i := y]) = sum_list xs + y - (xs ! i :: int)"
  by (induction xs arbitrary: i) (auto split: nat.split)

text \<open>What a step of a thread moves.\<close>

lemma todo_prod:
  assumes "prod_step c p w s = Some s'" and "0 < np c"
  shows "pays c (unspawned_m c (wq_m s')) XOR xmap (\<lambda>x. pays c (todo_p c x)) (wq_ps s') XOR xors (wq_q s') =
      pays c (unspawned_m c (wq_m s)) XOR xmap (\<lambda>x. pays c (todo_p c x)) (wq_ps s) XOR xors (wq_q s)"
    and "unsent c s' + List.length (wq_q s') = unsent c s + List.length (wq_q s)"
    and "int (unsent c s') + int (cnt uncounted_p (wq_ps s')) + wq_produced s' = int (unsent c s) + int (cnt uncounted_p (wq_ps s)) + wq_produced s"
    and "List.map f (wq_cs s') = List.map f (wq_cs s) \<or> f C_wait \<noteq> f C_want"
    and "wq_counts s' = wq_counts s" and "wq_sums s' = wq_sums s"
proof -
  have m: "p < List.length (wq_ps s) \<Longrightarrow> List.length (todo_p c (wq_ps s ! p)) \<le> cnt (\<lambda>x. List.length (todo_p c x)) (wq_ps s)"
    "p < List.length (wq_ps s) \<Longrightarrow> uncounted_p (wq_ps s ! p) \<le> cnt uncounted_p (wq_ps s)"
    using cnt_member [of p "wq_ps s" "\<lambda>x. List.length (todo_p c x)"] by (simp_all add: cnt_member)
  note st = stride.simps [of "np c" "ni c"]
  from assms(1) show "pays c (unspawned_m c (wq_m s')) XOR xmap (\<lambda>x. pays c (todo_p c x)) (wq_ps s') XOR xors (wq_q s') =
      pays c (unspawned_m c (wq_m s)) XOR xmap (\<lambda>x. pays c (todo_p c x)) (wq_ps s) XOR xors (wq_q s)"
  proof (cases rule: prod_cases)
    case (loop i)
    with assms(2) st [of i] show ?thesis by (simp add: xmap_update)
  qed (simp_all add: xmap_update ac_simps)
  from assms(1) show "unsent c s' + List.length (wq_q s') = unsent c s + List.length (wq_q s)"
  proof (cases rule: prod_cases)
    case (loop i)
    with assms(2) st [of i] m(1) show ?thesis by (simp add: unsent_def cnt_update)
  qed (use m(1) in \<open>simp_all add: unsent_def cnt_update\<close>)
  from assms(1) show "int (unsent c s') + int (cnt uncounted_p (wq_ps s')) + wq_produced s' =
      int (unsent c s) + int (cnt uncounted_p (wq_ps s)) + wq_produced s"
  proof (cases rule: prod_cases)
    case (loop i)
    with assms(2) st [of i] m show ?thesis by (simp add: unsent_def cnt_update)
  qed (use m in \<open>simp_all add: unsent_def cnt_update of_nat_diff\<close>)
  from assms(1) show "List.map f (wq_cs s') = List.map f (wq_cs s) \<or> f C_wait \<noteq> f C_want"
    by (cases rule: prod_cases) (use notify_maps(1) [of w "wq_cs s" _ f] in auto)
  from assms(1) show "wq_counts s' = wq_counts s" "wq_sums s' = wq_sums s" by (cases rule: prod_cases; simp)+
qed

lemma all_xor_split:
  "all_xor c s = (pays c (unspawned_m c (wq_m s)) XOR xmap (\<lambda>x. pays c (todo_p c x)) (wq_ps s) XOR xors (wq_q s)) XOR
     (xmap (\<lambda>x. xors (hand_c x)) (wq_cs s) XOR xors (wq_sums s))"
  by (simp add: all_xor_def ac_simps)

lemma flow_prod:
  assumes "prod_step c p w s = Some s'" and "0 < np c" and "flow c s"
  shows "flow c s'"
proof -
  note t = todo_prod [OF assms(1,2)]
  have h: "List.map hand_c (wq_cs s') = List.map hand_c (wq_cs s)" using t(4) [of hand_c] by simp
  have x: "xmap (\<lambda>x. xors (hand_c x)) (wq_cs s') = xmap (\<lambda>x. xors (hand_c x)) (wq_cs s)"
    using arg_cong [OF h, of "\<lambda>ys. xors (List.map xors ys)"] by (simp add: comp_def)
  have n: "cnt (\<lambda>x. List.length (hand_c x)) (wq_cs s') = cnt (\<lambda>x. List.length (hand_c x)) (wq_cs s)"
    using arg_cong [OF h, of "\<lambda>ys. sum_list (List.map List.length ys)"] by (simp add: comp_def cnt_def)
  have "int (unsent c s') + int (List.length (wq_q s')) = int (unsent c s) + int (List.length (wq_q s))"
    using arg_cong [OF t(2), of int] by simp
  with assms(3) show ?thesis by (simp add: flow_def all_xor_split t(1,5,6) x n)
qed

lemma flow_cons:
  assumes "cons_step c k w s = Some s'" and "\<not> q_buggy c" and "flow c s" and "List.length (wq_cs s) = nc c"
  shows "flow c s'"
proof -
  have m: "k < List.length (wq_cs s) \<Longrightarrow> List.length (hand_c (wq_cs s ! k)) \<le> cnt (\<lambda>x. List.length (hand_c x)) (wq_cs s)"
    using cnt_member [of k "wq_cs s" "\<lambda>x. List.length (hand_c x)"] by simp
  from assms(1) show ?thesis
  proof (cases rule: cons_cases)
    case (notify v ps)
    have t: "List.map (todo_p c) ps = List.map (todo_p c) (wq_ps s)" by (rule notify_maps(2) [OF notify(3)]) simp
    have x: "xmap (\<lambda>x. pays c (todo_p c x)) ps = xmap (\<lambda>x. pays c (todo_p c x)) (wq_ps s)"
      using arg_cong [OF t, of "\<lambda>ys. xors (List.map (pays c) ys)"] by (simp add: comp_def)
    have n: "cnt (\<lambda>x. List.length (todo_p c x)) ps = cnt (\<lambda>x. List.length (todo_p c x)) (wq_ps s)"
      using arg_cong [OF t, of "\<lambda>ys. sum_list (List.map List.length ys)"] by (simp add: comp_def cnt_def)
    from notify assms(3) m show ?thesis
      by (simp add: flow_def all_xor_def unsent_def x n xmap_update cnt_update)
  next
    case (pop v q)
    with assms(3) show ?thesis by (simp add: flow_def all_xor_def unsent_def xmap_update cnt_update ac_simps)
  next
    case (fold v)
    with assms(3,4) m show ?thesis
      by (simp add: flow_def all_xor_def unsent_def xmap_update cnt_update sum_list_int_update xors_update of_nat_diff ac_simps)
  next
    case (load v)
    with assms(2) show ?thesis by simp
  qed (use assms(3) m in \<open>simp_all add: flow_def all_xor_def unsent_def xmap_update cnt_update\<close>)
qed

lemma produced_cons:
  assumes "cons_step c k w s = Some s'" and "produced c s"
  shows "produced c s'"
  using assms(1)
proof (cases rule: cons_cases)
  case (notify v ps)
  have t: "List.map (\<lambda>x. (List.length (todo_p c x), uncounted_p x)) ps = List.map (\<lambda>x. (List.length (todo_p c x), uncounted_p x)) (wq_ps s)"
    by (rule notify_maps(2) [OF notify(3)]) simp
  have "cnt (\<lambda>x. List.length (todo_p c x)) ps = cnt (\<lambda>x. List.length (todo_p c x)) (wq_ps s)"
    "cnt uncounted_p ps = cnt uncounted_p (wq_ps s)"
    using arg_cong [OF t, of "\<lambda>ys. sum_list (List.map fst ys)"] arg_cong [OF t, of "\<lambda>ys. sum_list (List.map snd ys)"]
    by (simp_all add: comp_def cnt_def)
  with notify assms(2) show ?thesis by (simp add: produced_def unsent_def)
qed (use assms(2) in \<open>simp_all add: produced_def unsent_def\<close>)

lemma flow_main:
  assumes "main_step c s = Some s'" and "wq_stage c s"
  shows "flow c s \<Longrightarrow> flow c s'" and "produced c s \<Longrightarrow> produced c s'"
proof -
  have "(flow c s \<longrightarrow> flow c s') \<and> (produced c s \<longrightarrow> produced c s')"
    using assms(1)
  proof (cases rule: main_cases)
    case (spawn_p p)
    with wq_spawning(1) [OF assms(2)] show ?thesis
      by (simp add: flow_def produced_def all_xor_def unsent_def xmap_update cnt_update unspawned_step ac_simps)
  next
    case (spawn_c k)
    with wq_spawning(2) [OF assms(2)] show ?thesis
      by (simp add: flow_def produced_def all_xor_def unsent_def xmap_update cnt_update)
  next
    case notify
    have h: "List.map hand_c (notify_all_c (wq_cs s)) = List.map hand_c (wq_cs s)" by (rule notify_all_map) simp
    have "xmap (\<lambda>x. xors (hand_c x)) (notify_all_c (wq_cs s)) = xmap (\<lambda>x. xors (hand_c x)) (wq_cs s)"
      "cnt (\<lambda>x. List.length (hand_c x)) (notify_all_c (wq_cs s)) = cnt (\<lambda>x. List.length (hand_c x)) (wq_cs s)"
      using arg_cong [OF h, of "\<lambda>ys. xors (List.map xors ys)"] arg_cong [OF h, of "\<lambda>ys. sum_list (List.map List.length ys)"]
      by (simp_all add: comp_def cnt_def)
    with notify show ?thesis by (simp add: flow_def produced_def all_xor_def unsent_def)
  qed (simp_all add: flow_def produced_def all_xor_def unsent_def)
  then show "flow c s \<Longrightarrow> flow c s'" and "produced c s \<Longrightarrow> produced c s'" by simp_all
qed

lemma flow_step:
  assumes "wq_next c s a = Some s'" and "wq_inv c s" and "0 < np c"
  shows "produced c s \<Longrightarrow> produced c s'" and "\<not> q_buggy c \<Longrightarrow> flow c s \<Longrightarrow> flow c s'"
proof -
  have "(produced c s \<longrightarrow> produced c s') \<and> (\<not> q_buggy c \<longrightarrow> flow c s \<longrightarrow> flow c s')"
  proof (cases a)
    case Main
    with assms show ?thesis by (auto simp: wq_inv_def intro: flow_main)
  next
    case (Prod p w)
    with assms(1) have st: "prod_step c p w s = Some s'" by simp
    from todo_prod(3) [OF st assms(3)] flow_prod [OF st assms(3)] show ?thesis by (simp add: produced_def)
  next
    case (Cons k w)
    with assms(1,2) show ?thesis by (auto simp: wq_inv_def wq_stage_def intro: flow_cons produced_cons)
  next
    case (Spurious_p p)
    with assms(1) have p: "p < List.length (wq_ps s)" "waiting_p (wq_ps s ! p)"
      and s': "s' = s\<lparr>wq_ps := (wq_ps s)[p := woken_p (wq_ps s ! p)]\<rparr>" by (auto split: if_splits)
    from p(2) obtain i where i: "wq_ps s ! p = P_wait i" by (cases "wq_ps s ! p") auto
    from cnt_member [OF p(1), of "\<lambda>x. List.length (todo_p c x)"]
    show ?thesis by (simp add: s' i flow_def produced_def all_xor_def unsent_def xmap_update [OF p(1)] cnt_update [OF p(1)])
  next
    case (Spurious_c k)
    with assms(1) have k: "k < List.length (wq_cs s)" "wq_cs s ! k = C_wait"
      and s': "s' = s\<lparr>wq_cs := (wq_cs s)[k := C_want]\<rparr>" by (auto split: if_splits)
    show ?thesis by (simp add: s' k(2) flow_def produced_def all_xor_def unsent_def xmap_update [OF k(1)] cnt_update [OF k(1)])
  qed
  then show "produced c s \<Longrightarrow> produced c s'" and "\<not> q_buggy c \<Longrightarrow> flow c s \<Longrightarrow> flow c s'" by simp_all
qed

lemma flow_start:
  assumes "0 < np c"
  shows "flow c (wq_start c)" "produced c (wq_start c)"
proof -
  have "mset (List.map (payload_at c) (unspawned c 0)) = mset (List.map (payload_at c) [0..<ni c])"
    by (simp only: mset_map unspawned_all [OF assms])
  from xors_mset [OF this] have "pays c (unspawned c 0) = pays c [0..<ni c]" by (simp add: pays_def)
  moreover have "List.length (unspawned c 0) = ni c" using arg_cong [OF unspawned_all [OF assms], of size] by simp
  ultimately show "flow c (wq_start c)" "produced c (wq_start c)"
    by (simp_all add: flow_def produced_def all_xor_def unsent_def wq_start_def sum_list_replicate)
qed

lemma flow_run:
  assumes "run (wq_next c) (wq_start c) as = Some s" and "0 < np c"
  shows "produced c s" "\<not> q_buggy c \<Longrightarrow> flow c s"
proof -
  let ?I = "\<lambda>s. wq_inv c s \<and> produced c s \<and> (\<not> q_buggy c \<longrightarrow> flow c s)"
  have "?I s"
    by (rule run_invariant [where I = ?I, OF assms(1)])
      (use assms(2) in \<open>auto simp: wq_inv_start flow_start intro: wq_inv_step flow_step\<close>)
  then show "produced c s" "\<not> q_buggy c \<Longrightarrow> flow c s" by simp_all
qed

text \<open>At the end nothing is anywhere but in the accumulators.\<close>

lemma finished_empty:
  assumes "wq_inv c s" and "wq_finished s" and "0 < nc c"
  shows "unsent c s = 0" "cnt uncounted_p (wq_ps s) = 0" "wq_q s = []"
    "\<forall>x \<in> set (wq_ps s). x = P_done" "\<forall>x \<in> set (wq_cs s). x = C_done"
proof -
  from assms(1,2) have m: "wq_m s = M_done" and st: "wq_stage c s" and en: "wq_ended s" by (simp_all add: wq_inv_def wq_finished_def)
  from st m show ps: "\<forall>x \<in> set (wq_ps s). x = P_done" by (auto simp: wq_stage_def in_set_conv_nth)
  from st m show cs: "\<forall>x \<in> set (wq_cs s). x = C_done" by (auto simp: wq_stage_def in_set_conv_nth)
  from ps show "unsent c s = 0" "cnt uncounted_p (wq_ps s) = 0" by (auto simp: unsent_def m cnt_zero)
  from st assms(3) have "wq_cs s ! 0 \<in> set (wq_cs s)" by (simp add: wq_stage_def)
  with en cs show "wq_q s = []" by (auto simp: wq_ended_def)
qed

section \<open>The command line\<close>

lemma wq_parse_from_cap:
  "wq_parse_from args (c, st) = Inr (c', st') \<Longrightarrow> q_cap c < 2 ^ 63 \<Longrightarrow> q_cap c' < 2 ^ 63"
proof (induction args "(c, st)" arbitrary: c st rule: wq_parse_from.induct)
  case (1 c st)
  then show ?case by simp
next
  case (2 a rest c p k n)
  have l: "wq_parse_long v = Inr x \<Longrightarrow> x < 9223372036854775808" for v x
    by (simp add: wq_parse_long_def Let_def split: if_splits)
  from 2 show ?case by (auto split: if_splits list.splits sum.splits) (metis l)
qed

lemma wq_parse_accepts:
  assumes "wq_parse args = Inr c"
  shows "0 < np c" "0 < nc c" "0 \<le> q_items c" "0 < unat (wq_cap c)"
proof -
  from assms obtain p k n where f: "wq_parse_from args (wq_defaults, False, False, False) = Inr (c, p, k, n)"
    and v: "1 \<le> q_producers c" "1 \<le> q_consumers c" "0 \<le> q_items c" "1 \<le> q_cap c"
    by (auto simp: wq_parse_def split: sum.splits if_splits)
  then show "0 < np c" "0 < nc c" "0 \<le> q_items c" by simp_all
  from wq_parse_from_cap [OF f] have "q_cap c < 2 ^ 63" by (simp add: wq_defaults_def)
  with v(4) have "unat (wq_cap c) = nat (q_cap c)" by (simp add: wq_cap_def unat_eq_nat_uint uint_word_of_int)
  with v(4) show "0 < unat (wq_cap c)" by simp
qed

text \<open>Two command lines and schedules, for the closed runs.\<close>

abbreviation wq_one :: "string list" where
  "wq_one \<equiv> [''--producers'', ''1'', ''--consumers'', ''1'', ''--items'', ''1'']"

definition wq_one_config :: wq_config where
  "wq_one_config = \<lparr>q_producers = 1, q_consumers = 1, q_items = 1, q_seed = 0x0123456789ABCDEF, q_cap = 256, q_buggy = False\<rparr>"

lemma wq_one_parses: "wq_parse wq_one = Inr wq_one_config"
  by (simp add: wq_parse_def wq_parse_long_def wq_defaults_def wq_one_config_def decimal_def digit_value_def is_digit_def)

lemma wq_replicate [simp]: "replicate (numeral n) x = x # replicate (pred_numeral n) x"
  by (simp add: numeral_eq_Suc)

lemmas wq_eval = wq_start_def main_step_def prod_step_def cons_step_def wq_cap_def notify_one_c_def notify_one_p_def
  notify_all_c_def wq_finished_def

text \<open>The consumer waits first and is woken by the producer.\<close>

abbreviation wq_one_schedule :: "wq_act list" where
  "wq_one_schedule \<equiv> replicate 4 Main @ replicate 2 (Cons 0 0) @ replicate 7 (Prod 0 0) @ replicate 5 (Cons 0 0) @
     replicate 6 Main @ replicate 3 (Cons 0 0) @ replicate 2 Main"

lemma wq_one_run: "\<exists>s. run (wq_next wq_one_config) (wq_start wq_one_config) wq_one_schedule = Some s \<and> wq_finished s"
  by (simp add: wq_one_config_def wq_eval)

text \<open>Two consumers of \<open>--buggy\<close> that load the shared count before either stores it.\<close>

definition wq_race_config :: wq_config where
  "wq_race_config = \<lparr>q_producers = 1, q_consumers = 2, q_items = 2, q_seed = 0x0123456789ABCDEF, q_cap = 256, q_buggy = True\<rparr>"

abbreviation wq_race_schedule :: "wq_act list" where
  "wq_race_schedule \<equiv> replicate 5 Main @ replicate 13 (Prod 0 0) @ replicate 4 (Cons 0 0) @ replicate 4 (Cons 1 0) @
     [Cons 0 0, Cons 1 0, Cons 0 0, Cons 1 0] @ replicate 2 (Cons 0 0) @ replicate 2 (Cons 1 0) @
     replicate 6 Main @ replicate 3 (Cons 0 0) @ replicate 3 (Cons 1 0) @ replicate 3 Main"

section \<open>Properties\<close>

text \<open>C23: The queue of the pool is a monitor and a bounded first-in first-out queue: in every interleaving,
  with any wake-up for no reason, at most one of all the threads is inside the critical section, and
  exactly when the mutex is held; and the payloads the producers push and the values the consumers
  really get are a run of a queue of at most \<open>cap\<close> items.\<close>

theorem workq_refines_queue:
  assumes "run (wq_next c) (wq_start c) as = Some s"
  shows "cnt crit_p (wq_ps s) + cnt crit_c (wq_cs s) + crit_m (wq_m s) = (if wq_held s then 1 else 0) \<and>
    run (queue_next (wq_cap c)) [] (seen (wq_next c) (wq_label c) (wq_start c) as) = Some (wq_q s)"
proof
  from wqr.run_inv [OF assms wq_inv_start] have "wq_mutex s" by (simp add: wq_inv_def)
  then show "cnt crit_p (wq_ps s) + cnt crit_c (wq_cs s) + crit_m (wq_m s) = (if wq_held s then 1 else 0)"
    by (simp only: wq_mutex_def)
  from wqr.run_refines [OF assms wq_inv_start]
  show "run (queue_next (wq_cap c)) [] (seen (wq_next c) (wq_label c) (wq_start c) as) = Some (wq_q s)"
    by (simp add: wq_start_def)
qed

theorem workq_refines_queue_witness:
  "run (queue_next (wq_cap wq_one_config)) []
     (seen (wq_next wq_one_config) (wq_label wq_one_config) (wq_start wq_one_config) (replicate 4 Main @ replicate 3 (Prod 0 0))) =
     Some [wq_payload 0x0123456789ABCDEF 0]"
proof -
  have "\<exists>s. run (wq_next wq_one_config) (wq_start wq_one_config) (replicate 4 Main @ replicate 3 (Prod 0 0)) = Some s \<and>
      wq_q s = [wq_payload 0x0123456789ABCDEF 0]"
    by (simp add: wq_one_config_def wq_eval)
  then obtain s where s: "run (wq_next wq_one_config) (wq_start wq_one_config) (replicate 4 Main @ replicate 3 (Prod 0 0)) = Some s"
    "wq_q s = [wq_payload 0x0123456789ABCDEF 0]" by blast
  from workq_refines_queue [OF s(1)] show ?thesis by (simp only: s(2) simp_thms)
qed

text \<open>C24: Without \<open>--buggy\<close> the report does not depend on the schedule, the number of threads or the capacity:
  all the items are produced and consumed, and the checksum is the exclusive or of the payloads of
  the indices below \<open>items\<close>.\<close>

theorem workq_result:
  assumes "wq_parse args = Inr c" and "\<not> q_buggy c" and "run (wq_next c) (wq_start c) as = Some s" and "wq_finished s"
  shows "wq_report c s = (q_items c, q_items c, xors (List.map (payload_at c) [0..<ni c]))"
proof -
  note p = wq_parse_accepts [OF assms(1)]
  note e = finished_empty [OF wq_inv_run [OF assms(3)] assms(4) p(2)]
  from flow_run [OF assms(3) p(1)] assms(2) have f: "flow c s" "produced c s" by simp_all
  have hands: "cnt (\<lambda>x. List.length (hand_c x)) (wq_cs s) = 0" using e(5) by (auto simp: cnt_zero)
  have "wq_m s = M_done" using assms(4) by (simp add: wq_finished_def)
  moreover have "xmap (\<lambda>x. pays c (todo_p c x)) (wq_ps s) = 0" by (rule xmap_zero) (use e(4) in auto)
  moreover have "xmap (\<lambda>x. xors (hand_c x)) (wq_cs s) = 0" by (rule xmap_zero) (use e(5) in auto)
  ultimately have "xors (wq_sums s) = pays c [0..<ni c]" using f(1) e(3) by (simp add: flow_def all_xor_def)
  moreover have "wq_produced s = q_items c" "sum_list (wq_counts s) = q_items c"
    using f e(1-3) hands p(3) by (simp_all add: flow_def produced_def)
  ultimately show ?thesis using assms(2) by (simp add: wq_report_def pays_def)
qed

theorem workq_result_witness:
  "\<exists>s. run (wq_next wq_one_config) (wq_start wq_one_config) wq_one_schedule = Some s \<and>
     wq_report wq_one_config s = (1, 1, wq_payload 0x0123456789ABCDEF 0)"
proof -
  from wq_one_run obtain s where s: "run (wq_next wq_one_config) (wq_start wq_one_config) wq_one_schedule = Some s" "wq_finished s" by blast
  have "\<not> q_buggy wq_one_config" by (simp add: wq_one_config_def)
  from workq_result [OF wq_one_parses this s] s(1) show ?thesis by (simp add: wq_one_config_def)
qed

text \<open>C25: No wake-up is lost: whatever has happened, as long as the pool has not ended some thread has a step of
  its own, one that is not a wake-up for no reason.\<close>

theorem workq_no_deadlock:
  assumes "wq_parse args = Inr c" and "run (wq_next c) (wq_start c) as = Some s" and "\<not> wq_finished s"
  shows "\<exists>a s'. \<not> spurious a \<and> wq_next c s a = Some s'"
  using wq_can_go_on [OF wq_inv_run [OF assms(2)] _ wq_parse_accepts(2,4) [OF assms(1)]] assms(3) by (simp add: wq_finished_def)

theorem workq_no_deadlock_witness:
  "\<exists>a s'. \<not> spurious a \<and> wq_next wq_one_config (wq_start wq_one_config) a = Some s'"
  using workq_no_deadlock [OF wq_one_parses, of "[]" "wq_start wq_one_config"] by (simp add: wq_start_def wq_finished_def)

text \<open>C26: The pool ends: a run has at most 19 steps per item, 8 per consumer, 3 per producer and 8 more, and 3 for
  each wake-up for no reason, of any thread at any time.\<close>

theorem workq_terminates:
  assumes "wq_parse args = Inr c" and "run (wq_next c) (wq_start c) as = Some s"
  shows "List.length as \<le> 19 * ni c + 8 * nc c + 3 * np c + 8 + 3 * List.length (filter spurious as)"
proof -
  note p = wq_parse_accepts(1) [OF assms(1)]
  from work_run [OF assms(2) wq_inv_start p] work_start [OF p] show ?thesis by linarith
qed

theorem workq_terminates_witness: "List.length wq_one_schedule \<le> 19 + 8 + 3 + 8"
proof -
  from wq_one_run obtain s where s: "run (wq_next wq_one_config) (wq_start wq_one_config) wq_one_schedule = Some s" by blast
  from workq_terminates [OF wq_one_parses s] show ?thesis by (simp add: wq_one_config_def)
qed

text \<open>With \<open>--buggy\<close> a job is lost: there is a schedule of one producer and two consumers that ends with two
  jobs produced and one counted as consumed, because both consumers load the count before either
  stores it.\<close>

lemma workq_buggy_loses_a_job:
  "\<exists>s. run (wq_next wq_race_config) (wq_start wq_race_config) wq_race_schedule = Some s \<and> wq_finished s \<and>
     wq_report wq_race_config s = (2, 1, wq_payload 0x0123456789ABCDEF 0 XOR wq_payload 0x0123456789ABCDEF 1)"
  by (simp add: wq_race_config_def wq_eval wq_report_def)

end
