(* ===== verification/Discover.thy ===== *)
theory Discover
  imports Chatterd
begin

text \<open>
  Peer discovery by multicast and a greeting over TCP, \<open>main.cpp\<close> of \<open>examples/23-udp-and-peer-discovery\<close>:
  the frame codec, the sockets, the beacon, the three loops (announce, receive, accept) and the command
  line. An \<open>in_addr\<close> is the text \<open>inet_pton\<close> accepted. A \<open>recv\<close> on the UDP socket returns one datagram.
  The stop token of a thread is a flag it loads; the two threads share nothing else.
\<close>

section \<open>Frames\<close>

definition dc_write_turn :: "int \<Rightarrow> byte list \<Rightarrow> world \<Rightarrow> ((byte list, msg + unit) ctl \<times> world) option" where
  "dc_write_turn fd data w =
     (if data \<noteq> [] then do {
        (n, w) \<leftarrow> sys (Send fd data) w;
        if rv n < 0 then
          if eno n = EINTR then Some (Continue data, w)
          else Some (Break (Inl [Txt ''send: '', StrError (eno n)]), w)
        else Some (Continue (drop (nat (rv n)) data), w) }
      else Some (Break (Inr ()), w))"

definition dc_write_all :: "int \<Rightarrow> byte list \<Rightarrow> world \<Rightarrow> ((msg + unit) \<times> world) option" where
  "dc_write_all fd = loop (dc_write_turn fd)"

definition dc_read_turn :: "int \<Rightarrow> nat \<Rightarrow> byte list \<Rightarrow> world \<Rightarrow> ((byte list, msg + byte list) ctl \<times> world) option" where
  "dc_read_turn fd n buf w =
     (if List.length buf < n then do {
        (r, w) \<leftarrow> sys (Recv fd (n - List.length buf)) w;
        if rv r < 0 then
          if eno r = EINTR then Some (Continue buf, w)
          else Some (Break (Inl [Txt ''recv: '', StrError (eno r)]), w)
        else if rv r = 0 then Some (Break (Inl [Txt ''recv: peer closed early'']), w)
        else Some (Continue (buf @ filled r), w) }
      else Some (Break (Inr buf), w))"

definition dc_read_all :: "int \<Rightarrow> nat \<Rightarrow> world \<Rightarrow> ((msg + byte list) \<times> world) option" where
  "dc_read_all fd n = loop (dc_read_turn fd n) []"

definition dc_header :: "byte \<Rightarrow> nat \<Rightarrow> byte list" where
  "dc_header type n = [67, 72, 1, type, be16_hi n, be16_lo n]"

definition dc_write_frame :: "int \<Rightarrow> byte \<Rightarrow> byte list \<Rightarrow> world \<Rightarrow> ((msg + unit) \<times> world) option" where
  "dc_write_frame fd type body w =
     (if List.length body > 0xFFFF then Some (Inl [Txt (''frame payload too large: '' @ show_nat (List.length body))], w)
      else io_try (dc_write_all fd (dc_header type (List.length body)) w) (\<lambda>_ w. dc_write_all fd body w))"

definition dc_read_frame :: "int \<Rightarrow> world \<Rightarrow> ((msg + byte \<times> byte list) \<times> world) option" where
  "dc_read_frame fd w = io_try (dc_read_all fd 6 w) (\<lambda>hdr w.
     if hdr ! 0 \<noteq> 67 \<or> hdr ! 1 \<noteq> 72 then Some (Inl [Txt ''bad frame magic''], w)
     else if hdr ! 2 \<noteq> 1 then Some (Inl [Txt (''unsupported frame version: '' @ show_nat (unat (hdr ! 2)))], w)
     else let n = be16_value (hdr ! 4) (hdr ! 5)
          in if n > 0 then io_try (dc_read_all fd n w) (\<lambda>p w. Some (Inr (hdr ! 3, p), w))
             else Some (Inr (hdr ! 3, []), w))"

section \<open>Sockets\<close>

text \<open>\<open>tmp.c_str()\<close>: what \<open>inet_pton\<close> reads ends at the first NUL.\<close>

definition c_str :: "string \<Rightarrow> string" where
  "c_str s = takeWhile (\<lambda>c. c \<noteq> CHR 0x00) s"

definition dc_parse_ipv4 :: "string \<Rightarrow> world \<Rightarrow> ((msg + string) \<times> world) option" where
  "dc_parse_ipv4 s w = do {
     (a, w) \<leftarrow> sys (Inet_pton (c_str s)) w;
     if rv a \<noteq> 1 then Some (Inl [Txt (''bad IPv4 address: '' @ s)], w) else Some (Inr (c_str s), w) }"

definition dc_set_rcv_timeout :: "int \<Rightarrow> int \<Rightarrow> world \<Rightarrow> world" where
  "dc_set_rcv_timeout fd ms = emit (Rcvtimeo fd (ms sdiv 1000) (ms smod 1000 * 1000))"

text \<open>One \<open>setsockopt\<close> after the other; the first that fails is the error.\<close>

fun dc_ip_options :: "int \<Rightarrow> (string \<times> string list) list \<Rightarrow> world \<Rightarrow> ((msg + unit) \<times> world) option" where
  "dc_ip_options fd [] w = Some (Inr (), w)"
| "dc_ip_options fd ((name, args) # opts) w = do {
     (r, w) \<leftarrow> sys (Net (Net_ip_option fd name args)) w;
     if rv r < 0 then Some (Inl [Txt (name @ '': ''), StrError (eno r)], w) else dc_ip_options fd opts w }"

definition dc_make_multicast_socket :: "string \<Rightarrow> string \<Rightarrow> int \<Rightarrow> world \<Rightarrow> ((msg + int) \<times> world) option" where
  "dc_make_multicast_socket grp iface port w = do {
     (s, w) \<leftarrow> sys (Net Net_socket_udp) w;
     let fd = rv s;
     if fd < 0 then Some (Inl [Txt ''socket(udp): '', StrError (eno s)], w)
     else do {
       (r, w) \<leftarrow> sys (Reuseaddr fd) w;
       if rv r < 0 then Some (Inl [Txt ''SO_REUSEADDR: '', StrError (eno r)], fd_reset fd w)
       else do {
         (b, w) \<leftarrow> sys (Bind fd ''0.0.0.0'' port) w;
         if rv b < 0 then Some (Inl [Txt ''bind(udp): '', StrError (eno b)], fd_reset fd w)
         else do {
           (t, w) \<leftarrow> dc_ip_options fd [(''IP_ADD_MEMBERSHIP'', [grp, iface]), (''IP_MULTICAST_IF'', [iface]),
             (''IP_MULTICAST_LOOP'', [''1'']), (''IP_MULTICAST_TTL'', [''1''])] w;
           (case t of
             Inl e \<Rightarrow> Some (Inl e, fd_reset fd w)
           | Inr _ \<Rightarrow> Some (Inr fd, dc_set_rcv_timeout fd 200 w)) } } } }"

definition dc_make_tcp_listener :: "string \<Rightarrow> int \<Rightarrow> world \<Rightarrow> ((msg + int) \<times> world) option" where
  "dc_make_tcp_listener iface port w = do {
     (s, w) \<leftarrow> sys Socket w;
     let fd = rv s;
     if fd < 0 then Some (Inl [Txt ''socket(tcp): '', StrError (eno s)], w)
     else do {
       let w = emit (Reuseaddr fd) w;
       (b, w) \<leftarrow> sys (Bind fd iface port) w;
       if rv b < 0 then Some (Inl [Txt ''bind(tcp): '', StrError (eno b)], fd_reset fd w)
       else do {
         (l, w) \<leftarrow> sys (Listen fd 16) w;
         if rv l < 0 then Some (Inl [Txt ''listen: '', StrError (eno l)], fd_reset fd w)
         else Some (Inr fd, dc_set_rcv_timeout fd 200 w) } } }"

text \<open>The state is the number of attempts made.\<close>

definition dc_dial_turn :: "string \<Rightarrow> int \<Rightarrow> nat \<Rightarrow> world \<Rightarrow> ((nat, msg + int) ctl \<times> world) option" where
  "dc_dial_turn ip port attempt w =
     (if attempt < 40 then do {
        (s, w) \<leftarrow> sys Socket w;
        let fd = rv s;
        if fd < 0 then Some (Break (Inl [Txt ''socket(dial): '', StrError (eno s)]), w)
        else do {
          (r, w) \<leftarrow> sys (Connect fd ip port) w;
          if rv r = 0 then Some (Break (Inr fd), w)
          else Some (Continue (attempt + 1), fd_reset fd (emit (Sleep_ms 50) w)) } }
      else Some (Break (Inl [Txt ''connect: giving up'']), w))"

definition dc_dial_tcp :: "string \<Rightarrow> int \<Rightarrow> world \<Rightarrow> ((msg + int) \<times> world) option" where
  "dc_dial_tcp ip port = loop (dc_dial_turn ip port) 0"

section \<open>The command line\<close>

record dc_config =
  dc_group :: string
  dc_port :: int
  dc_name :: string
  dc_tcp_port :: int
  dc_iface :: string
  dc_announce_ms :: int
  dc_rounds :: int

definition dc_parse_u16 :: "string \<Rightarrow> int option" where
  "dc_parse_u16 s = (case from_chars_int s of None \<Rightarrow> None | Some v \<Rightarrow> if v < 1 \<or> 65535 < v then None else Some v)"

definition dc_parse_int :: "string \<Rightarrow> int option" where
  "dc_parse_int s = (case from_chars_int s of None \<Rightarrow> None | Some v \<Rightarrow> if v < 0 then None else Some v)"

definition dc_usage :: "world \<Rightarrow> world" where
  "dc_usage = println Stderr [Txt ''usage: chatterd discover --group <ip> --port <n> --name <s> [--tcp-port <n>] [--iface <ip>] [--announce-ms <n>] [--rounds <n>]'']"

text \<open>The option with its value, where it has one: \<^const>\<open>None\<close> is the exit with status 2. The two that
  \<open>need\<close> answers with a null pointer print the usage or not as the source does.\<close>

definition dc_option :: "string \<Rightarrow> string option \<Rightarrow> dc_config \<Rightarrow> world \<Rightarrow> (dc_config option \<times> world) option" where
  "dc_option a v c w =
     (let w1 = (if v = None \<and> a \<in> {''--group'', ''--port'', ''--name'', ''--tcp-port'', ''--iface'', ''--announce-ms'', ''--rounds''}
                then println Stderr [Txt (''chatterd: '' @ a @ '' needs a value'')] w else w);
          number = (\<lambda>parse set. case (case v of None \<Rightarrow> None | Some s \<Rightarrow> parse s) of
             None \<Rightarrow> Some (None, dc_usage w1) | Some n \<Rightarrow> Some (Some (set n), w1));
          positive = (\<lambda>s. case dc_parse_int s of None \<Rightarrow> None | Some n \<Rightarrow> if n = 0 then None else Some n);
          address = (\<lambda>set. case v of None \<Rightarrow> Some (None, w1) | Some s \<Rightarrow> do {
             (p, w) \<leftarrow> dc_parse_ipv4 s w1;
             (case p of Inl _ \<Rightarrow> Some (None, dc_usage w) | Inr _ \<Rightarrow> Some (Some (set s), w)) })
      in if a = ''--group'' then address (\<lambda>s. c\<lparr>dc_group := s\<rparr>)
         else if a = ''--port'' then number dc_parse_u16 (\<lambda>n. c\<lparr>dc_port := n\<rparr>)
         else if a = ''--name'' then (case v of None \<Rightarrow> Some (None, w1) | Some s \<Rightarrow> Some (Some (c\<lparr>dc_name := s\<rparr>), w1))
         else if a = ''--tcp-port'' then number dc_parse_u16 (\<lambda>n. c\<lparr>dc_tcp_port := n\<rparr>)
         else if a = ''--iface'' then address (\<lambda>s. c\<lparr>dc_iface := s\<rparr>)
         else if a = ''--announce-ms'' then number positive (\<lambda>n. c\<lparr>dc_announce_ms := n\<rparr>)
         else if a = ''--rounds'' then number positive (\<lambda>n. c\<lparr>dc_rounds := n\<rparr>)
         else Some (None, dc_usage (println Stderr [Txt (''chatterd: unknown argument: '' @ a)] w1)))"

fun dc_parse_from :: "string list \<Rightarrow> dc_config \<Rightarrow> world \<Rightarrow> (dc_config option \<times> world) option" where
  "dc_parse_from [] c w = Some (Some c, w)"
| "dc_parse_from [a] c w = do {
     (r, w) \<leftarrow> dc_option a None c w;
     (case r of None \<Rightarrow> Some (None, w) | Some c \<Rightarrow> Some (Some c, w)) }"
| "dc_parse_from (a # v # rest) c w = do {
     (r, w) \<leftarrow> dc_option a (Some v) c w;
     (case r of None \<Rightarrow> Some (None, w) | Some c \<Rightarrow> dc_parse_from rest c w) }"

definition dc_defaults :: dc_config where
  "dc_defaults = \<lparr>dc_group = [], dc_port = 0, dc_name = [], dc_tcp_port = 9101, dc_iface = ''127.0.0.1'', dc_announce_ms = 200, dc_rounds = 10\<rparr>"

definition dc_parse_args :: "string list \<Rightarrow> world \<Rightarrow> ((int + dc_config) \<times> world) option" where
  "dc_parse_args args w =
     (case args of
       [] \<Rightarrow> Some (Inl 2, dc_usage w)
     | a # rest \<Rightarrow>
         if a \<noteq> ''discover'' then Some (Inl 2, dc_usage w)
         else do {
           (r, w) \<leftarrow> dc_parse_from rest dc_defaults w;
           (case r of
             None \<Rightarrow> Some (Inl 2, w)
           | Some c \<Rightarrow> if dc_group c = [] \<or> dc_port c = 0 \<or> dc_name c = [] then Some (Inl 2, dc_usage w) else Some (Inr c, w)) })"

section \<open>The beacon\<close>

definition dc_beacon :: "dc_config \<Rightarrow> string" where
  "dc_beacon c = ''CHATTERD1'' @ '' '' @ dc_name c @ '' '' @ show_int (dc_tcp_port c) @ '' '' @ dc_iface c"

text \<open>At most \<open>n\<close> tokens of the rest of the message.\<close>

fun dc_tokens :: "nat \<Rightarrow> string \<Rightarrow> string list" where
  "dc_tokens 0 s = []"
| "dc_tokens (Suc n) s = (if s = [] then [] else
     (case find_from (CHR '' '') s of None \<Rightarrow> [s] | Some i \<Rightarrow> take i s # dc_tokens n (drop (i + 1) s)))"

text \<open>\<open>Split a DELIVER payload "<name>\\0<text>"\<close>.\<close>

definition dc_split_nul :: "string \<Rightarrow> string \<times> string" where
  "dc_split_nul s = (case find_from (CHR 0x00) s of None \<Rightarrow> (s, []) | Some i \<Rightarrow> (take i s, drop (i + 1) s))"

definition dc_greeting :: "string \<Rightarrow> string" where
  "dc_greeting name = name @ [CHR 0x00] @ ''hello from '' @ name"

text \<open>\<open>Seen::first\<close>: whether the name is new, and the names after the call.\<close>

definition dc_first :: "string \<Rightarrow> string list \<Rightarrow> bool \<times> string list" where
  "dc_first n names = (if n \<in> set names then (False, names) else (True, n # names))"

section \<open>The loops\<close>

text \<open>One connection of the accept loop.\<close>

definition dc_answer :: "string \<Rightarrow> int \<Rightarrow> world \<Rightarrow> (unit \<times> world) option" where
  "dc_answer name fd w = do {
     (f, w) \<leftarrow> dc_read_frame fd w;
     (case f of
       Inl _ \<Rightarrow> Some ((), fd_reset fd w)
     | Inr _ \<Rightarrow> do {
         (_, w) \<leftarrow> dc_write_frame fd 3 (bytes_of (dc_greeting name)) w;
         Some ((), fd_reset fd w) }) }"

definition dc_accept_turn :: "string \<Rightarrow> int \<Rightarrow> unit \<Rightarrow> world \<Rightarrow> ((unit, unit) ctl \<times> world) option" where
  "dc_accept_turn name lfd _ w = do {
     (st, w) \<leftarrow> sys (Load_flag ''accepter.stop'') w;
     if rv st \<noteq> 0 then Some (Break (), w)
     else do {
       (c, w) \<leftarrow> sys (Accept lfd) w;
       if rv c < 0 then Some (Continue (), w)
       else do { (_, w) \<leftarrow> dc_answer name (rv c) w; Some (Continue (), w) } } }"

text \<open>The exchange with a new peer, once connected.\<close>

definition dc_talk :: "string \<Rightarrow> int \<Rightarrow> world \<Rightarrow> (unit \<times> world) option" where
  "dc_talk name fd w = do {
     (s, w) \<leftarrow> dc_write_frame fd 1 (bytes_of name) w;
     (case s of
       Inl e \<Rightarrow> Some ((), fd_reset fd (println Stderr ([Txt ''chatterd: error: ''] @ e) w))
     | Inr _ \<Rightarrow> do {
         (r, w) \<leftarrow> dc_read_frame fd w;
         (case r of
           Inl e \<Rightarrow> Some ((), fd_reset fd (println Stderr ([Txt ''chatterd: error: ''] @ e) w))
         | Inr (type, p) \<Rightarrow> (case dc_split_nul (chars_of p) of (rname, rtext) \<Rightarrow>
             Some ((), fd_reset fd (println Stdout [Txt ''peer '', Txt rname, Txt '' says: '', Txt rtext] w)))) }) }"

text \<open>A new peer, and a beacon of another program cut into tokens: the names seen after it.\<close>

definition dc_meet :: "string \<Rightarrow> string list \<Rightarrow> int \<Rightarrow> string \<Rightarrow> world \<Rightarrow> (unit \<times> world) option" where
  "dc_meet name tok port addr w = do {
     let w = println Stdout [Txt ''discovered peer '', Txt (tok ! 1), Txt ('' at '' @ tok ! 3 @ '':'' @ show_int port)] w;
     (conn, w) \<leftarrow> dc_dial_tcp addr port w;
     (case conn of
       Inl e \<Rightarrow> Some ((), println Stderr ([Txt (''chatterd: error: dial '' @ tok ! 1 @ '': '')] @ e) w)
     | Inr fd \<Rightarrow> dc_talk name fd w) }"

definition dc_consider :: "string \<Rightarrow> string list \<Rightarrow> string list \<Rightarrow> world \<Rightarrow> (string list \<times> world) option" where
  "dc_consider name tok names w = do {
     (ip, w) \<leftarrow> dc_parse_ipv4 (tok ! 3) w;
     (case (dc_parse_u16 (tok ! 2), ip) of
       (Some port, Inr addr) \<Rightarrow>
         (case dc_first (tok ! 1) names of
           (False, names) \<Rightarrow> Some (names, w)
         | (True, names) \<Rightarrow> do { (_, w) \<leftarrow> dc_meet name tok port addr w; Some (names, w) })
     | _ \<Rightarrow> Some (names, w)) }"

text \<open>One turn of the receive loop; the state is the set of names seen.\<close>

definition dc_receive_turn :: "string \<Rightarrow> int \<Rightarrow> string list \<Rightarrow> world \<Rightarrow> ((string list, unit) ctl \<times> world) option" where
  "dc_receive_turn name udp names w = do {
     (st, w) \<leftarrow> sys (Load_flag ''receiver.stop'') w;
     if rv st \<noteq> 0 then Some (Break (), w)
     else do {
       (n, w) \<leftarrow> sys (Recv udp 2047) w;
       let tok = dc_tokens 4 (chars_of (filled n));
       if rv n \<le> 0 \<or> List.length tok \<noteq> 4 \<or> tok ! 0 \<noteq> ''CHATTERD1'' \<or> tok ! 1 = name then Some (Continue names, w)
       else do { (names, w) \<leftarrow> dc_consider name tok names w; Some (Continue names, w) } } }"

fun dc_announce :: "nat \<Rightarrow> dc_config \<Rightarrow> int \<Rightarrow> world \<Rightarrow> world" where
  "dc_announce 0 c udp w = w"
| "dc_announce (Suc r) c udp w = dc_announce r c udp
     (emit (Sleep_ms (dc_announce_ms c)) (emit (Net (Net_sendto udp (bytes_of (dc_beacon c)) (dc_group c) (dc_port c))) w))"

text \<open>The threads start after the sockets are there; their destructors stop and join them.\<close>

definition dc_run :: "dc_config \<Rightarrow> int \<Rightarrow> int \<Rightarrow> world \<Rightarrow> (int \<times> world) option" where
  "dc_run c tcp udp w = do {
     let w = println Stderr [Txt (''chatterd: announcing as '' @ dc_name c @ '' on '' @ dc_group c @ '':'' @ show_int (dc_port c)
       @ '' (tcp '' @ dc_iface c @ '':'' @ show_int (dc_tcp_port c) @ '')'')] w;
     let w = emit (Spawn ''accepter'' [dc_name c] tcp) w;
     let w = emit (Spawn ''receiver'' [dc_name c] udp) w;
     let w = dc_announce (nat (dc_rounds c)) c udp w;
     let w = emit (Store ''accepter.stop'' 1) (emit (Store ''receiver.stop'' 1) (emit (Sleep_ms 800) w));
     (_, w) \<leftarrow> sys (Proc (Proc_join ''receiver'')) w;
     (_, w) \<leftarrow> sys (Proc (Proc_join ''accepter'')) w;
     Some (0, fd_reset tcp (fd_reset udp w)) }"

definition dc_error :: "msg \<Rightarrow> world \<Rightarrow> (int \<times> world) option" where
  "dc_error e w = Some (1, println Stderr ([Txt ''chatterd: error: ''] @ e) w)"

definition dc_main :: "string list \<Rightarrow> world \<Rightarrow> (int \<times> world) option" where
  "dc_main args w = do {
     (cfg, w) \<leftarrow> dc_parse_args args w;
     (case cfg of
       Inl code \<Rightarrow> Some (code, w)
     | Inr c \<Rightarrow> do {
         (grp, w) \<leftarrow> dc_parse_ipv4 (dc_group c) w;
         (case grp of Inl e \<Rightarrow> dc_error e w | Inr grp \<Rightarrow> do {
           (ifa, w) \<leftarrow> dc_parse_ipv4 (dc_iface c) w;
           (case ifa of Inl e \<Rightarrow> dc_error e w | Inr ifa \<Rightarrow> do {
             (tcp, w) \<leftarrow> dc_make_tcp_listener ifa (dc_tcp_port c) w;
             (case tcp of Inl e \<Rightarrow> dc_error e w | Inr tcp \<Rightarrow> do {
               (udp, w) \<leftarrow> dc_make_multicast_socket grp ifa (dc_port c) w;
               (case udp of
                 Inl e \<Rightarrow> do { (r, w) \<leftarrow> dc_error e w; Some (r, fd_reset tcp w) }
               | Inr udp \<Rightarrow> dc_run c tcp udp w) }) }) }) }) }"

end
