(* ===== verification/DiscoverProps.thy ===== *)
theory DiscoverProps
  imports Discover
begin

text \<open>
  What is proved of the discovery program: the frames are those of the chat protocol and survive any
  pieces, the beacon carries the four fields for the names without a space, every peer is discovered
  at its first beacon and only then, and the two ends of a greeting fit together.
\<close>

section \<open>Frames\<close>

lemma dc_write_all_spec:
  assumes "dc_write_all fd data w = Some (r, w')"
  shows "later w w' \<and> (honest (since w w') \<longrightarrow>
    prefix (accepted fd (since w w')) data \<and> (r = Inr () \<longrightarrow> accepted fd (since w w') = data))"
  using assms unfolding dc_write_all_def
proof (rule loop_rule [where I = "\<lambda>left v. later w v \<and> (honest (since w v) \<longrightarrow> data = accepted fd (since w v) @ left)"], goal_cases)
  case 1
  show ?case by simp
next
  case (2 left v left' v')
  then obtain a where a: "sys (Send fd left) v = Some (a, v')"
    and o: "left' = (if rv a < 0 then left else drop (nat (rv a)) left)"
    by (auto simp: dc_write_turn_def split: if_split_asm)
  have "later w v'" and "since w v' = since w v @ [(Send fd left, Some a)]"
    using 2 sys_after [OF _ a, of w] by simp_all
  with 2 o show ?case by auto
next
  case (3 left v r v')
  show ?case
  proof (cases "left = []")
    case True
    with 3 show ?thesis by (auto simp: dc_write_turn_def)
  next
    case False
    with 3 obtain a where a: "sys (Send fd left) v = Some (a, v')" and r: "r \<noteq> Inr ()"
      and "rv a < 0" by (auto simp: dc_write_turn_def split: if_splits)
    have "later w v'" and "since w v' = since w v @ [(Send fd left, Some a)]"
      using 3 sys_after [OF _ a, of w] by simp_all
    with 3 r \<open>rv a < 0\<close> show ?thesis by auto
  qed
qed

interpretation dc_w: byte_writer dc_write_all "\<lambda>r. r = Inr ()"
  by unfold_locales (auto dest: dc_write_all_spec)

lemma dc_read_all_spec:
  assumes "dc_read_all fd n w = Some (r, w')"
  shows "later w w' \<and> accepted fd (since w w') = [] \<and> (honest (since w w') \<longrightarrow>
    (\<forall>bs. r = Inr bs \<longrightarrow> received fd (since w w') = bs \<and> List.length bs = n))"
  using assms unfolding dc_read_all_def
proof (rule loop_rule [where I = "\<lambda>buf v. later w v \<and> accepted fd (since w v) = [] \<and>
    (honest (since w v) \<longrightarrow> List.length buf \<le> n \<and> received fd (since w v) = buf)"], goal_cases)
  case 1
  show ?case by simp
next
  case (2 buf v buf' v')
  then obtain a where a: "sys (Recv fd (n - List.length buf)) v = Some (a, v')"
    and "List.length buf < n" and o: "buf' = buf @ filled a"
    by (auto simp: dc_read_turn_def split: if_splits)
  have "later w v'" and "since w v' = since w v @ [(Recv fd (n - List.length buf), Some a)]"
    using 2 sys_after [OF _ a, of w] by simp_all
  with 2 o \<open>List.length buf < n\<close> show ?case by auto
next
  case (3 buf v r v')
  show ?case
  proof (cases "List.length buf < n")
    case True
    with 3 obtain a e where a: "sys (Recv fd (n - List.length buf)) v = Some (a, v')" and r: "r = Inl e"
      by (auto simp: dc_read_turn_def split: if_splits)
    moreover have "later w v'" and "since w v' = since w v @ [(Recv fd (n - List.length buf), Some a)]"
      using 3 sys_after [OF _ a, of w] by simp_all
    ultimately show ?thesis using 3 by auto
  next
    case False
    with 3 show ?thesis by (auto simp: dc_read_turn_def)
  qed
qed

interpretation dc_r: exact_reader dc_read_all
  by unfold_locales (auto dest: dc_read_all_spec)

text \<open>The frames are those of the other versions of the chat server.\<close>

abbreviation dc_frame :: "byte \<Rightarrow> byte list \<Rightarrow> byte list" where
  "dc_frame t p \<equiv> proto_encode \<lparr>ftype = t, payload = p\<rparr>"

lemma dc_frame_eq: "dc_frame t p = dc_header t (List.length p) @ p"
  by (simp add: proto_encode_bytes dc_header_def)

lemma dc_write_frame_spec:
  assumes "dc_write_frame fd t p w = Some (r, w')"
  shows "later w w'"
    and "honest (since w w') \<Longrightarrow> prefix (accepted fd (since w w')) (dc_frame t p)"
    and "honest (since w w') \<Longrightarrow> r = Inr () \<Longrightarrow> accepted fd (since w w') = dc_frame t p"
    and "0xFFFF < List.length p \<Longrightarrow> since w w' = []"
proof -
  have "later w w' \<and> (honest (since w w') \<longrightarrow> prefix (accepted fd (since w w')) (dc_frame t p)) \<and>
    (honest (since w w') \<longrightarrow> r = Inr () \<longrightarrow> accepted fd (since w w') = dc_frame t p) \<and> (0xFFFF < List.length p \<longrightarrow> since w w' = [])"
  proof (cases "List.length p > 0xFFFF")
    case True
    with assms show ?thesis by (auto simp: dc_write_frame_def)
  next
    case False
    with assms consider
        (stop) e where "dc_write_all fd (dc_header t (List.length p)) w = Some (Inl e, w')" "r = Inl e"
      | (body) w1 where "dc_write_all fd (dc_header t (List.length p)) w = Some (Inr (), w1)" "dc_write_all fd p w1 = Some (r, w')"
      by (auto simp: dc_write_frame_def io_try_Some)
    then show ?thesis
    proof cases
      case stop
      with dc_write_all_spec [OF stop(1)] False show ?thesis by (simp add: dc_frame_eq)
    next
      case body
      note two = dc_w.two_writes [OF body(1,2) refl, folded dc_frame_eq]
      have "later w w'" using dc_w.writer_later [OF body(1)] dc_w.writer_later [OF body(2)] by (rule later_trans)
      with two False show ?thesis by simp
    qed
  qed
  then show "later w w'"
    and "honest (since w w') \<Longrightarrow> prefix (accepted fd (since w w')) (dc_frame t p)"
    and "honest (since w w') \<Longrightarrow> r = Inr () \<Longrightarrow> accepted fd (since w w') = dc_frame t p"
    and "0xFFFF < List.length p \<Longrightarrow> since w w' = []" by blast+
qed

lemma dc_header_of_bytes:
  assumes "List.length hdr = 6" and "\<not> (hdr ! 0 \<noteq> 67 \<or> hdr ! 1 \<noteq> 72)" and "hdr ! 2 = 1"
    and "be16_value (hdr ! 4) (hdr ! 5) = List.length p"
  shows "dc_frame (hdr ! 3) p = hdr @ p"
  using list6_eq [OF assms(1)] assms(2,3) by (simp add: dc_frame_eq dc_header_def assms(4) [symmetric])

lemma dc_read_frame_spec:
  assumes "dc_read_frame fd w = Some (r, w')"
  shows "later w w'" and "accepted fd (since w w') = []"
    and "r = Inr (t, p) \<Longrightarrow> honest (since w w') \<Longrightarrow> received fd (since w w') = dc_frame t p \<and> List.length p \<le> 0xFFFF"
proof -
  have "later w w' \<and> accepted fd (since w w') = [] \<and>
    (r = Inr (t, p) \<longrightarrow> honest (since w w') \<longrightarrow> received fd (since w w') = dc_frame t p \<and> List.length p \<le> 0xFFFF)"
  proof -
    from assms consider
        (stop) h where "dc_read_all fd 6 w = Some (h, w')" "\<forall>g. r \<noteq> Inr g"
      | (empty) hdr where "dc_read_all fd 6 w = Some (Inr hdr, w')" "\<not> (hdr ! 0 \<noteq> 67 \<or> hdr ! 1 \<noteq> 72)" "hdr ! 2 = 1"
          "be16_value (hdr ! 4) (hdr ! 5) = List.length ([] :: byte list)" "r = Inr (hdr ! 3, [])"
      | (body) hdr w1 q where "dc_read_all fd 6 w = Some (Inr hdr, w1)" "\<not> (hdr ! 0 \<noteq> 67 \<or> hdr ! 1 \<noteq> 72)" "hdr ! 2 = 1"
          "dc_read_all fd (be16_value (hdr ! 4) (hdr ! 5)) w1 = Some (q, w')"
          "r = (case q of Inl e \<Rightarrow> Inl e | Inr p \<Rightarrow> Inr (hdr ! 3, p))"
      by (auto simp: dc_read_frame_def io_try_Some Let_def split: if_splits)
    then show ?thesis
    proof cases
      case stop
      with dc_read_all_spec [OF stop(1)] show ?thesis by simp
    next
      case empty
      with dc_read_all_spec [OF empty(1)] dc_header_of_bytes [OF _ empty(2-4)] show ?thesis by auto
    next
      case body
      note sh = dc_read_all_spec [OF body(1)] and sb = dc_read_all_spec [OF body(4)]
      moreover have "since w w' = since w w1 @ since w1 w'" using sh sb by (simp add: since_trans)
      moreover have "be16_value (hdr ! 4) (hdr ! 5) \<le> 0xFFFF"
        using be16_value_less [of "hdr ! 4" "hdr ! 5"] by simp
      ultimately show ?thesis using body(5) dc_header_of_bytes [OF _ body(2,3)]
        by (auto intro: later_trans split: sum.split_asm)
    qed
  qed
  then show "later w w'" and "accepted fd (since w w') = []"
    and "r = Inr (t, p) \<Longrightarrow> honest (since w w') \<Longrightarrow> received fd (since w w') = dc_frame t p \<and> List.length p \<le> 0xFFFF"
    by blast+
qed

section \<open>What a run shows\<close>

text \<open>The peers a receiver prints as discovered, and what it prints that they say.\<close>

definition discovered_by :: "call \<Rightarrow> string list" where
  "discovered_by c = (case c of Print Stdout (Txt a # Txt n # m) \<Rightarrow> if a = ''discovered peer '' then [n] else [] | _ \<Rightarrow> [])"

definition says_by :: "call \<Rightarrow> (string \<times> string) list" where
  "says_by c = (case c of Print Stdout [Txt a, Txt n, Txt b, Txt t] \<Rightarrow> if a = ''peer '' then [(n, t)] else [] | _ \<Rightarrow> [])"

lemma shown_simps [simp]:
  "discovered_by (Print Stderr m) = []" "says_by (Print Stderr m) = []"
  "discovered_by (Print Stdout (Txt a # Txt n # m)) = (if a = ''discovered peer '' then [n] else [])"
  "says_by (Print Stdout [Txt a, Txt n, Txt b, Txt t]) = (if a = ''peer '' then [(n, t)] else [])"
  "says_by (Print Stdout [Txt a, Txt n, Txt b]) = []"
  "discovered_by (Recv fd k) = []" "says_by (Recv fd k) = []" "discovered_by (Send fd bs) = []" "says_by (Send fd bs) = []"
  "discovered_by (Net nc) = []" "says_by (Net nc) = []" "discovered_by (Close fd) = []" "says_by (Close fd) = []"
  "discovered_by (Sleep_ms i) = []" "says_by (Sleep_ms i) = []" "discovered_by (Load_flag s) = []" "says_by (Load_flag s) = []"
  by (simp_all add: discovered_by_def says_by_def)

lemma dc_write_all_keeps [keeps_intros]:
  "only P w0 w \<Longrightarrow> (\<And>bs. P (Send fd bs)) \<Longrightarrow> keeps P w0 (dc_write_all fd data w)"
  unfolding dc_write_all_def dc_write_turn_def by (intro keeps_intros)

lemma dc_read_all_keeps [keeps_intros]:
  "only P w0 w \<Longrightarrow> (\<And>n. P (Recv fd n)) \<Longrightarrow> keeps P w0 (dc_read_all fd n w)"
  unfolding dc_read_all_def dc_read_turn_def by (intro keeps_intros)

lemma dc_write_frame_keeps [keeps_intros]:
  "only P w0 w \<Longrightarrow> (\<And>bs. P (Send fd bs)) \<Longrightarrow> keeps P w0 (dc_write_frame fd t p w)"
  unfolding dc_write_frame_def by (intro keeps_intros)

lemma dc_read_frame_keeps [keeps_intros]:
  "only P w0 w \<Longrightarrow> (\<And>n. P (Recv fd n)) \<Longrightarrow> keeps P w0 (dc_read_frame fd w)"
  unfolding dc_read_frame_def by (intro keeps_intros)

lemma quiet_frames:
  assumes "dc_write_frame fd t p w = Some (r, w')"
  shows "proj says_by (since w w') = []" "received fd (since w w') = []"
proof -
  have "keeps (\<lambda>c. says_by c = [] \<and> (\<forall>n. c \<noteq> Recv fd n \<and> c \<noteq> Read fd n)) w (dc_write_frame fd t p w)"
    by (intro keeps_intros) simp
  from onlyD(2) [OF keepsD [OF this assms]] have l: "list_all ((\<lambda>c. says_by c = [] \<and> (\<forall>n. c \<noteq> Recv fd n \<and> c \<noteq> Read fd n)) \<circ> fst) (since w w')" .
  then show "proj says_by (since w w') = []" by (intro proj_Nil) (auto simp: list.pred_set)
  from l have "received_by fd e = []" if "e \<in> set (since w w')" for e
    using that by (cases e) (auto simp: list.pred_set received_by_def split: call.splits option.splits)
  then show "received fd (since w w') = []" by (auto simp: received_def)
qed

lemma quiet_reads:
  assumes "dc_read_frame fd w = Some (r, w')"
  shows "proj says_by (since w w') = []"
proof -
  have "keeps (\<lambda>c. says_by c = []) w (dc_read_frame fd w)" by (intro keeps_intros) simp
  from onlyD(2) [OF keepsD [OF this assms]] show ?thesis by (rule proj_Nil)
qed

section \<open>The two ends of a greeting\<close>

lemma fd_reset_since: "later w w1 \<Longrightarrow> later w (fd_reset fd w1)"
  "later w w1 \<Longrightarrow> accepted g (since w (fd_reset fd w1)) = accepted g (since w w1)"
  "later w w1 \<Longrightarrow> received g (since w (fd_reset fd w1)) = received g (since w w1)"
  "later w w1 \<Longrightarrow> honest (since w (fd_reset fd w1)) = honest (since w w1)"
  "later w w1 \<Longrightarrow> proj says_by (since w (fd_reset fd w1)) = proj says_by (since w w1)"
  by (simp_all add: fd_reset_def)

lemma dc_answer_spec:
  assumes "dc_answer name fd w = Some ((), w')" and "honest (since w w')"
  shows "prefix (accepted fd (since w w')) (dc_frame 3 (bytes_of (dc_greeting name)))"
    and "accepted fd (since w w') \<noteq> [] \<Longrightarrow> List.length (dc_greeting name) \<le> 0xFFFF \<and>
      (\<exists>t p. received fd (since w w') = dc_frame t p \<and> List.length p \<le> 0xFFFF)"
proof -
  have "prefix (accepted fd (since w w')) (dc_frame 3 (bytes_of (dc_greeting name))) \<and>
    (accepted fd (since w w') \<noteq> [] \<longrightarrow> List.length (dc_greeting name) \<le> 0xFFFF \<and>
      (\<exists>t p. received fd (since w w') = dc_frame t p \<and> List.length p \<le> 0xFFFF))"
  proof -
    from assms(1) consider
        (none) e w1 where "dc_read_frame fd w = Some (Inl e, w1)" "w' = fd_reset fd w1"
      | (some) t p w1 r w2 where "dc_read_frame fd w = Some (Inr (t, p), w1)"
          "dc_write_frame fd 3 (bytes_of (dc_greeting name)) w1 = Some (r, w2)" "w' = fd_reset fd w2"
      by (auto simp: dc_answer_def run_cases)
    then show ?thesis
    proof cases
      case none
      with dc_read_frame_spec(1,2) [OF none(1)] show ?thesis by (simp add: fd_reset_since)
    next
      case some
      have l: "later w w1" "later w1 w2" using dc_read_frame_spec(1) [OF some(1)] dc_write_frame_spec(1) [OF some(2)] .
      note s = since_trans [OF l] and l2 = later_trans [OF l]
      from assms(2) have h: "honest (since w w1)" "honest (since w1 w2)" by (simp_all add: some(3) fd_reset_since l2 s)
      have a: "accepted fd (since w w') = accepted fd (since w1 w2)" "received fd (since w w') = received fd (since w w1)"
        using dc_read_frame_spec(2) [OF some(1)] quiet_frames(2) [OF some(2)] by (simp_all add: some(3) fd_reset_since l2 s)
      have "List.length (dc_greeting name) \<le> 0xFFFF" if "accepted fd (since w1 w2) \<noteq> []"
        using dc_write_frame_spec(4) [OF some(2)] that by (cases "0xFFFF < List.length (dc_greeting name)") simp_all
      with dc_write_frame_spec(2) [OF some(2) h(2)] dc_read_frame_spec(3) [OF some(1) refl h(1)] show ?thesis
        unfolding a by blast
    qed
  qed
  then show "prefix (accepted fd (since w w')) (dc_frame 3 (bytes_of (dc_greeting name)))"
    and "accepted fd (since w w') \<noteq> [] \<Longrightarrow> List.length (dc_greeting name) \<le> 0xFFFF \<and>
      (\<exists>t p. received fd (since w w') = dc_frame t p \<and> List.length p \<le> 0xFFFF)" by blast+
qed

lemma dc_talk_spec:
  assumes "dc_talk name fd w = Some ((), w')" and "honest (since w w')"
  shows "prefix (accepted fd (since w w')) (dc_frame 1 (bytes_of name))"
    and "proj says_by (since w w') = [] \<or> accepted fd (since w w') = dc_frame 1 (bytes_of name) \<and>
      (\<exists>t p. received fd (since w w') = dc_frame t p \<and> List.length p \<le> 0xFFFF \<and> proj says_by (since w w') = [dc_split_nul (chars_of p)])"
proof -
  have "prefix (accepted fd (since w w')) (dc_frame 1 (bytes_of name)) \<and>
    (proj says_by (since w w') = [] \<or> accepted fd (since w w') = dc_frame 1 (bytes_of name) \<and>
      (\<exists>t p. received fd (since w w') = dc_frame t p \<and> List.length p \<le> 0xFFFF \<and> proj says_by (since w w') = [dc_split_nul (chars_of p)]))"
  proof -
    from assms(1) consider
        (unsent) e w1 m where "dc_write_frame fd 1 (bytes_of name) w = Some (Inl e, w1)" "w' = fd_reset fd (println Stderr m w1)"
      | (unheard) w1 e w2 m where "dc_write_frame fd 1 (bytes_of name) w = Some (Inr (), w1)"
          "dc_read_frame fd w1 = Some (Inl e, w2)" "w' = fd_reset fd (println Stderr m w2)"
      | (heard) w1 t p w2 where "dc_write_frame fd 1 (bytes_of name) w = Some (Inr (), w1)"
          "dc_read_frame fd w1 = Some (Inr (t, p), w2)"
          "w' = fd_reset fd (println Stdout [Txt ''peer '', Txt (fst (dc_split_nul (chars_of p))), Txt '' says: '',
             Txt (snd (dc_split_nul (chars_of p)))] w2)"
      by (auto simp: dc_talk_def run_cases case_prod_beta)
    then show ?thesis
    proof cases
      case unsent
      with dc_write_frame_spec(1,2) [OF unsent(1)] quiet_frames(1) [OF unsent(1)] assms(2) show ?thesis
        by (simp add: fd_reset_since)
    next
      case unheard
      have l: "later w w1" "later w1 w2" using dc_write_frame_spec(1) [OF unheard(1)] dc_read_frame_spec(1) [OF unheard(2)] .
      note s = since_trans [OF l] and l2 = later_trans [OF l]
      from assms(2) have h: "honest (since w w1)" by (simp add: unheard(3) fd_reset_since l2 s)
      from dc_write_frame_spec(3) [OF unheard(1) h] dc_read_frame_spec(2) [OF unheard(2)] quiet_frames(1) [OF unheard(1)] quiet_reads [OF unheard(2)]
      show ?thesis by (simp add: unheard(3) fd_reset_since l2 s)
    next
      case heard
      have l: "later w w1" "later w1 w2" using dc_write_frame_spec(1) [OF heard(1)] dc_read_frame_spec(1) [OF heard(2)] .
      note s = since_trans [OF l] and l2 = later_trans [OF l]
      from assms(2) have h: "honest (since w w1)" "honest (since w1 w2)" by (simp_all add: heard(3) fd_reset_since l2 s)
      from dc_write_frame_spec(3) [OF heard(1) h(1)] dc_read_frame_spec(2) [OF heard(2)] dc_read_frame_spec(3) [OF heard(2) refl h(2)]
        quiet_frames [OF heard(1)] quiet_reads [OF heard(2)]
      show ?thesis by (auto simp: heard(3) fd_reset_since l2 s)
    qed
  qed
  then show "prefix (accepted fd (since w w')) (dc_frame 1 (bytes_of name))"
    and "proj says_by (since w w') = [] \<or> accepted fd (since w w') = dc_frame 1 (bytes_of name) \<and>
      (\<exists>t p. received fd (since w w') = dc_frame t p \<and> List.length p \<le> 0xFFFF \<and> proj says_by (since w w') = [dc_split_nul (chars_of p)])"
    by blast+
qed

lemma dc_split_greeting: "CHR 0x00 \<notin> set name \<Longrightarrow> dc_split_nul (dc_greeting name) = (name, ''hello from '' @ name)"
  by (simp add: dc_split_nul_def dc_greeting_def find_from_append)

text \<open>A frame that is a prefix of another is the other.\<close>

lemma dc_frame_prefix:
  assumes "prefix (dc_frame t p) (dc_frame u q)" and "List.length p \<le> 0xFFFF" and "List.length q \<le> 0xFFFF"
  shows "t = u \<and> p = q"
proof -
  from assms(1) obtain z where "dc_frame u q @ [] = dc_frame t p @ z" by (auto simp: prefix_def)
  from proto_encode_cancel [OF this] assms(2,3) show ?thesis by simp
qed

section \<open>The beacon\<close>

lemma dc_tokens_field: "CHR '' '' \<notin> set a \<Longrightarrow> dc_tokens (Suc n) (a @ CHR '' '' # s) = a # dc_tokens n s"
  by (simp add: find_from_append)

lemma dc_tokens_last: "CHR '' '' \<notin> set a \<Longrightarrow> a \<noteq> [] \<Longrightarrow> dc_tokens (Suc n) a = [a]"
  by (simp add: find_from_None [THEN iffD2])

lemma dc_tokens_no_space: "tok \<in> set (dc_tokens n s) \<Longrightarrow> CHR '' '' \<notin> set tok"
proof (induction n s rule: dc_tokens.induct)
  case (2 n s)
  then show ?case by (auto split: if_splits option.splits simp: find_from_None dest: find_from_Some)
qed simp

lemma show_nat_no_space: "CHR '' '' \<notin> set (show_nat n)"
proof
  assume "CHR '' '' \<in> set (show_nat n)"
  with show_nat_digits [of n] have "is_digit (CHR '' '')" by (simp add: list.pred_set)
  then show False by (simp add: is_digit_def)
qed

lemma from_chars_int_show_nat: "int n < 2 ^ 31 \<Longrightarrow> from_chars_int (show_nat n) = Some (int n)"
  by (simp add: from_chars_int_def Let_def)

lemma dc_parse_u16_show: "1 \<le> port \<Longrightarrow> port \<le> 65535 \<Longrightarrow> dc_parse_u16 (show_int port) = Some port"
  using from_chars_int_show_nat [of "nat port"] by (simp add: dc_parse_u16_def show_int_def)

section \<open>Discovering\<close>

text \<open>
  The name in a datagram that a receiver called \<open>name\<close> takes for a beacon, where \<open>ok\<close> tells which
  texts are addresses; those of the datagrams of a trace.
\<close>

definition dc_hears :: "(string \<Rightarrow> bool) \<Rightarrow> string \<Rightarrow> string \<Rightarrow> string option" where
  "dc_hears ok name m = (let tok = dc_tokens 4 m in
     if List.length tok = 4 \<and> tok ! 0 = ''CHATTERD1'' \<and> tok ! 1 \<noteq> name \<and> dc_parse_u16 (tok ! 2) \<noteq> None \<and> ok (c_str (tok ! 3))
     then Some (tok ! 1) else None)"

definition beacon_of :: "(string \<Rightarrow> bool) \<Rightarrow> string \<Rightarrow> int \<Rightarrow> call \<times> answer option \<Rightarrow> string list" where
  "beacon_of ok name udp e = (case e of
     (Recv fd n, Some a) \<Rightarrow> if fd = udp \<and> 0 < rv a then (case dc_hears ok name (chars_of (filled a)) of None \<Rightarrow> [] | Some x \<Rightarrow> [x]) else []
   | _ \<Rightarrow> [])"

definition beacons :: "(string \<Rightarrow> bool) \<Rightarrow> string \<Rightarrow> int \<Rightarrow> (call \<times> answer option) list \<Rightarrow> string list" where
  "beacons ok name udp t = concat (List.map (beacon_of ok name udp) t)"

lemma beacons_simps [simp]:
  "beacons ok name udp [] = []" "beacons ok name udp (e # t) = beacon_of ok name udp e @ beacons ok name udp t"
  "beacons ok name udp (t @ u) = beacons ok name udp t @ beacons ok name udp u"
  "beacon_of ok name udp (c, None) = []" "beacon_of ok name udp (Load_flag s, x) = []" "beacon_of ok name udp (Net nc, x) = []"
  by (simp_all add: beacons_def beacon_of_def split: option.split call.split)

text \<open>\<open>inet_pton\<close> answers alike for the same text.\<close>

definition resolves :: "(string \<Rightarrow> bool) \<Rightarrow> (call \<times> answer option) list \<Rightarrow> bool" where
  "resolves ok t \<longleftrightarrow> (\<forall>h a. (Inet_pton h, Some a) \<in> set t \<longrightarrow> (rv a = 1 \<longleftrightarrow> ok h))"

lemma resolves_simps [simp]:
  "resolves ok []" "resolves ok (t @ u) \<longleftrightarrow> resolves ok t \<and> resolves ok u"
  "resolves ok ((Inet_pton h, Some a) # t) \<longleftrightarrow> (rv a = 1 \<longleftrightarrow> ok h) \<and> resolves ok t"
  by (auto simp: resolves_def)

lemma dc_dial_spec:
  assumes "dc_dial_tcp ip port w = Some (r, w')"
  shows "only (\<lambda>c. discovered_by c = [] \<and> (\<forall>f n. c \<noteq> Recv f n)) w w'" "r = Inr fd \<Longrightarrow> fd \<in> set (opened (since w w'))"
    "List.length (opened (since w w')) \<le> 40"
proof -
  have "keeps (\<lambda>c. discovered_by c = [] \<and> (\<forall>f n. c \<noteq> Recv f n)) w (dc_dial_tcp ip port w)"
    unfolding dc_dial_tcp_def dc_dial_turn_def Let_def by (intro keeps_intros) simp_all
  from keepsD [OF this assms] show "only (\<lambda>c. discovered_by c = [] \<and> (\<forall>f n. c \<noteq> Recv f n)) w w'" .
  have "later w w' \<and> (\<forall>fd. r = Inr fd \<longrightarrow> fd \<in> set (opened (since w w'))) \<and> List.length (opened (since w w')) \<le> 40"
    using assms unfolding dc_dial_tcp_def
  proof (rule loop_rule [where I = "\<lambda>k v. later w v \<and> List.length (opened (since w v)) \<le> k \<and> k \<le> 40"], goal_cases)
    case (2 k v k' v')
    then obtain a b v1 v2 where a: "sys Socket v = Some (a, v1)" and b: "sys (Connect (rv a) ip port) v1 = Some (b, v2)"
      and o: "v' = fd_reset (rv a) (emit (Sleep_ms 50) v2)" "k' = k + 1" "k < 40"
      by (auto simp: dc_dial_turn_def Let_def split: if_split_asm)
    have l: "later w v1" "since w v1 = since w v @ [(Socket, Some a)]" using 2 sys_after [OF _ a, of w] by simp_all
    have "later w v2" "since w v2 = since w v @ [(Socket, Some a), (Connect (rv a) ip port, Some b)]"
      using l sys_after [OF l(1) b] by simp_all
    with 2 o show ?case by (simp add: fd_reset_def)
  next
    case (3 k v r v')
    then consider (over) "v' = v" "\<forall>fd. r \<noteq> Inr fd"
      | (none) a where "sys Socket v = Some (a, v')" "\<forall>fd. r \<noteq> Inr fd" "k < 40"
      | (some) a v1 b where "sys Socket v = Some (a, v1)" "sys (Connect (rv a) ip port) v1 = Some (b, v')" "0 \<le> rv a" "r = Inr (rv a)" "k < 40"
      by (auto simp: dc_dial_turn_def Let_def split: if_split_asm)
    then show ?case
    proof cases
      case over
      with 3 show ?thesis by simp
    next
      case none
      with 3 sys_after [OF _ none(1), of w] show ?thesis by simp
    next
      case some
      have l: "later w v1" "since w v1 = since w v @ [(Socket, Some a)]" using 3 sys_after [OF _ some(1), of w] by simp_all
      with 3 some sys_after [OF l(1) some(2)] show ?thesis by simp
    qed
  qed simp_all
  then show "r = Inr fd \<Longrightarrow> fd \<in> set (opened (since w w'))" "List.length (opened (since w w')) \<le> 40" by blast+
qed

text \<open>What happens on other descriptors is not heard.\<close>

lemma only_unheard:
  assumes "only (\<lambda>c. discovered_by c = [] \<and> (\<forall>f n. c = Recv f n \<longrightarrow> f \<noteq> udp)) w w'"
  shows "proj discovered_by (since w w') = []" "beacons ok name udp (since w w') = []"
proof -
  from onlyD(2) [OF assms] have l: "list_all ((\<lambda>c. discovered_by c = [] \<and> (\<forall>f n. c = Recv f n \<longrightarrow> f \<noteq> udp)) \<circ> fst) (since w w')" .
  then show "proj discovered_by (since w w') = []" by (intro proj_Nil) (auto simp: list.pred_set)
  from l have "beacon_of ok name udp e = []" if "e \<in> set (since w w')" for e
    using that by (cases e) (auto simp: list.pred_set beacon_of_def split: call.splits option.splits)
  then show "beacons ok name udp (since w w') = []" by (auto simp: beacons_def)
qed

lemma dc_talk_only:
  assumes "dc_talk name fd w = Some (r, w')" and "fd \<noteq> udp"
  shows "only (\<lambda>c. discovered_by c = [] \<and> (\<forall>f n. c = Recv f n \<longrightarrow> f \<noteq> udp)) w w'"
proof -
  have "keeps (\<lambda>c. discovered_by c = [] \<and> (\<forall>f n. c = Recv f n \<longrightarrow> f \<noteq> udp)) w (dc_talk name fd w)"
    unfolding dc_talk_def by (intro keeps_intros only_fd_reset) (use assms(2) in simp_all)
  from keepsD [OF this assms(1)] show ?thesis .
qed

text \<open>The part of a turn after the datagram is accepted as a beacon.\<close>

definition heeds :: "(string \<Rightarrow> bool) \<Rightarrow> string \<Rightarrow> int \<Rightarrow> string list \<Rightarrow> string list \<Rightarrow> (call \<times> answer option) list \<Rightarrow> bool" where
  "heeds ok name udp names names' t \<longleftrightarrow>
     (beacons ok name udp t = [] \<and> names' = names \<and> proj discovered_by t = [] \<or>
      (\<exists>n. beacons ok name udp t = [n] \<and>
        (n \<in> set names \<and> names' = names \<and> proj discovered_by t = [] \<or>
         n \<notin> set names \<and> names' = n # names \<and> proj discovered_by t = [n])))"

lemma dc_meet_quiet:
  assumes "dc_meet name tok port addr v = Some (r, v')" and "udp \<notin> set (opened (since v v'))"
  shows "later v v' \<and> proj discovered_by (since v v') = [tok ! 1] \<and> beacons ok name udp (since v v') = []"
proof -
  define u where "u = println Stdout [Txt ''discovered peer '', Txt (tok ! 1), Txt ('' at '' @ tok ! 3 @ '':'' @ show_int port)] v"
  from assms(1) obtain conn v1 where c: "dc_dial_tcp addr port u = Some (conn, v1)"
    by (auto simp: dc_meet_def Let_def u_def)
  have u: "later v u" "since v u = [(Print Stdout [Txt ''discovered peer '', Txt (tok ! 1), Txt ('' at '' @ tok ! 3 @ '':'' @ show_int port)], None)]"
    by (simp_all add: u_def)
  note d = dc_dial_spec [OF c]
  have "only (\<lambda>c. discovered_by c = [] \<and> (\<forall>f n. c = Recv f n \<longrightarrow> f \<noteq> udp)) u v1"
    using d(1) by (auto simp: only_def list.pred_set)
  then have q: "later u v1" "proj discovered_by (since u v1) = []" "beacons ok name udp (since u v1) = []"
    using onlyD(1) only_unheard by blast+
  have u1: "later v v1" "since v v1 = since v u @ since u v1" using later_trans [OF u(1) q(1)] since_trans [OF u(1) q(1)] .
  show ?thesis
  proof (cases conn)
    case (Inl e)
    with assms(1) c have "v' = println Stderr ([Txt (''chatterd: error: dial '' @ tok ! 1 @ '': '')] @ e) v1"
      by (simp add: dc_meet_def Let_def u_def)
    with u1 u(2) q show ?thesis by simp
  next
    case (Inr fd)
    with assms(1) c have t: "dc_talk name fd v1 = Some (r, v')" by (simp add: dc_meet_def Let_def u_def)
    have k: "later v1 v'" using dc_talk_only [OF t, of "fd + 1"] by (simp add: only_def)
    note s = since_trans [OF u1(1) k]
    have "fd \<noteq> udp" using d(2) [OF Inr] assms(2) by (auto simp: s u1(2))
    note o = dc_talk_only [OF t this]
    from later_trans [OF u1(1) k] u(2) q only_unheard [OF o] show ?thesis by (simp add: s u1(2))
  qed
qed

lemma dc_meet_later:
  assumes "dc_meet name tok port addr v = Some (u, v')"
  shows "later v v'"
proof -
  obtain udp :: int where "udp \<notin> set (opened (since v v'))" using ex_new_if_finite [OF infinite_UNIV_int finite_set] by blast
  from dc_meet_quiet [OF assms this] show ?thesis by blast
qed

lemma dc_consider_later:
  assumes "dc_consider name tok names v = Some (r, v')"
  shows "later v v'"
proof -
  from assms obtain ip v1 where ip: "dc_parse_ipv4 (tok ! 3) v = Some (ip, v1)" by (auto simp: dc_consider_def)
  then have l: "later v v1" by (auto simp: dc_parse_ipv4_def split: if_split_asm dest!: sys_SomeE(1))
  from assms ip have "v' = v1 \<or> (\<exists>port addr u. dc_meet name tok port addr v1 = Some (u, v'))"
    by (cases ip; cases "dc_parse_u16 (tok ! 2)"; cases "tok ! 1 \<in> set names") (auto simp: dc_consider_def dc_first_def)
  with l dc_meet_later show ?thesis by (blast intro: later_trans)
qed

text \<open>A beacon, where the addresses are those \<open>ok\<close> tells.\<close>

lemma dc_consider_spec:
  assumes "dc_consider name tok names v = Some (names', v')" and "resolves ok (since v v')" and "udp \<notin> set (opened (since v v'))"
  shows "later v v' \<and> beacons ok name udp (since v v') = [] \<and>
    (if dc_parse_u16 (tok ! 2) \<noteq> None \<and> ok (c_str (tok ! 3)) \<and> tok ! 1 \<notin> set names
     then names' = tok ! 1 # names \<and> proj discovered_by (since v v') = [tok ! 1]
     else names' = names \<and> proj discovered_by (since v v') = [])"
proof -
  let ?h = "c_str (tok ! 3)"
  from assms(1) obtain ip v1 where ip: "dc_parse_ipv4 (tok ! 3) v = Some (ip, v1)" by (auto simp: dc_consider_def)
  then obtain p where p: "sys (Inet_pton ?h) v = Some (p, v1)" and i: "rv p = 1 \<longrightarrow> ip = Inr ?h" "rv p \<noteq> 1 \<longrightarrow> (\<exists>e. ip = Inl e)"
    by (auto simp: dc_parse_ipv4_def split: if_split_asm)
  note q = sys_SomeE [OF p]
  show ?thesis
  proof (cases "dc_parse_u16 (tok ! 2) \<noteq> None \<and> rv p = 1 \<and> tok ! 1 \<notin> set names")
    case True
    then obtain port where port: "dc_parse_u16 (tok ! 2) = Some port" by auto
    from assms(1) ip i True port obtain r where m: "dc_meet name tok port ?h v1 = Some (r, v')" and n: "names' = tok ! 1 # names"
      by (auto simp: dc_consider_def dc_first_def)
    have l: "later v1 v'" using m by (rule dc_meet_later)
    note s = since_trans [OF q(1) l]
    from dc_meet_quiet [OF m, of udp ok] assms(3) have k: "proj discovered_by (since v1 v') = [tok ! 1]" "beacons ok name udp (since v1 v') = []"
      by (simp_all add: s)
    have "ok ?h" using assms(2) True q(2) by (simp add: s)
    with k q(2) l True n later_trans [OF q(1) l] show ?thesis by (simp add: s)
  next
    case False
    with assms(1) ip i have e: "v' = v1 \<and> names' = names"
      by (cases ip) (auto simp: dc_consider_def dc_first_def split: option.split_asm if_split_asm)
    with assms(2) q(2) have "rv p = 1 \<longleftrightarrow> ok ?h" by simp
    with False e q show ?thesis by auto
  qed
qed

lemma dc_receive_turn_heeds:
  assumes "dc_receive_turn name udp names v = Some (ctl, v')" and "resolves ok (since v v')" and "udp \<notin> set (opened (since v v'))"
  shows "later v v' \<and> (case ctl of Break _ \<Rightarrow> beacons ok name udp (since v v') = [] \<and> proj discovered_by (since v v') = []
     | Continue names' \<Rightarrow> heeds ok name udp names names' (since v v'))"
proof -
  from assms(1) obtain a v1 where a: "sys (Load_flag ''receiver.stop'') v = Some (a, v1)"
    by (auto simp: dc_receive_turn_def)
  have l: "later v v1" "since v v1 = [(Load_flag ''receiver.stop'', Some a)]" using sys_SomeE [OF a] by simp_all
  show ?thesis
  proof (cases "rv a = 0")
    case False
    with assms(1) a l show ?thesis by (auto simp: dc_receive_turn_def)
  next
    case True
    with assms(1) a obtain n v2 where n: "sys (Recv udp 2047) v1 = Some (n, v2)" by (auto simp: dc_receive_turn_def)
    note l2 = sys_after [OF l(1) n]
    define tok where "tok = dc_tokens 4 (chars_of (filled n))"
    show ?thesis
    proof (cases "rv n \<le> 0 \<or> List.length tok \<noteq> 4 \<or> tok ! 0 \<noteq> ''CHATTERD1'' \<or> tok ! 1 = name")
      case quiet: True
      with assms(1) a n True have e: "ctl = Continue names \<and> v' = v2"
        by (simp add: dc_receive_turn_def tok_def [symmetric])
      from quiet have "rv n \<le> 0 \<or> dc_hears ok name (chars_of (filled n)) = None"
        by (auto simp: dc_hears_def Let_def tok_def [symmetric])
      with e l l2 show ?thesis by (auto simp: heeds_def beacon_of_def)
    next
      case False
      with assms(1) a n True obtain names' where c: "dc_consider name tok names v2 = Some (names', v')" and e: "ctl = Continue names'"
        by (auto simp: dc_receive_turn_def tok_def [symmetric])
      have l3: "later v2 v'"
        using c by (rule dc_consider_later)
      note s = since_trans [OF l2(1) l3]
      from dc_consider_spec [OF c, of ok udp] assms(2,3) have k: "beacons ok name udp (since v2 v') = []"
        "if dc_parse_u16 (tok ! 2) \<noteq> None \<and> ok (c_str (tok ! 3)) \<and> tok ! 1 \<notin> set names
         then names' = tok ! 1 # names \<and> proj discovered_by (since v2 v') = [tok ! 1]
         else names' = names \<and> proj discovered_by (since v2 v') = []" by (simp_all add: s)
      have "dc_hears ok name (chars_of (filled n)) = (if dc_parse_u16 (tok ! 2) \<noteq> None \<and> ok (c_str (tok ! 3)) then Some (tok ! 1) else None)"
        using False by (simp add: dc_hears_def Let_def tok_def [symmetric])
      with k False l l2 e later_trans [OF l2(1) l3] show ?thesis by (auto simp: s heeds_def beacon_of_def split: if_split_asm)
    qed
  qed
qed

lemma remdups_rev_snoc: "remdups (rev (xs @ [n])) = (if n \<in> set xs then remdups (rev xs) else n # remdups (rev xs))"
  by simp

lemma dc_receive_turn_later:
  assumes "dc_receive_turn name udp names v = Some (ctl, v')"
  shows "later v v'"
proof -
  from assms obtain a v1 where a: "sys (Load_flag ''receiver.stop'') v = Some (a, v1)"
    by (auto simp: dc_receive_turn_def)
  note l = sys_SomeE(1) [OF a]
  show ?thesis
  proof (cases "rv a = 0")
    case False
    with assms a l show ?thesis by (simp add: dc_receive_turn_def)
  next
    case True
    with assms a obtain n v2 where n: "sys (Recv udp 2047) v1 = Some (n, v2)" by (auto simp: dc_receive_turn_def)
    note l2 = sys_after(1) [OF l n]
    let ?tok = "dc_tokens 4 (chars_of (filled n))"
    from assms a n True consider "v' = v2" | r where "dc_consider name ?tok names v2 = Some (r, v')"
      by (auto simp: dc_receive_turn_def Let_def split: if_split_asm)
    then show ?thesis by cases (use l2 in \<open>auto intro: later_trans dest: dc_consider_later\<close>)
  qed
qed

text \<open>The names the receiver keeps are those it heard, newest first, and it has printed each once.\<close>

definition caught_up :: "(string \<Rightarrow> bool) \<Rightarrow> string \<Rightarrow> int \<Rightarrow> world \<Rightarrow> string list \<Rightarrow> world \<Rightarrow> bool" where
  "caught_up ok name udp w names v \<longleftrightarrow> later w v \<and> (resolves ok (since w v) \<longrightarrow> udp \<notin> set (opened (since w v)) \<longrightarrow>
     names = remdups (rev (beacons ok name udp (since w v))) \<and> rev names = proj discovered_by (since w v))"

lemma caught_up_turn:
  assumes "caught_up ok name udp w names v" and "dc_receive_turn name udp names v = Some (Continue names', v')"
  shows "caught_up ok name udp w names' v'"
proof -
  have l: "later v v'" using assms(2) by (rule dc_receive_turn_later)
  from assms(1) have w: "later w v" by (simp add: caught_up_def)
  note s = since_trans [OF w l]
  have "names' = remdups (rev (beacons ok name udp (since w v'))) \<and> rev names' = proj discovered_by (since w v')"
    if "resolves ok (since w v')" "udp \<notin> set (opened (since w v'))"
  proof -
    from that have t: "resolves ok (since v v')" "udp \<notin> set (opened (since v v'))"
      and u: "resolves ok (since w v)" "udp \<notin> set (opened (since w v))" by (simp_all add: s)
    from assms(1) u have i: "names = remdups (rev (beacons ok name udp (since w v)))" "rev names = proj discovered_by (since w v)"
      unfolding caught_up_def by blast+
    from dc_receive_turn_heeds [OF assms(2) t] have "heeds ok name udp names names' (since v v')" by simp
    with i show ?thesis by (auto simp: heeds_def s)
  qed
  with later_trans [OF w l] show ?thesis unfolding caught_up_def by blast
qed

section \<open>Properties\<close>

text \<open>The beacon carries its fields: cut into tokens it is the tag, the name, the port and the address exactly
  when the name has no space. A peer whose name has one is never discovered under it.\<close>

lemma discover_beacon:
  assumes "1 \<le> dc_tcp_port c" and "dc_tcp_port c \<le> 65535" and "CHR '' '' \<notin> set (dc_iface c)" and "dc_iface c \<noteq> []"
  shows "(dc_tokens 4 (dc_beacon c) = [''CHATTERD1'', dc_name c, show_int (dc_tcp_port c), dc_iface c] \<longleftrightarrow> CHR '' '' \<notin> set (dc_name c))
    \<and> dc_parse_u16 (show_int (dc_tcp_port c)) = Some (dc_tcp_port c)"
proof -
  have p: "show_int (dc_tcp_port c) = show_nat (nat (dc_tcp_port c))" using assms(1) by (simp add: show_int_def)
  have "dc_tokens 4 (dc_beacon c) = [''CHATTERD1'', dc_name c, show_int (dc_tcp_port c), dc_iface c]" if n: "CHR '' '' \<notin> set (dc_name c)"
  proof -
    have e: "dc_beacon c = ''CHATTERD1'' @ CHR '' '' # (dc_name c @ CHR '' '' # (show_nat (nat (dc_tcp_port c)) @ CHR '' '' # dc_iface c))"
      by (simp add: dc_beacon_def p)
    have "dc_tokens (Suc (Suc (Suc (Suc 0)))) (dc_beacon c) = [''CHATTERD1'', dc_name c, show_int (dc_tcp_port c), dc_iface c]"
      unfolding e p using n assms(3,4) show_nat_no_space
      by (subst dc_tokens_field, simp, subst dc_tokens_field, simp, subst dc_tokens_field, simp, subst dc_tokens_last) simp_all
    moreover have "4 = Suc (Suc (Suc (Suc 0)))" by simp
    ultimately show ?thesis by (simp only:)
  qed
  moreover have "CHR '' '' \<notin> set (dc_name c)" if "dc_tokens 4 (dc_beacon c) = [''CHATTERD1'', dc_name c, show_int (dc_tcp_port c), dc_iface c]"
    by (rule dc_tokens_no_space [of _ 4 "dc_beacon c"]) (simp add: that)
  ultimately show ?thesis using dc_parse_u16_show [OF assms(1,2)] by blast
qed

text \<open>C27: A peer is discovered, and dialled, at the first of its beacons that is heard, and only then: what is printed
  is the names of the beacons received, its own left out, each at its first occurrence. So a peer that
  could not be reached then is never tried again.\<close>

theorem discover_once:
  assumes "loop (dc_receive_turn name udp) [] w = Some ((), w')" and "resolves ok (since w w')" and "udp \<notin> set (opened (since w w'))"
  shows "proj discovered_by (since w w') = rev (remdups (rev (beacons ok name udp (since w w'))))"
proof -
  have "resolves ok (since w w') \<longrightarrow> udp \<notin> set (opened (since w w')) \<longrightarrow>
      proj discovered_by (since w w') = rev (remdups (rev (beacons ok name udp (since w w'))))"
    using assms(1)
  proof (rule loop_rule [where I = "caught_up ok name udp w"], goal_cases)
    case 1
    show ?case by (simp add: caught_up_def)
  next
    case (2 names v names' v')
    then show ?case by (rule caught_up_turn)
  next
    case (3 names v r v')
    from dc_receive_turn_later [OF 3(2)] have l: "later v v'" .
    from 3(1) have w: "later w v" by (simp add: caught_up_def)
    note s = since_trans [OF w l]
    show ?case
    proof (intro impI)
      assume a: "resolves ok (since w v')" "udp \<notin> set (opened (since w v'))"
      then have "resolves ok (since v v')" "udp \<notin> set (opened (since v v'))" by (simp_all add: s)
      from dc_receive_turn_heeds [OF 3(2) this] 3(1) a
      show "proj discovered_by (since w v') = rev (remdups (rev (beacons ok name udp (since w v'))))"
        by (auto simp: s caught_up_def)
    qed
  qed
  with assms(2,3) show ?thesis by simp
qed

text \<open>The same beacon twice; the peer closes the connection at once.\<close>

abbreviation beacon_script :: "answer list" where
  "beacon_script \<equiv> [returned 0, gave (bytes_of ''CHATTERD1 alice 9101 127.0.0.1''), returned 1, returned 7, returned 0, returned 6, returned 3, returned 0,
     returned 0, gave (bytes_of ''CHATTERD1 alice 9101 127.0.0.1''), returned 1, returned 1]"

lemmas dc_eval = dc_receive_turn_def dc_consider_def dc_parse_ipv4_def dc_first_def dc_meet_def dc_talk_def dc_answer_def dc_write_frame_def dc_write_all_def
  dc_write_turn_def dc_read_frame_def dc_read_all_def dc_read_turn_def dc_dial_tcp_def dc_dial_turn_def dc_header_def be16_eval fd_reset_def c_str_def
  dc_parse_u16_def from_chars_int_def decimal_def digit_value_def is_digit_def be16_value_eq

lemma beacon_tokens: "dc_tokens 4 ''CHATTERD1 alice 9101 127.0.0.1'' = [''CHATTERD1'', ''alice'', ''9101'', ''127.0.0.1'']"
  by (simp add: numeral_eq_Suc)

lemma beacon_run:
  "\<exists>w'. loop (dc_receive_turn ''bob'' 4) [] (answering beacon_script) = Some ((), w') \<and> resolves (\<lambda>_. True) (since (answering beacon_script) w') \<and>
     4 \<notin> set (opened (since (answering beacon_script) w')) \<and> beacons (\<lambda>_. True) ''bob'' 4 (since (answering beacon_script) w') = [''alice'', ''alice'']"
  by (simp add: loop.simps io_defs dc_eval beacon_tokens since_def dc_hears_def resolves_def beacon_of_def)

theorem discover_once_witness:
  "\<exists>w'. loop (dc_receive_turn ''bob'' 4) [] (answering beacon_script) = Some ((), w') \<and>
     proj discovered_by (since (answering beacon_script) w') = [''alice'']"
proof -
  from beacon_run obtain w' where w: "loop (dc_receive_turn ''bob'' 4) [] (answering beacon_script) = Some ((), w')"
    "resolves (\<lambda>_. True) (since (answering beacon_script) w')" "4 \<notin> set (opened (since (answering beacon_script) w'))"
    "beacons (\<lambda>_. True) ''bob'' 4 (since (answering beacon_script) w') = [''alice'', ''alice'']" by blast
  from discover_once [OF w(1-3)] w(1,4) show ?thesis by simp
qed

text \<open>C28: The two ends of a greeting fit together, whatever pieces the network makes of the frames: what the dialler
  reports is the answering peer's name and its greeting, and the peer answers only a whole JOIN
  frame with the dialler's name.\<close>

theorem discover_greeting:
  assumes "dc_talk me fd w = Some ((), w')" and "honest (since w w')" and "dc_answer peer cfd v = Some ((), v')" and "honest (since v v')"
    and "prefix (received fd (since w w')) (accepted cfd (since v v'))" and "prefix (received cfd (since v v')) (accepted fd (since w w'))"
    and "CHR 0x00 \<notin> set peer" and "List.length me \<le> 0xFFFF"
  shows "proj says_by (since w w') \<in> {[], [(peer, ''hello from '' @ peer)]} \<and>
    (accepted cfd (since v v') \<noteq> [] \<longrightarrow> received cfd (since v v') = dc_frame 1 (bytes_of me))"
proof
  note t = dc_talk_spec [OF assms(1,2)] and a = dc_answer_spec [OF assms(3,4)]
  show "proj says_by (since w w') \<in> {[], [(peer, ''hello from '' @ peer)]}"
  proof (cases "proj says_by (since w w') = []")
    case False
    with t(2) obtain u p where f: "received fd (since w w') = dc_frame u p" "List.length p \<le> 0xFFFF"
      "proj says_by (since w w') = [dc_split_nul (chars_of p)]" by blast
    with assms(5) have "accepted cfd (since v v') \<noteq> []" by auto
    with a(2) have l: "List.length (dc_greeting peer) \<le> 0xFFFF" by blast
    have "prefix (dc_frame u p) (dc_frame 3 (bytes_of (dc_greeting peer)))"
      using assms(5) a(1) unfolding f(1) by (rule prefix_order.trans)
    from dc_frame_prefix [OF this f(2)] l have "p = bytes_of (dc_greeting peer)" by simp
    with f(3) show ?thesis using dc_split_greeting [OF assms(7)] by simp
  qed simp
  show "accepted cfd (since v v') \<noteq> [] \<longrightarrow> received cfd (since v v') = dc_frame 1 (bytes_of me)"
  proof
    assume "accepted cfd (since v v') \<noteq> []"
    with a(2) obtain u p where f: "received cfd (since v v') = dc_frame u p" "List.length p \<le> 0xFFFF" by blast
    have "prefix (dc_frame u p) (dc_frame 1 (bytes_of me))"
      using assms(6) t(1) unfolding f(1) by (rule prefix_order.trans)
    from dc_frame_prefix [OF this f(2)] assms(8) f(1) show "received cfd (since v v') = dc_frame 1 (bytes_of me)" by simp
  qed
qed

abbreviation talk_script :: "answer list" where
  "talk_script \<equiv> [returned 6, returned 1, gave [67, 72, 1, 3, 0, 14], gave (bytes_of (dc_greeting ''a''))]"

abbreviation answer_script :: "answer list" where
  "answer_script \<equiv> [gave [67, 72, 1, 1, 0, 1], gave (bytes_of ''b''), returned 6, returned 14]"

lemma greeting_runs:
  "\<exists>w'. dc_talk ''b'' 7 (answering talk_script) = Some ((), w') \<and> honest (since (answering talk_script) w') \<and>
     accepted 7 (since (answering talk_script) w') = [67, 72, 1, 1, 0, 1] @ bytes_of ''b'' \<and>
     received 7 (since (answering talk_script) w') = [67, 72, 1, 3, 0, 14] @ bytes_of (dc_greeting ''a'')"
  "\<exists>w'. dc_answer ''a'' 5 (answering answer_script) = Some ((), w') \<and> honest (since (answering answer_script) w') \<and>
     accepted 5 (since (answering answer_script) w') = [67, 72, 1, 3, 0, 14] @ bytes_of (dc_greeting ''a'') \<and>
     received 5 (since (answering answer_script) w') = [67, 72, 1, 1, 0, 1] @ bytes_of ''b''"
  by (simp_all add: loop.simps io_defs dc_eval since_def dc_greeting_def dc_split_nul_def)

theorem discover_greeting_witness:
  "\<exists>w'. dc_talk ''b'' 7 (answering talk_script) = Some ((), w') \<and>
     proj says_by (since (answering talk_script) w') \<in> {[], [(''a'', ''hello from a'')]}"
proof -
  from greeting_runs obtain w' v' where w: "dc_talk ''b'' 7 (answering talk_script) = Some ((), w')" "honest (since (answering talk_script) w')"
      "accepted 7 (since (answering talk_script) w') = [67, 72, 1, 1, 0, 1] @ bytes_of ''b''"
      "received 7 (since (answering talk_script) w') = [67, 72, 1, 3, 0, 14] @ bytes_of (dc_greeting ''a'')"
    and v: "dc_answer ''a'' 5 (answering answer_script) = Some ((), v')" "honest (since (answering answer_script) v')"
      "accepted 5 (since (answering answer_script) v') = [67, 72, 1, 3, 0, 14] @ bytes_of (dc_greeting ''a'')"
      "received 5 (since (answering answer_script) v') = [67, 72, 1, 1, 0, 1] @ bytes_of ''b''" by metis
  have "proj says_by (since (answering talk_script) w') \<in> {[], [(''a'', ''hello from '' @ ''a'')]} \<and>
    (accepted 5 (since (answering answer_script) v') \<noteq> [] \<longrightarrow> received 5 (since (answering answer_script) v') = dc_frame 1 (bytes_of ''b''))"
    by (rule discover_greeting [OF w(1,2) v(1,2)]) (simp_all only: w v prefix_order.refl, simp_all)
  with w(1) show ?thesis by simp
qed

end
