(* ===== verification/Pipes.thy ===== *)
theory Pipes
  imports Streams Chatterd
begin

text \<open>
  The supervisor as a lfd pipeline, \<open>main.cpp\<close> of \<open>examples/18-pipes-fifos-splice\<close>: spawning and waiting,
  the capture of the child's two output streams into tagged lines, the poll loop of the two engines,
  the restart policy, the relay of the log into a FIFO, and the command line. \<open>PipesProps\<close> has the
  theorems.
\<close>

abbreviation kChunk :: nat where "kChunk \<equiv> 65536"
abbreviation EPIPE :: int where "EPIPE \<equiv> 32"
abbreviation SIGINT :: int where "SIGINT \<equiv> 2"
abbreviation SIGPIPE :: int where "SIGPIPE \<equiv> 13"
abbreviation SIGTERM :: int where "SIGTERM \<equiv> 15"
abbreviation SIGCHLD :: int where "SIGCHLD \<equiv> 17"

section \<open>Children\<close>

definition spawn_child :: "string list \<Rightarrow> int \<Rightarrow> int \<Rightarrow> world \<Rightarrow> ((error_code + int) \<times> world) option" where
  "spawn_child cmd out err w = do {
     (a, w) \<leftarrow> sys (Pipe (Pc_spawnp cmd out err)) w;
     if rv a < 0 then Some (Inl (System_error (eno a)), w) else Some (Inr (rv a), w) }"

record child_status =
  cs_exited :: bool
  cs_value :: int

text \<open>\<open>CLD_EXITED\<close> is 1.\<close>

definition status_from :: "answer \<Rightarrow> child_status" where
  "status_from a = \<lparr>cs_exited = (revents 0 a = 1), cs_value = sint (revents 1 a)\<rparr>"

definition si_pid :: "answer \<Rightarrow> int" where
  "si_pid a = sint (revents 2 a)"

definition exit_line :: "int \<Rightarrow> child_status \<Rightarrow> string" where
  "exit_line pid st = (if cs_exited st then ''pmon: child='' @ show_int pid @ '' exited status='' @ show_int (cs_value st)
     else ''pmon: child='' @ show_int pid @ '' killed signal='' @ show_int (cs_value st))"

definition mirrored :: "child_status \<Rightarrow> int" where
  "mirrored st = (if cs_exited st then cs_value st else 128 + cs_value st)"

definition report_exit :: "int \<Rightarrow> child_status \<Rightarrow> world \<Rightarrow> int \<times> world" where
  "report_exit pid st w = (mirrored st, emit (Fflush Stdout) (println Stdout [Txt (exit_line pid st)] w))"

definition make_signalfd :: "int list \<Rightarrow> world \<Rightarrow> ((error_code + int) \<times> world) option" where
  "make_signalfd sigs w = do {
     (b, w) \<leftarrow> sys (Pipe (Pc_block sigs)) w;
     if rv b \<noteq> 0 then Some (Inl (System_error (eno b)), w)
     else do {
       (s, w) \<leftarrow> sys (Pipe (Pc_signalfd sigs)) w;
       if rv s < 0 then Some (Inl (System_error (eno s)), w) else Some (Inr (rv s), w) } }"

text \<open>The loop around \<open>waitid\<close> that retries after a signal, as three functions have it.\<close>

definition waitid_turn :: "call \<Rightarrow> unit \<Rightarrow> world \<Rightarrow> ((unit, error_code + child_status) ctl \<times> world) option" where
  "waitid_turn c _ w = do {
     (a, w) \<leftarrow> sys c w;
     if rv a \<noteq> 0 then
       if eno a \<noteq> EINTR then Some (Break (Inl (System_error (eno a))), w) else Some (Continue (), w)
     else Some (Break (Inr (status_from a)), w) }"

definition reap_pidfd :: "int \<Rightarrow> world \<Rightarrow> ((error_code + child_status) \<times> world) option" where
  "reap_pidfd pidfd = loop (waitid_turn (Pipe (Pc_waitid_pidfd pidfd))) ()"

definition cmd_run :: "string list \<Rightarrow> world \<Rightarrow> (int \<times> world) option" where
  "cmd_run cmd w = do {
     (c, w) \<leftarrow> spawn_child cmd (-1) (-1) w;
     (case c of
       Inl e \<Rightarrow> Some (1, println Stderr [Txt (''pmon: spawn: '' @ cmd ! 0 @ '': ''), ErrorCode e] w)
     | Inr pid \<Rightarrow> do {
         let w = println Stderr [Txt (''pmon: run child='' @ show_int pid)] w;
         (st, w) \<leftarrow> loop (waitid_turn (Pipe (Pc_waitid pid False))) () w;
         (case st of
           Inl e \<Rightarrow> Some (1, println Stderr [Txt ''pmon: waitid: '', ErrorCode e] w)
         | Inr st \<Rightarrow> Some (report_exit pid st w)) }) }"

section \<open>The capture\<close>

text \<open>\<open>LineRelay\<close>; the descriptor of the log is an argument of its operations.\<close>

record line_relay =
  lr_pfx :: string
  lr_buf :: string

definition log_line :: "string \<Rightarrow> string \<Rightarrow> string" where
  "log_line pfx line = ''['' @ pfx @ ''] '' @ line @ [CHR 0x0A]"

definition relay_emit_turn :: "int \<Rightarrow> byte list \<Rightarrow> world \<Rightarrow> ((byte list, error_code + unit) ctl \<times> world) option" where
  "relay_emit_turn lfd left w =
     (if left \<noteq> [] then do {
        (n, w) \<leftarrow> sys (Write lfd left) w;
        if rv n < 0 then
          if eno n = EINTR then Some (Continue left, w)
          else Some (Break (Inl (System_error (eno n))), w)
        else Some (Continue (drop (nat (rv n)) left), w) }
      else Some (Break (Inr ()), w))"

definition relay_write :: "int \<Rightarrow> byte list \<Rightarrow> world \<Rightarrow> ((error_code + unit) \<times> world) option" where
  "relay_write lfd = loop (relay_emit_turn lfd)"

definition relay_emit :: "string \<Rightarrow> int \<Rightarrow> string \<Rightarrow> world \<Rightarrow> ((error_code + unit) \<times> world) option" where
  "relay_emit pfx lfd line = relay_write lfd (bytes_of (log_line pfx line))"

text \<open>The complete lines of the buffer; the result is what follows the last of them.\<close>

function feed_lines :: "string \<Rightarrow> int \<Rightarrow> string \<Rightarrow> world \<Rightarrow> ((error_code + string) \<times> world) option" where
  "feed_lines pfx lfd s w = (case find_from (CHR 0x0A) s of
     None \<Rightarrow> Some (Inr s, w)
   | Some nl \<Rightarrow> io_try (relay_emit pfx lfd (take nl s) w) (\<lambda>_ w. feed_lines pfx lfd (drop (nl + 1) s) w))"
  by pat_completeness auto
termination
  by (relation "measure (\<lambda>(pfx, lfd, s, w). List.length s)") (auto dest: find_from_Some)

declare feed_lines.simps [simp del]

text \<open>After an error the buffer still holds the lines already written.\<close>

definition relay_feed :: "int \<Rightarrow> line_relay \<Rightarrow> string \<Rightarrow> world \<Rightarrow> (((error_code + unit) \<times> line_relay) \<times> world) option" where
  "relay_feed lfd r chunk w = do {
     let buf = lr_buf r @ chunk;
     (l, w) \<leftarrow> feed_lines (lr_pfx r) lfd buf w;
     (case l of
       Inl e \<Rightarrow> Some ((Inl e, r\<lparr>lr_buf := buf\<rparr>), w)
     | Inr left \<Rightarrow>
         if List.length left > kChunk then do {
           (x, w) \<leftarrow> relay_emit (lr_pfx r) lfd left w;
           Some ((x, r\<lparr>lr_buf := []\<rparr>), w) }
         else Some ((Inr (), r\<lparr>lr_buf := left\<rparr>), w)) }"

definition relay_flush :: "int \<Rightarrow> line_relay \<Rightarrow> world \<Rightarrow> (((error_code + unit) \<times> line_relay) \<times> world) option" where
  "relay_flush lfd r w =
     (if lr_buf r = [] then Some ((Inr (), r), w)
      else do {
        (x, w) \<leftarrow> relay_emit (lr_pfx r) lfd (lr_buf r) w;
        Some ((x, r\<lparr>lr_buf := []\<rparr>), w) })"

text \<open>One stream of a \<open>Capture\<close>: \<open>out_r\<close>, \<open>out_relay\<close>, \<open>out_open\<close>, and the same of the other.\<close>

record pipe_end =
  pe_fd :: int
  pe_relay :: line_relay
  pe_open :: bool

record capture =
  cap_out :: pipe_end
  cap_err :: pipe_end

definition new_capture :: "int \<Rightarrow> int \<Rightarrow> capture" where
  "new_capture out_r err_r =
     \<lparr>cap_out = \<lparr>pe_fd = out_r, pe_relay = \<lparr>lr_pfx = ''out'', lr_buf = []\<rparr>, pe_open = True\<rparr>,
      cap_err = \<lparr>pe_fd = err_r, pe_relay = \<lparr>lr_pfx = ''err'', lr_buf = []\<rparr>, pe_open = True\<rparr>\<rparr>"

definition close_capture :: "capture \<Rightarrow> world \<Rightarrow> world" where
  "close_capture cap w = fd_reset (pe_fd (cap_out cap)) (fd_reset (pe_fd (cap_err cap)) w)"

definition drain_once :: "int \<Rightarrow> pipe_end \<Rightarrow> world \<Rightarrow> (((error_code + unit) \<times> pipe_end) \<times> world) option" where
  "drain_once lfd p w = do {
     (n, w) \<leftarrow> sys (Read (pe_fd p) kChunk) w;
     if rv n < 0 then
       if eno n = EINTR \<or> eno n = EAGAIN then Some ((Inr (), p), w)
       else Some ((Inl (System_error (eno n)), p), w)
     else if rv n = 0 then do {
       let w = fd_reset (pe_fd p) w;
       ((x, r), w) \<leftarrow> relay_flush lfd (pe_relay p) w;
       Some ((x, \<lparr>pe_fd = -1, pe_relay = r, pe_open = False\<rparr>), w) }
     else do {
       ((x, r), w) \<leftarrow> relay_feed lfd (pe_relay p) (chars_of (filled n)) w;
       Some ((x, p\<lparr>pe_relay := r\<rparr>), w) } }"

definition drain_turn :: "int \<Rightarrow> pipe_end \<Rightarrow> world \<Rightarrow> ((pipe_end, (error_code + unit) \<times> pipe_end) ctl \<times> world) option" where
  "drain_turn lfd p w =
     (if pe_open p then do {
        ((x, p), w) \<leftarrow> drain_once lfd p w;
        (case x of Inl e \<Rightarrow> Some (Break (Inl e, p), w) | Inr _ \<Rightarrow> Some (Continue p, w)) }
      else Some (Break (Inr (), p), w))"

definition drain_to_eof :: "int \<Rightarrow> capture \<Rightarrow> world \<Rightarrow> (((error_code + unit) \<times> capture) \<times> world) option" where
  "drain_to_eof lfd cap w = do {
     ((x, p), w) \<leftarrow> loop (drain_turn lfd) (cap_out cap) w;
     (case x of
       Inl e \<Rightarrow> Some ((Inl e, cap\<lparr>cap_out := p\<rparr>), w)
     | Inr _ \<Rightarrow> do {
         ((y, q), w) \<leftarrow> loop (drain_turn lfd) (cap_err cap) w;
         Some ((y, cap\<lparr>cap_out := p, cap_err := q\<rparr>), w) }) }"

section \<open>Waiting for the child\<close>

datatype engine = Engine_pidfd | Engine_sigchld
datatype stop = Stop_signal | Stop_timeout
datatype wait_outcome = Exit_seen child_status | Stopped stop

text \<open>Times are nanoseconds of the steady clock; \<open>duration_cast\<close> rounds towards zero.\<close>

definition remaining_ms :: "int \<Rightarrow> int \<Rightarrow> int" where
  "remaining_ms deadline now = (let left = (deadline - now) sdiv 1000000
     in if left < 0 then 0 else sint (word_of_int left :: 32 word))"

definition wait_fds :: "engine \<Rightarrow> int \<Rightarrow> int \<Rightarrow> capture \<Rightarrow> (int \<times> u32) list" where
  "wait_fds eng pidfd sigfd cap =
     [(sigfd, POLLIN),
      (if pe_open (cap_out cap) then pe_fd (cap_out cap) else -1, POLLIN),
      (if pe_open (cap_err cap) then pe_fd (cap_err cap) else -1, POLLIN),
      (if eng = Engine_pidfd then pidfd else -1, POLLIN)]"

definition wait_pipe :: "nat \<Rightarrow> answer \<Rightarrow> int \<Rightarrow> pipe_end \<Rightarrow> world \<Rightarrow> (((error_code + unit) \<times> pipe_end) \<times> world) option" where
  "wait_pipe i n lfd p w = (if revents i n \<noteq> 0 then drain_once lfd p w else Some ((Inr (), p), w))"

text \<open>\<open>info.ssi_signo\<close>, the first four bytes of the structure, zero where the read left them alone.\<close>

definition ssi_signo :: "answer \<Rightarrow> int" where
  "ssi_signo a = (let bs = filled a @ replicate 4 0
     in int (unat (bs ! 0) + 256 * unat (bs ! 1) + 65536 * unat (bs ! 2) + 16777216 * unat (bs ! 3)))"

definition wait_signal :: "int \<Rightarrow> int \<Rightarrow> answer \<Rightarrow> world \<Rightarrow> ((error_code + wait_outcome option) \<times> world) option" where
  "wait_signal pid sigfd n w =
     (if revents 0 n AND POLLIN \<noteq> 0 then do {
        (r, w) \<leftarrow> sys (Read sigfd 128) w;
        if ssi_signo r \<noteq> SIGCHLD then Some (Inr (Some (Stopped Stop_signal)), w)
        else do {
          (a, w) \<leftarrow> sys (Pipe (Pc_waitid pid True)) w;
          if rv a \<noteq> 0 then Some (Inl (System_error (eno a)), w)
          else if si_pid a = pid then Some (Inr (Some (Exit_seen (status_from a))), w)
          else Some (Inr None, w) } }
      else Some (Inr None, w))"

definition wait_pidfd :: "engine \<Rightarrow> int \<Rightarrow> answer \<Rightarrow> world \<Rightarrow> ((error_code + wait_outcome option) \<times> world) option" where
  "wait_pidfd eng pidfd n w =
     (if eng = Engine_pidfd \<and> revents 3 n \<noteq> 0 then
        io_try (reap_pidfd pidfd w) (\<lambda>st w. Some (Inr (Some (Exit_seen st)), w))
      else Some (Inr None, w))"

text \<open>The descriptors that are ready, in the order the code looks at them.\<close>

definition wait_ready :: "engine \<Rightarrow> int \<Rightarrow> int \<Rightarrow> int \<Rightarrow> int \<Rightarrow> answer \<Rightarrow> capture \<Rightarrow> world \<Rightarrow>
    (((error_code + wait_outcome option) \<times> capture) \<times> world) option" where
  "wait_ready eng pid pidfd sigfd lfd n cap w = do {
     ((x, p), w) \<leftarrow> wait_pipe 1 n lfd (cap_out cap) w;
     let cap = cap\<lparr>cap_out := p\<rparr>;
     (case x of Inl e \<Rightarrow> Some ((Inl e, cap), w) | Inr _ \<Rightarrow> do {
       ((y, q), w) \<leftarrow> wait_pipe 2 n lfd (cap_err cap) w;
       let cap = cap\<lparr>cap_err := q\<rparr>;
       (case y of Inl e \<Rightarrow> Some ((Inl e, cap), w) | Inr _ \<Rightarrow> do {
         (s, w) \<leftarrow> wait_signal pid sigfd n w;
         (case s of
           Inr None \<Rightarrow> do { (f, w) \<leftarrow> wait_pidfd eng pidfd n w; Some ((f, cap), w) }
         | _ \<Rightarrow> Some ((s, cap), w)) }) }) }"

definition wait_turn :: "engine \<Rightarrow> int \<Rightarrow> int \<Rightarrow> int \<Rightarrow> int \<Rightarrow> int \<Rightarrow> capture \<Rightarrow> world \<Rightarrow>
    ((capture, (error_code + wait_outcome) \<times> capture) ctl \<times> world) option" where
  "wait_turn eng pid pidfd sigfd deadline lfd cap w = do {
     (now, w) \<leftarrow> sys Clock_ns w;
     (n, w) \<leftarrow> sys (Poll (wait_fds eng pidfd sigfd cap) (remaining_ms deadline (rv now))) w;
     if rv n < 0 then
       if eno n = EINTR then Some (Continue cap, w)
       else Some (Break (Inl (System_error (eno n)), cap), w)
     else if rv n = 0 then Some (Break (Inr (Stopped Stop_timeout), cap), w)
     else do {
       ((x, cap), w) \<leftarrow> wait_ready eng pid pidfd sigfd lfd n cap w;
       (case x of
         Inl e \<Rightarrow> Some (Break (Inl e, cap), w)
       | Inr None \<Rightarrow> Some (Continue cap, w)
       | Inr (Some oc) \<Rightarrow> Some (Break (Inr oc, cap), w)) } }"

definition wait_child :: "engine \<Rightarrow> int \<Rightarrow> int \<Rightarrow> int \<Rightarrow> int \<Rightarrow> int \<Rightarrow> capture \<Rightarrow> world \<Rightarrow>
    (((error_code + wait_outcome) \<times> capture) \<times> world) option" where
  "wait_child eng pid pidfd sigfd deadline lfd = loop (wait_turn eng pid pidfd sigfd deadline lfd)"

definition term_and_reap :: "engine \<Rightarrow> int \<Rightarrow> int \<Rightarrow> world \<Rightarrow> ((error_code + child_status) \<times> world) option" where
  "term_and_reap eng pid pidfd w =
     (if eng = Engine_pidfd then reap_pidfd pidfd (emit (Pipe (Pc_pidfd_signal pidfd SIGTERM)) w)
      else loop (waitid_turn (Pipe (Pc_waitid pid False))) () (emit (Proc (Proc_kill pid SIGTERM)) w))"

section \<open>Supervision\<close>

text \<open>The pipes, the child and its pidfd (-1 without one), or the exit status.\<close>

definition fd_in :: "nat \<Rightarrow> answer \<Rightarrow> int" where
  "fd_in i a = sint (revents i a)"

definition sup_pidfd :: "engine \<Rightarrow> int \<Rightarrow> capture \<Rightarrow> world \<Rightarrow> ((int + int \<times> int \<times> capture) \<times> world) option" where
  "sup_pidfd eng pid cap w =
     (if eng = Engine_pidfd then do {
        (f, w) \<leftarrow> sys (Pipe (Pc_pidfd_open pid)) w;
        if rv f < 0 then
          Some (Inl 1, close_capture cap (println Stderr [Txt ''pmon: pidfd_open: '', ErrorCode (System_error (eno f))] w))
        else Some (Inr (pid, rv f, cap),
          println Stderr [Txt (''pmon: engine=pidfd child='' @ show_int pid @ '' pidfd='' @ show_int (rv f))] w) }
      else Some (Inr (pid, -1, cap), println Stderr [Txt (''pmon: engine=sigchld child='' @ show_int pid)] w))"

definition sup_spawn :: "engine \<Rightarrow> string list \<Rightarrow> answer \<Rightarrow> answer \<Rightarrow> world \<Rightarrow> ((int + int \<times> int \<times> capture) \<times> world) option" where
  "sup_spawn eng cmd p q w = do {
     let cap = new_capture (fd_in 0 p) (fd_in 0 q);
     (c, w) \<leftarrow> spawn_child cmd (fd_in 1 p) (fd_in 1 q) w;
     (case c of
       Inl e \<Rightarrow> Some (Inl 1, close_capture cap (fd_reset (fd_in 1 p) (fd_reset (fd_in 1 q)
         (println Stderr [Txt (''pmon: spawn: '' @ cmd ! 0 @ '': ''), ErrorCode e] w))))
     | Inr pid \<Rightarrow> sup_pidfd eng pid cap (fd_reset (fd_in 1 q) (fd_reset (fd_in 1 p) w))) }"

text \<open>Where the second \<open>pipe2\<close> fails, the descriptors of the first have no owner yet.\<close>

definition sup_start :: "engine \<Rightarrow> string list \<Rightarrow> world \<Rightarrow> ((int + int \<times> int \<times> capture) \<times> world) option" where
  "sup_start eng cmd w = do {
     (p, w) \<leftarrow> sys (Pipe Pc_pipe2) w;
     if rv p \<noteq> 0 then Some (Inl 1, println Stderr [Txt ''pmon: pipe2: '', ErrorCode (System_error (eno p))] w)
     else do {
       (q, w) \<leftarrow> sys (Pipe Pc_pipe2) w;
       if rv q \<noteq> 0 then Some (Inl 1, println Stderr [Txt ''pmon: pipe2: '', ErrorCode (System_error (eno q))] w)
       else sup_spawn eng cmd p q w } }"

definition sup_drain :: "int \<Rightarrow> capture \<Rightarrow> stop option \<Rightarrow> child_status \<Rightarrow> world \<Rightarrow>
    (((msg + stop option \<times> child_status) \<times> capture) \<times> world) option" where
  "sup_drain lfd cap s st w = do {
     ((x, cap), w) \<leftarrow> drain_to_eof lfd cap w;
     (case x of
       Inl e \<Rightarrow> Some ((Inl [Txt ''pmon: relay: '', ErrorCode e], cap), w)
     | Inr _ \<Rightarrow> Some ((Inr (s, st), cap), w)) }"

text \<open>From the start of the child to its last byte in the log: why it was stopped, if it was, and its
  status; or the message of what failed.\<close>

definition sup_child :: "engine \<Rightarrow> int \<Rightarrow> int \<Rightarrow> int \<Rightarrow> int \<Rightarrow> int \<Rightarrow> capture \<Rightarrow> world \<Rightarrow>
    (((msg + stop option \<times> child_status) \<times> capture) \<times> world) option" where
  "sup_child eng pid pidfd sigfd deadline lfd cap w = do {
     ((x, cap), w) \<leftarrow> wait_child eng pid pidfd sigfd deadline lfd cap w;
     (case x of
       Inl e \<Rightarrow> Some ((Inl [Txt ''pmon: wait: '', ErrorCode e], cap), w)
     | Inr (Exit_seen st) \<Rightarrow> sup_drain lfd cap None st w
     | Inr (Stopped s) \<Rightarrow> do {
         (st, w) \<leftarrow> term_and_reap eng pid pidfd w;
         (case st of
           Inl e \<Rightarrow> Some ((Inl [Txt ''pmon: waitid: '', ErrorCode e], cap), w)
         | Inr st \<Rightarrow> sup_drain lfd cap (Some s) st w) }) }"

text \<open>What follows the report of the exit: the lines printed, and to end or to go on.\<close>

definition sup_policy :: "int \<Rightarrow> int \<Rightarrow> stop option \<Rightarrow> child_status \<Rightarrow> string list \<times> (int, int) ctl" where
  "sup_policy max_restarts restarts s st = (case s of
     Some s \<Rightarrow> ([''pmon: exiting ('' @ (if s = Stop_timeout then ''timeout'' else ''signal'') @ '')''], Break 0)
   | None \<Rightarrow>
       if cs_exited st \<and> cs_value st = 0 then ([], Break 0)
       else if restarts \<ge> max_restarts then ([''pmon: giving up after '' @ show_int max_restarts @ '' restarts''], Break 1)
       else ([''pmon: restart '' @ show_int (restarts + 1) @ ''/'' @ show_int max_restarts], Continue (restarts + 1)))"

definition print_flushed :: "string list \<Rightarrow> world \<Rightarrow> world" where
  "print_flushed ls w = fold (\<lambda>l w. emit (Fflush Stdout) (println Stdout [Txt l] w)) ls w"

definition sup_turn :: "engine \<Rightarrow> int \<Rightarrow> int \<Rightarrow> int \<Rightarrow> int \<Rightarrow> string list \<Rightarrow> int \<Rightarrow> world \<Rightarrow> ((int, int) ctl \<times> world) option" where
  "sup_turn eng max_restarts deadline lfd sigfd cmd restarts w = do {
     (c, w) \<leftarrow> sup_start eng cmd w;
     (case c of
       Inl code \<Rightarrow> Some (Break code, w)
     | Inr (pid, pidfd, cap) \<Rightarrow> do {
         ((x, cap), w) \<leftarrow> sup_child eng pid pidfd sigfd deadline lfd cap w;
         (case x of
           Inl m \<Rightarrow> Some (Break 1, close_capture cap (fd_reset pidfd (println Stderr m w)))
         | Inr (s, st) \<Rightarrow> (case report_exit pid st w of (_, w) \<Rightarrow>
             (case sup_policy max_restarts restarts s st of (ls, next) \<Rightarrow>
               Some (next, close_capture cap (fd_reset pidfd (print_flushed ls w)))))) }) }"

definition cmd_supervise :: "engine \<Rightarrow> int \<Rightarrow> int \<Rightarrow> string \<Rightarrow> string list \<Rightarrow> world \<Rightarrow> (int \<times> world) option" where
  "cmd_supervise eng max_restarts timeout_ms log_path cmd w = do {
     (l, w) \<leftarrow> sys (Pipe (Pc_open_append log_path)) w;
     if rv l < 0 then Some (1, println Stderr [Txt (''pmon: open '' @ log_path @ '': ''), ErrorCode (System_error (eno l))] w)
     else do {
       (s, w) \<leftarrow> make_signalfd (if eng = Engine_pidfd then [SIGINT, SIGTERM] else [SIGCHLD, SIGINT, SIGTERM]) w;
       (case s of
         Inl e \<Rightarrow> Some (1, fd_reset (rv l) (println Stderr [Txt ''pmon: signalfd: '', ErrorCode e] w))
       | Inr sigfd \<Rightarrow> do {
           (now, w) \<leftarrow> sys Clock_ns w;
           (code, w) \<leftarrow> loop (sup_turn eng max_restarts (rv now + timeout_ms * 1000000) (rv l) sigfd cmd) 0 w;
           Some (code, fd_reset (rv l) (fd_reset sigfd w)) }) } }"

section \<open>Following the log\<close>

abbreviation ENXIO :: int where "ENXIO \<equiv> 6"
abbreviation EEXIST :: int where "EEXIST \<equiv> 17"
abbreviation EINVAL :: int where "EINVAL \<equiv> 22"
abbreviation ENOSYS :: int where "ENOSYS \<equiv> 38"
abbreviation O_NONBLOCK :: int where "O_NONBLOCK \<equiv> 2048"

definition sleep_poll :: "world \<Rightarrow> world" where
  "sleep_poll = emit (Tm (Tm_nanosleep 50000000))"

text \<open>-1 is the invalid descriptor that stands for a requested stop.\<close>

definition open_writer_turn :: "string \<Rightarrow> unit \<Rightarrow> world \<Rightarrow> ((unit, error_code + int) ctl \<times> world) option" where
  "open_writer_turn fifo _ w = do {
     (g, w) \<leftarrow> sys (Load_flag ''g_stop'') w;
     if rv g \<noteq> 0 then Some (Break (Inr (-1)), w)
     else do {
       (a, w) \<leftarrow> sys (Pipe (Pc_open_fifo fifo)) w;
       if rv a \<ge> 0 then do {
         (fl, w) \<leftarrow> sys (Getfl (rv a)) w;
         if rv fl < 0 then Some (Break (Inl (System_error (eno fl))), fd_reset (rv a) w)
         else do {
           (s, w) \<leftarrow> sys (Setfl (rv a) (rv fl AND NOT O_NONBLOCK) False) w;
           if rv s < 0 then Some (Break (Inl (System_error (eno s))), fd_reset (rv a) w)
           else Some (Break (Inr (rv a)), w) } }
       else if eno a \<noteq> ENXIO \<and> eno a \<noteq> EINTR then Some (Break (Inl (System_error (eno a))), w)
       else Some (Continue (), sleep_poll w) } }"

definition open_writer :: "string \<Rightarrow> world \<Rightarrow> ((error_code + int) \<times> world) option" where
  "open_writer fifo = loop (open_writer_turn fifo) ()"

datatype relay = Moved | Idle | Detached | No_splice

definition relay_splice :: "int \<Rightarrow> int \<Rightarrow> world \<Rightarrow> ((error_code + relay) \<times> world) option" where
  "relay_splice lfd fd w = do {
     (n, w) \<leftarrow> sys (Pipe (Pc_splice lfd fd kChunk)) w;
     if rv n > 0 then Some (Inr Moved, w)
     else if rv n = 0 then Some (Inr Idle, w)
     else if eno n = EPIPE then Some (Inr Detached, w)
     else if eno n = EINTR \<or> eno n = EAGAIN then Some (Inr Idle, w)
     else if eno n = EINVAL \<or> eno n = ENOSYS then Some (Inr No_splice, w)
     else Some (Inl (System_error (eno n)), w) }"

text \<open>The state is what is not yet written; \<open>before + written\<close> is where it starts in the file.\<close>

definition relay_rw_turn :: "int \<Rightarrow> int \<Rightarrow> int \<Rightarrow> byte list \<Rightarrow> nat \<Rightarrow> world \<Rightarrow> ((nat, error_code + relay) ctl \<times> world) option" where
  "relay_rw_turn lfd fd before buf written w =
     (if written < List.length buf then do {
        (k, w) \<leftarrow> sys (Write fd (drop written buf)) w;
        if rv k < 0 then
          if eno k = EINTR then Some (Continue written, w)
          else do {
            let w = emit (Pipe (Pc_lseek lfd (before + int written) True)) w;
            if eno k = EPIPE then Some (Break (Inr Detached), w)
            else Some (Break (Inl (System_error (eno k))), w) }
        else Some (Continue (written + nat (rv k)), w) }
      else Some (Break (Inr Moved), w))"

definition relay_rw :: "int \<Rightarrow> int \<Rightarrow> world \<Rightarrow> ((error_code + relay) \<times> world) option" where
  "relay_rw lfd fd w = do {
     (b, w) \<leftarrow> sys (Pipe (Pc_lseek lfd 0 False)) w;
     (n, w) \<leftarrow> sys (Read lfd kChunk) w;
     if rv n < 0 then
       if eno n = EINTR then Some (Inr Idle, w) else Some (Inl (System_error (eno n)), w)
     else if rv n = 0 then Some (Inr Idle, w)
     else loop (relay_rw_turn lfd fd (rv b) (filled n)) 0 w }"

text \<open>One turn of the inner loop, with \<open>use_splice\<close> and \<open>attached\<close>; \<open>Inl\<close> is the exit status.\<close>

definition tail_inner_turn :: "int \<Rightarrow> int \<Rightarrow> bool \<times> bool \<Rightarrow> world \<Rightarrow> ((bool \<times> bool, int + bool) ctl \<times> world) option" where
  "tail_inner_turn lfd fd = (\<lambda>(use_splice, attached) w. do {
     (g, w) \<leftarrow> sys (Load_flag ''g_stop'') w;
     if rv g \<noteq> 0 \<or> \<not> attached then Some (Break (Inr use_splice), w)
     else do {
       (r, w) \<leftarrow> (if use_splice then relay_splice lfd fd w else relay_rw lfd fd w);
       (case r of
         Inl e \<Rightarrow> Some (Break (Inl 1), println Stderr [Txt ''pmon: relay: '', ErrorCode e] w)
       | Inr Moved \<Rightarrow> Some (Continue (use_splice, True), w)
       | Inr Idle \<Rightarrow> Some (Continue (use_splice, True), sleep_poll w)
       | Inr No_splice \<Rightarrow> Some (Continue (False, True), w)
       | Inr Detached \<Rightarrow> Some (Continue (use_splice, False), print_flushed [''pmon: tail reader detached''] w)) } })"

definition tail_turn :: "int \<Rightarrow> string \<Rightarrow> bool \<Rightarrow> world \<Rightarrow> ((bool, int) ctl \<times> world) option" where
  "tail_turn lfd fifo use_splice w = do {
     (g, w) \<leftarrow> sys (Load_flag ''g_stop'') w;
     if rv g \<noteq> 0 then Some (Break 0, w)
     else do {
       (f, w) \<leftarrow> open_writer fifo w;
       (case f of
         Inl e \<Rightarrow> Some (Break 1, println Stderr [Txt (''pmon: open '' @ fifo @ '': ''), ErrorCode e] w)
       | Inr fd \<Rightarrow>
           if fd < 0 then Some (Break 0, w)
           else do {
             (r, w) \<leftarrow> loop (tail_inner_turn lfd fd) (use_splice, True) w;
             (case r of
               Inl code \<Rightarrow> Some (Break code, fd_reset fd w)
             | Inr use_splice \<Rightarrow> Some (Continue use_splice, fd_reset fd w)) }) } }"

definition make_fifo :: "string \<Rightarrow> world \<Rightarrow> (bool \<times> world) option" where
  "make_fifo fifo w = do {
     (m, w) \<leftarrow> sys (Pipe (Pc_mkfifo fifo)) w;
     if rv m = 0 then Some (True, w)
     else if eno m \<noteq> EEXIST then
       Some (False, println Stderr [Txt (''pmon: mkfifo '' @ fifo @ '': ''), ErrorCode (System_error (eno m))] w)
     else do {
       (s, w) \<leftarrow> sys (Pipe (Pc_stat fifo)) w;
       if rv s \<noteq> 0 \<or> revents 0 s AND 0xF000 \<noteq> 0x1000 then
         Some (False, println Stderr [Txt (''pmon: '' @ fifo @ '' exists and is not a FIFO'')] w)
       else Some (True, w) } }"

definition cmd_tail :: "string \<Rightarrow> string \<Rightarrow> world \<Rightarrow> (int \<times> world) option" where
  "cmd_tail log_path fifo w = do {
     let w = emit (Pipe (Pc_sigaction SIGPIPE ''SIG_IGN'')) w;
     let w = emit (Pipe (Pc_sigaction SIGTERM ''on_stop'')) (emit (Pipe (Pc_sigaction SIGINT ''on_stop'')) w);
     (made, w) \<leftarrow> make_fifo fifo w;
     if \<not> made then Some (1, w)
     else do {
       (l, w) \<leftarrow> sys (Fs (Fs_open_rdonly log_path)) w;
       if rv l < 0 then Some (1, println Stderr [Txt (''pmon: open '' @ log_path @ '': ''), ErrorCode (System_error (eno l))] w)
       else do {
         let w = println Stderr [Txt (''pmon: tail ready (fifo '' @ fifo @ '')'')] w;
         (code, w) \<leftarrow> loop (tail_turn (rv l) fifo) True w;
         Some (code, fd_reset (rv l) (if code = 0 then print_flushed [''pmon: exiting (signal)''] w else w)) } } }"

section \<open>The command line\<close>

definition pp_usage :: "world \<Rightarrow> world" where
  "pp_usage = fold (\<lambda>l. println Stderr [Txt l])
     [''usage: pmon <command>'',
      ''  run -- CMD [ARGS...]                     spawn CMD, wait, mirror its exit'',
      ''  supervise [--engine pidfd|sigchld] [--max-restarts N] [--timeout-ms T]'',
      ''            [--log FILE] -- CMD [ARGS...]  restart CMD on abnormal exit;'',
      ''                                           capture stdout/stderr into FILE'',
      ''                                           (defaults: pidfd, N=3, T=10000,'',
      ''                                           FILE=pmon.log)'',
      ''  tail --log FILE --fifo PATH              relay appended log lines into a'',
      ''                                           FIFO created at PATH'']"

fun tail_args :: "string list \<Rightarrow> string \<times> string \<Rightarrow> (string \<times> string) option" where
  "tail_args [] st = Some st"
| "tail_args [a] st = None"
| "tail_args (a # v # rest) (log_path, fifo) =
     (if a = ''--log'' then tail_args rest (v, fifo)
      else if a = ''--fifo'' then tail_args rest (log_path, v)
      else None)"

record sup_opts =
  so_engine :: engine
  so_max_restarts :: int
  so_timeout_ms :: int
  so_log :: string

definition sup_defaults :: sup_opts where
  "sup_defaults = \<lparr>so_engine = Engine_pidfd, so_max_restarts = 3, so_timeout_ms = 10000, so_log = ''pmon.log''\<rparr>"

fun sup_flags :: "string list \<Rightarrow> sup_opts \<Rightarrow> sup_opts option" where
  "sup_flags [] c = Some c"
| "sup_flags [a] c = None"
| "sup_flags (a # v # rest) c =
     (if a = ''--engine'' then
        if v = ''pidfd'' then sup_flags rest (c\<lparr>so_engine := Engine_pidfd\<rparr>)
        else if v = ''sigchld'' then sup_flags rest (c\<lparr>so_engine := Engine_sigchld\<rparr>)
        else None
      else if a = ''--max-restarts'' then
        (case from_chars_int v of None \<Rightarrow> None | Some n \<Rightarrow> if n < 0 then None else sup_flags rest (c\<lparr>so_max_restarts := n\<rparr>))
      else if a = ''--timeout-ms'' then
        (case from_chars_int v of None \<Rightarrow> None | Some t \<Rightarrow> if t \<le> 0 then None else sup_flags rest (c\<lparr>so_timeout_ms := t\<rparr>))
      else if a = ''--log'' then sup_flags rest (c\<lparr>so_log := v\<rparr>)
      else None)"

text \<open>
  Where \<open>--\<close> is the first argument, the range of the flags ends before it starts, and the constructor
  of the vector throws \<open>std::length_error\<close>, which nothing catches.
\<close>

datatype pp_end = Pp_exit int | Pp_length_error

definition pp_dispatch :: "string list \<Rightarrow> nat \<Rightarrow> world \<Rightarrow> (pp_end \<times> world) option" where
  "pp_dispatch args sep w =
     (let flags = drop 1 (take sep args); cmd = drop (sep + 1) args
      in if args ! 0 = ''run'' then
           if flags \<noteq> [] then Some (Pp_exit 2, pp_usage w)
           else do { (code, w) \<leftarrow> cmd_run cmd w; Some (Pp_exit code, w) }
         else if args ! 0 = ''supervise'' then
           (case sup_flags flags sup_defaults of
             None \<Rightarrow> Some (Pp_exit 2, pp_usage w)
           | Some c \<Rightarrow> do {
               (code, w) \<leftarrow> cmd_supervise (so_engine c) (so_max_restarts c) (so_timeout_ms c) (so_log c) cmd w;
               Some (Pp_exit code, w) })
         else Some (Pp_exit 2, pp_usage w))"

definition pp_main :: "string list \<Rightarrow> world \<Rightarrow> (pp_end \<times> world) option" where
  "pp_main args w =
     (case args of
       [] \<Rightarrow> Some (Pp_exit 2, pp_usage w)
     | a # rest \<Rightarrow>
         if a = ''tail'' then
           (case tail_args rest ([], []) of
             None \<Rightarrow> Some (Pp_exit 2, pp_usage w)
           | Some (log_path, fifo) \<Rightarrow>
               if log_path = [] \<or> fifo = [] then Some (Pp_exit 2, pp_usage w)
               else do { (code, w) \<leftarrow> cmd_tail log_path fifo w; Some (Pp_exit code, w) })
         else (case find_from ''--'' args of
             None \<Rightarrow> Some (Pp_exit 2, pp_usage w)
           | Some sep \<Rightarrow>
               if sep + 1 = List.length args then Some (Pp_exit 2, pp_usage w)
               else if sep = 0 then Some (Pp_length_error, w)
               else pp_dispatch args sep w))"

end
