(* ===== verification/PipesLog.thy ===== *)
theory PipesLog
  imports Pipes "HOL-Library.Multiset"
begin

text \<open>
  The capture of a supervised child: each stream is cut into its lines, whatever pieces the kernel makes
  of it, and the log is the lines of both with their tags. \<open>following\<close> is the invariant of everything
  that reads the pipes.
\<close>

section \<open>Writing a record\<close>

lemma relay_write_spec:
  assumes "relay_write lfd bs w = Some (r, w')"
  shows "later w w' \<and> (honest (since w w') \<longrightarrow>
    prefix (accepted lfd (since w w')) bs \<and> (r = Inr () \<longrightarrow> accepted lfd (since w w') = bs))"
  using assms unfolding relay_write_def
proof (rule loop_rule [where I = "\<lambda>left v. later w v \<and> (honest (since w v) \<longrightarrow> bs = accepted lfd (since w v) @ left)"], goal_cases)
  case 1
  show ?case by simp
next
  case (2 left v left' v')
  then obtain a where a: "sys (Write lfd left) v = Some (a, v')"
    and o: "left' = (if rv a < 0 then left else drop (nat (rv a)) left)"
    by (auto simp: relay_emit_turn_def split: if_split_asm)
  have "later w v'" and "since w v' = since w v @ [(Write lfd left, Some a)]"
    using 2 sys_after [OF _ a, of w] by simp_all
  with 2 o show ?case by auto
next
  case (3 left v r v')
  show ?case
  proof (cases "left = []")
    case True
    with 3 show ?thesis by (auto simp: relay_emit_turn_def)
  next
    case False
    with 3 obtain a where a: "sys (Write lfd left) v = Some (a, v')" and r: "r \<noteq> Inr ()"
      and "rv a < 0" by (auto simp: relay_emit_turn_def split: if_splits)
    have "later w v'" and "since w v' = since w v @ [(Write lfd left, Some a)]"
      using 3 sys_after [OF _ a, of w] by simp_all
    with 3 r \<open>rv a < 0\<close> show ?thesis by auto
  qed
qed

interpretation pp_w: byte_writer relay_write "\<lambda>r. r = Inr ()"
  by unfold_locales (auto dest: relay_write_spec)

lemma relay_write_keeps [keeps_intros]:
  "only P w0 w \<Longrightarrow> (\<And>bs. P (Write lfd bs)) \<Longrightarrow> keeps P w0 (relay_write lfd bs w)"
  unfolding relay_write_def relay_emit_turn_def by (intro keeps_intros)

lemma feed_lines_keeps [keeps_intros]:
  "only P w0 w \<Longrightarrow> (\<And>bs. P (Write lfd bs)) \<Longrightarrow> keeps P w0 (feed_lines pfx lfd s w)"
proof (induction pfx lfd s w rule: feed_lines.induct)
  case (1 pfx lfd s w)
  show ?case
  proof (cases "find_from (CHR 0x0A) s")
    case None
    with 1 show ?thesis by (subst feed_lines.simps) (simp add: keeps_Some)
  next
    case (Some nl)
    have "keeps P w0 (io_try (relay_emit pfx lfd (take nl s) w) (\<lambda>_ w. feed_lines pfx lfd (drop (nl + 1) s) w))"
      unfolding relay_emit_def by (intro keeps_io_try relay_write_keeps 1 Some)
    with Some show ?thesis by (subst feed_lines.simps) simp
  qed
qed

lemma relay_feed_keeps [keeps_intros]:
  "only P w0 w \<Longrightarrow> (\<And>bs. P (Write lfd bs)) \<Longrightarrow> keeps P w0 (relay_feed lfd r chunk w)"
  unfolding relay_feed_def relay_emit_def by (intro keeps_intros)

lemma relay_flush_keeps [keeps_intros]:
  "only P w0 w \<Longrightarrow> (\<And>bs. P (Write lfd bs)) \<Longrightarrow> keeps P w0 (relay_flush lfd r w)"
  unfolding relay_flush_def relay_emit_def by (intro keeps_intros)

section \<open>Lines\<close>

text \<open>Lines put together again, and the streams in which no line is longer than the buffer's bound.\<close>

definition unlines :: "string list \<Rightarrow> string" where
  "unlines ls = concat (List.map (\<lambda>l. l @ [CHR 0x0A]) ls)"

definition no_newline :: "string \<Rightarrow> bool" where
  "no_newline l \<longleftrightarrow> CHR 0x0A \<notin> set l"

definition short_lines :: "string \<Rightarrow> bool" where
  "short_lines s \<longleftrightarrow> list_all (\<lambda>l. List.length l \<le> kChunk) (getlines s)"

lemma unlines_simps [simp]:
  "unlines [] = []" "unlines (l # ls) = l @ CHR 0x0A # unlines ls" "unlines (ls @ ms) = unlines ls @ unlines ms"
  by (simp_all add: unlines_def)

lemma getlines_unlines: "list_all no_newline ls \<Longrightarrow> getlines (unlines ls @ s) = ls @ getlines s"
  by (induction ls) (simp_all add: no_newline_def getlines_line)

lemma getlines_unlines_all [simp]: "list_all no_newline ls \<Longrightarrow> getlines (unlines ls) = ls"
  using getlines_unlines [of ls "[]"] by simp

lemma getlines_rest: "no_newline r \<Longrightarrow> getlines r = (if r = [] then [] else [r])"
  by (simp add: no_newline_def getlines_last)

lemma getlines_first:
  assumes "no_newline r" "r \<noteq> []"
  shows "\<exists>u us. getlines (r @ s) = (r @ u) # us"
proof -
  let ?t = "takeWhile (\<lambda>c. c \<noteq> CHR 0x0A)"
  have "?t (r @ s) = r @ ?t s" using assms(1) by (intro takeWhile_append2) (auto simp: no_newline_def)
  with assms(2) show ?thesis by (subst getlines.simps) (simp add: Let_def)
qed

lemma short_lines_whole:
  assumes "short_lines (unlines ls @ r @ s)" "list_all no_newline ls" "no_newline r"
  shows "List.length r \<le> kChunk"
proof (cases "r = []")
  case False
  with getlines_first [OF assms(3)] obtain u us where "getlines (r @ s) = (r @ u) # us" by blast
  with assms(1,2) show ?thesis by (simp add: short_lines_def getlines_unlines)
qed simp

lemma short_lines_append: "short_lines (s @ t) \<Longrightarrow> short_lines s"
proof (induction s rule: length_induct)
  case (1 s)
  show ?case
  proof (cases "CHR 0x0A \<in> set s")
    case True
    then obtain l r where s: "s = l @ CHR 0x0A # r" and l: "CHR 0x0A \<notin> set l"
      by (metis split_list_first)
    with "1.IH" "1.prems" show ?thesis by (simp add: short_lines_def getlines_line)
  next
    case False
    with getlines_first [of s t] "1.prems" show ?thesis
      by (cases "s = []") (auto simp: short_lines_def getlines_rest no_newline_def)
  qed
qed

text \<open>What the reading of a buffer wrote, and what it left.\<close>

lemma tagged_lines_spec:
  assumes "feed_lines pfx lfd s w = Some (Inr left, w')" "honest (since w w')"
  shows "\<exists>ls. accepted lfd (since w w') = bytes_of (concat (List.map (log_line pfx) ls)) \<and>
    s = unlines ls @ left \<and> no_newline left \<and> list_all no_newline ls"
  using assms
proof (induction pfx lfd s w rule: feed_lines.induct)
  case (1 pfx lfd s w)
  show ?case
  proof (cases "find_from (CHR 0x0A) s")
    case None
    with "1.prems" show ?thesis by (auto simp: feed_lines.simps [of _ _ s] find_from_None no_newline_def intro!: exI [of _ "[]"])
  next
    case (Some nl)
    let ?l = "take nl s" and ?r = "drop (nl + 1) s"
    have nl: "nl < List.length s" "s ! nl = CHR 0x0A" "no_newline ?l"
      using find_from_Some [OF Some] by (simp_all add: no_newline_def)
    have s: "s = ?l @ CHR 0x0A # ?r"
      using id_take_nth_drop [OF nl(1)] unfolding nl(2) Suc_eq_plus1 .
    from "1.prems"(1) obtain v where v: "relay_write lfd (bytes_of (log_line pfx ?l)) w = Some (Inr (), v)"
      and f: "feed_lines pfx lfd ?r v = Some (Inr left, w')"
      unfolding feed_lines.simps [of pfx lfd s w] Some option.case io_try_Some relay_emit_def by auto
    have l: "later w v" by (rule pp_w.writer_later [OF v])
    have "only (\<lambda>_. True) v w'" by (rule keepsD [OF feed_lines_keeps f]) simp_all
    note l = l onlyD(1) [OF this]
    with "1.prems"(2) have h: "honest (since w v)" "honest (since v w')" by (simp_all add: since_trans [OF l])
    from "1.IH" [OF Some f h(2)] obtain ls where
      ls: "accepted lfd (since v w') = bytes_of (concat (List.map (log_line pfx) ls))" "?r = unlines ls @ left"
        "no_newline left" "list_all no_newline ls" by blast
    have "accepted lfd (since w v) = bytes_of (log_line pfx ?l)" using pp_w.writer_all [OF v h(1)] by simp
    with ls nl(3) s [unfolded ls(2)] show ?thesis
      by (intro exI [of _ "?l # ls"]) (simp add: since_trans [OF l])
  qed
qed

text \<open>Where no read of a descriptor is made, nothing is received from it; likewise for writes.\<close>

lemma received_none: "list_all ((\<lambda>c. \<forall>n. c \<noteq> Read g n \<and> c \<noteq> Recv g n) \<circ> fst) t \<Longrightarrow> received g t = []"
proof (induction t)
  case (Cons e t)
  then show ?case by (cases e) (auto simp: received_by_def split: call.splits option.splits)
qed simp

lemma accepted_none: "list_all ((\<lambda>c. \<forall>bs. c \<noteq> Write g bs \<and> c \<noteq> Send g bs) \<circ> fst) t \<Longrightarrow> accepted g t = []"
proof (induction t)
  case (Cons e t)
  then show ?case by (cases e) (auto simp: accepted_by_def split: call.splits option.splits)
qed simp

lemma relay_feed_spec:
  assumes "relay_feed lfd r chunk w = Some ((Inr (), r'), w')" "honest (since w w')"
  shows "\<exists>ms left. lr_buf r @ chunk = unlines ms @ left \<and> no_newline left \<and> list_all no_newline ms \<and>
    r' = r\<lparr>lr_buf := (if List.length left > kChunk then [] else left)\<rparr> \<and>
    accepted lfd (since w w') = bytes_of (concat (List.map (log_line (lr_pfx r)) (ms @ (if List.length left > kChunk then [left] else []))))"
proof -
  from assms(1) obtain left v where f: "feed_lines (lr_pfx r) lfd (lr_buf r @ chunk) w = Some (Inr left, v)"
    and k: "(if List.length left > kChunk then relay_emit (lr_pfx r) lfd left v = Some (Inr (), w') \<and> r' = r\<lparr>lr_buf := []\<rparr>
      else w' = v \<and> r' = r\<lparr>lr_buf := left\<rparr>)"
    by (auto simp: relay_feed_def Let_def run_cases)
  have "only (\<lambda>_. True) w v" by (rule keepsD [OF feed_lines_keeps f]) simp_all
  note l = onlyD(1) [OF this]
  show ?thesis
  proof (cases "List.length left > kChunk")
    case True
    with k have e: "relay_write lfd (bytes_of (log_line (lr_pfx r) left)) v = Some (Inr (), w')" by (simp add: relay_emit_def)
    note s = since_trans [OF l pp_w.writer_later [OF e]]
    with assms(2) have h: "honest (since w v)" "honest (since v w')" by simp_all
    from tagged_lines_spec [OF f h(1)] pp_w.writer_all [OF e h(2) refl] k True show ?thesis
      by (auto simp: s)
  next
    case False
    with k assms(2) have "honest (since w v)" by simp
    from tagged_lines_spec [OF f this] k False show ?thesis by auto
  qed
qed

lemma relay_flush_spec:
  assumes "relay_flush lfd r w = Some ((Inr (), r'), w')" "honest (since w w')"
  shows "r' = r\<lparr>lr_buf := []\<rparr> \<and>
    accepted lfd (since w w') = bytes_of (concat (List.map (log_line (lr_pfx r)) (if lr_buf r = [] then [] else [lr_buf r])))"
  using assms pp_w.writer_all [of lfd "bytes_of (log_line (lr_pfx r) (lr_buf r))" w "Inr ()" w']
  by (auto simp: relay_flush_def relay_emit_def split: if_splits)

section \<open>What one stream has been given\<close>

text \<open>\<open>B\<close> was read from \<open>fd\<close> and \<open>L\<close> are the lines written; as long as no line is too long for the buffer.\<close>

definition caught :: "string \<Rightarrow> int \<Rightarrow> pipe_end \<Rightarrow> string \<Rightarrow> string list \<Rightarrow> bool" where
  "caught pfx fd p B L \<longleftrightarrow> lr_pfx (pe_relay p) = pfx \<and> (pe_open p \<longrightarrow> pe_fd p = fd) \<and>
     (short_lines B \<longrightarrow> (if pe_open p
        then B = unlines L @ lr_buf (pe_relay p) \<and> no_newline (lr_buf (pe_relay p)) \<and> list_all no_newline L
        else L = getlines B))"

lemma drain_once_keeps [keeps_intros]:
  "only P w0 w \<Longrightarrow> P (Read (pe_fd p) kChunk) \<Longrightarrow> P (Close (pe_fd p)) \<Longrightarrow> (\<And>bs. P (Write lfd bs)) \<Longrightarrow> keeps P w0 (drain_once lfd p w)"
  unfolding drain_once_def fd_reset_def
  by (intro keeps_intros) (auto intro!: only_emit)

lemma drain_once_cases:
  assumes "drain_once lfd p w = Some ((Inr (), p'), w')"
  obtains (again) a where "sys (Read (pe_fd p) kChunk) w = Some (a, w')" "rv a < 0" "p' = p"
  | (closed) a v r where "sys (Read (pe_fd p) kChunk) w = Some (a, v)" "rv a = 0"
      "relay_flush lfd (pe_relay p) (fd_reset (pe_fd p) v) = Some ((Inr (), r), w')" "p' = \<lparr>pe_fd = -1, pe_relay = r, pe_open = False\<rparr>"
  | (bytes) a v r where "sys (Read (pe_fd p) kChunk) w = Some (a, v)" "0 < rv a"
      "relay_feed lfd (pe_relay p) (chars_of (filled a)) v = Some ((Inr (), r), w')" "p' = p\<lparr>pe_relay := r\<rparr>"
proof -
  from assms obtain a v where a: "sys (Read (pe_fd p) kChunk) w = Some (a, v)"
    and k: "(if rv a < 0 then p' = p \<and> w' = v
      else if rv a = 0 then \<exists>r. relay_flush lfd (pe_relay p) (fd_reset (pe_fd p) v) = Some ((Inr (), r), w') \<and> p' = \<lparr>pe_fd = -1, pe_relay = r, pe_open = False\<rparr>
      else \<exists>r. relay_feed lfd (pe_relay p) (chars_of (filled a)) v = Some ((Inr (), r), w') \<and> p' = p\<lparr>pe_relay := r\<rparr>)"
    by (auto simp: drain_once_def Let_def split: if_splits)
  consider "rv a < 0" | "rv a = 0" | "0 < rv a" by linarith
  then show ?thesis
  proof cases
    case 1
    with k a again show ?thesis by simp
  next
    case 2
    with k a closed show ?thesis by auto
  next
    case 3
    with k a bytes show ?thesis by auto
  qed
qed

lemma drain_once_spec:
  assumes run: "drain_once lfd p w = Some ((Inr (), p'), w')" and "pe_open p" "pe_fd p = fd" "fd \<noteq> lfd" "honest (since w w')"
  shows "\<exists>ls. accepted lfd (since w w') = bytes_of (concat (List.map (log_line (lr_pfx (pe_relay p))) ls)) \<and>
    (\<forall>B L. caught pfx fd p B L \<longrightarrow> caught pfx fd p' (B @ chars_of (received fd (since w w'))) (L @ ls))"
  using run
proof (cases rule: drain_once_cases)
  case (again a)
  with sys_SomeE [OF again(1)] assms show ?thesis by (auto intro!: exI [of _ "[]"])
next
  case (closed a v r)
  note sv = sys_SomeE [OF closed(1)]
  let ?v = "fd_reset (pe_fd p) v"
  have lv: "later w ?v" and s: "honest (since w ?v)" "accepted lfd (since w ?v) = []" "received fd (since w ?v) = []"
    using sv closed(2) assms(3,4) by (auto simp: fd_reset_def)
  have "only (\<lambda>c. \<exists>bs. c = Write lfd bs) ?v w'" by (rule keepsD [OF relay_flush_keeps closed(3)]) simp_all
  note o = onlyD [OF this] and tr = since_trans [OF lv onlyD(1) [OF this]]
  have "received fd (since ?v w') = []" by (rule received_none) (use o(2) in \<open>auto simp: list.pred_set\<close>)
  moreover have "honest (since ?v w')" using assms(5) by (simp add: tr)
  note f = relay_flush_spec [OF closed(3) this]
  moreover have "caught pfx fd p' B (L @ (if lr_buf (pe_relay p) = [] then [] else [lr_buf (pe_relay p)]))"
    if "caught pfx fd p B L" for B L
    using that assms(2) f closed(4) by (auto simp: caught_def getlines_unlines getlines_rest)
  ultimately show ?thesis by (intro exI [of _ "if lr_buf (pe_relay p) = [] then [] else [lr_buf (pe_relay p)]"]) (simp add: tr s)
next
  case (bytes a v r)
  note sv = sys_SomeE [OF bytes(1)]
  have lv: "later w v" and s: "accepted lfd (since w v) = []" "received fd (since w v) = filled a"
    using sv assms(3,4) by auto
  have "only (\<lambda>c. \<exists>bs. c = Write lfd bs) v w'" by (rule keepsD [OF relay_feed_keeps bytes(3)]) simp_all
  note o = onlyD [OF this] and tr = since_trans [OF lv onlyD(1) [OF this]]
  have r0: "received fd (since v w') = []" by (rule received_none) (use o(2) in \<open>auto simp: list.pred_set\<close>)
  have "honest (since v w')" using assms(5) by (simp add: tr)
  from relay_feed_spec [OF bytes(3) this] obtain ms left where
    m: "lr_buf (pe_relay p) @ chars_of (filled a) = unlines ms @ left" "no_newline left" "list_all no_newline ms"
      "r = pe_relay p\<lparr>lr_buf := (if List.length left > kChunk then [] else left)\<rparr>"
      "accepted lfd (since v w') = bytes_of (concat (List.map (log_line (lr_pfx (pe_relay p))) (ms @ (if List.length left > kChunk then [left] else []))))"
    by blast
  let ?ls = "ms @ (if List.length left > kChunk then [left] else [])"
  have "caught pfx fd p' (B @ chars_of (filled a)) (L @ ?ls)" if c: "caught pfx fd p B L" for B L
  proof -
    have "B @ chars_of (filled a) = unlines (L @ ms) @ left \<and> list_all no_newline (L @ ms) \<and> \<not> List.length left > kChunk"
      if sh: "short_lines (B @ chars_of (filled a))"
    proof -
      from c assms(2) short_lines_append [OF sh] have B: "B = unlines L @ lr_buf (pe_relay p)" "list_all no_newline L"
        by (simp_all add: caught_def)
      then have e: "B @ chars_of (filled a) = unlines (L @ ms) @ left" "list_all no_newline (L @ ms)"
        using m(1,3) by simp_all
      from sh e(1) have "short_lines (unlines (L @ ms) @ left @ [])" by simp
      from short_lines_whole [OF this e(2) m(2)] e show ?thesis by simp
    qed
    with c assms(2) m(2,4) bytes(4) show ?thesis by (auto simp: caught_def)
  qed
  with m(5) show ?thesis by (intro exI [of _ ?ls]) (simp add: tr s r0)
qed

section \<open>What the log holds\<close>

text \<open>A record of the log: of the first stream or of the second, and its line.\<close>

definition tagged_record :: "bool \<times> string \<Rightarrow> string" where
  "tagged_record r = log_line (if fst r then ''out'' else ''err'') (snd r)"

definition stream_lines :: "bool \<Rightarrow> (bool \<times> string) list \<Rightarrow> string list" where
  "stream_lines b rs = List.map snd (filter (\<lambda>r. fst r = b) rs)"

definition logged :: "int \<Rightarrow> int \<Rightarrow> int \<Rightarrow> (call \<times> answer option) list \<Rightarrow> capture \<Rightarrow> bool" where
  "logged lfd ofd efd t cap \<longleftrightarrow> (\<exists>rs. accepted lfd t = bytes_of (concat (List.map tagged_record rs)) \<and>
     caught ''out'' ofd (cap_out cap) (chars_of (received ofd t)) (stream_lines True rs) \<and>
     caught ''err'' efd (cap_err cap) (chars_of (received efd t)) (stream_lines False rs))"

text \<open>What \<open>poll\<close> documents: it ignores a negative descriptor.\<close>

definition poll_quiet :: "call \<times> answer option \<Rightarrow> bool" where
  "poll_quiet e = (case e of
     (Ev (Ev_poll fds ms), Some a) \<Rightarrow> list_all (\<lambda>i. fst (fds ! i) < 0 \<longrightarrow> revents i a = 0) [0..<List.length fds]
   | _ \<Rightarrow> True)"

abbreviation polls_ok :: "(call \<times> answer option) list \<Rightarrow> bool" where
  "polls_ok \<equiv> list_all poll_quiet"

lemma stream_lines_simps [simp]:
  "stream_lines b [] = []" "stream_lines b (rs @ qs) = stream_lines b rs @ stream_lines b qs"
  "stream_lines b (List.map (Pair b') ls) = (if b = b' then ls else [])"
  by (simp_all add: stream_lines_def filter_map comp_def)

lemma tagged_records [simp]:
  "concat (List.map (tagged_record \<circ> Pair b) ls) = concat (List.map (log_line (if b then ''out'' else ''err'')) ls)"
  by (simp add: tagged_record_def comp_def)

text \<open>Since \<open>w\<close> the log has followed the two streams, if the kernel did what it documents.\<close>

definition following :: "int \<Rightarrow> int \<Rightarrow> int \<Rightarrow> world \<Rightarrow> capture \<Rightarrow> world \<Rightarrow> bool" where
  "following lfd ofd efd w cap v \<longleftrightarrow> later w v \<and>
     (honest (since w v) \<longrightarrow> polls_ok (since w v) \<longrightarrow> logged lfd ofd efd (since w v) cap)"

definition aloof :: "int \<Rightarrow> int \<Rightarrow> int \<Rightarrow> call \<Rightarrow> bool" where
  "aloof lfd ofd efd c \<longleftrightarrow> (\<forall>n. c \<noteq> Read ofd n \<and> c \<noteq> Recv ofd n \<and> c \<noteq> Read efd n \<and> c \<noteq> Recv efd n) \<and>
     (\<forall>bs. c \<noteq> Write lfd bs \<and> c \<noteq> Send lfd bs)"

lemma following_aloof:
  assumes "following lfd ofd efd w cap v" "only (aloof lfd ofd efd) v v'"
  shows "following lfd ofd efd w cap v'"
proof -
  have l: "later w v" "later v v'" using assms onlyD(1) by (auto simp: following_def)
  have a: "list_all (aloof lfd ofd efd \<circ> fst) (since v v')" by (rule onlyD(2) [OF assms(2)])
  have "received ofd (since v v') = []" "received efd (since v v') = []" "accepted lfd (since v v') = []"
    using a by (auto intro!: received_none accepted_none simp: aloof_def elim!: list.pred_mono_strong)
  with assms(1) l show ?thesis by (simp add: following_def since_trans [OF l] later_trans [OF l] logged_def)
qed

lemma drain_once_other:
  assumes "drain_once lfd p w = Some (r, w')" "g \<noteq> pe_fd p"
  shows "later w w'" "received g (since w w') = []"
proof -
  have "only (\<lambda>c. \<forall>n. c \<noteq> Read g n \<and> c \<noteq> Recv g n) w w'"
    by (rule keepsD [OF drain_once_keeps assms(1)]) (use assms(2) in simp_all)
  from onlyD [OF this] show "later w w'" "received g (since w w') = []" by (auto intro: received_none)
qed

lemma following_out:
  assumes F: "following lfd ofd efd w cap v" and run: "drain_once lfd (cap_out cap) v = Some ((Inr (), p), v')"
    and "polls_ok (since w v) \<Longrightarrow> pe_open (cap_out cap)" and fds: "ofd \<noteq> lfd" "ofd \<noteq> efd"
  shows "following lfd ofd efd w (cap\<lparr>cap_out := p\<rparr>) v'"
proof -
  have "only (\<lambda>_. True) v v'" by (rule keepsD [OF drain_once_keeps run]) simp_all
  note l = onlyD(1) [OF this]
  have l0: "later w v" using F by (simp add: following_def)
  note tr = since_trans [OF l0 l]
  have "logged lfd ofd efd (since w v') (cap\<lparr>cap_out := p\<rparr>)" if "honest (since w v')" "polls_ok (since w v')"
  proof -
    have h: "honest (since w v)" "polls_ok (since w v)" "honest (since v v')" using that by (simp_all add: tr)
    with F obtain rs where rs: "accepted lfd (since w v) = bytes_of (concat (List.map tagged_record rs))"
      "caught ''out'' ofd (cap_out cap) (chars_of (received ofd (since w v))) (stream_lines True rs)"
      "caught ''err'' efd (cap_err cap) (chars_of (received efd (since w v))) (stream_lines False rs)"
      by (auto simp: following_def logged_def)
    have op: "pe_open (cap_out cap)" by (rule assms(3) [OF h(2)])
    with rs(2) have fd: "pe_fd (cap_out cap) = ofd" "lr_pfx (pe_relay (cap_out cap)) = ''out''" by (simp_all add: caught_def)
    from drain_once_spec [OF run op fd(1) fds(1) h(3), of "''out''", unfolded fd(2)] rs(2)
    obtain ls where ls: "accepted lfd (since v v') = bytes_of (concat (List.map (log_line ''out'') ls))"
      "caught ''out'' ofd p (chars_of (received ofd (since w v)) @ chars_of (received ofd (since v v'))) (stream_lines True rs @ ls)"
      by blast
    have "received efd (since v v') = []" using drain_once_other(2) [OF run] fd(1) fds(2) by simp
    with rs ls show ?thesis
      unfolding logged_def by (intro exI [of _ "rs @ List.map (Pair True) ls"]) (simp add: tr)
  qed
  with later_trans [OF l0 l] show ?thesis by (simp add: following_def)
qed

lemma following_err:
  assumes F: "following lfd ofd efd w cap v" and run: "drain_once lfd (cap_err cap) v = Some ((Inr (), p), v')"
    and "polls_ok (since w v) \<Longrightarrow> pe_open (cap_err cap)" and fds: "efd \<noteq> lfd" "ofd \<noteq> efd"
  shows "following lfd ofd efd w (cap\<lparr>cap_err := p\<rparr>) v'"
proof -
  have "only (\<lambda>_. True) v v'" by (rule keepsD [OF drain_once_keeps run]) simp_all
  note l = onlyD(1) [OF this]
  have l0: "later w v" using F by (simp add: following_def)
  note tr = since_trans [OF l0 l]
  have "logged lfd ofd efd (since w v') (cap\<lparr>cap_err := p\<rparr>)" if "honest (since w v')" "polls_ok (since w v')"
  proof -
    have h: "honest (since w v)" "polls_ok (since w v)" "honest (since v v')" using that by (simp_all add: tr)
    with F obtain rs where rs: "accepted lfd (since w v) = bytes_of (concat (List.map tagged_record rs))"
      "caught ''out'' ofd (cap_out cap) (chars_of (received ofd (since w v))) (stream_lines True rs)"
      "caught ''err'' efd (cap_err cap) (chars_of (received efd (since w v))) (stream_lines False rs)"
      by (auto simp: following_def logged_def)
    have op: "pe_open (cap_err cap)" by (rule assms(3) [OF h(2)])
    with rs(3) have fd: "pe_fd (cap_err cap) = efd" "lr_pfx (pe_relay (cap_err cap)) = ''err''" by (simp_all add: caught_def)
    from drain_once_spec [OF run op fd(1) fds(1) h(3), of "''err''", unfolded fd(2)] rs(3)
    obtain ls where ls: "accepted lfd (since v v') = bytes_of (concat (List.map (log_line ''err'') ls))"
      "caught ''err'' efd p (chars_of (received efd (since w v)) @ chars_of (received efd (since v v'))) (stream_lines False rs @ ls)"
      by blast
    have "received ofd (since v v') = []" using drain_once_other(2) [OF run] fd(1) fds(2) by simp
    with rs ls show ?thesis
      unfolding logged_def by (intro exI [of _ "rs @ List.map (Pair False) ls"]) (simp add: tr)
  qed
  with later_trans [OF l0 l] show ?thesis by (simp add: following_def)
qed

lemma case_wait_outcome_Some [run_cases]:
  "(case oc of Exit_seen st \<Rightarrow> f st | Stopped s \<Rightarrow> g s) = Some z \<longleftrightarrow>
     (\<exists>st. oc = Exit_seen st \<and> f st = Some z) \<or> (\<exists>s. oc = Stopped s \<and> g s = Some z)"
  by (cases oc) simp_all

end
