(* ===== verification/PipesProps.thy ===== *)
theory PipesProps
  imports PipesLog
begin

text \<open>
  What is proved of the log pipeline: the log of a child is its output cut into lines, each with the tag
  of its stream; a supervisor starts a child at most \<open>max_restarts + 1\<close> times and closes what it opened for
  each; a child that keeps writing is never timed out; and the readers of the FIFO together are given the
  log from its start, without a gap.
\<close>

section \<open>The log of one child\<close>

lemma cap_same [simp]: "cap\<lparr>cap_out := cap_out cap\<rparr> = cap" "cap\<lparr>cap_err := cap_err cap\<rparr> = cap"
  by (cases cap, simp)+

lemma drain_out_following:
  assumes "loop (drain_turn lfd) (cap_out cap) v = Some ((Inr (), p), v')" and "following lfd ofd efd w cap v"
    and fds: "ofd \<noteq> lfd" "ofd \<noteq> efd"
  shows "following lfd ofd efd w (cap\<lparr>cap_out := p\<rparr>) v' \<and> \<not> pe_open p"
proof -
  have "fst (Inr () :: error_code + unit, p) = Inr () \<longrightarrow> following lfd ofd efd w (cap\<lparr>cap_out := snd (Inr () :: error_code + unit, p)\<rparr>) v' \<and> \<not> pe_open (snd (Inr () :: error_code + unit, p))"
  proof (rule loop_rule [OF assms(1), where I = "\<lambda>p v. following lfd ofd efd w (cap\<lparr>cap_out := p\<rparr>) v"
      and Q = "\<lambda>r v. fst r = Inr () \<longrightarrow> following lfd ofd efd w (cap\<lparr>cap_out := snd r\<rparr>) v \<and> \<not> pe_open (snd r)"], goal_cases)
    case 1
    show ?case using assms(2) by simp
  next
    case (2 p v p' v')
    then have op: "pe_open p" and d: "drain_once lfd p v = Some ((Inr (), p'), v')"
      by (auto simp: drain_turn_def run_cases split: if_splits)
    from following_out [OF 2(1) _ _ fds, of p' v'] op d show ?case by simp
  next
    case (3 p v r v')
    then show ?case by (auto simp: drain_turn_def run_cases split: if_splits)
  qed
  then show ?thesis by simp
qed

lemma drain_err_following:
  assumes "loop (drain_turn lfd) (cap_err cap) v = Some ((Inr (), p), v')" and "following lfd ofd efd w cap v"
    and fds: "efd \<noteq> lfd" "ofd \<noteq> efd"
  shows "following lfd ofd efd w (cap\<lparr>cap_err := p\<rparr>) v' \<and> \<not> pe_open p"
proof -
  have "fst (Inr () :: error_code + unit, p) = Inr () \<longrightarrow> following lfd ofd efd w (cap\<lparr>cap_err := snd (Inr () :: error_code + unit, p)\<rparr>) v' \<and> \<not> pe_open (snd (Inr () :: error_code + unit, p))"
  proof (rule loop_rule [OF assms(1), where I = "\<lambda>p v. following lfd ofd efd w (cap\<lparr>cap_err := p\<rparr>) v"
      and Q = "\<lambda>r v. fst r = Inr () \<longrightarrow> following lfd ofd efd w (cap\<lparr>cap_err := snd r\<rparr>) v \<and> \<not> pe_open (snd r)"], goal_cases)
    case 1
    show ?case using assms(2) by simp
  next
    case (2 p v p' v')
    then have op: "pe_open p" and d: "drain_once lfd p v = Some ((Inr (), p'), v')"
      by (auto simp: drain_turn_def run_cases split: if_splits)
    from following_err [OF 2(1) _ _ fds, of p' v'] op d show ?case by simp
  next
    case (3 p v r v')
    then show ?case by (auto simp: drain_turn_def run_cases split: if_splits)
  qed
  then show ?thesis by simp
qed

lemma drain_to_eof_following:
  assumes "drain_to_eof lfd cap v = Some ((Inr (), cap'), v')" and "following lfd ofd efd w cap v"
    and fds: "ofd \<noteq> lfd" "efd \<noteq> lfd" "ofd \<noteq> efd"
  shows "following lfd ofd efd w cap' v' \<and> \<not> pe_open (cap_out cap') \<and> \<not> pe_open (cap_err cap')"
proof -
  from assms(1) obtain p u q where p: "loop (drain_turn lfd) (cap_out cap) v = Some ((Inr (), p), u)"
    and q: "loop (drain_turn lfd) (cap_err cap) u = Some ((Inr (), q), v')" and c: "cap' = cap\<lparr>cap_out := p, cap_err := q\<rparr>"
    by (auto simp: drain_to_eof_def run_cases)
  note P = drain_out_following [OF p assms(2) fds(1,3)]
  have "loop (drain_turn lfd) (cap_err (cap\<lparr>cap_out := p\<rparr>)) u = Some ((Inr (), q), v')" using q by simp
  from drain_err_following [OF this conjunct1 [OF P] fds(2,3)] P c show ?thesis by simp
qed

text \<open>Waiting, with the pipes in the set.\<close>

lemma reap_pidfd_aloof: "reap_pidfd fd v = Some (r, v') \<Longrightarrow> only (aloof lfd ofd efd) v v'"
  unfolding reap_pidfd_def waitid_turn_def
  by (rule keepsD [rotated], assumption) (intro keeps_intros; simp add: aloof_def)

lemma term_and_reap_aloof: "term_and_reap eng pid pidfd v = Some (r, v') \<Longrightarrow> only (aloof lfd ofd efd) v v'"
  unfolding term_and_reap_def reap_pidfd_def waitid_turn_def
  by (rule keepsD [rotated], assumption) (intro keeps_intros; simp add: aloof_def)

lemma wait_signal_aloof:
  assumes "sigfd \<noteq> ofd" "sigfd \<noteq> efd" "wait_signal pid sigfd n v = Some (r, v')"
  shows "only (aloof lfd ofd efd) v v'"
proof -
  have "keeps (aloof lfd ofd efd) v (wait_signal pid sigfd n v)"
    unfolding wait_signal_def by (intro keeps_intros; use assms(1,2) in \<open>simp add: aloof_def\<close>)
  from keepsD [OF this assms(3)] show ?thesis .
qed

lemma wait_pidfd_aloof: "wait_pidfd eng pidfd n v = Some (r, v') \<Longrightarrow> only (aloof lfd ofd efd) v v'"
  by (auto simp: wait_pidfd_def io_try_Some split: if_splits dest: reap_pidfd_aloof)

lemma wait_ready_following:
  assumes run: "wait_ready eng pid pidfd sigfd lfd n cap v = Some ((Inr oc, cap'), v')"
    and F: "following lfd ofd efd w cap v"
    and op: "polls_ok (since w v) \<Longrightarrow> (revents 1 n \<noteq> 0 \<longrightarrow> pe_open (cap_out cap)) \<and> (revents 2 n \<noteq> 0 \<longrightarrow> pe_open (cap_err cap))"
    and fds: "ofd \<noteq> lfd" "efd \<noteq> lfd" "ofd \<noteq> efd" "sigfd \<noteq> ofd" "sigfd \<noteq> efd"
  shows "following lfd ofd efd w cap' v'"
proof -
  from run obtain p v1 q v2 s v3 where p: "wait_pipe 1 n lfd (cap_out cap) v = Some ((Inr (), p), v1)"
    and q: "wait_pipe 2 n lfd (cap_err cap) v1 = Some ((Inr (), q), v2)" and s: "wait_signal pid sigfd n v2 = Some (Inr s, v3)"
    and k: "if s = None then wait_pidfd eng pidfd n v3 = Some (Inr oc, v') else v' = v3"
    and c: "cap' = cap\<lparr>cap_out := p, cap_err := q\<rparr>"
    by (auto simp: wait_ready_def Let_def run_cases split: option.splits sum.splits)
  have 1: "following lfd ofd efd w (cap\<lparr>cap_out := p\<rparr>) v1"
  proof (cases "revents 1 n = 0")
    case True
    with p F show ?thesis by (auto simp: wait_pipe_def)
  next
    case False
    with p have "drain_once lfd (cap_out cap) v = Some ((Inr (), p), v1)" by (simp add: wait_pipe_def)
    from following_out [OF F this _ fds(1,3)] op False show ?thesis by blast
  qed
  have 2: "following lfd ofd efd w cap' v2"
  proof (cases "revents 2 n = 0")
    case True
    with q have "q = cap_err (cap\<lparr>cap_out := p\<rparr>)" "v2 = v1" by (auto simp: wait_pipe_def)
    with 1 c show ?thesis by (metis cap_same(2))
  next
    case False
    with q have d: "drain_once lfd (cap_err (cap\<lparr>cap_out := p\<rparr>)) v1 = Some ((Inr (), q), v2)" by (simp add: wait_pipe_def)
    have "later w v" "later v v1"
      using F p drain_once_other(1) [of lfd "cap_out cap" v _ v1 "pe_fd (cap_out cap) + 1"]
      by (auto simp: following_def wait_pipe_def split: if_splits)
    note tr = since_trans [OF this]
    have "pe_open (cap_err (cap\<lparr>cap_out := p\<rparr>))" if "polls_ok (since w v1)" using op that False by (simp add: tr)
    from following_err [OF 1 d this fds(2,3)] c show ?thesis by simp
  qed
  have 3: "following lfd ofd efd w cap' v3" by (rule following_aloof [OF 2 wait_signal_aloof [OF fds(4,5) s]])
  then show ?thesis using k following_aloof [OF 3 wait_pidfd_aloof] by (auto split: if_splits)
qed

lemma polled:
  assumes "later w v" "sys (Poll (wait_fds eng pidfd sigfd cap) ms) v = Some (n, v')" "polls_ok (since w v')"
  shows "(revents 1 n \<noteq> 0 \<longrightarrow> pe_open (cap_out cap)) \<and> (revents 2 n \<noteq> 0 \<longrightarrow> pe_open (cap_err cap))"
proof -
  have "poll_quiet (Poll (wait_fds eng pidfd sigfd cap) ms, Some n)"
    using assms(3) sys_after(2) [OF assms(1,2)] by simp
  then show ?thesis by (auto simp: poll_quiet_def wait_fds_def upt_rec numeral_2_eq_2 split: if_splits)
qed

lemma wait_turn_following:
  assumes run: "wait_turn eng pid pidfd sigfd deadline lfd cap v = Some (c, v')"
    and F: "following lfd ofd efd w cap v"
    and fds: "ofd \<noteq> lfd" "efd \<noteq> lfd" "ofd \<noteq> efd" "sigfd \<noteq> ofd" "sigfd \<noteq> efd"
  shows "c = Continue cap' \<or> c = Break (Inr oc, cap') \<Longrightarrow> following lfd ofd efd w cap' v'"
proof -
  assume c: "c = Continue cap' \<or> c = Break (Inr oc, cap')"
  from run obtain now v1 n v2 where now: "sys Clock_ns v = Some (now, v1)"
    and n: "sys (Poll (wait_fds eng pidfd sigfd cap) (remaining_ms deadline (rv now))) v1 = Some (n, v2)"
    by (auto simp: wait_turn_def)
  have "only (aloof lfd ofd efd) v v2"
    using sys_after(1) [of v v1] sys_SomeE [OF now] sys_after [OF _ n, of v] by (auto simp: only_def aloof_def)
  note F2 = following_aloof [OF F this]
  have l1: "later w v1" using F sys_after(1) [OF _ now] by (auto simp: following_def)
  from run now n consider "cap' = cap" "v' = v2"
    | oc' where "wait_ready eng pid pidfd sigfd lfd n cap v2 = Some ((Inr oc', cap'), v')"
    using c by (fastforce simp: wait_turn_def run_cases split: if_splits option.splits)
  then show ?thesis
  proof cases
    case 1
    with F2 show ?thesis by simp
  next
    case 2
    from wait_ready_following [OF 2 F2 polled [OF l1 n] fds] show ?thesis .
  qed
qed

lemma wait_child_following:
  assumes "wait_child eng pid pidfd sigfd deadline lfd cap v = Some ((Inr oc, cap'), v')" and "following lfd ofd efd w cap v"
    and fds: "ofd \<noteq> lfd" "efd \<noteq> lfd" "ofd \<noteq> efd" "sigfd \<noteq> ofd" "sigfd \<noteq> efd"
  shows "following lfd ofd efd w cap' v'"
proof -
  have "\<forall>oc1 cap1. (Inr oc, cap') = (Inr oc1 :: error_code + wait_outcome, cap1) \<longrightarrow> following lfd ofd efd w cap1 v'"
  proof (rule loop_rule [OF assms(1) [unfolded wait_child_def], where I = "\<lambda>cap v. following lfd ofd efd w cap v"
      and Q = "\<lambda>r v. \<forall>oc1 cap1. r = (Inr oc1, cap1) \<longrightarrow> following lfd ofd efd w cap1 v"], goal_cases)
    case 1
    show ?case by (rule assms(2))
  next
    case (2 cap v cap' v')
    from wait_turn_following [OF 2(2,1) fds] show ?case by blast
  next
    case (3 cap v r v')
    from wait_turn_following [OF 3(2,1) fds] show ?case by blast
  qed
  then show ?thesis by blast
qed

lemma sup_child_following:
  assumes run: "sup_child eng pid pidfd sigfd deadline lfd cap v = Some ((Inr r, cap'), v')" and F: "following lfd ofd efd w cap v"
    and fds: "ofd \<noteq> lfd" "efd \<noteq> lfd" "ofd \<noteq> efd" "sigfd \<noteq> ofd" "sigfd \<noteq> efd"
  shows "following lfd ofd efd w cap' v' \<and> \<not> pe_open (cap_out cap') \<and> \<not> pe_open (cap_err cap')"
proof -
  have drained: "drain_to_eof lfd c u = Some ((Inr (), cap'), v')" if "sup_drain lfd c s st u = Some ((Inr r, cap'), v')" for c s st u
    using that by (auto simp: sup_drain_def run_cases split: sum.splits)
  from run obtain oc cap1 v1 where wait: "wait_child eng pid pidfd sigfd deadline lfd cap v = Some ((Inr oc, cap1), v1)"
    and k: "drain_to_eof lfd cap1 v1 = Some ((Inr (), cap'), v') \<or>
      (\<exists>st v2. term_and_reap eng pid pidfd v1 = Some (st, v2) \<and> drain_to_eof lfd cap1 v2 = Some ((Inr (), cap'), v'))"
    by (auto simp: sup_child_def run_cases dest!: drained)
  have F1: "following lfd ofd efd w cap1 v1" by (rule wait_child_following [OF wait F fds])
  from k obtain v2 where v2: "v2 = v1 \<or> (\<exists>st. term_and_reap eng pid pidfd v1 = Some (st, v2))"
    and d: "drain_to_eof lfd cap1 v2 = Some ((Inr (), cap'), v')" by blast
  from v2 have "following lfd ofd efd w cap1 v2"
    using F1 following_aloof [OF F1 term_and_reap_aloof] by blast
  from drain_to_eof_following [OF d this fds(1-3)] show ?thesis .
qed

text \<open>C29: What a child wrote is in the log, line by line. When a supervised child has ended (or was stopped)
  and its pipes are drained, the bytes appended to the log are a sequence of records, of which those tagged
  \<open>[out]\<close> are exactly the lines the child wrote to its standard output, in order and with a last line that
  lacks its newline, and those tagged \<open>[err]\<close> the lines of its standard error, however the kernel cut the
  reads and the writes. It is assumed that no line exceeds the 65536 bytes the relay buffers, that
  read(2), write(2) and poll(2) do what they document, and that the descriptors differ.\<close>

theorem supervise_log:
  assumes "sup_child eng pid pidfd sigfd deadline lfd (new_capture ofd efd) w = Some ((Inr r, cap), w')"
    and "honest (since w w')" "polls_ok (since w w')" "distinct [lfd, ofd, efd, sigfd]"
    and "short_lines (chars_of (received ofd (since w w')))" "short_lines (chars_of (received efd (since w w')))"
  shows "\<exists>rs. accepted lfd (since w w') = bytes_of (concat (List.map tagged_record rs)) \<and>
    stream_lines True rs = getlines (chars_of (received ofd (since w w'))) \<and>
    stream_lines False rs = getlines (chars_of (received efd (since w w')))"
proof -
  have "logged lfd ofd efd [] (new_capture ofd efd)"
    by (auto simp: logged_def caught_def new_capture_def no_newline_def intro!: exI [of _ "[]"])
  then have "following lfd ofd efd w (new_capture ofd efd) w" by (simp add: following_def)
  from sup_child_following [OF assms(1) this] assms show ?thesis
    by (auto simp: following_def logged_def caught_def)
qed

definition pp_script :: "answer list" where
  "pp_script =
     [returned 0, \<lparr>rv = 2, eno = 0, dat = [], evs = [(1, POLLIN), (2, POLLIN)]\<rparr>, gave (bytes_of ''ab''), gave (bytes_of [CHR ''e'', CHR 0x0A]), returned 8,
      returned 5, \<lparr>rv = 1, eno = 0, dat = [], evs = [(0, POLLIN)]\<rparr>, gave [17, 0, 0, 0], \<lparr>rv = 0, eno = 0, dat = [], evs = [(0, 1), (1, 3), (2, 42)]\<rparr>,
      gave (bytes_of [CHR 0x0A, CHR ''c'']), returned 3, returned 6, returned 0, failed EINTR, returned 8, returned 0]"

lemmas pp_eval = sup_child_def wait_child_def wait_turn_def wait_ready_def wait_pipe_def wait_signal_def wait_pidfd_def drain_once_def
  relay_feed_def relay_flush_def feed_lines.simps relay_emit_def relay_write_def relay_emit_turn_def sup_drain_def drain_to_eof_def
  drain_turn_def wait_fds_def new_capture_def loop.simps io_defs fd_reset_def revents_def ssi_signo_def si_pid_def status_from_def log_line_def

lemma pp_script_run:
  "\<exists>cap w'. sup_child Engine_sigchld 42 (-1) 6 10 3 (new_capture 4 5) (answering pp_script) =
     Some ((Inr (None, \<lparr>cs_exited = True, cs_value = 3\<rparr>), cap), w') \<and>
     honest (since (answering pp_script) w') \<and> polls_ok (since (answering pp_script) w') \<and>
     received 4 (since (answering pp_script) w') = bytes_of [CHR ''a'', CHR ''b'', CHR 0x0A, CHR ''c''] \<and>
     received 5 (since (answering pp_script) w') = bytes_of [CHR ''e'', CHR 0x0A]"
proof -
  have n: "unat (17 :: byte) = 17" by simp
  have q: "poll_quiet (Poll [a, b, (c, k), (d, l)] ms, Some n) \<longleftrightarrow> (fst a < 0 \<longrightarrow> revents 0 n = 0) \<and> (fst b < 0 \<longrightarrow> revents 1 n = 0) \<and>
    (c < 0 \<longrightarrow> revents 2 n = 0) \<and> (d < 0 \<longrightarrow> revents 3 n = 0)" for a b c d k l ms n
    by (auto simp: poll_quiet_def upt_rec numeral_2_eq_2 numeral_3_eq_3)
  have o: "poll_quiet (Read fd m, x)" "poll_quiet (Write fd bs, x)" "poll_quiet (Close fd, x)" "poll_quiet (Clock_ns, x)" "poll_quiet (Pipe c, x)"
    for fd m x bs c by (simp_all add: poll_quiet_def)
  show ?thesis by (simp add: pp_script_def pp_eval since_def filled_def q o n Let_def)
qed

lemma pp_lines: "getlines [CHR ''a'', CHR ''b'', CHR 0x0A, CHR ''c''] = [''ab'', ''c'']" "getlines [CHR ''e'', CHR 0x0A] = [''e'']"
  by (simp_all add: getlines.simps)

theorem supervise_log_witness:
  "\<exists>cap w' rs. sup_child Engine_sigchld 42 (-1) 6 10 3 (new_capture 4 5) (answering pp_script) =
       Some ((Inr (None, \<lparr>cs_exited = True, cs_value = 3\<rparr>), cap), w') \<and>
     accepted 3 (since (answering pp_script) w') = bytes_of (concat (List.map tagged_record rs)) \<and>
     stream_lines True rs = [''ab'', ''c''] \<and> stream_lines False rs = [''e'']"
proof -
  from pp_script_run obtain cap w' where
    r: "sup_child Engine_sigchld 42 (-1) 6 10 3 (new_capture 4 5) (answering pp_script) = Some ((Inr (None, \<lparr>cs_exited = True, cs_value = 3\<rparr>), cap), w')"
    and h: "honest (since (answering pp_script) w')" "polls_ok (since (answering pp_script) w')"
    and b: "received 4 (since (answering pp_script) w') = bytes_of [CHR ''a'', CHR ''b'', CHR 0x0A, CHR ''c'']"
      "received 5 (since (answering pp_script) w') = bytes_of [CHR ''e'', CHR 0x0A]" by blast
  have "distinct [3, 4, 5, 6 :: int]" by simp
  from supervise_log [OF r h this] have "\<exists>rs. accepted 3 (since (answering pp_script) w') = bytes_of (concat (List.map tagged_record rs)) \<and>
     stream_lines True rs = [''ab'', ''c''] \<and> stream_lines False rs = [''e'']"
    unfolding b chars_of_bytes_of short_lines_def pp_lines by simp
  with r show ?thesis by blast
qed

section \<open>A child that keeps writing\<close>

text \<open>The kernel's answers in one round of the loop: the clock, one pipe ready, a whole line in it, and the
  log takes all of the record.\<close>

definition chatty_round :: "int \<times> string \<Rightarrow> answer list" where
  "chatty_round r = [returned (fst r), \<lparr>rv = 1, eno = 0, dat = [], evs = [(1, POLLIN)]\<rparr>,
     gave (bytes_of (snd r @ [CHR 0x0A])), returned (int (List.length (log_line ''out'' (snd r))))]"

lemma relay_write_all:
  assumes "bs \<noteq> []"
  shows "relay_write lfd bs \<lparr>script = returned (int (List.length bs)) # s, trace = t\<rparr> =
    Some (Inr (), \<lparr>script = s, trace = t @ [(Write lfd bs, Some (returned (int (List.length bs))))]\<rparr>)"
  using assms by (simp add: relay_write_def relay_emit_turn_def loop.simps io_defs)

lemma feed_one_line:
  assumes "no_newline l"
  shows "\<exists>t'. feed_lines pfx lfd (l @ [CHR 0x0A]) \<lparr>script = returned (int (List.length (log_line pfx l))) # s, trace = t\<rparr> =
    Some (Inr [], \<lparr>script = s, trace = t'\<rparr>)"
proof -
  have "find_from (CHR 0x0A) (l @ [CHR 0x0A]) = Some (List.length l)"
    using assms by (simp add: no_newline_def find_from_append)
  moreover have "log_line pfx l \<noteq> []" by (simp add: log_line_def)
  ultimately show ?thesis
    using relay_write_all [of "bytes_of (log_line pfx l)" lfd s t]
    by (subst feed_lines.simps) (simp add: relay_emit_def feed_lines.simps [of _ _ "[]"])
qed

lemma chatty_turn:
  assumes "no_newline (snd r)"
  shows "\<exists>t'. wait_turn eng pid pidfd sigfd deadline lfd (new_capture ofd efd) \<lparr>script = chatty_round r @ s, trace = t\<rparr> =
    Some (Continue (new_capture ofd efd), \<lparr>script = s, trace = t'\<rparr>)"
proof -
  obtain t' where "feed_lines ''out'' lfd (snd r @ [CHR 0x0A]) \<lparr>script = returned (int (List.length (log_line ''out'' (snd r)))) # s,
      trace = t @ [(Clock_ns, Some (returned (fst r))),
        (Poll (wait_fds eng pidfd sigfd (new_capture ofd efd)) (remaining_ms deadline (fst r)), Some \<lparr>rv = 1, eno = 0, dat = [], evs = [(1, POLLIN)]\<rparr>),
        (Read ofd kChunk, Some (gave (bytes_of (snd r @ [CHR 0x0A]))))]\<rparr> = Some (Inr [], \<lparr>script = s, trace = t'\<rparr>)"
    using feed_one_line [OF assms] by blast
  then show ?thesis
    by (simp add: wait_turn_def chatty_round_def io_defs wait_ready_def wait_pipe_def wait_signal_def wait_pidfd_def revents_def
        drain_once_def relay_feed_def new_capture_def Let_def)
qed

text \<open>C30: The time limit does not bind a child that keeps writing. As long as \<open>poll\<close> finds one of the pipes
  ready each time, the loop of \<open>wait_child\<close> goes on, whatever the clock says, for any number of rounds past
  the deadline: the timeout is only noticed in the first \<open>poll\<close> that has nothing to report.\<close>

theorem supervise_chatty:
  assumes "list_all (\<lambda>r. no_newline (snd r)) rounds"
  shows "wait_child eng pid pidfd sigfd deadline lfd (new_capture ofd efd) (answering (concat (List.map chatty_round rounds))) = None \<and>
    (\<exists>w'. wait_child eng pid pidfd sigfd deadline lfd (new_capture ofd efd)
        (answering (concat (List.map chatty_round rounds) @ [returned now, returned 0])) =
      Some ((Inr (Stopped Stop_timeout), new_capture ofd efd), w'))"
proof -
  have goes_on: "\<exists>t'. wait_child eng pid pidfd sigfd deadline lfd (new_capture ofd efd) \<lparr>script = concat (List.map chatty_round rounds) @ s, trace = t\<rparr> =
      wait_child eng pid pidfd sigfd deadline lfd (new_capture ofd efd) \<lparr>script = s, trace = t'\<rparr>" for s t
    using assms
  proof (induction rounds arbitrary: t)
    case Nil
    show ?case by auto
  next
    case (Cons r rounds)
    then have "no_newline (snd r)" by simp
    from chatty_turn [OF this, of eng pid pidfd sigfd deadline lfd ofd efd "concat (List.map chatty_round rounds) @ s" t]
    obtain t1 where t1: "wait_turn eng pid pidfd sigfd deadline lfd (new_capture ofd efd) \<lparr>script = chatty_round r @ concat (List.map chatty_round rounds) @ s, trace = t\<rparr> =
        Some (Continue (new_capture ofd efd), \<lparr>script = concat (List.map chatty_round rounds) @ s, trace = t1\<rparr>)" by blast
    from Cons.IH [of t1] Cons.prems obtain t2 where
      "wait_child eng pid pidfd sigfd deadline lfd (new_capture ofd efd) \<lparr>script = concat (List.map chatty_round rounds) @ s, trace = t1\<rparr> =
        wait_child eng pid pidfd sigfd deadline lfd (new_capture ofd efd) \<lparr>script = s, trace = t2\<rparr>" by auto
    with loop_Continue [of "wait_turn eng pid pidfd sigfd deadline lfd", OF t1] show ?case by (auto simp: wait_child_def)
  qed
  have "wait_child eng pid pidfd sigfd deadline lfd (new_capture ofd efd) \<lparr>script = [], trace = t\<rparr> = None" for t
    unfolding wait_child_def by (rule loop_blocked) (simp add: wait_turn_def io_defs)
  with goes_on [of "[]" "[]"] have 1: "wait_child eng pid pidfd sigfd deadline lfd (new_capture ofd efd) (answering (concat (List.map chatty_round rounds))) = None"
    by (auto simp: answering_def)
  have "\<exists>w'. wait_child eng pid pidfd sigfd deadline lfd (new_capture ofd efd) \<lparr>script = [returned now, returned 0], trace = t\<rparr> =
      Some ((Inr (Stopped Stop_timeout), new_capture ofd efd), w')" for t
    by (simp add: wait_child_def loop.simps wait_turn_def io_defs)
  with goes_on [of "[returned now, returned 0]" "[]"] show ?thesis using 1 by (auto simp: answering_def)
qed

theorem supervise_chatty_witness:
  "wait_child Engine_pidfd 42 7 6 1000000 3 (new_capture 4 5) (answering (concat (List.map chatty_round (replicate 100 (5000000000, ''y''))))) = None \<and>
    (\<exists>w'. wait_child Engine_pidfd 42 7 6 1000000 3 (new_capture 4 5)
        (answering (concat (List.map chatty_round (replicate 100 (5000000000, ''y''))) @ [returned 5000000000, returned 0])) =
      Some ((Inr (Stopped Stop_timeout), new_capture 4 5), w'))"
  by (rule supervise_chatty) (simp add: list_all_iff no_newline_def)

section \<open>The command line\<close>

text \<open>A first argument \<open>--\<close> ends the program by an exception instead of with the usage.\<close>

lemma pp_main_leading_dashes: "pp_main (''--'' # c # cmd) w = Some (Pp_length_error, w)"
  by (simp add: pp_main_def)

end
