(* ===== verification/PipesSup.thy ===== *)
theory PipesSup
  imports PipesLog "HOL-Library.Multiset"
begin

text \<open>
  The supervisor around the children: what it prints is a history of abnormal exits and restarts and one
  of the four ways to end, and every descriptor it opened for a child is closed again.
\<close>

section \<open>The report\<close>

definition clean_exit :: "child_status \<Rightarrow> bool" where
  "clean_exit st \<longleftrightarrow> cs_exited st \<and> cs_value st = 0"

definition restart_line :: "int \<Rightarrow> int \<Rightarrow> string" where
  "restart_line max_restarts k = ''pmon: restart '' @ show_int k @ ''/'' @ show_int max_restarts"

text \<open>The lines for the abnormal exits that were followed by a restart.\<close>

definition restart_report :: "int \<Rightarrow> (int \<times> child_status) list \<Rightarrow> string list" where
  "restart_report max_restarts hist =
     concat (List.map (\<lambda>(i, pid, st). [exit_line pid st, restart_line max_restarts (int i + 1)]) (List.enumerate 0 hist))"

text \<open>The last lines and the exit status: a failed call, a clean exit, a stop, or giving up after \<open>k\<close> restarts.\<close>

definition report_ends :: "int \<Rightarrow> int \<Rightarrow> string list \<Rightarrow> int \<Rightarrow> bool" where
  "report_ends max_restarts k ls code \<longleftrightarrow>
     ls = [] \<and> code = 1 \<or>
     (\<exists>pid st. clean_exit st \<and> ls = [exit_line pid st] \<and> code = 0) \<or>
     (\<exists>pid st why. why \<in> {''signal'', ''timeout''} \<and> ls = [exit_line pid st, ''pmon: exiting ('' @ why @ '')''] \<and> code = 0) \<or>
     (\<exists>pid st. \<not> clean_exit st \<and> k = max_restarts \<and> code = 1 \<and>
        ls = [exit_line pid st, ''pmon: giving up after '' @ show_int max_restarts @ '' restarts''])"

definition out_line :: "call \<Rightarrow> string list" where
  "out_line c = (case c of Print Stdout [Txt l] \<Rightarrow> [l] | _ \<Rightarrow> [])"

definition started :: "call \<Rightarrow> unit list" where
  "started c = (case c of Pipe (Pc_spawnp cmd ofd efd) \<Rightarrow> [()] | _ \<Rightarrow> [])"

lemma report_simps [simp]:
  "out_line (Print Stdout [Txt l]) = [l]" "out_line (Print Stderr m) = []" "out_line (Read fd n) = []" "out_line (Write fd bs) = []"
  "out_line (Close fd) = []" "out_line (Pipe c) = []" "out_line (Proc p) = []" "out_line (Ev e) = []" "out_line (Fflush st) = []" "out_line Clock_ns = []"
  "started (Print st m) = []" "started (Read fd n) = []" "started (Write fd bs) = []" "started (Close fd) = []" "started (Proc p) = []" "started (Ev e) = []"
  "started (Fflush st) = []" "started Clock_ns = []" "started (Pipe (Pc_spawnp cmd ofd efd)) = [()]" "started (Pipe Pc_pipe2) = []"
  "started (Pipe (Pc_pidfd_open i)) = []" "started (Pipe (Pc_pidfd_signal i j)) = []" "started (Pipe (Pc_waitid_pidfd i)) = []" "started (Pipe (Pc_waitid i b)) = []"
  "started (Pipe (Pc_block sigs)) = []" "started (Pipe (Pc_signalfd sigs)) = []" "started (Pipe (Pc_open_append f)) = []"
  by (simp_all add: out_line_def started_def)

abbreviation silent :: "call \<Rightarrow> bool" where
  "silent c \<equiv> out_line c = [] \<and> started c = []"

lemma silent_proj: "only silent v v' \<Longrightarrow> later v v' \<and> proj out_line (since v v') = [] \<and> proj started (since v v') = []"
  by (auto simp: only_def intro!: proj_Nil elim!: list.pred_mono_strong)

lemma fd_reset_only: "only P w0 w \<Longrightarrow> P (Close fd) \<Longrightarrow> only P w0 (fd_reset fd w)"
  by (simp add: fd_reset_def only_emit)

lemma close_capture_only [keeps_intros]: "only P w0 w \<Longrightarrow> (\<And>fd. P (Close fd)) \<Longrightarrow> only P w0 (close_capture cap w)"
  by (simp add: close_capture_def fd_reset_only)

lemma drains_keep [keeps_intros]:
  assumes "only P w0 w" "\<And>fd. P (Read fd kChunk)" "\<And>fd. P (Close fd)" "\<And>bs. P (Write lfd bs)"
  shows "keeps P w0 (loop (drain_turn lfd) p w)" "keeps P w0 (drain_to_eof lfd cap w)"
  using assms(1) unfolding drain_to_eof_def drain_turn_def by (intro keeps_intros assms; simp add: assms)+

lemma keeps_case_wait_outcome [keeps_intros]:
  "(\<And>st. oc = Exit_seen st \<Longrightarrow> keeps P w0 (f st)) \<Longrightarrow> (\<And>s. oc = Stopped s \<Longrightarrow> keeps P w0 (g s)) \<Longrightarrow>
    keeps P w0 (case oc of Exit_seen st \<Rightarrow> f st | Stopped s \<Rightarrow> g s)"
  by (cases oc) simp_all

text \<open>The calls that following a child makes.\<close>

definition attends :: "call \<Rightarrow> bool" where
  "attends c = (case c of Read fd n \<Rightarrow> True | Close fd \<Rightarrow> True | Write fd bs \<Rightarrow> True | Clock_ns \<Rightarrow> True | Ev e \<Rightarrow> True | Proc p \<Rightarrow> True
     | Pipe p \<Rightarrow> (case p of Pc_pidfd_signal i j \<Rightarrow> True | Pc_waitid_pidfd i \<Rightarrow> True | Pc_waitid i b \<Rightarrow> True | _ \<Rightarrow> False) | _ \<Rightarrow> False)"

lemma attends_simps [simp]:
  "attends (Read fd n)" "attends (Close fd)" "attends (Write fd bs)" "attends Clock_ns" "attends (Ev e)" "attends (Proc p)"
  "attends (Pipe (Pc_pidfd_signal i j))" "attends (Pipe (Pc_waitid_pidfd i))" "attends (Pipe (Pc_waitid i b))"
  by (simp_all add: attends_def)

lemma attends_silent: "attends c \<Longrightarrow> silent c"
  by (auto simp: attends_def out_line_def started_def split: call.splits pipe_call.splits)

lemma waits_keep [keeps_intros]:
  assumes "only attends w0 w"
  shows "keeps attends w0 (loop (waitid_turn (Pipe (Pc_waitid i b))) u w)" "keeps attends w0 (reap_pidfd fd w)"
    "keeps attends w0 (wait_signal pid sigfd n w)" "keeps attends w0 (wait_pidfd eng pidfd n w)" "keeps attends w0 (term_and_reap eng pid pidfd w)"
    "keeps attends w0 (wait_pipe k n lfd p w)"
  using assms unfolding reap_pidfd_def waitid_turn_def wait_signal_def wait_pidfd_def term_and_reap_def wait_pipe_def
  by (intro keeps_intros; simp)+

lemma wait_child_keeps [keeps_intros]:
  assumes "only attends w0 w"
  shows "keeps attends w0 (wait_child eng pid pidfd sigfd deadline lfd cap w)"
  using assms unfolding wait_child_def wait_turn_def wait_ready_def Let_def by (intro keeps_intros; simp)

lemma sup_child_attends:
  assumes "sup_child eng pid pidfd sigfd deadline lfd cap w = Some (r, w')"
  shows "only attends w w'"
proof (rule keepsD [OF _ assms])
  show "keeps attends w (sup_child eng pid pidfd sigfd deadline lfd cap w)"
    unfolding sup_child_def sup_drain_def by (intro keeps_intros; simp)
qed

lemma sup_child_silent: "sup_child eng pid pidfd sigfd deadline lfd cap w = Some (r, w') \<Longrightarrow>
    later w w' \<and> proj out_line (since w w') = [] \<and> proj started (since w w') = []"
  by (rule silent_proj) (auto simp: only_def attends_silent dest!: sup_child_attends elim!: list.pred_mono_strong)

text \<open>Since \<open>w\<close> the lines \<open>ls\<close> were printed and \<open>k\<close> children started.\<close>

definition told :: "string list \<Rightarrow> nat \<Rightarrow> world \<Rightarrow> world \<Rightarrow> bool" where
  "told ls k w v \<longleftrightarrow> later w v \<and> proj out_line (since w v) = ls \<and> List.length (proj started (since w v)) = k"

lemma told_refl [simp]: "told [] 0 w w"
  by (simp add: told_def)

lemma told_trans: "told ls k w v \<Longrightarrow> told ms n v v' \<Longrightarrow> told (ls @ ms) (k + n) w v'"
  using since_trans [of w v v'] later_trans [of w v v'] by (auto simp: told_def)

lemma told_simps:
  assumes "told ls k w v"
  shows "silent c \<Longrightarrow> told ls k w (emit c v)" "told ls k w (println Stderr m v)" "told (ls @ [l]) k w (println Stdout [Txt l] v)"
    "told ls k w (fd_reset fd v)" "told ls k w (close_capture cap v)"
    "sys c v = Some (a, v') \<Longrightarrow> silent c \<Longrightarrow> told ls k w v'"
    "sys (Pipe (Pc_spawnp cmd ofd efd)) v = Some (a, v') \<Longrightarrow> told ls (Suc k) w v'"
  using assms sys_after [of w v c a v'] sys_after [of w v "Pipe (Pc_spawnp cmd ofd efd)" a v']
  by (auto simp: told_def fd_reset_def close_capture_def)

lemma told_flushed: "told ls k w v \<Longrightarrow> told (ls @ ms) k w (print_flushed ms v)"
proof (induction ms arbitrary: ls v)
  case Nil
  then show ?case by (simp add: print_flushed_def)
next
  case (Cons m ms)
  have "told (ls @ [m]) k w (emit (Fflush Stdout) (println Stdout [Txt m] v))"
    by (intro told_simps(1) told_simps(3) Cons.prems) simp
  from Cons.IH [OF this] show ?case by (simp add: print_flushed_def)
qed

lemma sup_pidfd_told:
  assumes "sup_pidfd eng pid cap v = Some (x, v')" "told ls k w v"
  shows "told ls k w v' \<and> (x = Inl 1 \<or> (\<exists>y. x = Inr y))"
proof -
  from assms(1) obtain v1 where v1: "v1 = v \<or> (\<exists>f. sys (Pipe (Pc_pidfd_open pid)) v = Some (f, v1))"
    and k: "(\<exists>m. x = Inl 1 \<and> v' = close_capture cap (println Stderr m v1)) \<or> (\<exists>m y. x = Inr y \<and> v' = println Stderr m v1)"
    by (fastforce simp: sup_pidfd_def split: if_splits)
  have "told ls k w v1" using v1 assms(2) told_simps(6) [OF assms(2), of "Pipe (Pc_pidfd_open pid)" _ v1] by auto
  with k show ?thesis by (auto intro: told_simps(2,5))
qed

lemma sup_spawn_told:
  assumes "sup_spawn eng cmd p q v = Some (x, v')" "told ls k w v"
  shows "told ls (Suc k) w v' \<and> (x = Inl 1 \<or> (\<exists>y. x = Inr y))"
proof -
  obtain c v1 where c: "spawn_child cmd (fd_in 1 p) (fd_in 1 q) v = Some (c, v1)"
    using assms(1) by (auto simp: sup_spawn_def Let_def)
  then obtain a where "sys (Pipe (Pc_spawnp cmd (fd_in 1 p) (fd_in 1 q))) v = Some (a, v1)"
    by (auto simp: spawn_child_def split: if_splits)
  note t = told_simps(7) [OF assms(2) this]
  show ?thesis
  proof (cases c)
    case (Inl e)
    with assms(1) c t show ?thesis by (auto simp: sup_spawn_def Let_def intro!: told_simps(2,4,5))
  next
    case (Inr pid)
    with assms(1) c have "sup_pidfd eng pid (new_capture (fd_in 0 p) (fd_in 0 q)) (fd_reset (fd_in 1 q) (fd_reset (fd_in 1 p) v1)) = Some (x, v')"
      by (simp add: sup_spawn_def Let_def)
    from sup_pidfd_told [OF this told_simps(4) [OF told_simps(4) [OF t]]] show ?thesis .
  qed
qed

lemma sup_start_told:
  assumes "sup_start eng cmd w = Some (x, v')"
  shows "(x = Inl 1 \<and> (told [] 0 w v' \<or> told [] 1 w v')) \<or> (\<exists>y. x = Inr y) \<and> told [] 1 w v'"
proof -
  obtain p v1 where p: "sys (Pipe Pc_pipe2) w = Some (p, v1)" using assms by (auto simp: sup_start_def)
  have 1: "told [] 0 w v1" by (rule told_simps(6) [OF told_refl p]) simp
  show ?thesis
  proof (cases "rv p = 0")
    case False
    with assms p 1 show ?thesis by (auto simp: sup_start_def intro: told_simps(2))
  next
    case True
    with assms p obtain q v2 where q: "sys (Pipe Pc_pipe2) v1 = Some (q, v2)" by (auto simp: sup_start_def)
    have 2: "told [] 0 w v2" by (rule told_simps(6) [OF 1 q]) simp
    show ?thesis
    proof (cases "rv q = 0")
      case False
      with assms p q True 2 show ?thesis by (auto simp: sup_start_def intro: told_simps(2))
    next
      case True
      with assms p q \<open>rv p = 0\<close> have "sup_spawn eng cmd p q v2 = Some (x, v')" by (simp add: sup_start_def)
      from sup_spawn_told [OF this 2] show ?thesis by auto
    qed
  qed
qed

lemma sup_turn_cases:
  assumes "sup_turn eng max_restarts deadline lfd sigfd cmd r w = Some (c, v')"
  obtains (unstarted) code where "sup_start eng cmd w = Some (Inl code, v')" "c = Break code"
  | (broken) pid pidfd cap v1 m cap' v2 where "sup_start eng cmd w = Some (Inr (pid, pidfd, cap), v1)"
      "sup_child eng pid pidfd sigfd deadline lfd cap v1 = Some ((Inl m, cap'), v2)" "c = Break 1"
      "v' = close_capture cap' (fd_reset pidfd (println Stderr m v2))"
  | (ended) pid pidfd cap v1 why st cap' v2 where "sup_start eng cmd w = Some (Inr (pid, pidfd, cap), v1)"
      "sup_child eng pid pidfd sigfd deadline lfd cap v1 = Some ((Inr (why, st), cap'), v2)" "c = snd (sup_policy max_restarts r why st)"
      "v' = close_capture cap' (fd_reset pidfd (print_flushed (fst (sup_policy max_restarts r why st)) (print_flushed [exit_line pid st] v2)))"
proof -
  obtain s v1 where s: "sup_start eng cmd w = Some (s, v1)" using assms by (auto simp: sup_turn_def)
  show ?thesis
  proof (cases s)
    case (Inl code)
    with assms s unstarted show ?thesis by (auto simp: sup_turn_def)
  next
    case (Inr y)
    obtain pid pidfd cap where y: "y = (pid, pidfd, cap)" by (cases y)
    with assms s Inr obtain x cap' v2 where ch: "sup_child eng pid pidfd sigfd deadline lfd cap v1 = Some ((x, cap'), v2)"
      by (auto simp: sup_turn_def)
    show ?thesis
    proof (cases x)
      case (Inl m)
      with assms s Inr y ch show ?thesis by (auto simp: sup_turn_def intro: broken)
    next
      case (Inr z)
      obtain why st where z: "z = (why, st)" by (cases z)
      from assms s \<open>s = Inr y\<close> y ch Inr z show ?thesis
        by (intro ended [of pid pidfd cap v1 why st cap' v2]) (auto simp: sup_turn_def report_exit_def print_flushed_def case_prod_beta)
    qed
  qed
qed

lemma sup_turn_told:
  assumes "sup_turn eng max_restarts deadline lfd sigfd cmd r w = Some (c, v')" "r \<le> max_restarts"
  shows "(\<exists>pid st. c = Continue (r + 1) \<and> r < max_restarts \<and> \<not> clean_exit st \<and> told [exit_line pid st, restart_line max_restarts (r + 1)] 1 w v') \<or>
    (\<exists>ls k code. c = Break code \<and> k \<le> 1 \<and> told ls k w v' \<and> report_ends max_restarts r ls code)"
  using assms(1)
proof (cases rule: sup_turn_cases)
  case (unstarted code)
  from sup_start_told [OF unstarted(1)] unstarted(2) show ?thesis by (auto simp: report_ends_def)
next
  case (broken pid pidfd cap v1 m cap' v2)
  from sup_start_told [OF broken(1)] have "told [] 1 w v1" by auto
  from told_trans [OF this, of "[]" 0 v2] sup_child_silent [OF broken(2)] have "told [] 1 w v2" by (simp add: told_def)
  then have "told [] 1 w v'" unfolding broken(4) by (intro told_simps(2,4,5))
  then show ?thesis using broken(3) by (auto simp: report_ends_def)
next
  case (ended pid pidfd cap v1 why st cap' v2)
  from sup_start_told [OF ended(1)] have "told [] 1 w v1" by auto
  from told_trans [OF this, of "[]" 0 v2] sup_child_silent [OF ended(2)] have "told [] 1 w v2" by (simp add: told_def)
  then have "told ([] @ [exit_line pid st] @ fst (sup_policy max_restarts r why st)) 1 w v'"
    unfolding ended(4) append_assoc [symmetric] by (intro told_simps(4,5) told_flushed)
  then have t: "told (exit_line pid st # fst (sup_policy max_restarts r why st)) 1 w v'" by simp
  show ?thesis
  proof (cases "why = None \<and> \<not> clean_exit st \<and> r < max_restarts")
    case True
    then have "sup_policy max_restarts r why st = ([restart_line max_restarts (r + 1)], Continue (r + 1))"
      by (simp add: sup_policy_def clean_exit_def restart_line_def)
    with t ended(3) True show ?thesis by auto
  next
    case False
    then have "\<exists>code. snd (sup_policy max_restarts r why st) = Break code \<and>
        report_ends max_restarts r (exit_line pid st # fst (sup_policy max_restarts r why st)) code"
      using assms(2) by (cases why) (auto simp: sup_policy_def report_ends_def clean_exit_def)
    with t ended(3) show ?thesis by (metis le_refl)
  qed
qed

lemma restart_report_snoc: "restart_report max_restarts (hist @ [(pid, st)]) =
    restart_report max_restarts hist @ [exit_line pid st, restart_line max_restarts (int (List.length hist) + 1)]"
  by (simp add: restart_report_def enumerate_append_eq)

lemma sup_loop_told:
  assumes "loop (sup_turn eng max_restarts deadline lfd sigfd cmd) 0 v0 = Some (code, v')" "told [] 0 w v0" "0 \<le> max_restarts"
  shows "\<exists>hist ls k. int (List.length hist) \<le> max_restarts \<and> list_all (\<lambda>(pid, st). \<not> clean_exit st) hist \<and>
    told (restart_report max_restarts hist @ ls) k w v' \<and> k \<le> List.length hist + 1 \<and> report_ends max_restarts (int (List.length hist)) ls code"
proof (rule loop_rule [OF assms(1), where I = "\<lambda>r v. \<exists>hist. r = int (List.length hist) \<and> r \<le> max_restarts \<and>
      list_all (\<lambda>(pid, st). \<not> clean_exit st) hist \<and> told (restart_report max_restarts hist) (List.length hist) w v"], goal_cases)
  case 1
  show ?case using assms(2,3) by (intro exI [of _ "[]"]) (simp add: restart_report_def)
next
  case (2 r v r' v')
  then obtain hist where h: "r = int (List.length hist)" "r \<le> max_restarts" "list_all (\<lambda>(pid, st). \<not> clean_exit st) hist"
    "told (restart_report max_restarts hist) (List.length hist) w v" by blast
  from sup_turn_told [OF 2(2) h(2)] obtain pid st where t: "r' = r + 1" "r < max_restarts" "\<not> clean_exit st"
    "told [exit_line pid st, restart_line max_restarts (r + 1)] 1 v v'" by auto
  from told_trans [OF h(4) t(4)] h(1,3) t(1-3) show ?case
    by (intro exI [of _ "hist @ [(pid, st)]"]) (simp add: restart_report_snoc)
next
  case (3 r v code v')
  then obtain hist where h: "r = int (List.length hist)" "r \<le> max_restarts" "list_all (\<lambda>(pid, st). \<not> clean_exit st) hist"
    "told (restart_report max_restarts hist) (List.length hist) w v" by blast
  from sup_turn_told [OF 3(2) h(2)] obtain ls k where t: "k \<le> 1" "told ls k v v'" "report_ends max_restarts r ls code" by auto
  from told_trans [OF h(4) t(2)] h t(1,3) show ?case
    by (intro exI [of _ hist] exI [of _ ls] exI [of _ "List.length hist + k"]) simp
qed

text \<open>C31: What a supervisor does is its restart policy. The lines \<open>pmon supervise\<close> prints are, for each of at
  most \<open>max_restarts\<close> abnormal exits, the report of the exit and of the restart with its number, and then one
  of four ends: none (a system call failed, status 1), a clean exit or a stop (status 0), or one more
  abnormal exit and the line that it gives up (status 1), which comes after exactly \<open>max_restarts\<close>
  restarts. The child is started once more than it is restarted, at most.\<close>

theorem supervise_report:
  assumes "cmd_supervise eng max_restarts timeout_ms log_path cmd w = Some (code, w')" "0 \<le> max_restarts"
  shows "\<exists>hist ls. int (List.length hist) \<le> max_restarts \<and> list_all (\<lambda>(pid, st). \<not> clean_exit st) hist \<and>
    proj out_line (since w w') = restart_report max_restarts hist @ ls \<and>
    report_ends max_restarts (int (List.length hist)) ls code \<and>
    List.length (proj started (since w w')) \<le> List.length hist + 1"
proof -
  have early: ?thesis if "told [] 0 w w'" "code = 1"
    using that assms(2) by (intro exI [of _ "[]"]) (simp add: told_def restart_report_def report_ends_def)
  obtain l v1 where l: "sys (Pipe (Pc_open_append log_path)) w = Some (l, v1)" using assms(1) by (auto simp: cmd_supervise_def)
  have 1: "told [] 0 w v1" by (rule told_simps(6) [OF told_refl l]) simp
  show ?thesis
  proof (cases "rv l < 0")
    case True
    with assms(1) l 1 have "told [] 0 w w'" "code = 1" by (auto simp: cmd_supervise_def intro: told_simps(2))
    then show ?thesis by (rule early)
  next
    case False
    with assms(1) l obtain s v2 where s: "make_signalfd (if eng = Engine_pidfd then [SIGINT, SIGTERM] else [SIGCHLD, SIGINT, SIGTERM]) v1 = Some (s, v2)"
      by (auto simp: cmd_supervise_def)
    have "keeps silent v1 (make_signalfd sigs v1)" for sigs unfolding make_signalfd_def by (intro keeps_intros; simp)
    from told_trans [OF 1, of "[]" 0 v2] silent_proj [OF keepsD [OF this s]] have 2: "told [] 0 w v2" by (simp add: told_def)
    show ?thesis
    proof (cases s)
      case (Inl e)
      with assms(1) l s False 2 have "told [] 0 w w'" "code = 1" by (auto simp: cmd_supervise_def intro: told_simps(2,4))
      then show ?thesis by (rule early)
    next
      case (Inr sigfd)
      with assms(1) l s False obtain now v3 v4 where now: "sys Clock_ns v2 = Some (now, v3)"
        and lp: "loop (sup_turn eng max_restarts (rv now + timeout_ms * 1000000) (rv l) sigfd cmd) 0 v3 = Some (code, v4)"
        and w': "w' = fd_reset (rv l) (fd_reset sigfd v4)" by (auto simp: cmd_supervise_def)
      have 3: "told [] 0 w v3" by (rule told_simps(6) [OF 2 now]) simp
      from sup_loop_told [OF lp 3 assms(2)] obtain hist ls k where h: "int (List.length hist) \<le> max_restarts" "list_all (\<lambda>(pid, st). \<not> clean_exit st) hist"
        "told (restart_report max_restarts hist @ ls) k w v4" "k \<le> List.length hist + 1" "report_ends max_restarts (int (List.length hist)) ls code" by blast
      have "told (restart_report max_restarts hist @ ls) k w w'" unfolding w' by (intro told_simps(4) h(3))
      with h show ?thesis by (auto simp: told_def)
    qed
  qed
qed

text \<open>A run: the child is killed by signal 9, started again, and exits with status 2; one restart is allowed.\<close>

definition sup_script :: "answer list" where
  "sup_script =
     [returned 3, returned 0, returned 4, returned 0,
      \<lparr>rv = 0, eno = 0, dat = [], evs = [(0, 5), (1, 6)]\<rparr>, \<lparr>rv = 0, eno = 0, dat = [], evs = [(0, 7), (1, 8)]\<rparr>, returned 42, returned 9,
      returned 0, \<lparr>rv = 1, eno = 0, dat = [], evs = [(3, POLLIN)]\<rparr>, \<lparr>rv = 0, eno = 0, dat = [], evs = [(0, 2), (1, 9), (2, 42)]\<rparr>, returned 0, returned 0,
      \<lparr>rv = 0, eno = 0, dat = [], evs = [(0, 5), (1, 6)]\<rparr>, \<lparr>rv = 0, eno = 0, dat = [], evs = [(0, 7), (1, 8)]\<rparr>, returned 43, returned 9,
      returned 0, \<lparr>rv = 1, eno = 0, dat = [], evs = [(3, POLLIN)]\<rparr>, \<lparr>rv = 0, eno = 0, dat = [], evs = [(0, 1), (1, 2), (2, 43)]\<rparr>, returned 0, returned 0]"

lemmas sup_eval = cmd_supervise_def make_signalfd_def sup_turn_def sup_start_def sup_spawn_def sup_pidfd_def spawn_child_def
  sup_child_def wait_child_def wait_turn_def wait_ready_def wait_pipe_def wait_signal_def wait_pidfd_def reap_pidfd_def waitid_turn_def
  sup_drain_def drain_to_eof_def drain_turn_def drain_once_def relay_flush_def new_capture_def close_capture_def fd_in_def
  sup_policy_def report_exit_def print_flushed_def exit_line_def status_from_def fd_reset_def revents_def loop.simps io_defs

lemma sup_script_run:
  "\<exists>w'. cmd_supervise Engine_pidfd 1 10000 ''log'' [''sleep''] (answering sup_script) = Some (1, w') \<and>
     proj out_line (since (answering sup_script) w') =
       [''pmon: child=42 killed signal=9'', ''pmon: restart 1/1'', ''pmon: child=43 exited status=2'', ''pmon: giving up after 1 restarts'']"
  by (simp add: sup_script_def sup_eval since_def out_line_def show_int_def show_nat.simps digit_char_def char_of_def bit_iff_odd)

theorem supervise_report_witness:
  "\<exists>w' hist ls. cmd_supervise Engine_pidfd 1 10000 ''log'' [''sleep''] (answering sup_script) = Some (1, w') \<and>
     [''pmon: child=42 killed signal=9'', ''pmon: restart 1/1'', ''pmon: child=43 exited status=2'', ''pmon: giving up after 1 restarts'']
       = restart_report 1 hist @ ls \<and> report_ends 1 (int (List.length hist)) ls 1"
proof -
  from sup_script_run obtain w' where r: "cmd_supervise Engine_pidfd 1 10000 ''log'' [''sleep''] (answering sup_script) = Some (1, w')"
    and p: "proj out_line (since (answering sup_script) w') =
       [''pmon: child=42 killed signal=9'', ''pmon: restart 1/1'', ''pmon: child=43 exited status=2'', ''pmon: giving up after 1 restarts'']" by blast
  have "(0 :: int) \<le> 1" by simp
  from supervise_report [OF r this] p r show ?thesis by metis
qed

section \<open>Descriptors\<close>

definition fd_opens :: "call \<times> answer option \<Rightarrow> int list" where
  "fd_opens e = (case e of
     (Pipe Pc_pipe2, Some a) \<Rightarrow> if rv a = 0 then [fd_in 0 a, fd_in 1 a] else []
   | (Pipe (Pc_pidfd_open i), Some a) \<Rightarrow> if 0 \<le> rv a then [rv a] else []
   | (Pipe (Pc_open_append f), Some a) \<Rightarrow> if 0 \<le> rv a then [rv a] else []
   | (Pipe (Pc_signalfd sigs), Some a) \<Rightarrow> if 0 \<le> rv a then [rv a] else []
   | _ \<Rightarrow> [])"

definition fd_closes :: "call \<times> answer option \<Rightarrow> int list" where
  "fd_closes e = (case e of (Close fd, _) \<Rightarrow> [fd] | _ \<Rightarrow> [])"

definition fds_opened :: "(call \<times> answer option) list \<Rightarrow> int list" where
  "fds_opened t = concat (List.map fd_opens t)"

definition fds_closed :: "(call \<times> answer option) list \<Rightarrow> int list" where
  "fds_closed t = concat (List.map fd_closes t)"

text \<open>\<open>pipe2\<close> succeeds, and its descriptors are descriptors.\<close>

definition pipe_ok :: "call \<times> answer option \<Rightarrow> bool" where
  "pipe_ok e = (case e of (Pipe Pc_pipe2, Some a) \<Rightarrow> rv a = 0 \<and> 0 \<le> fd_in 0 a \<and> 0 \<le> fd_in 1 a | _ \<Rightarrow> True)"

abbreviation pipes_ok :: "(call \<times> answer option) list \<Rightarrow> bool" where
  "pipes_ok \<equiv> list_all pipe_ok"

text \<open>Since \<open>w\<close> all descriptors opened were closed but those of \<open>F\<close>.\<close>

definition holds :: "int multiset \<Rightarrow> world \<Rightarrow> world \<Rightarrow> bool" where
  "holds F w v \<longleftrightarrow> later w v \<and> (pipes_ok (since w v) \<longrightarrow> mset (fds_opened (since w v)) = mset (fds_closed (since w v)) + F)"

definition own :: "int \<Rightarrow> int multiset" where
  "own fd = (if 0 \<le> fd then {#fd#} else {#})"

definition cap_own :: "capture \<Rightarrow> int multiset" where
  "cap_own cap = own (pe_fd (cap_out cap)) + own (pe_fd (cap_err cap))"

text \<open>Calls that open and close nothing.\<close>

definition fd_neutral :: "call \<Rightarrow> bool" where
  "fd_neutral c \<longleftrightarrow> (\<forall>fd. c \<noteq> Close fd) \<and> c \<noteq> Pipe Pc_pipe2 \<and>
     (\<forall>i f sigs. c \<noteq> Pipe (Pc_pidfd_open i) \<and> c \<noteq> Pipe (Pc_open_append f) \<and> c \<noteq> Pipe (Pc_signalfd sigs))"

lemma neutral_by: "fd_neutral c \<Longrightarrow> fd_opens (c, x) = [] \<and> fd_closes (c, x) = [] \<and> pipe_ok (c, x)"
  by (auto simp: fd_neutral_def fd_opens_def fd_closes_def pipe_ok_def split: call.splits pipe_call.splits option.splits)

lemma fds_simps [simp]:
  "fds_opened [] = []" "fds_closed [] = []" "fds_opened (e # t) = fd_opens e @ fds_opened t" "fds_closed (e # t) = fd_closes e @ fds_closed t"
  "fds_opened (t @ u) = fds_opened t @ fds_opened u" "fds_closed (t @ u) = fds_closed t @ fds_closed u"
  "fd_closes (Close fd, x) = [fd]" "fd_opens (Close fd, x) = []" "pipe_ok (Close fd, x)"
  by (simp_all add: fds_opened_def fds_closed_def fd_closes_def fd_opens_def pipe_ok_def)

lemma neutral_list: "list_all (fd_neutral \<circ> fst) t \<Longrightarrow> fds_opened t = [] \<and> fds_closed t = [] \<and> pipes_ok t"
proof (induction t)
  case (Cons e t)
  then show ?case using neutral_by [of "fst e" "snd e"] by simp
qed simp

lemma only_trans: "only P w v \<Longrightarrow> only P v v' \<Longrightarrow> only P w v'"
  using since_trans [of w v v'] later_trans [of w v v'] by (auto simp: only_def)

lemma holds_refl [simp]: "holds {#} w w"
  by (simp add: holds_def)

lemma holds_only: "holds F w v \<Longrightarrow> only fd_neutral v v' \<Longrightarrow> holds F w v'"
  using since_trans [of w v v'] later_trans [of w v v'] neutral_list [of "since v v'"] by (auto simp: holds_def only_def)

lemma holds_emit: "holds F w v \<Longrightarrow> fd_neutral c \<Longrightarrow> holds F w (emit c v)"
  by (erule holds_only) (simp add: only_emit)

lemma holds_println: "holds F w v \<Longrightarrow> holds F w (println st m v)"
  by (simp add: println_def holds_emit fd_neutral_def)

lemma holds_sys: "holds F w v \<Longrightarrow> sys c v = Some (a, v') \<Longrightarrow> fd_neutral c \<Longrightarrow> holds F w v'"
  by (erule holds_only) (auto simp: only_def dest: sys_SomeE)

lemma holds_reset: "holds (F + own fd) w v \<Longrightarrow> holds F w (fd_reset fd v)"
  by (auto simp: holds_def own_def fd_reset_def)

lemma holds_close_capture: "holds (F + cap_own cap) w v \<Longrightarrow> holds F w (close_capture cap v)"
  unfolding close_capture_def cap_own_def by (intro holds_reset) (simp add: add.assoc)

lemma holds_flushed: "holds F w v \<Longrightarrow> holds F w (print_flushed ls v)"
  unfolding print_flushed_def
  by (induction ls arbitrary: v) (simp_all add: fd_neutral_def holds_println holds_emit)

lemma fd_neutral_simps [simp]:
  "fd_neutral (Read fd n)" "fd_neutral (Write fd bs)" "fd_neutral (Print st m)" "fd_neutral (Fflush st)" "fd_neutral Clock_ns" "fd_neutral (Ev e)" "fd_neutral (Proc p)"
  "fd_neutral (Pipe (Pc_spawnp cmd ofd efd))" "fd_neutral (Pipe (Pc_waitid i b))" "fd_neutral (Pipe (Pc_waitid_pidfd i))" "fd_neutral (Pipe (Pc_pidfd_signal i j))"
  "fd_neutral (Pipe (Pc_block sigs))"
  by (simp_all add: fd_neutral_def)

lemma own_closed [simp]: "own (- 1) = {#}"
  by (simp add: own_def)

lemma drain_once_holds:
  assumes run: "drain_once lfd p v = Some ((x, p'), v')" and "holds (F + own (pe_fd p)) w v"
  shows "holds (F + own (pe_fd p')) w v'"
proof -
  obtain n v1 where n: "sys (Read (pe_fd p) kChunk) v = Some (n, v1)" using run by (auto simp: drain_once_def)
  have h: "holds (F + own (pe_fd p)) w v1" by (rule holds_sys [OF assms(2) n]) simp
  consider "rv n < 0" | "rv n = 0" | "0 < rv n" by linarith
  then show ?thesis
  proof cases
    case 1
    with run have "p' = p \<and> v' = v1" unfolding drain_once_def n by (simp split: if_splits)
    with h show ?thesis by simp
  next
    case 2
    with run n obtain r where f: "relay_flush lfd (pe_relay p) (fd_reset (pe_fd p) v1) = Some ((x, r), v')"
      and p': "pe_fd p' = -1" by (auto simp: drain_once_def Let_def)
    have "only fd_neutral (fd_reset (pe_fd p) v1) v'" by (rule keepsD [OF relay_flush_keeps f]) simp_all
    from holds_only [OF holds_reset [OF h] this] p' show ?thesis by simp
  next
    case 3
    with run n obtain r where f: "relay_feed lfd (pe_relay p) (chars_of (filled n)) v1 = Some ((x, r), v')"
      and p': "pe_fd p' = pe_fd p" by (auto simp: drain_once_def)
    have "only fd_neutral v1 v'" by (rule keepsD [OF relay_feed_keeps f]) simp_all
    from holds_only [OF h this] p' show ?thesis by simp
  qed
qed

lemma drain_loop_holds:
  assumes "loop (drain_turn lfd) p v = Some ((x, p'), v')" and "holds (F + own (pe_fd p)) w v"
  shows "holds (F + own (pe_fd p')) w v'"
proof -
  have "holds (F + own (pe_fd (snd (x, p')))) w v'"
  proof (rule loop_rule [OF assms(1), where I = "\<lambda>p v. holds (F + own (pe_fd p)) w v" and Q = "\<lambda>r v. holds (F + own (pe_fd (snd r))) w v"], goal_cases)
    case 1
    show ?case by (rule assms(2))
  next
    case (2 p v p' v')
    then obtain x where "drain_once lfd p v = Some ((x, p'), v')" by (auto simp: drain_turn_def run_cases split: if_splits)
    from drain_once_holds [OF this 2(1)] show ?case .
  next
    case (3 p v r v')
    then consider "r = (Inr (), p)" "v' = v" | x q where "drain_once lfd p v = Some ((x, q), v')" "r = (x, q)"
      by (auto simp: drain_turn_def run_cases split: if_splits)
    then show ?case using 3(1) drain_once_holds [of lfd p v _ _ v' F w] by cases auto
  qed
  then show ?thesis by simp
qed

lemma wait_pipe_holds:
  assumes "wait_pipe i n lfd p v = Some ((x, p'), v')" and "holds (F + own (pe_fd p)) w v"
  shows "holds (F + own (pe_fd p')) w v'"
  using assms drain_once_holds [of lfd p v x p' v' F w] by (auto simp: wait_pipe_def split: if_splits)

text \<open>The same of both streams, for whatever works on the one and then, perhaps, on the other.\<close>

lemma both_hold:
  assumes "holds (F + cap_own cap) w v"
    and "\<And>G. holds (G + own (pe_fd (cap_out cap))) w v \<Longrightarrow> holds (G + own (pe_fd p)) w v1"
    and "\<And>G. holds (G + own (pe_fd (cap_err cap))) w v1 \<Longrightarrow> holds (G + own (pe_fd q)) w v2"
  shows "holds (F + cap_own (cap\<lparr>cap_out := p\<rparr>)) w v1" "holds (F + cap_own (cap\<lparr>cap_out := p, cap_err := q\<rparr>)) w v2"
proof -
  have "holds ((F + own (pe_fd (cap_err cap))) + own (pe_fd (cap_out cap))) w v" using assms(1) by (simp add: cap_own_def ac_simps)
  from assms(2) [OF this] show "holds (F + cap_own (cap\<lparr>cap_out := p\<rparr>)) w v1" by (simp add: cap_own_def ac_simps)
  then have "holds ((F + own (pe_fd p)) + own (pe_fd (cap_err cap))) w v1" by (simp add: cap_own_def ac_simps)
  from assms(3) [OF this] show "holds (F + cap_own (cap\<lparr>cap_out := p, cap_err := q\<rparr>)) w v2" by (simp add: cap_own_def ac_simps)
qed

lemma drain_to_eof_holds:
  assumes "drain_to_eof lfd cap v = Some ((x, cap'), v')" and "holds (F + cap_own cap) w v"
  shows "holds (F + cap_own cap') w v'"
proof -
  obtain y p v1 where p: "loop (drain_turn lfd) (cap_out cap) v = Some ((y, p), v1)" using assms(1) by (auto simp: drain_to_eof_def)
  show ?thesis
  proof (cases y)
    case (Inl e)
    with assms(1) p have "cap' = cap\<lparr>cap_out := p\<rparr>" "v' = v1" by (auto simp: drain_to_eof_def)
    with both_hold(1) [OF assms(2) drain_loop_holds [OF p]] show ?thesis by simp
  next
    case (Inr u)
    with assms(1) p obtain q where q: "loop (drain_turn lfd) (cap_err cap) v1 = Some ((x, q), v')" "cap' = cap\<lparr>cap_out := p, cap_err := q\<rparr>"
      by (auto simp: drain_to_eof_def)
    with both_hold(2) [OF assms(2) drain_loop_holds [OF p] drain_loop_holds [OF q(1)]] show ?thesis by simp
  qed
qed

lemma waits_neutral:
  "wait_signal pid sigfd n v = Some (r, v') \<Longrightarrow> only fd_neutral v v'" "wait_pidfd eng pidfd n v = Some (r2, v') \<Longrightarrow> only fd_neutral v v'"
  "term_and_reap eng pid pidfd v = Some (r3, v') \<Longrightarrow> only fd_neutral v v'"
  unfolding wait_signal_def wait_pidfd_def term_and_reap_def reap_pidfd_def waitid_turn_def
  by (rule keepsD [rotated], assumption, (intro keeps_intros; simp))+

lemma wait_ready_holds:
  assumes run: "wait_ready eng pid pidfd sigfd lfd n cap v = Some ((x, cap'), v')" and h: "holds (F + cap_own cap) w v"
  shows "holds (F + cap_own cap') w v'"
proof -
  obtain y p v1 where p: "wait_pipe 1 n lfd (cap_out cap) v = Some ((y, p), v1)" using run by (auto simp: wait_ready_def)
  show ?thesis
  proof (cases y)
    case (Inl e)
    with run p have "cap' = cap\<lparr>cap_out := p\<rparr>" "v' = v1" by (auto simp: wait_ready_def Let_def)
    with both_hold(1) [OF h wait_pipe_holds [OF p]] show ?thesis by simp
  next
    case (Inr u)
    with run p obtain z q v2 where q: "wait_pipe 2 n lfd (cap_err cap) v1 = Some ((z, q), v2)"
      and c: "cap' = cap\<lparr>cap_out := p, cap_err := q\<rparr>"
      and k: "only fd_neutral v2 v'"
      unfolding wait_ready_def p
      by (auto simp: Let_def run_cases split: sum.split_asm option.split_asm intro: only_trans dest!: waits_neutral(1,2))
    from holds_only [OF both_hold(2) [OF h wait_pipe_holds [OF p] wait_pipe_holds [OF q]] k] c show ?thesis by simp
  qed
qed

lemma wait_turn_holds:
  assumes run: "wait_turn eng pid pidfd sigfd deadline lfd cap v = Some (c, v')" and h: "holds (F + cap_own cap) w v"
  shows "holds (F + cap_own (case c of Continue cap' \<Rightarrow> cap' | Break r \<Rightarrow> snd r)) w v'"
proof -
  obtain now v1 n v2 where s: "sys Clock_ns v = Some (now, v1)"
    "sys (Poll (wait_fds eng pidfd sigfd cap) (remaining_ms deadline (rv now))) v1 = Some (n, v2)"
    using run by (auto simp: wait_turn_def)
  have 2: "holds (F + cap_own cap) w v2" by (rule holds_sys [OF holds_sys [OF h s(1)] s(2)]) simp_all
  from run s consider "v' = v2" "(case c of Continue cap' \<Rightarrow> cap' | Break r \<Rightarrow> snd r) = cap"
    | x where "wait_ready eng pid pidfd sigfd lfd n cap v2 = Some ((x, (case c of Continue cap' \<Rightarrow> cap' | Break r \<Rightarrow> snd r)), v')"
    by (fastforce simp: wait_turn_def run_cases split: if_splits option.splits)
  then show ?thesis using 2 wait_ready_holds [OF _ 2] by cases auto
qed

lemma wait_child_holds:
  assumes "wait_child eng pid pidfd sigfd deadline lfd cap v = Some ((x, cap'), v')" and "holds (F + cap_own cap) w v"
  shows "holds (F + cap_own cap') w v'"
proof -
  have "holds (F + cap_own (snd (x, cap'))) w v'"
    by (rule loop_rule [OF assms(1) [unfolded wait_child_def], where I = "\<lambda>cap v. holds (F + cap_own cap) w v" and Q = "\<lambda>r v. holds (F + cap_own (snd r)) w v"])
      (use assms(2) wait_turn_holds in fastforce)+
  then show ?thesis by simp
qed

lemma sup_child_holds:
  assumes run: "sup_child eng pid pidfd sigfd deadline lfd cap v = Some ((x, cap'), v')" and h: "holds (F + cap_own cap) w v"
  shows "holds (F + cap_own cap') w v'"
proof -
  have drained: "\<exists>y. drain_to_eof lfd c u = Some ((y, cap'), v')" if "sup_drain lfd c s st u = Some ((x, cap'), v')" for c s st u
    using that by (auto simp: sup_drain_def run_cases)
  obtain y cap1 v1 where wait: "wait_child eng pid pidfd sigfd deadline lfd cap v = Some ((y, cap1), v1)" using run by (auto simp: sup_child_def)
  have 1: "holds (F + cap_own cap1) w v1" by (rule wait_child_holds [OF wait h])
  from run wait consider "cap' = cap1" "only fd_neutral v1 v'"
    | z where "drain_to_eof lfd cap1 v1 = Some ((z, cap'), v')"
    | z st v2 where "term_and_reap eng pid pidfd v1 = Some (st, v2)" "drain_to_eof lfd cap1 v2 = Some ((z, cap'), v')"
    by (auto simp: sup_child_def run_cases dest!: drained dest: waits_neutral(3))
  then show ?thesis
  proof cases
    case 1
    with holds_only [OF \<open>holds (F + cap_own cap1) w v1\<close>] show ?thesis by simp
  next
    case 2
    from drain_to_eof_holds [OF 2 1] show ?thesis .
  next
    case 3
    from drain_to_eof_holds [OF 3(2) holds_only [OF 1 waits_neutral(3) [OF 3(1)]]] show ?thesis .
  qed
qed

text \<open>A call that opens descriptors: they are held from then on.\<close>

lemma holds_open:
  assumes "holds F w v" "sys c v = Some (a, v')" "fd_closes (c, Some a) = []"
    and "pipe_ok (c, Some a) \<Longrightarrow> mset (fd_opens (c, Some a)) = G"
  shows "holds (F + G) w v'"
  using assms sys_after [of w v c a v'] by (auto simp: holds_def)

lemma holds_pipe2:
  assumes "holds F w v" "sys (Pipe Pc_pipe2) v = Some (a, v')"
  shows "holds (F + own (fd_in 0 a) + own (fd_in 1 a)) w v'"
  using holds_open [OF assms, of "own (fd_in 0 a) + own (fd_in 1 a)"]
  by (simp add: fd_closes_def fd_opens_def pipe_ok_def own_def add.assoc add.commute)

lemma sup_pidfd_holds:
  assumes "sup_pidfd eng pid cap v = Some (x, v')" "holds (F + cap_own cap) w v"
  shows "holds (F + (case x of Inl code \<Rightarrow> {#} | Inr (pid, pidfd, cap) \<Rightarrow> own pidfd + cap_own cap)) w v'"
proof (cases "eng = Engine_pidfd")
  case False
  with assms show ?thesis by (auto simp: sup_pidfd_def holds_println)
next
  case True
  with assms(1) obtain f v1 where f: "sys (Pipe (Pc_pidfd_open pid)) v = Some (f, v1)" by (auto simp: sup_pidfd_def)
  have "holds (F + cap_own cap + own (rv f)) w v1"
    by (rule holds_open [OF assms(2) f]) (simp_all add: fd_closes_def fd_opens_def own_def)
  with assms(1) True f show ?thesis
    by (auto simp: sup_pidfd_def ac_simps own_def split: if_splits intro!: holds_println holds_close_capture)
qed

lemma sup_spawn_holds:
  assumes "sup_spawn eng cmd p q v = Some (x, v')" "holds (F + own (fd_in 0 p) + own (fd_in 1 p) + own (fd_in 0 q) + own (fd_in 1 q)) w v"
  shows "holds (F + (case x of Inl code \<Rightarrow> {#} | Inr (pid, pidfd, cap) \<Rightarrow> own pidfd + cap_own cap)) w v'"
proof -
  obtain c v1 where c: "spawn_child cmd (fd_in 1 p) (fd_in 1 q) v = Some (c, v1)"
    using assms(1) by (auto simp: sup_spawn_def Let_def)
  then obtain a where "sys (Pipe (Pc_spawnp cmd (fd_in 1 p) (fd_in 1 q))) v = Some (a, v1)"
    by (auto simp: spawn_child_def split: if_splits)
  note t = holds_sys [OF assms(2) this, simplified]
  let ?cap = "new_capture (fd_in 0 p) (fd_in 0 q)"
  have own: "cap_own ?cap = own (fd_in 0 p) + own (fd_in 0 q)" by (simp add: cap_own_def new_capture_def)
  show ?thesis
  proof (cases c)
    case (Inl e)
    with assms(1) c have v': "x = Inl 1" "v' = close_capture ?cap (fd_reset (fd_in 1 p) (fd_reset (fd_in 1 q) (println Stderr [Txt (''pmon: spawn: '' @ cmd ! 0 @ '': ''), ErrorCode e] v1)))"
      by (auto simp: sup_spawn_def Let_def)
    have "holds (F + cap_own ?cap + own (fd_in 1 p) + own (fd_in 1 q)) w v1" using t by (simp add: own ac_simps)
    then show ?thesis unfolding v' by (auto intro!: holds_close_capture holds_reset holds_println)
  next
    case (Inr pid)
    with assms(1) c have k: "sup_pidfd eng pid ?cap (fd_reset (fd_in 1 q) (fd_reset (fd_in 1 p) v1)) = Some (x, v')"
      by (simp add: sup_spawn_def Let_def)
    have "holds (F + cap_own ?cap + own (fd_in 1 q) + own (fd_in 1 p)) w v1" using t by (simp add: own ac_simps)
    from sup_pidfd_holds [OF k holds_reset [OF holds_reset [OF this]]] show ?thesis .
  qed
qed

lemma sup_start_holds:
  assumes "sup_start eng cmd v = Some (x, v')" "holds F w v"
  shows "holds (F + (case x of Inl code \<Rightarrow> {#} | Inr (pid, pidfd, cap) \<Rightarrow> own pidfd + cap_own cap)) w v'"
proof -
  have no_pipes: "holds G w u'" if "sys (Pipe Pc_pipe2) u = Some (a, u')" "rv a \<noteq> 0" "holds H w u" for a u u' G H
    using sys_after [OF _ that(1), of w] that(2,3) by (auto simp: holds_def pipe_ok_def)
  obtain p v1 where p: "sys (Pipe Pc_pipe2) v = Some (p, v1)" using assms by (auto simp: sup_start_def)
  show ?thesis
  proof (cases "rv p = 0")
    case False
    with assms(1) p no_pipes [OF p False assms(2)] show ?thesis by (auto simp: sup_start_def holds_println)
  next
    case True
    with assms p obtain q v2 where q: "sys (Pipe Pc_pipe2) v1 = Some (q, v2)" by (auto simp: sup_start_def)
    have 1: "holds (F + own (fd_in 0 p) + own (fd_in 1 p)) w v1" by (rule holds_pipe2 [OF assms(2) p])
    show ?thesis
    proof (cases "rv q = 0")
      case False
      with assms(1) p q True no_pipes [OF q False 1] show ?thesis by (auto simp: sup_start_def holds_println)
    next
      case True
      with assms p q \<open>rv p = 0\<close> have "sup_spawn eng cmd p q v2 = Some (x, v')" by (simp add: sup_start_def)
      from sup_spawn_holds [OF this holds_pipe2 [OF 1 q]] show ?thesis .
    qed
  qed
qed

lemma sup_turn_holds:
  assumes "sup_turn eng max_restarts deadline lfd sigfd cmd r v = Some (c, v')" "holds F w v"
  shows "holds F w v'"
  using assms(1)
proof (cases rule: sup_turn_cases)
  case (unstarted code)
  from sup_start_holds [OF unstarted(1) assms(2)] show ?thesis by simp
next
  case (broken pid pidfd cap v1 m cap' v2)
  from sup_start_holds [OF broken(1) assms(2)] have "holds (F + own pidfd + cap_own cap) w v1" by (simp add: ac_simps)
  from sup_child_holds [OF broken(2) this] have "holds (F + cap_own cap' + own pidfd) w v2" by (simp add: ac_simps)
  then show ?thesis unfolding broken(4) by (intro holds_close_capture holds_reset holds_println)
next
  case (ended pid pidfd cap v1 why st cap' v2)
  from sup_start_holds [OF ended(1) assms(2)] have "holds (F + own pidfd + cap_own cap) w v1" by (simp add: ac_simps)
  from sup_child_holds [OF ended(2) this] have "holds (F + cap_own cap' + own pidfd) w v2" by (simp add: ac_simps)
  then show ?thesis unfolding ended(4) by (intro holds_close_capture holds_reset holds_flushed)
qed

text \<open>C32: The supervisor leaks no descriptor. Over a whole run of \<open>pmon supervise\<close>, whatever fails in it but
  \<open>pipe2\<close>, and however often the child is restarted, every descriptor it opened (the log, the signalfd, and
  for each child the two pipes and the pidfd) is closed as often as it was opened: the write ends of the
  pipes right after the start of the child, without which the end of its output would never be seen, the
  read ends at the end of the output or when the child is given up.\<close>

theorem supervise_no_leak:
  assumes "cmd_supervise eng max_restarts timeout_ms log_path cmd w = Some (code, w')" "pipes_ok (since w w')"
  shows "mset (fds_opened (since w w')) = mset (fds_closed (since w w'))"
proof -
  have "holds {#} w w'"
  proof -
    obtain l v1 where l: "sys (Pipe (Pc_open_append log_path)) w = Some (l, v1)" using assms(1) by (auto simp: cmd_supervise_def)
    have 1: "holds (own (rv l)) w v1"
      using holds_open [OF holds_refl l, of "own (rv l)"] by (simp add: fd_closes_def fd_opens_def own_def)
    show ?thesis
    proof (cases "rv l < 0")
      case True
      with assms(1) l 1 show ?thesis by (auto simp: cmd_supervise_def own_def holds_println)
    next
      case False
      with assms(1) l obtain s v2 where s: "make_signalfd (if eng = Engine_pidfd then [SIGINT, SIGTERM] else [SIGCHLD, SIGINT, SIGTERM]) v1 = Some (s, v2)"
        by (auto simp: cmd_supervise_def)
      have 2: "holds (own (rv l) + (case s of Inl e \<Rightarrow> {#} | Inr fd \<Rightarrow> own fd)) w v2"
        if "make_signalfd sigs v1 = Some (s, v2)" for sigs
      proof -
        from that obtain b u where b: "sys (Pipe (Pc_block sigs)) v1 = Some (b, u)" by (auto simp: make_signalfd_def)
        have u: "holds (own (rv l)) w u" by (rule holds_sys [OF 1 b]) simp
        show ?thesis
        proof (cases "rv b = 0")
          case False
          with that b u show ?thesis by (auto simp: make_signalfd_def)
        next
          case True
          with that b obtain f where f: "sys (Pipe (Pc_signalfd sigs)) u = Some (f, v2)" and "s = (if rv f < 0 then Inl (System_error (eno f)) else Inr (rv f))"
            by (auto simp: make_signalfd_def split: if_splits)
          moreover have "holds (own (rv l) + own (rv f)) w v2"
            by (rule holds_open [OF u f]) (simp_all add: fd_closes_def fd_opens_def own_def)
          moreover have "own (rv f) = {#}" if "rv f < 0" using that by (simp add: own_def)
          ultimately show ?thesis by (cases "rv f < 0") simp_all
        qed
      qed
      show ?thesis
      proof (cases s)
        case (Inl e)
        with assms(1) l s False have "w' = fd_reset (rv l) (println Stderr [Txt ''pmon: signalfd: '', ErrorCode e] v2)" by (auto simp: cmd_supervise_def)
        with 2 [OF s] Inl show ?thesis by (auto intro!: holds_reset holds_println)
      next
        case (Inr sigfd)
        with assms(1) l s False obtain now v3 v4 where now: "sys Clock_ns v2 = Some (now, v3)"
          and lp: "loop (sup_turn eng max_restarts (rv now + timeout_ms * 1000000) (rv l) sigfd cmd) 0 v3 = Some (code, v4)"
          and w': "w' = fd_reset (rv l) (fd_reset sigfd v4)" by (auto simp: cmd_supervise_def)
        have 3: "holds (own (rv l) + own sigfd) w v3" using holds_sys [OF 2 [OF s] now] Inr by simp
        have "holds (own (rv l) + own sigfd) w v4"
          by (rule loop_rule [OF lp, where I = "\<lambda>r. holds (own (rv l) + own sigfd) w"]) (use 3 sup_turn_holds in blast)+
        then have "holds ({#} + own (rv l) + own sigfd) w v4" by simp
        then show ?thesis unfolding w' by (intro holds_reset)
      qed
    qed
  qed
  with assms(2) show ?thesis by (simp add: holds_def)
qed

lemma sup_script_pipes:
  "\<exists>w'. cmd_supervise Engine_pidfd 1 10000 ''log'' [''sleep''] (answering sup_script) = Some (1, w') \<and> pipes_ok (since (answering sup_script) w') \<and>
     fds_opened (since (answering sup_script) w') = [3, 4, 5, 6, 7, 8, 9, 5, 6, 7, 8, 9]"
  by (simp add: sup_script_def sup_eval since_def fd_opens_def pipe_ok_def)

theorem supervise_no_leak_witness:
  "\<exists>w'. cmd_supervise Engine_pidfd 1 10000 ''log'' [''sleep''] (answering sup_script) = Some (1, w') \<and>
     mset (fds_closed (since (answering sup_script) w')) = {#3, 4, 5, 6, 7, 8, 9, 5, 6, 7, 8, 9#}"
proof -
  from sup_script_pipes obtain w' where r: "cmd_supervise Engine_pidfd 1 10000 ''log'' [''sleep''] (answering sup_script) = Some (1, w')"
    "pipes_ok (since (answering sup_script) w')" and o: "fds_opened (since (answering sup_script) w') = [3, 4, 5, 6, 7, 8, 9, 5, 6, 7, 8, 9]" by blast
  from supervise_no_leak [OF r] r(1) show ?thesis by (auto simp: o)
qed

end
