(* ===== verification/PipesTail.thy ===== *)
theory PipesTail
  imports Pipes
begin

text \<open>
  The relay of the log into a FIFO. The log is a file the kernel appends to and never changes: its bytes
  are \<open>L\<close>, and \<open>fed\<close> follows the file offset through a trace. Whatever fails or is interrupted on the way,
  what the FIFO took is the log from its start up to the file offset. What readers take out of the FIFO is
  not seen by the program: it is a parameter of the theorem.
\<close>

section \<open>The file offset\<close>

text \<open>What one call puts into the FIFO, as its answer reports, and the offset after it. A reader may still leave
  some of these bytes in the FIFO.\<close>

definition moved_by :: "byte list \<Rightarrow> int \<Rightarrow> nat \<Rightarrow> call \<times> answer option \<Rightarrow> byte list \<times> nat" where
  "moved_by L lfd pos e = (case e of
     (Read f n, Some a) \<Rightarrow> ([], if f = lfd then pos + nat (rv a) else pos)
   | (Write f bs, Some a) \<Rightarrow> (take (nat (rv a)) bs, pos)
   | (Pipe (Pc_splice f g n), Some a) \<Rightarrow> if f = lfd then (take (nat (rv a)) (drop pos L), pos + nat (rv a)) else ([], pos)
   | (Pipe (Pc_lseek f off True), _) \<Rightarrow> ([], if f = lfd then nat off else pos)
   | _ \<Rightarrow> ([], pos))"

fun fed :: "byte list \<Rightarrow> int \<Rightarrow> nat \<Rightarrow> (call \<times> answer option) list \<Rightarrow> byte list \<times> nat" where
  "fed L lfd pos [] = ([], pos)"
| "fed L lfd pos (e # t) = (case moved_by L lfd pos e of (bs, pos) \<Rightarrow> case fed L lfd pos t of (cs, pos) \<Rightarrow> (bs @ cs, pos))"

text \<open>What read(2), splice(2) and lseek(2) document for a regular file with these bytes.\<close>

definition plain_event :: "byte list \<Rightarrow> int \<Rightarrow> nat \<Rightarrow> call \<times> answer option \<Rightarrow> bool" where
  "plain_event L lfd pos e = (case e of
     (Read f n, Some a) \<Rightarrow> f = lfd \<longrightarrow> filled a = take (nat (rv a)) (drop pos L)
   | (Pipe (Pc_splice f g n), Some a) \<Rightarrow> f = lfd \<longrightarrow> pos + nat (rv a) \<le> List.length L
   | (Pipe (Pc_lseek f off False), Some a) \<Rightarrow> f = lfd \<longrightarrow> rv a = int pos
   | _ \<Rightarrow> True)"

fun plain_file :: "byte list \<Rightarrow> int \<Rightarrow> nat \<Rightarrow> (call \<times> answer option) list \<Rightarrow> bool" where
  "plain_file L lfd pos [] \<longleftrightarrow> True"
| "plain_file L lfd pos (e # t) \<longleftrightarrow> plain_event L lfd pos e \<and> plain_file L lfd (snd (moved_by L lfd pos e)) t"

lemma fed_append: "fed L lfd pos (t @ u) =
    (fst (fed L lfd pos t) @ fst (fed L lfd (snd (fed L lfd pos t)) u), snd (fed L lfd (snd (fed L lfd pos t)) u))"
  by (induction t arbitrary: pos) (auto simp: case_prod_beta)

lemma plain_file_append: "plain_file L lfd pos (t @ u) \<longleftrightarrow> plain_file L lfd pos t \<and> plain_file L lfd (snd (fed L lfd pos t)) u"
  by (induction t arbitrary: pos) (auto simp: case_prod_beta)

text \<open>A piece of a trace that moves the file forward: what it feeds is what it passes over.\<close>

definition forwards :: "byte list \<Rightarrow> int \<Rightarrow> (call \<times> answer option) list \<Rightarrow> bool" where
  "forwards L lfd t \<longleftrightarrow> (\<forall>pos \<le> List.length L. honest t \<longrightarrow> plain_file L lfd pos t \<longrightarrow>
     (\<exists>n. fed L lfd pos t = (take n (drop pos L), pos + n) \<and> pos + n \<le> List.length L))"

lemma forwards_append:
  assumes "forwards L lfd t" "forwards L lfd u"
  shows "forwards L lfd (t @ u)"
  unfolding forwards_def
proof (intro allI impI)
  fix pos assume pos: "pos \<le> List.length L" and h: "honest (t @ u)" and p: "plain_file L lfd pos (t @ u)"
  from assms(1) pos h p obtain n where n: "fed L lfd pos t = (take n (drop pos L), pos + n)" "pos + n \<le> List.length L"
    by (auto simp: forwards_def plain_file_append)
  with assms(2) h p obtain m where m: "fed L lfd (pos + n) u = (take m (drop (pos + n) L), pos + n + m)" "pos + n + m \<le> List.length L"
    by (auto simp: forwards_def plain_file_append)
  have "take n (drop pos L) @ take m (drop (pos + n) L) = take (n + m) (drop pos L)"
    using take_add [of n m "drop pos L"] by (simp add: add.commute)
  with n m show "\<exists>n. fed L lfd pos (t @ u) = (take n (drop pos L), pos + n) \<and> pos + n \<le> List.length L"
    by (intro exI [of _ "n + m"]) (simp add: fed_append add.assoc)
qed

text \<open>Calls that neither read nor write nor move an offset.\<close>

definition offset_free :: "call \<Rightarrow> bool" where
  "offset_free c = (case c of Read f n \<Rightarrow> False | Write f bs \<Rightarrow> False
     | Pipe (Pc_splice f g n) \<Rightarrow> False | Pipe (Pc_lseek f off b) \<Rightarrow> False | _ \<Rightarrow> True)"

lemma offset_free_moves:
  "offset_free c \<Longrightarrow> moved_by L lfd pos (c, x) = ([], pos) \<and> plain_event L lfd pos (c, x)"
  by (auto simp: offset_free_def moved_by_def plain_event_def split: call.splits pipe_call.splits option.splits)

lemma offset_free_fed:
  "list_all (offset_free \<circ> fst) t \<Longrightarrow> fed L lfd pos t = ([], pos) \<and> plain_file L lfd pos t"
proof (induction t)
  case (Cons e t)
  then show ?case using offset_free_moves [of "fst e" L lfd pos "snd e"] by (cases e) auto
qed simp

lemma forwards_free: "list_all (offset_free \<circ> fst) t \<Longrightarrow> forwards L lfd t"
  using offset_free_fed by (auto simp: forwards_def intro!: exI [of _ 0])

text \<open>From \<open>w\<close> on the file went forward.\<close>

definition ahead :: "byte list \<Rightarrow> int \<Rightarrow> world \<Rightarrow> world \<Rightarrow> bool" where
  "ahead L lfd w v \<longleftrightarrow> later w v \<and> forwards L lfd (since w v)"

lemma ahead_refl [simp]: "ahead L lfd w w"
  by (simp add: ahead_def forwards_free)

lemma ahead_trans: "ahead L lfd w v \<Longrightarrow> ahead L lfd v v' \<Longrightarrow> ahead L lfd w v'"
  using since_trans [of w v v'] later_trans [of w v v'] by (auto simp: ahead_def intro: forwards_append)

lemma ahead_only: "only offset_free v v' \<Longrightarrow> ahead L lfd v v'"
  by (simp add: only_def ahead_def forwards_free)

lemma ahead_emit: "ahead L lfd w v \<Longrightarrow> offset_free c \<Longrightarrow> ahead L lfd w (emit c v)"
  using ahead_trans [of L lfd w v] ahead_only [of v "emit c v"] by (simp add: only_def)

section \<open>The two ways to relay\<close>

lemma relay_splice_ahead:
  assumes "relay_splice lfd fd v = Some (r, v')"
  shows "ahead L lfd v v'"
proof -
  from assms obtain n where n: "sys (Pipe (Pc_splice lfd fd kChunk)) v = Some (n, v')"
    by (auto simp: relay_splice_def split: if_splits)
  note s = sys_SomeE [OF n]
  show ?thesis
    by (auto simp: ahead_def s forwards_def moved_by_def plain_event_def intro!: exI [of _ "nat (rv n)"])
qed

lemma fed_write [simp]: "moved_by L lfd pos (Write fd bs, Some a) = (take (nat (rv a)) bs, pos)"
  "moved_by L lfd pos (Pipe (Pc_lseek lfd off True), x) = ([], nat off)"
  by (auto simp: moved_by_def split: option.split)

lemma relay_rw_loop:
  assumes "loop (relay_rw_turn lfd fd before buf) 0 v0 = Some (r, v')"
  shows "later v0 v' \<and> (honest (since v0 v') \<longrightarrow>
    (\<exists>k \<le> List.length buf. \<forall>pos. fed L lfd pos (since v0 v') = (take k buf, if k = List.length buf \<and> r = Inr Moved then pos else nat (before + int k))))"
proof (rule loop_rule [OF assms, where I = "\<lambda>k v. later v0 v \<and> (honest (since v0 v) \<longrightarrow>
      k \<le> List.length buf \<and> (\<forall>pos. fed L lfd pos (since v0 v) = (take k buf, pos)))"], goal_cases)
  case 1
  show ?case by simp
next
  case (2 k v k' v')
  then obtain a where a: "sys (Write fd (drop k buf)) v = Some (a, v')" and "k < List.length buf"
    and o: "k' = (if rv a < 0 then k else k + nat (rv a))"
    by (auto simp: relay_rw_turn_def Let_def split: if_splits)
  have l: "later v0 v'" and s: "since v0 v' = since v0 v @ [(Write fd (drop k buf), Some a)]"
    using 2 sys_after [OF _ a, of v0] by simp_all
  have "take k buf @ take m (drop k buf) = take (k + m) buf" for m by (simp add: take_add)
  with 2 o \<open>k < List.length buf\<close> show ?case
    by (auto simp: l s fed_append)
next
  case (3 k v r v')
  show ?case
  proof (cases "k < List.length buf")
    case False
    with 3 show ?thesis by (auto simp: relay_rw_turn_def)
  next
    case True
    with 3 obtain a u where a: "sys (Write fd (drop k buf)) v = Some (a, u)" and "rv a < 0" "r \<noteq> Inr Moved"
      and v': "v' = emit (Pipe (Pc_lseek lfd (before + int k) True)) u"
      by (auto simp: relay_rw_turn_def Let_def split: if_splits)
    have l: "later v0 u" and s: "since v0 u = since v0 v @ [(Write fd (drop k buf), Some a)]"
      using 3 sys_after [OF _ a, of v0] by simp_all
    with 3 \<open>rv a < 0\<close> \<open>r \<noteq> Inr Moved\<close> True show ?thesis
      by (auto simp: v' fed_append intro!: exI [of _ k])
  qed
qed

lemma relay_rw_ahead:
  assumes "relay_rw lfd fd v = Some (r, v')"
  shows "ahead L lfd v v'"
proof -
  from assms obtain b v1 n v2 where b: "sys (Pipe (Pc_lseek lfd 0 False)) v = Some (b, v1)"
    and n: "sys (Read lfd kChunk) v1 = Some (n, v2)"
    and k: "if rv n \<le> 0 then v' = v2 else loop (relay_rw_turn lfd fd (rv b) (filled n)) 0 v2 = Some (r, v')"
    by (auto simp: relay_rw_def split: if_splits)
  have l: "later v v2" and s: "since v v2 = [(Pipe (Pc_lseek lfd 0 False), Some b), (Read lfd kChunk, Some n)]"
    using sys_SomeE [OF b] sys_after [OF _ n, of v] by simp_all
  have f: "fed L lfd pos (since v v2) = ([], pos + nat (rv n))"
    "plain_file L lfd pos (since v v2) \<longleftrightarrow> rv b = int pos \<and> filled n = take (nat (rv n)) (drop pos L)" for pos
    by (simp_all add: s moved_by_def plain_event_def)
  show ?thesis
  proof (cases "rv n \<le> 0")
    case True
    with k l f show ?thesis by (auto simp: ahead_def forwards_def intro!: exI [of _ 0])
  next
    case False
    with k have "loop (relay_rw_turn lfd fd (rv b) (filled n)) 0 v2 = Some (r, v')" by simp
    note L = relay_rw_loop [OF this, of L]
    note l2 = conjunct1 [OF L] and tr = since_trans [OF l conjunct1 [OF L]]
    have "\<exists>m. fed L lfd pos (since v v') = (take m (drop pos L), pos + m) \<and> pos + m \<le> List.length L"
      if "pos \<le> List.length L" "honest (since v v')" "plain_file L lfd pos (since v v')" for pos
    proof -
      from that have p: "rv b = int pos" "filled n = take (nat (rv n)) (drop pos L)" and h: "honest (since v2 v')"
        by (simp_all add: tr plain_file_append f)
      from arg_cong [OF p(2), of List.length] that(1) False have len: "pos + nat (rv n) \<le> List.length L" by simp
      from L h obtain k where k: "k \<le> nat (rv n)" "fed L lfd (pos + nat (rv n)) (since v2 v') =
        (take k (filled n), if k = nat (rv n) \<and> r = Inr Moved then pos + nat (rv n) else nat (rv b + int k))" by auto
      have "take k (filled n) = take k (drop pos L)" using k(1) by (simp add: p(2) min_absorb1)
      with k p(1) len show ?thesis
        by (intro exI [of _ k]) (auto simp: tr fed_append f nat_add_distrib)
    qed
    with later_trans [OF l l2] show ?thesis by (auto simp: ahead_def forwards_def)
  qed
qed

section \<open>The loops\<close>

lemma offset_free_simps [simp]:
  "offset_free (Load_flag s)" "offset_free (Print st m)" "offset_free (Fflush st)" "offset_free (Close fd)" "offset_free (Tm c)"
  "offset_free (Ev e)" "offset_free (Pipe (Pc_open_fifo f))" "offset_free (Pipe (Pc_sigaction i h))" "offset_free (Pipe (Pc_mkfifo f))"
  "offset_free (Pipe (Pc_stat f))" "offset_free (Fs c1)"
  by (simp_all add: offset_free_def)

lemma print_flushed_ahead: "ahead L lfd w v \<Longrightarrow> ahead L lfd w (print_flushed [l] v)"
  by (simp add: print_flushed_def println_def ahead_emit)

lemma println_ahead: "ahead L lfd w v \<Longrightarrow> ahead L lfd w (println st m v)"
  by (simp add: println_def ahead_emit)

lemma fd_reset_ahead: "ahead L lfd w v \<Longrightarrow> ahead L lfd w (fd_reset fd v)"
  by (simp add: fd_reset_def ahead_emit)

lemma sys_ahead: "sys c v = Some (a, v') \<Longrightarrow> offset_free c \<Longrightarrow> ahead L lfd v v'"
  by (rule ahead_only) (auto simp: only_def dest: sys_SomeE)

lemma open_writer_ahead:
  assumes "open_writer fifo v = Some (r, v')"
  shows "ahead L lfd v v'"
proof (rule ahead_only, rule keepsD [OF _ assms])
  show "keeps offset_free v (open_writer fifo v)"
    unfolding open_writer_def open_writer_turn_def fd_reset_def sleep_poll_def by (intro keeps_intros; simp add: only_emit)
qed

lemma tail_inner_ahead:
  assumes "tail_inner_turn lfd fd s v = Some (c, v')"
  shows "ahead L lfd v v'"
proof -
  obtain use att where s: "s = (use, att)" by (cases s)
  have inner: "ahead L lfd v2 v'"
    if "(case r of Inl e \<Rightarrow> Some (Break (Inl 1), println Stderr [Txt ''pmon: relay: '', ErrorCode e] v2)
       | Inr Moved \<Rightarrow> Some (Continue (use, True), v2) | Inr Idle \<Rightarrow> Some (Continue (use, True), sleep_poll v2)
       | Inr No_splice \<Rightarrow> Some (Continue (False, True), v2)
       | Inr Detached \<Rightarrow> Some (Continue (use, False), print_flushed [''pmon: tail reader detached''] v2)) = Some (c, v')" for r v2
    using that by (auto split: sum.splits relay.splits simp: sleep_poll_def intro!: println_ahead print_flushed_ahead ahead_emit)
  from assms obtain g v1 where g: "sys (Load_flag ''g_stop'') v = Some (g, v1)"
    and k: "v' = v1 \<or> (\<exists>r v2. (relay_splice lfd fd v1 = Some (r, v2) \<or> relay_rw lfd fd v1 = Some (r, v2)) \<and> ahead L lfd v2 v')"
    unfolding s by (auto simp: tail_inner_turn_def split: if_split_asm dest!: inner)
  from sys_ahead [OF g] have a: "ahead L lfd v v1" by simp
  from k show ?thesis
    by (metis a ahead_trans relay_splice_ahead relay_rw_ahead)
qed

lemma tail_loop_ahead:
  assumes "loop (tail_inner_turn lfd fd) s v = Some (r, v')"
  shows "ahead L lfd v v'"
  by (rule loop_rule [OF assms, where I = "\<lambda>s. ahead L lfd v"]) (auto intro: ahead_trans tail_inner_ahead)

lemma tail_turn_ahead:
  assumes "tail_turn lfd fifo use v = Some (c, v')"
  shows "ahead L lfd v v'"
proof -
  from assms obtain g v1 where g: "sys (Load_flag ''g_stop'') v = Some (g, v1)"
    and k: "v' = v1 \<or> (\<exists>f v2. open_writer fifo v1 = Some (f, v2) \<and>
      (v' = v2 \<or> (\<exists>m. v' = println Stderr m v2) \<or> (\<exists>fd r v3. loop (tail_inner_turn lfd fd) (use, True) v2 = Some (r, v3) \<and> v' = fd_reset fd v3)))"
    by (fastforce simp: tail_turn_def run_cases split: if_splits)
  from sys_ahead [OF g] have a: "ahead L lfd v v1" by simp
  have "ahead L lfd v v2" if "open_writer fifo v1 = Some (f, v2)" for f v2
    using ahead_trans [OF a open_writer_ahead [OF that]] .
  with k a show ?thesis
    by (auto intro!: println_ahead fd_reset_ahead intro: ahead_trans tail_loop_ahead)
qed

lemma tail_loops_ahead:
  assumes "loop (tail_turn lfd fifo) use v = Some (code, v')"
  shows "ahead L lfd v v'"
  by (rule loop_rule [OF assms, where I = "\<lambda>s. ahead L lfd v"]) (auto intro: ahead_trans tail_turn_ahead)

section \<open>The openings of the FIFO\<close>

definition opens_fifo :: "call \<times> answer option \<Rightarrow> bool" where
  "opens_fifo e = (case e of (Pipe (Pc_open_fifo f), Some a) \<Rightarrow> 0 \<le> rv a | _ \<Rightarrow> False)"

text \<open>What the FIFO took at each of its openings, one after the other; the first string is what it took
  before there was any.\<close>

fun taken :: "byte list \<Rightarrow> int \<Rightarrow> nat \<Rightarrow> byte list \<Rightarrow> (call \<times> answer option) list \<Rightarrow> byte list list" where
  "taken L lfd pos bs [] = [bs]"
| "taken L lfd pos bs (e # t) =
     (if opens_fifo e then bs # taken L lfd pos [] t
      else case moved_by L lfd pos e of (cs, pos') \<Rightarrow> taken L lfd pos' (bs @ cs) t)"

lemma opens_fifo_moves: "opens_fifo e \<Longrightarrow> moved_by L lfd pos e = ([], pos)"
  by (auto simp: opens_fifo_def moved_by_def split: prod.splits call.splits pipe_call.splits option.splits)

lemma concat_taken: "concat (taken L lfd pos bs t) = bs @ fst (fed L lfd pos t)"
proof (induction t arbitrary: pos bs)
  case (Cons e t)
  then show ?case by (cases "opens_fifo e") (simp_all add: opens_fifo_moves case_prod_beta)
qed simp

text \<open>Prefixes that lose nothing lose nothing anywhere.\<close>

lemma prefixes_length: "list_all2 prefix xs ys \<Longrightarrow> List.length (concat xs) \<le> List.length (concat ys)"
  by (induction rule: list_all2_induct) (auto dest: prefix_length_le)

lemma prefixes_all:
  assumes "list_all2 prefix xs ys"
  shows "concat xs = concat ys \<longleftrightarrow> xs = ys"
  using assms
proof (induction rule: list_all2_induct)
  case (Cons x xs y ys)
  from Cons(1) obtain z where z: "y = x @ z" by (rule prefixE)
  have "z = []" if "concat xs = z @ concat ys"
    using prefixes_length [OF Cons(2)] arg_cong [OF that, of List.length] by simp
  with Cons(3) z show ?case by auto
qed simp

section \<open>Nothing between two openings is lost\<close>

text \<open>C33: Once \<open>pmon tail\<close> has opened the log, and however its loops end and whatever happened in them, readers
  detaching (\<open>EPIPE\<close>) after any part of a write, interruptions, the change from \<open>splice\<close> to \<open>read\<close> and
  \<open>write\<close>, the bytes the FIFO took, opening after opening, are the log from its first byte up to the file
  offset without a gap: what one opening did not take, the next one begins with. But taken by the FIFO is not
  read: if \<open>got\<close> is what readers took out of the bytes of each opening, the first of them, before the rest
  was thrown away with the FIFO's last close, then the readers were together given the log without a gap
  exactly if they left nothing at any opening.\<close>

theorem tail_no_gap:
  assumes "loop (tail_turn lfd fifo) True w = Some (code, w')"
    and "honest (since w w')" "plain_file L lfd 0 (since w w')"
    and "list_all2 prefix got (taken L lfd 0 [] (since w w'))"
  shows "\<exists>n \<le> List.length L. snd (fed L lfd 0 (since w w')) = n \<and> concat (taken L lfd 0 [] (since w w')) = take n L \<and>
    (concat got = take n L \<longleftrightarrow> got = taken L lfd 0 [] (since w w'))"
proof -
  from tail_loops_ahead [OF assms(1), of L] assms(2,3) obtain n
    where "fed L lfd 0 (since w w') = (take n L, n)" "n \<le> List.length L" by (auto simp: ahead_def forwards_def)
  then show ?thesis using prefixes_all [OF assms(4)] by (intro exI [of _ n]) (simp add: concat_taken)
qed

text \<open>A run with two readers: \<open>splice\<close> moves two bytes, then finds no reader, then is not supported; the
  fallback reads four bytes and writes one of them before the second reader detaches; the third is given
  the rest.\<close>

definition tail_script :: "answer list" where
  "tail_script =
     [returned 0, returned 0, returned 7, returned 1, returned 0, returned 0, returned 2, returned 0, failed EPIPE, returned 0,
      returned 0, returned 0, returned 8, returned 1, returned 0, returned 0, failed EINVAL, returned 0, returned 2, gave (bytes_of ''cdef''), returned 1, failed EPIPE, returned 0,
      returned 0, returned 0, failed ENXIO, returned 0, returned 9, returned 1, returned 0, returned 0, returned 3, gave (bytes_of ''def''), returned 3, returned 1,
      returned 1]"

lemmas tail_eval = tail_turn_def tail_inner_turn_def open_writer_def open_writer_turn_def relay_splice_def relay_rw_def relay_rw_turn_def
  loop.simps io_defs sleep_poll_def print_flushed_def fd_reset_def

lemma tail_script_run:
  "\<exists>w'. loop (tail_turn 3 ''fifo'') True (answering tail_script) = Some (0, w') \<and>
     honest (since (answering tail_script) w') \<and> plain_file (bytes_of ''abcdefgh'') 3 0 (since (answering tail_script) w') \<and>
     snd (fed (bytes_of ''abcdefgh'') 3 0 (since (answering tail_script) w')) = 6 \<and>
     taken (bytes_of ''abcdefgh'') 3 0 [] (since (answering tail_script) w') =
       [[], bytes_of ''ab'', bytes_of ''c'', bytes_of ''def'']"
  by (simp add: tail_script_def tail_eval since_def moved_by_def plain_event_def filled_def opens_fifo_def)

text \<open>The reader of the first opening leaves a byte behind: no reader is given it.\<close>

theorem tail_no_gap_witness:
  "\<exists>w'. loop (tail_turn 3 ''fifo'') True (answering tail_script) = Some (0, w') \<and>
     concat (taken (bytes_of ''abcdefgh'') 3 0 [] (since (answering tail_script) w')) = bytes_of ''abcdef'' \<and>
     concat [[], bytes_of ''a'', bytes_of ''c'', bytes_of ''def''] \<noteq> bytes_of ''abcdef''"
proof -
  from tail_script_run obtain w' where r: "loop (tail_turn 3 ''fifo'') True (answering tail_script) = Some (0, w')"
    "honest (since (answering tail_script) w')" "plain_file (bytes_of ''abcdefgh'') 3 0 (since (answering tail_script) w')"
    and n: "snd (fed (bytes_of ''abcdefgh'') 3 0 (since (answering tail_script) w')) = 6"
    and k: "taken (bytes_of ''abcdefgh'') 3 0 [] (since (answering tail_script) w') =
       [[], bytes_of ''ab'', bytes_of ''c'', bytes_of ''def'']" by blast
  have "list_all2 prefix [[], bytes_of ''a'', bytes_of ''c'', bytes_of ''def'']
      (taken (bytes_of ''abcdefgh'') 3 0 [] (since (answering tail_script) w'))" unfolding k by simp
  from tail_no_gap [OF r this] n k r(1) show ?thesis by auto
qed

end
