(* ===== verification/Control.thy ===== *)
theory Control
  imports Streams Chatterd
begin

text \<open>
  The supervisor with a control socket, \<open>main.cpp\<close> of \<open>examples/19-unix-sockets-fd-passing\<close>: the sockets
  and the log, the child and the thread that reaps and restarts it, the commands of the control socket,
  the client that receives the log's descriptor, and the command line. What the two threads share is
  read and written under the mutex, here as calls. \<open>ControlProps\<close> has the threads as a machine and the theorems.
\<close>

abbreviation kMaxLogRead :: nat where "kMaxLogRead \<equiv> 1048576"

section \<open>Sockets and the log\<close>

definition ct_open_log :: "string \<Rightarrow> world \<Rightarrow> ((msg + int) \<times> world) option" where
  "ct_open_log path w = do {
     (f, w) \<leftarrow> sys (Ctl (Cc_open_log path)) w;
     if rv f < 0 then Some (Inl [Txt (''open '' @ path @ '': ''), StrError (eno f)], w) else Some (Inr (rv f), w) }"

text \<open>\<open>sun_path\<close> has 108 bytes.\<close>

definition unix_addr :: "string \<Rightarrow> msg + string" where
  "unix_addr path = (if List.length path \<ge> 108 then Inl [Txt (path @ '': socket path too long'')] else Inr path)"

definition listen_ctl :: "string \<Rightarrow> world \<Rightarrow> ((msg + int) \<times> world) option" where
  "listen_ctl path w = do {
     let w = emit (Ctl (Cc_unlink path)) w;
     (s, w) \<leftarrow> sys (Ctl Cc_socket) w;
     let fd = rv s;
     if fd < 0 then Some (Inl [Txt ''socket: '', StrError (eno s)], w)
     else (case unix_addr path of
       Inl e \<Rightarrow> Some (Inl e, fd_reset fd w)
     | Inr addr \<Rightarrow> do {
         (b, w) \<leftarrow> sys (Ctl (Cc_bind fd addr)) w;
         if rv b < 0 then Some (Inl [Txt (''bind '' @ path @ '': ''), StrError (eno b)], fd_reset fd w)
         else do {
           (l, w) \<leftarrow> sys (Listen fd 8) w;
           if rv l < 0 then Some (Inl [Txt (''listen '' @ path @ '': ''), StrError (eno l)], fd_reset fd w)
           else Some (Inr fd, w) } }) }"

definition connect_ctl :: "string \<Rightarrow> world \<Rightarrow> ((msg + int) \<times> world) option" where
  "connect_ctl path w = do {
     (s, w) \<leftarrow> sys (Ctl Cc_socket) w;
     let fd = rv s;
     if fd < 0 then Some (Inl [Txt ''socket: '', StrError (eno s)], w)
     else (case unix_addr path of
       Inl e \<Rightarrow> Some (Inl e, fd_reset fd w)
     | Inr addr \<Rightarrow> do {
         (c, w) \<leftarrow> sys (Ctl (Cc_connect fd addr)) w;
         if rv c < 0 then Some (Inl [Txt (''connect '' @ path @ '': ''), StrError (eno c)], fd_reset fd w)
         else Some (Inr fd, w) }) }"

text \<open>The peer's being gone is not an error.\<close>

definition ct_write_turn :: "int \<Rightarrow> byte list \<Rightarrow> world \<Rightarrow> ((byte list, unit) ctl \<times> world) option" where
  "ct_write_turn fd left w =
     (if left \<noteq> [] then do {
        (n, w) \<leftarrow> sys (Write fd left) w;
        if rv n < 0 then
          if eno n = EINTR then Some (Continue left, w) else Some (Break (), w)
        else Some (Continue (drop (nat (rv n)) left), w) }
      else Some (Break (), w))"

definition ct_write_all :: "int \<Rightarrow> string \<Rightarrow> world \<Rightarrow> (unit \<times> world) option" where
  "ct_write_all fd s = loop (ct_write_turn fd) (bytes_of s)"

definition ct_log_line :: "int \<Rightarrow> string \<Rightarrow> world \<Rightarrow> (unit \<times> world) option" where
  "ct_log_line log_fd line = ct_write_all log_fd (line @ [CHR 0x0A])"

section \<open>The child\<close>

text \<open>How a function that forks ends: it goes on, or, in the child, the process exits.\<close>

datatype 'a fork_end = Parent 'a | Child_exit int

definition ct_spawn_child :: "string list \<Rightarrow> int \<Rightarrow> world \<Rightarrow> ((msg + int) fork_end \<times> world) option" where
  "ct_spawn_child argv log_fd w = do {
     (f, w) \<leftarrow> sys (Proc Proc_fork) w;
     if rv f < 0 then Some (Parent (Inl [Txt ''fork: '', StrError (eno f)]), w)
     else if rv f = 0 then do {
       let w = emit (Ctl (Cc_dup2 log_fd 2)) (emit (Ctl (Cc_dup2 log_fd 1)) (emit (Ctl Cc_setpgid) w));
       (e, w) \<leftarrow> sys (Ctl (Cc_execvp argv)) w;
       Some (Child_exit 127, emit (Proc (Proc_exit 127)) (println Stderr [Txt (''pmon: exec '' @ argv ! 0 @ '': ''), StrError (eno e)] w)) }
     else Some (Parent (Inr (rv f)), w) }"

definition exit_code_of :: "int \<Rightarrow> int" where
  "exit_code_of wstatus = (let low = wstatus AND 0x7F in
     if low = 0 then drop_bit 8 (wstatus AND 0xFF00)
     else if low \<noteq> 0x7F then 128 + low
     else 1)"

definition wstatus_of :: "answer \<Rightarrow> int" where
  "wstatus_of a = sint (revents 0 a)"

section \<open>The reaper\<close>

definition locked :: "(world \<Rightarrow> world) \<Rightarrow> world \<Rightarrow> world" where
  "locked f w = emit (Ctl Cc_unlock) (f (emit (Ctl Cc_lock) w))"

definition reaper_finish :: "world \<Rightarrow> world" where
  "reaper_finish = locked (\<lambda>w. emit (Ctl Cc_notify_all) (emit (Store ''child_done'' 1) w))"

text \<open>After the back-off: the next child, or the end of the thread.\<close>

definition reaper_respawn :: "string list \<Rightarrow> int \<Rightarrow> world \<Rightarrow> ((int, unit fork_end) ctl \<times> world) option" where
  "reaper_respawn argv log_fd w = do {
     (c, w) \<leftarrow> ct_spawn_child argv log_fd w;
     (case c of
       Child_exit code \<Rightarrow> Some (Break (Child_exit code), w)
     | Parent (Inl e) \<Rightarrow> Some (Break (Parent ()), reaper_finish (println Stderr ([Txt ''pmon: error: ''] @ e) w))
     | Parent (Inr pid) \<Rightarrow> do {
         (st, w) \<leftarrow> sys (Load_flag ''stopping'') (emit (Ctl Cc_lock) w);
         if rv st \<noteq> 0 then do {
           let w = emit (Proc (Proc_kill (- pid) 15)) (emit (Ctl Cc_unlock) w);
           (_, w) \<leftarrow> sys (Ctl (Cc_waitpid pid)) w;
           Some (Break (Parent ()), reaper_finish w) }
         else do {
           let w = emit (Store ''child'' pid) w;
           (now, w) \<leftarrow> sys Clock_ns w;
           let w = emit (Store ''started'' (rv now)) w;
           (r, w) \<leftarrow> sys (Load_flag ''restarts'') w;
           let w = emit (Ctl Cc_unlock) (emit (Store ''restarts'' (rv r + 1)) w);
           let w = println Stderr [Txt (''pmon: restart '' @ show_int (rv r + 1) @ '' child pid='' @ show_int pid)] w;
           (_, w) \<leftarrow> ct_log_line log_fd (''pmon: start child pid='' @ show_int pid) w;
           Some (Continue pid, w) } }) }"

definition reaper_turn :: "string list \<Rightarrow> int \<Rightarrow> int \<Rightarrow> world \<Rightarrow> ((int, unit fork_end) ctl \<times> world) option" where
  "reaper_turn argv log_fd pid w = do {
     (s, w) \<leftarrow> sys (Ctl (Cc_waitpid pid)) w;
     if rv s < 0 then
       if eno s = EINTR then Some (Continue pid, w) else Some (Break (Parent ()), reaper_finish w)
     else do {
       (st, w) \<leftarrow> sys (Load_flag ''stopping'') (emit (Ctl Cc_lock) w);
       if rv st \<noteq> 0 then
         Some (Break (Parent ()), emit (Ctl Cc_unlock) (emit (Ctl Cc_notify_all) (emit (Store ''child_done'' 1) w)))
       else do {
         let w = println Stderr [Txt (''pmon: child pid='' @ show_int pid @ '' exited status='' @ show_int (exit_code_of (wstatus_of s)))]
           (emit (Ctl Cc_unlock) w);
         (stop, w) \<leftarrow> sys (Ctl (Cc_wait_for 300 ''stopping'')) (emit (Ctl Cc_lock) w);
         if rv stop \<noteq> 0 then
           Some (Break (Parent ()), emit (Ctl Cc_unlock) (emit (Ctl Cc_notify_all) (emit (Store ''child_done'' 1) w)))
         else reaper_respawn argv log_fd (emit (Ctl Cc_unlock) w) } } }"

definition reaper :: "string list \<Rightarrow> int \<Rightarrow> world \<Rightarrow> (unit fork_end \<times> world) option" where
  "reaper argv log_fd w = do {
     (pid, w) \<leftarrow> sys (Load_flag ''child'') (emit (Ctl Cc_lock) w);
     loop (reaper_turn argv log_fd) (rv pid) (emit (Ctl Cc_unlock) w) }"

section \<open>Passing a descriptor\<close>

definition send_fd :: "int \<Rightarrow> int \<Rightarrow> world \<Rightarrow> (unit \<times> world) option" where
  "send_fd sock fd w = do {
     (r, w) \<leftarrow> sys (Ctl (Cc_sendmsg sock (bytes_of (''ok'' @ [CHR 0x0A])) fd)) w;
     Some ((), if rv r < 0 then println Stderr [Txt ''pmon: sendmsg: '', StrError (eno r)] w else w) }"

definition recv_fd :: "int \<Rightarrow> world \<Rightarrow> ((msg + int) \<times> world) option" where
  "recv_fd sock w = do {
     (n, w) \<leftarrow> sys (Ctl (Cc_recvmsg sock 16)) w;
     if rv n < 0 then Some (Inl [Txt ''recvmsg: '', StrError (eno n)], w)
     else (case map_of (evs n) 0 of
       Some fd \<Rightarrow> Some (Inr (sint fd), w)
     | None \<Rightarrow> Some (Inl [Txt ''no SCM_RIGHTS control message in reply''], w)) }"

section \<open>The control socket\<close>

definition read_command_turn :: "int \<Rightarrow> string \<Rightarrow> world \<Rightarrow> ((string, string) ctl \<times> world) option" where
  "read_command_turn conn cmd w =
     (if List.length cmd < 64 then do {
        (n, w) \<leftarrow> sys (Read conn 1) w;
        if rv n < 0 \<and> eno n = EINTR then Some (Continue cmd, w)
        else if rv n \<le> 0 \<or> char_of_byte (filled n ! 0) = CHR 0x0A then Some (Break cmd, w)
        else Some (Continue (cmd @ [char_of_byte (filled n ! 0)]), w) }
      else Some (Break cmd, w))"

definition read_command :: "int \<Rightarrow> world \<Rightarrow> (string \<times> world) option" where
  "read_command conn = loop (read_command_turn conn) []"

text \<open>\<open>duration_cast\<close> to seconds rounds towards zero.\<close>

definition status_reply :: "int \<Rightarrow> int \<Rightarrow> int \<Rightarrow> int \<Rightarrow> string" where
  "status_reply child now started restarts =
     ''child='' @ show_int child @ '' uptime='' @ show_int ((now - started) sdiv 1000000000) @ ''s restarts='' @ show_int restarts @ [CHR 0x0A]"

definition ctl_status :: "int \<Rightarrow> world \<Rightarrow> (unit \<times> world) option" where
  "ctl_status conn w = do {
     (now, w) \<leftarrow> sys Clock_ns (emit (Ctl Cc_lock) w);
     (started, w) \<leftarrow> sys (Load_flag ''started'') w;
     (child, w) \<leftarrow> sys (Load_flag ''child'') w;
     (restarts, w) \<leftarrow> sys (Load_flag ''restarts'') w;
     (_, w) \<leftarrow> ct_write_all conn (status_reply (rv child) (rv now) (rv started) (rv restarts)) w;
     Some ((), emit (Ctl Cc_unlock) w) }"

definition ctl_stop :: "string \<Rightarrow> int \<Rightarrow> world \<Rightarrow> (unit \<times> world) option" where
  "ctl_stop ctl conn w = do {
     (_, w) \<leftarrow> ct_write_all conn (''stopping'' @ [CHR 0x0A]) w;
     let w = println Stderr [Txt ''pmon: stopping''] (fd_reset conn w);
     let w = emit (Store ''stopping'' 1) (emit (Ctl Cc_lock) w);
     (child, w) \<leftarrow> sys (Load_flag ''child'') w;
     let w = emit (Ctl Cc_notify_all) (emit (Ctl Cc_unlock) w);
     let w = (if rv child > 0 then emit (Proc (Proc_kill (- rv child) 15)) w else w);
     (_, w) \<leftarrow> sys (Ctl (Cc_wait ''child_done'')) (emit (Ctl Cc_lock) w);
     Some ((), emit (Ctl (Cc_unlink ctl)) (emit (Ctl Cc_unlock) w)) }"

text \<open>One connection of the accept loop.\<close>

definition ctl_serve_turn :: "string \<Rightarrow> int \<Rightarrow> int \<Rightarrow> unit \<Rightarrow> world \<Rightarrow> ((unit, int) ctl \<times> world) option" where
  "ctl_serve_turn ctl lsock log_fd _ w = do {
     (c, w) \<leftarrow> sys (Accept lsock) w;
     let conn = rv c;
     if conn < 0 then
       if eno c = EINTR then Some (Continue (), w)
       else Some (Break 1, println Stderr [Txt ''pmon: error: accept: '', StrError (eno c)] w)
     else do {
       (cred, w) \<leftarrow> sys (Ctl (Cc_peercred conn)) w;
       let w = (if rv cred = 0 then println Stderr [Txt (''pmon: ctl connect uid='' @ show_nat (unat (revents 0 cred)) @ '' pid='' @ show_int (sint (revents 1 cred)))] w else w);
       (cmd, w) \<leftarrow> read_command conn w;
       if cmd = ''status'' then do { (_, w) \<leftarrow> ctl_status conn w; Some (Continue (), fd_reset conn w) }
       else if cmd = ''logfd'' then do { (_, w) \<leftarrow> send_fd conn log_fd w; Some (Continue (), fd_reset conn w) }
       else if cmd = ''stop'' then do { (_, w) \<leftarrow> ctl_stop ctl conn w; Some (Break 0, w) }
       else do { (_, w) \<leftarrow> ct_write_all conn (''err unknown command'' @ [CHR 0x0A]) w; Some (Continue (), fd_reset conn w) } } }"

text \<open>The supervisor after the first child has started; the destructor of the thread joins it.\<close>

definition ct_serve :: "string \<Rightarrow> int \<Rightarrow> int \<Rightarrow> string list \<Rightarrow> int \<Rightarrow> world \<Rightarrow> (int \<times> world) option" where
  "ct_serve ctl lsock log_fd argv pid w = do {
     let w = println Stderr [Txt (''pmon: started child pid='' @ show_int pid)] w;
     (_, w) \<leftarrow> ct_log_line log_fd (''pmon: start child pid='' @ show_int pid) w;
     (now, w) \<leftarrow> sys Clock_ns (emit (Store ''child'' pid) w);
     let w = emit (Spawn ''reaper'' argv log_fd) (emit (Store ''started'' (rv now)) w);
     (code, w) \<leftarrow> loop (ctl_serve_turn ctl lsock log_fd) () w;
     (_, w) \<leftarrow> sys (Proc (Proc_join ''reaper'')) w;
     Some (code, fd_reset log_fd (fd_reset lsock w)) }"

definition ct_cmd_supervise :: "string \<Rightarrow> string \<Rightarrow> string list \<Rightarrow> world \<Rightarrow> (int fork_end \<times> world) option" where
  "ct_cmd_supervise ctl log_path argv w = do {
     (l, w) \<leftarrow> ct_open_log log_path w;
     (case l of
       Inl e \<Rightarrow> Some (Parent 1, println Stderr ([Txt ''pmon: error: ''] @ e) w)
     | Inr log_fd \<Rightarrow> do {
         (s, w) \<leftarrow> listen_ctl ctl w;
         (case s of
           Inl e \<Rightarrow> Some (Parent 1, fd_reset log_fd (println Stderr ([Txt ''pmon: error: ''] @ e) w))
         | Inr lsock \<Rightarrow> do {
             let w = println Stderr [Txt (''pmon: listening on '' @ ctl)] w;
             (c, w) \<leftarrow> ct_spawn_child argv log_fd w;
             (case c of
               Child_exit code \<Rightarrow> Some (Child_exit code, w)
             | Parent (Inl e) \<Rightarrow> Some (Parent 1, fd_reset log_fd (fd_reset lsock
                 (emit (Ctl (Cc_unlink ctl)) (println Stderr ([Txt ''pmon: error: ''] @ e) w))))
             | Parent (Inr pid) \<Rightarrow> do { (code, w) \<leftarrow> ct_serve ctl lsock log_fd argv pid w; Some (Parent code, w) }) }) }) }"

section \<open>The client\<close>

definition log_read_turn :: "int \<Rightarrow> byte list \<Rightarrow> world \<Rightarrow> ((byte list, msg + byte list) ctl \<times> world) option" where
  "log_read_turn fd data w =
     (if List.length data < kMaxLogRead then do {
        (n, w) \<leftarrow> sys (Ctl (Cc_pread fd 4096 (List.length data))) w;
        if rv n < 0 then
          if eno n = EINTR then Some (Continue data, w)
          else Some (Break (Inl [Txt ''pread: '', StrError (eno n)]), w)
        else if rv n = 0 then Some (Break (Inr data), w)
        else Some (Continue (data @ filled n), w) }
      else Some (Break (Inr data), w))"

text \<open>The loop over \<open>find('\n', pos)\<close>; the last line is the rest.\<close>

function cut_lines :: "string \<Rightarrow> string list" where
  "cut_lines s = (case find_from (CHR 0x0A) s of None \<Rightarrow> [s] | Some nl \<Rightarrow> take nl s # cut_lines (drop (nl + 1) s))"
  by pat_completeness auto
termination
  by (relation "measure List.length") (auto dest: find_from_Some)

declare cut_lines.simps [simp del]

definition tail_lines :: "nat \<Rightarrow> string \<Rightarrow> string list" where
  "tail_lines count data =
     (let data = (if data \<noteq> [] \<and> last data = CHR 0x0A then butlast data else data)
      in if data = [] then []
         else let ls = cut_lines data in if List.length ls > count then drop (List.length ls - count) ls else ls)"

definition log_tail_via_fd :: "int \<Rightarrow> nat \<Rightarrow> world \<Rightarrow> ((msg + string list) \<times> world) option" where
  "log_tail_via_fd fd count w = io_try (loop (log_read_turn fd) [] w) (\<lambda>data w. Some (Inr (tail_lines count (chars_of data)), w))"

definition pmctl_logfd :: "int \<Rightarrow> world \<Rightarrow> (int \<times> world) option" where
  "pmctl_logfd conn w = do {
     (f, w) \<leftarrow> recv_fd conn w;
     (case f of
       Inl e \<Rightarrow> Some (1, println Stderr ([Txt ''pmctl: error: ''] @ e) w)
     | Inr fd \<Rightarrow> do {
         (ls, w) \<leftarrow> log_tail_via_fd fd 3 w;
         (case ls of
           Inl e \<Rightarrow> Some (1, fd_reset fd (println Stderr ([Txt ''pmctl: error: ''] @ e) w))
         | Inr ls \<Rightarrow> Some (0, fd_reset fd (fold (\<lambda>l. println Stdout [Txt (''via-fd: '' @ l)]) ls w))) }) }"

definition pmctl_read_turn :: "int \<Rightarrow> string \<Rightarrow> world \<Rightarrow> ((string, string) ctl \<times> world) option" where
  "pmctl_read_turn conn reply w = do {
     (n, w) \<leftarrow> sys (Read conn 256) w;
     if rv n < 0 \<and> eno n = EINTR then Some (Continue reply, w)
     else if rv n \<le> 0 then Some (Break reply, w)
     else Some (Continue (reply @ chars_of (filled n)), w) }"

definition strip_newlines :: "string \<Rightarrow> string" where
  "strip_newlines s = rev (dropWhile (\<lambda>c. c = CHR 0x0A) (rev s))"

definition pmctl_reply :: "string \<Rightarrow> world \<Rightarrow> int \<times> world" where
  "pmctl_reply reply w =
     (let reply = strip_newlines reply
      in if reply = [] then (1, println Stderr [Txt ''pmctl: error: empty reply from supervisor''] w)
         else if starts_with reply ''err '' then (1, println Stderr [Txt (''pmctl: error: '' @ drop 4 reply)] w)
         else (0, println Stdout [Txt reply] w))"

definition cmd_pmctl :: "string \<Rightarrow> string \<Rightarrow> world \<Rightarrow> (int \<times> world) option" where
  "cmd_pmctl ctl action w = do {
     (c, w) \<leftarrow> connect_ctl ctl w;
     (case c of
       Inl e \<Rightarrow> Some (1, println Stderr ([Txt ''pmctl: error: ''] @ e) w)
     | Inr conn \<Rightarrow> do {
         (_, w) \<leftarrow> ct_write_all conn (action @ [CHR 0x0A]) w;
         if action = ''logfd'' then do { (code, w) \<leftarrow> pmctl_logfd conn w; Some (code, fd_reset conn w) }
         else do {
           (reply, w) \<leftarrow> loop (pmctl_read_turn conn) [] w;
           (case pmctl_reply reply w of (code, w) \<Rightarrow> Some (code, fd_reset conn w)) } }) }"

section \<open>The two threads and the children\<close>

text \<open>
  What the reaper, the control loop and the children do to each other, one step for each region under the
  mutex and each system call that another party can see. A child is new until it has made its own process
  group; a signal to the group reaches it only from then on. \<open>ct_kids\<close> are the processes not yet waited
  for. \<open>M_stop c\<close> is after \<open>stopping\<close> was set, with the child to signal; \<open>M_join\<close> is in the destructor of the
  thread, with the exit status to come. A reply to a client that has hung up kills the process, for SIGPIPE
  keeps its default action: \<open>M_killed\<close> and \<open>R_gone\<close>, with the children going on. Standard error and the
  log are taken to stay writable.
\<close>

datatype kid = Kid_new | Kid_grouped | Kid_asked | Kid_zombie

datatype reaper_pc =
    R_wait int | R_check | R_backoff | R_spawn | R_publish int | R_undo int | R_undo_wait int | R_finish | R_ended | R_gone

datatype main_pc = M_serving | M_stop int | M_wait | M_join int | M_exit int | M_killed

record ct_state =
  ct_child :: int
  ct_restarts :: int
  ct_stopping :: bool
  ct_done :: bool
  ct_kids :: "int \<Rightarrow> kid option"
  ct_reaper :: reaper_pc
  ct_main_pc :: main_pc

definition ct_start :: "int \<Rightarrow> ct_state" where
  "ct_start pid = \<lparr>ct_child = pid, ct_restarts = 0, ct_stopping = False, ct_done = False,
     ct_kids = (\<lambda>_. None)(pid := Some Kid_new), ct_reaper = R_wait pid, ct_main_pc = M_serving\<rparr>"

datatype ct_action =
    Kid_groups int | Kid_exits int | Reap | Reap_fails | Check | Backoff_ends | Respawn int | Respawn_fails | Publish
  | Undo_kill | Undo_reap | Undo_wait_fails | Finish | Stop_cmd | Stop_kill | Stop_done | Accept_fails | Reply_breaks | Joined

text \<open>\<open>kill(-pid, SIGTERM)\<close>.\<close>

definition kill_group :: "int \<Rightarrow> (int \<Rightarrow> kid option) \<Rightarrow> int \<Rightarrow> kid option" where
  "kill_group pid kids = (if kids pid = Some Kid_grouped then kids(pid := Some Kid_asked) else kids)"

text \<open>The child calls \<open>setpgid\<close> itself, and ends when it likes.\<close>

fun ct_kid_next :: "ct_state \<Rightarrow> ct_action \<Rightarrow> ct_state option" where
  "ct_kid_next s (Kid_groups p) = (if ct_kids s p = Some Kid_new then Some (s\<lparr>ct_kids := (ct_kids s)(p := Some Kid_grouped)\<rparr>) else None)"
| "ct_kid_next s (Kid_exits p) = (if ct_kids s p \<in> {Some Kid_new, Some Kid_grouped, Some Kid_asked}
     then Some (s\<lparr>ct_kids := (ct_kids s)(p := Some Kid_zombie)\<rparr>) else None)"
| "ct_kid_next s _ = None"

text \<open>
  The reaper. Its \<open>waitpid\<close> is repeated when a signal interrupts it and otherwise ends the thread where it
  fails; that of a respawn undone is made once, whatever it answers.
\<close>

fun ct_reaper_next :: "ct_state \<Rightarrow> ct_action \<Rightarrow> ct_state option" where
  "ct_reaper_next s Reap = (case ct_reaper s of
     R_wait p \<Rightarrow> if ct_kids s p = Some Kid_zombie then Some (s\<lparr>ct_kids := (ct_kids s)(p := None), ct_reaper := R_check\<rparr>) else None
   | _ \<Rightarrow> None)"
| "ct_reaper_next s Reap_fails = (case ct_reaper s of R_wait p \<Rightarrow> Some (s\<lparr>ct_reaper := R_finish\<rparr>) | _ \<Rightarrow> None)"
| "ct_reaper_next s Check = (if ct_reaper s = R_check then
     Some (if ct_stopping s then s\<lparr>ct_done := True, ct_reaper := R_ended\<rparr> else s\<lparr>ct_reaper := R_backoff\<rparr>) else None)"
| "ct_reaper_next s Backoff_ends = (if ct_reaper s = R_backoff then
     Some (if ct_stopping s then s\<lparr>ct_done := True, ct_reaper := R_ended\<rparr> else s\<lparr>ct_reaper := R_spawn\<rparr>) else None)"
| "ct_reaper_next s (Respawn p) = (if ct_reaper s = R_spawn \<and> 0 < p \<and> ct_kids s p = None then
     Some (s\<lparr>ct_kids := (ct_kids s)(p := Some Kid_new), ct_reaper := R_publish p\<rparr>) else None)"
| "ct_reaper_next s Respawn_fails = (if ct_reaper s = R_spawn then Some (s\<lparr>ct_reaper := R_finish\<rparr>) else None)"
| "ct_reaper_next s Publish = (case ct_reaper s of
     R_publish p \<Rightarrow> Some (if ct_stopping s then s\<lparr>ct_reaper := R_undo p\<rparr>
       else s\<lparr>ct_child := p, ct_restarts := ct_restarts s + 1, ct_reaper := R_wait p\<rparr>)
   | _ \<Rightarrow> None)"
| "ct_reaper_next s Undo_kill = (case ct_reaper s of
     R_undo p \<Rightarrow> Some (s\<lparr>ct_kids := kill_group p (ct_kids s), ct_reaper := R_undo_wait p\<rparr>) | _ \<Rightarrow> None)"
| "ct_reaper_next s Undo_reap = (case ct_reaper s of
     R_undo_wait p \<Rightarrow> if ct_kids s p = Some Kid_zombie then Some (s\<lparr>ct_kids := (ct_kids s)(p := None), ct_reaper := R_finish\<rparr>) else None
   | _ \<Rightarrow> None)"
| "ct_reaper_next s Undo_wait_fails = (case ct_reaper s of R_undo_wait p \<Rightarrow> Some (s\<lparr>ct_reaper := R_finish\<rparr>) | _ \<Rightarrow> None)"
| "ct_reaper_next s Finish = (if ct_reaper s = R_finish then Some (s\<lparr>ct_done := True, ct_reaper := R_ended\<rparr>) else None)"
| "ct_reaper_next s _ = None"

text \<open>
  The control loop: a reply that breaks, the three parts of \<open>stop\<close>, an error of \<open>accept\<close>, and the end of
  the function, where the destructor of the thread waits for the reaper.
\<close>

fun ct_loop_next :: "ct_state \<Rightarrow> ct_action \<Rightarrow> ct_state option" where
  "ct_loop_next s Stop_cmd = (if ct_main_pc s = M_serving then Some (s\<lparr>ct_stopping := True, ct_main_pc := M_stop (ct_child s)\<rparr>) else None)"
| "ct_loop_next s Stop_kill = (case ct_main_pc s of
     M_stop c \<Rightarrow> Some (s\<lparr>ct_kids := (if c > 0 then kill_group c (ct_kids s) else ct_kids s), ct_main_pc := M_wait\<rparr>) | _ \<Rightarrow> None)"
| "ct_loop_next s Stop_done = (if ct_main_pc s = M_wait \<and> ct_done s then Some (s\<lparr>ct_main_pc := M_join 0\<rparr>) else None)"
| "ct_loop_next s Accept_fails = (if ct_main_pc s = M_serving then Some (s\<lparr>ct_main_pc := M_join 1\<rparr>) else None)"
| "ct_loop_next s Reply_breaks = (if ct_main_pc s = M_serving then Some (s\<lparr>ct_main_pc := M_killed, ct_reaper := R_gone\<rparr>) else None)"
| "ct_loop_next s Joined = (case ct_main_pc s of
     M_join code \<Rightarrow> if ct_reaper s = R_ended then Some (s\<lparr>ct_main_pc := M_exit code\<rparr>) else None | _ \<Rightarrow> None)"
| "ct_loop_next s _ = None"

fun ct_next :: "ct_state \<Rightarrow> ct_action \<Rightarrow> ct_state option" where
  "ct_next s (Kid_groups p) = ct_kid_next s (Kid_groups p)" | "ct_next s (Kid_exits p) = ct_kid_next s (Kid_exits p)"
| "ct_next s Stop_cmd = ct_loop_next s Stop_cmd" | "ct_next s Stop_kill = ct_loop_next s Stop_kill"
| "ct_next s Stop_done = ct_loop_next s Stop_done" | "ct_next s Accept_fails = ct_loop_next s Accept_fails"
| "ct_next s Reply_breaks = ct_loop_next s Reply_breaks" | "ct_next s Joined = ct_loop_next s Joined"
| "ct_next s a = ct_reaper_next s a"

section \<open>The command line\<close>

definition ct_usage :: "world \<Rightarrow> world" where
  "ct_usage w = println Stderr [Txt ''       pmon pmctl --ctl SOCK <status|stop|logfd>'']
     (println Stderr [Txt ''usage: pmon supervise --ctl SOCK --log FILE -- CMD [ARG...]''] w)"

fun ct_supervise_args :: "string list \<Rightarrow> string \<times> string \<Rightarrow> (string \<times> string \<times> string list) option" where
  "ct_supervise_args [] (ctl, lg) = Some (ctl, lg, [])"
| "ct_supervise_args [a] (ctl, lg) = (if a = ''--'' then Some (ctl, lg, []) else None)"
| "ct_supervise_args (a # v # rest) (ctl, lg) =
     (if a = ''--ctl'' then ct_supervise_args rest (v, lg)
      else if a = ''--log'' then ct_supervise_args rest (ctl, v)
      else if a = ''--'' then Some (ctl, lg, v # rest)
      else None)"

text \<open>An action given twice is refused; \<open>--ctl\<close> as the last argument is taken for the action.\<close>

fun ct_pmctl_args :: "string list \<Rightarrow> string \<times> string \<Rightarrow> (string \<times> string) option" where
  "ct_pmctl_args [] st = Some st"
| "ct_pmctl_args [a] (ctl, action) = (if action = [] then Some (ctl, a) else None)"
| "ct_pmctl_args (a # v # rest) (ctl, action) =
     (if a = ''--ctl'' then ct_pmctl_args rest (v, action)
      else if action = [] then ct_pmctl_args (v # rest) (ctl, a)
      else None)"

definition ct_main :: "string list \<Rightarrow> world \<Rightarrow> (int fork_end \<times> world) option" where
  "ct_main args w = (case args of
       [] \<Rightarrow> Some (Parent 2, ct_usage w)
     | a # rest \<Rightarrow>
         if a = ''supervise'' then
           (case ct_supervise_args rest ([], []) of
             None \<Rightarrow> Some (Parent 2, ct_usage w)
           | Some (ctl, lg, child) \<Rightarrow>
               if ctl = [] \<or> lg = [] \<or> child = [] then Some (Parent 2, ct_usage w)
               else ct_cmd_supervise ctl lg child w)
         else if a = ''pmctl'' then
           (case ct_pmctl_args rest ([], []) of
             None \<Rightarrow> Some (Parent 2, ct_usage w)
           | Some (ctl, action) \<Rightarrow>
               if ctl = [] \<or> action \<notin> {''status'', ''stop'', ''logfd''} then Some (Parent 2, ct_usage w)
               else do { (code, w) \<leftarrow> cmd_pmctl ctl action w; Some (Parent code, w) })
         else Some (Parent 2, ct_usage w))"

end
