(* ===== verification/ControlProps.thy ===== *)
theory ControlProps
  imports Control Refinement
begin

text \<open>
  What is proved of the supervisor with a control socket: when it has exited no child is left, as long as
  its waits succeed; a stop that reaches its child completes within ten steps, and two ways in which the
  program hangs where it does not; and which lines of the log the client shows.
\<close>

section \<open>The children and the reaper\<close>

text \<open>
  The process the reaper has not waited for yet, and the places at which it has given up: from there a child
  may be left, which is one at most.
\<close>

fun kid_of :: "reaper_pc \<Rightarrow> int option" where
  "kid_of (R_wait p) = Some p" | "kid_of (R_publish p) = Some p" | "kid_of (R_undo p) = Some p" | "kid_of (R_undo_wait p) = Some p"
| "kid_of _ = None"

fun gave_up :: "reaper_pc \<Rightarrow> bool" where
  "gave_up R_finish \<longleftrightarrow> True" | "gave_up R_ended \<longleftrightarrow> True" | "gave_up R_gone \<longleftrightarrow> True" | "gave_up _ \<longleftrightarrow> False"

definition one_at_most :: "int set \<Rightarrow> bool" where
  "one_at_most ps \<longleftrightarrow> (\<exists>p. ps \<subseteq> {p})"

lemma one_at_most_simps [simp]: "one_at_most {}" "one_at_most {p}"
  by (auto simp: one_at_most_def)

definition kids_ok :: "bool \<Rightarrow> int option \<Rightarrow> int set \<Rightarrow> bool" where
  "kids_ok loose k ps \<longleftrightarrow> (case k of Some p \<Rightarrow> ps = {p} | None \<Rightarrow> if loose then one_at_most ps else ps = {})"

lemma kids_ok_simps [simp]:
  "kids_ok loose (Some p) ps \<longleftrightarrow> ps = {p}" "kids_ok False None ps \<longleftrightarrow> ps = {}" "kids_ok True None ps \<longleftrightarrow> one_at_most ps"
  by (simp_all add: kids_ok_def)

definition ends_inv :: "ct_state \<Rightarrow> bool" where
  "ends_inv s \<longleftrightarrow> (ct_reaper s = R_gone \<or> (ct_done s \<longleftrightarrow> ct_reaper s = R_ended)) \<and>
     (\<forall>c. ct_main_pc s = M_exit c \<longrightarrow> ct_reaper s = R_ended) \<and> (ct_main_pc s = M_killed \<longleftrightarrow> ct_reaper s = R_gone)"

definition kids_inv :: "ct_state \<Rightarrow> bool" where
  "kids_inv s \<longleftrightarrow> kids_ok (gave_up (ct_reaper s)) (kid_of (ct_reaper s)) (dom (ct_kids s)) \<and> ends_inv s"

lemma dom_kill_group [simp]: "dom (kill_group p kids) = dom kids"
  by (auto simp: kill_group_def)

lemma dom_step: "kids p = Some k \<Longrightarrow> insert p (dom kids) = dom kids"
  by (auto simp: dom_def)

lemma ends_inv_next: "ends_inv s \<Longrightarrow> ct_next s a = Some s' \<Longrightarrow> ends_inv s'"
  by (cases a) (auto simp: ends_inv_def split: if_splits reaper_pc.splits main_pc.splits)

lemma kids_inv_next:
  assumes i: "kids_inv s" and n: "ct_next s a = Some s'"
  shows "kids_inv s'"
proof -
  have k: "kids_ok (gave_up (ct_reaper s)) (kid_of (ct_reaper s)) (dom (ct_kids s))" using i by (simp add: kids_inv_def)
  have "kids_ok (gave_up (ct_reaper s')) (kid_of (ct_reaper s')) (dom (ct_kids s'))"
  proof (cases a)
    case (Kid_groups p)
    with n k show ?thesis by (auto simp: dom_step split: if_splits)
  next
    case (Kid_exits p)
    with n k show ?thesis by (auto simp: dom_step split: if_splits)
  next
    case Stop_kill
    with n obtain c where "s' = s\<lparr>ct_kids := (if c > 0 then kill_group c (ct_kids s) else ct_kids s), ct_main_pc := M_wait\<rparr>"
      by (auto split: main_pc.splits)
    then have "ct_reaper s' = ct_reaper s \<and> dom (ct_kids s') = dom (ct_kids s)" by (cases "c > 0") simp_all
    with k show ?thesis by simp
  next
    case Joined
    with n have "ct_reaper s' = ct_reaper s \<and> ct_kids s' = ct_kids s" by (auto split: main_pc.splits if_splits)
    with k show ?thesis by simp
  next
    case Reply_breaks
    with n k show ?thesis by (cases "ct_reaper s") (auto split: if_splits)
  qed (use n k in \<open>auto split: reaper_pc.splits if_splits\<close>)
  with i n ends_inv_next [of s a s'] show ?thesis by (simp add: kids_inv_def)
qed

lemma kids_inv_start: "kids_inv (ct_start pid)"
  by (simp add: kids_inv_def ends_inv_def ct_start_def)

lemma kids_inv_run: "run ct_next (ct_start pid) as = Some s \<Longrightarrow> kids_inv s"
  using run_invariant [of ct_next _ as s kids_inv] kids_inv_start kids_inv_next by blast

text \<open>As long as no \<open>waitpid\<close> fails, a reaper that has given up has left no child, unless the process was killed.\<close>

definition reaped_inv :: "ct_state \<Rightarrow> bool" where
  "reaped_inv s \<longleftrightarrow> kids_inv s \<and> (ct_reaper s = R_gone \<or> kids_ok False (kid_of (ct_reaper s)) (dom (ct_kids s)))"

lemma reaped_inv_next:
  assumes i: "reaped_inv s" and n: "ct_next s a = Some s'" and w: "a \<noteq> Reap_fails" "a \<noteq> Undo_wait_fails"
  shows "reaped_inv s'"
proof -
  have e: "ends_inv s" and k: "ct_reaper s = R_gone \<or> kids_ok False (kid_of (ct_reaper s)) (dom (ct_kids s))"
    using i by (simp_all add: reaped_inv_def kids_inv_def)
  have "ct_reaper s' = R_gone \<or> kids_ok False (kid_of (ct_reaper s')) (dom (ct_kids s'))"
  proof (cases a)
    case (Kid_groups p)
    with n k show ?thesis by (auto simp: dom_step split: if_splits)
  next
    case (Kid_exits p)
    with n k show ?thesis by (auto simp: dom_step split: if_splits)
  next
    case Stop_kill
    with n obtain c where "s' = s\<lparr>ct_kids := (if c > 0 then kill_group c (ct_kids s) else ct_kids s), ct_main_pc := M_wait\<rparr>"
      by (auto split: main_pc.splits)
    then have "ct_reaper s' = ct_reaper s \<and> dom (ct_kids s') = dom (ct_kids s)" by (cases "c > 0") simp_all
    with k show ?thesis by simp
  next
    case Joined
    with n have "ct_reaper s' = ct_reaper s \<and> ct_kids s' = ct_kids s" by (auto split: main_pc.splits if_splits)
    with k show ?thesis by simp
  qed (use n k w in \<open>auto split: reaper_pc.splits if_splits\<close>)
  with i n kids_inv_next [of s a s'] show ?thesis by (simp add: reaped_inv_def)
qed

lemma reaped_inv_run:
  assumes "run ct_next s as = Some s'" "reaped_inv s" "Reap_fails \<notin> set as" "Undo_wait_fails \<notin> set as"
  shows "reaped_inv s'"
  using assms by (induction as arbitrary: s) (auto split: option.splits dest: reaped_inv_next)

text \<open>C35: The supervisor leaves no child behind as long as its waits succeed. In every interleaving of the
  reaper, the control loop and the children in which no \<open>waitpid\<close> failed and that of an undone respawn was
  not interrupted, whatever stop, respawn and a failing fork do to each other: when the program has
  exited, with 0 or 1, every process it forked has ended and was waited for.\<close>

theorem ct_exit_leaves_no_child:
  assumes "run ct_next (ct_start pid) as = Some s" "ct_main_pc s = M_exit code"
    and "Reap_fails \<notin> set as" "Undo_wait_fails \<notin> set as"
  shows "ct_kids s = (\<lambda>_. None)"
proof -
  have "reaped_inv (ct_start pid)" using kids_inv_start by (simp add: reaped_inv_def) (simp add: ct_start_def)
  from reaped_inv_run [OF assms(1) this assms(3,4)] assms(2) show ?thesis
    by (auto simp: reaped_inv_def kids_inv_def ends_inv_def)
qed

text \<open>
  The three ways out that leave one: a wait that fails, the wait of an undone respawn that a signal
  interrupts, and a client that hangs up before its reply.
\<close>

lemma ct_exits_leaving_a_child:
  "\<exists>s. run ct_next (ct_start 5) [Reap_fails, Finish, Stop_cmd, Stop_kill, Stop_done, Joined] = Some s \<and>
    ct_main_pc s = M_exit 0 \<and> ct_kids s 5 = Some Kid_new"
  "\<exists>s. run ct_next (ct_start 5) [Kid_groups 5, Kid_exits 5, Reap, Check, Backoff_ends, Stop_cmd, Respawn 6, Stop_kill, Publish,
    Kid_groups 6, Undo_kill, Undo_wait_fails, Finish, Stop_done, Joined] = Some s \<and> ct_main_pc s = M_exit 0 \<and> ct_kids s 6 = Some Kid_asked"
  "\<exists>s. run ct_next (ct_start 5) [Kid_groups 5, Reply_breaks] = Some s \<and> ct_main_pc s = M_killed \<and> ct_kids s 5 = Some Kid_grouped"
  by (simp_all add: ct_start_def kill_group_def)

text \<open>The stop races with a respawn, which is undone.\<close>

definition ct_race :: "ct_action list" where
  "ct_race = [Kid_groups 5, Kid_exits 5, Reap, Check, Backoff_ends, Stop_cmd, Respawn 6, Stop_kill, Publish, Kid_groups 6, Undo_kill,
     Kid_exits 6, Undo_reap, Finish, Stop_done, Joined]"

lemma ct_race_run: "\<exists>s. run ct_next (ct_start 5) ct_race = Some s \<and> ct_main_pc s = M_exit 0 \<and> ct_restarts s = 0"
  by (simp add: ct_race_def ct_start_def kill_group_def)

theorem ct_exit_leaves_no_child_witness:
  "\<exists>s. run ct_next (ct_start 5) ct_race = Some s \<and> ct_main_pc s = M_exit 0 \<and> ct_kids s = (\<lambda>_. None)"
  proof -
  from ct_race_run obtain s where s: "run ct_next (ct_start 5) ct_race = Some s" "ct_main_pc s = M_exit 0" by blast
  from ct_exit_leaves_no_child [OF s] have "ct_kids s = (\<lambda>_. None)" by (simp add: ct_race_def)
  with s show ?thesis by blast
qed

section \<open>A stop that reaches the child\<close>

text \<open>The steps of a run in which no signal is sent to a child that has not made its group yet, and the steps
  that do not depend on a child's own will: one that was asked to end does.\<close>

definition kill_arrives :: "ct_state \<Rightarrow> ct_action \<Rightarrow> bool" where
  "kill_arrives s a = (case a of
     Stop_kill \<Rightarrow> (case ct_main_pc s of M_stop c \<Rightarrow> ct_kids s c \<noteq> Some Kid_new | _ \<Rightarrow> True)
   | Undo_kill \<Rightarrow> (case ct_reaper s of R_undo p \<Rightarrow> ct_kids s p \<noteq> Some Kid_new | _ \<Rightarrow> True)
   | _ \<Rightarrow> True)"

definition ct_timely :: "ct_state \<Rightarrow> ct_action \<Rightarrow> ct_state option" where
  "ct_timely s a = (if kill_arrives s a then ct_next s a else None)"

definition unforced :: "ct_state \<Rightarrow> ct_action \<Rightarrow> bool" where
  "unforced s a \<longleftrightarrow> (\<exists>p. a = Kid_exits p \<and> ct_kids s p \<noteq> Some Kid_asked)"

definition asked_kid :: "ct_state \<Rightarrow> int \<Rightarrow> bool" where
  "asked_kid s p \<longleftrightarrow> ct_kids s p = Some Kid_asked \<or> ct_kids s p = Some Kid_zombie"

fun reaper_ok :: "int \<Rightarrow> (int \<Rightarrow> bool) \<Rightarrow> reaper_pc \<Rightarrow> bool" where
  "reaper_ok child asked (R_wait p) \<longleftrightarrow> p = child"
| "reaper_ok child asked (R_publish p) \<longleftrightarrow> 0 < p"
| "reaper_ok child asked (R_undo_wait p) \<longleftrightarrow> asked p"
| "reaper_ok child asked _ \<longleftrightarrow> True"

fun main_ok :: "bool \<Rightarrow> bool \<Rightarrow> int \<Rightarrow> (int \<Rightarrow> bool) \<Rightarrow> reaper_pc \<Rightarrow> main_pc \<Rightarrow> bool" where
  "main_ok stopping dn child asked r M_serving \<longleftrightarrow> \<not> stopping"
| "main_ok stopping dn child asked r (M_stop c) \<longleftrightarrow> stopping \<and> c = child"
| "main_ok stopping dn child asked r M_wait \<longleftrightarrow> stopping \<and> (case r of R_wait p \<Rightarrow> asked p | _ \<Rightarrow> True)"
| "main_ok stopping dn child asked r (M_join c) \<longleftrightarrow> (if stopping then dn \<and> c = 0 else c = 1)"
| "main_ok stopping dn child asked r (M_exit c) \<longleftrightarrow> (if stopping then c = 0 else c = 1)"
| "main_ok stopping dn child asked r M_killed \<longleftrightarrow> \<not> stopping"

definition stop_inv :: "ct_state \<Rightarrow> bool" where
  "stop_inv s \<longleftrightarrow> kids_inv s \<and> 0 < ct_child s \<and> reaper_ok (ct_child s) (asked_kid s) (ct_reaper s) \<and>
     main_ok (ct_stopping s) (ct_done s) (ct_child s) (asked_kid s) (ct_reaper s) (ct_main_pc s)"

lemma stop_inv_frame:
  assumes "stop_inv s" "kids_inv s'" "\<And>p. asked_kid s p \<Longrightarrow> asked_kid s' p"
    and "ct_child s' = ct_child s" "ct_stopping s' = ct_stopping s" "ct_done s' = ct_done s" "ct_reaper s' = ct_reaper s" "ct_main_pc s' = ct_main_pc s"
  shows "stop_inv s'"
  using assms by (cases "ct_reaper s"; cases "ct_main_pc s") (auto simp: stop_inv_def)

lemma main_ok_reaper:
  assumes "main_ok stopping dn child asked r m" "dn \<Longrightarrow> dn'" "stopping \<Longrightarrow> child' = child \<and> (\<forall>p. r' \<noteq> R_wait p)" "stopping' = stopping"
  shows "main_ok stopping' dn' child' asked' r' m"
  using assms by (cases m) (auto split: reaper_pc.split)

lemma kill_group_asks:
  assumes "kids p \<noteq> None" "kids p \<noteq> Some Kid_new"
  shows "kill_group p kids p = Some Kid_asked \<or> kill_group p kids p = Some Kid_zombie"
proof -
  from assms(1) obtain k where "kids p = Some k" by blast
  with assms(2) show ?thesis by (cases k) (auto simp: kill_group_def)
qed

lemma kill_group_keeps:
  "kids q = Some Kid_asked \<Longrightarrow> kill_group p kids q = Some Kid_asked" "kids q = Some Kid_zombie \<Longrightarrow> kill_group p kids q = Some Kid_zombie"
  by (auto simp: kill_group_def)

lemma stop_inv_next:
  assumes i: "stop_inv s" and t: "ct_timely s a = Some s'"
  shows "stop_inv s'"
proof -
  from t have n: "ct_next s a = Some s'" and arr: "kill_arrives s a" by (auto simp: ct_timely_def split: if_splits)
  have k: "kids_inv s'" using i n kids_inv_next [of s a s'] by (auto simp: stop_inv_def)
  have kd: "ct_kids s p \<noteq> None" if "kid_of (ct_reaper s) = Some p" for p
    using i that by (auto simp: stop_inv_def kids_inv_def)
  from i have ch: "0 < ct_child s"
    and r: "reaper_ok (ct_child s) (asked_kid s) (ct_reaper s)"
    and m: "main_ok (ct_stopping s) (ct_done s) (ct_child s) (asked_kid s) (ct_reaper s) (ct_main_pc s)"
    by (simp_all add: stop_inv_def)
  show ?thesis
  proof (cases a)
    case (Kid_groups p)
    with n k show ?thesis by (intro stop_inv_frame [OF i]) (auto simp: asked_kid_def split: if_splits)
  next
    case (Kid_exits p)
    with n k show ?thesis by (intro stop_inv_frame [OF i]) (auto simp: asked_kid_def split: if_splits)
  next
    case Undo_kill
    with n obtain p where rp: "ct_reaper s = R_undo p" and s': "s' = s\<lparr>ct_kids := kill_group p (ct_kids s), ct_reaper := R_undo_wait p\<rparr>"
      by (auto split: reaper_pc.splits)
    have "asked_kid s' p"
      using kill_group_asks [OF kd] arr rp Undo_kill by (auto simp: asked_kid_def s' kill_arrives_def)
    with k ch m rp show ?thesis by (cases "ct_main_pc s") (auto simp: stop_inv_def s')
  next
    case Stop_kill
    with n m ch have mp: "ct_main_pc s = M_stop (ct_child s)" and st: "ct_stopping s"
      and s': "s' = s\<lparr>ct_kids := kill_group (ct_child s) (ct_kids s), ct_main_pc := M_wait\<rparr>"
      by (auto split: main_pc.splits)
    have "asked_kid s' (ct_child s)" if "ct_reaper s = R_wait p" for p
      using kill_group_asks [where p = p, OF kd] that r arr mp Stop_kill by (auto simp: asked_kid_def s' kill_arrives_def)
    moreover have "asked_kid s' p" if "asked_kid s p" for p
      using that by (auto simp: asked_kid_def s' kill_group_keeps)
    ultimately show ?thesis using k r ch st by (cases "ct_reaper s") (auto simp: stop_inv_def s')
  next
    case Reap
    with n k ch show ?thesis by (auto simp: stop_inv_def split: reaper_pc.splits if_splits intro: main_ok_reaper [OF m])
  next
    case Check
    with n k ch show ?thesis by (auto simp: stop_inv_def split: if_splits intro: main_ok_reaper [OF m])
  next
    case Backoff_ends
    with n k ch show ?thesis by (auto simp: stop_inv_def split: if_splits intro: main_ok_reaper [OF m])
  next
    case (Respawn p)
    with n k ch show ?thesis by (auto simp: stop_inv_def split: if_splits intro: main_ok_reaper [OF m])
  next
    case Respawn_fails
    with n k ch show ?thesis by (auto simp: stop_inv_def split: if_splits intro: main_ok_reaper [OF m])
  next
    case Publish
    with n k ch r show ?thesis by (auto simp: stop_inv_def split: reaper_pc.splits if_splits intro: main_ok_reaper [OF m])
  next
    case Undo_reap
    with n k ch show ?thesis by (auto simp: stop_inv_def split: reaper_pc.splits if_splits intro: main_ok_reaper [OF m])
  next
    case Finish
    with n k ch show ?thesis by (auto simp: stop_inv_def split: if_splits intro: main_ok_reaper [OF m])
  next
    case Stop_cmd
    with n k ch r show ?thesis by (cases "ct_reaper s") (auto simp: stop_inv_def asked_kid_def split: if_splits)
  next
    case Stop_done
    with n k ch r m show ?thesis by (cases "ct_reaper s") (auto simp: stop_inv_def asked_kid_def split: if_splits)
  next
    case Reap_fails
    with n k ch show ?thesis by (auto simp: stop_inv_def split: reaper_pc.splits if_splits intro: main_ok_reaper [OF m])
  next
    case Undo_wait_fails
    with n k ch show ?thesis by (auto simp: stop_inv_def split: reaper_pc.splits if_splits intro: main_ok_reaper [OF m])
  next
    case Reply_breaks
    with n k ch m show ?thesis by (auto simp: stop_inv_def split: if_splits)
  next
    case Accept_fails
    with n k ch r m show ?thesis by (cases "ct_reaper s") (auto simp: stop_inv_def asked_kid_def split: if_splits)
  next
    case Joined
    with n k ch r m show ?thesis by (cases "ct_reaper s") (auto simp: stop_inv_def asked_kid_def split: if_splits main_pc.splits)
  qed
qed

lemma stop_inv_start: "0 < pid \<Longrightarrow> stop_inv (ct_start pid)"
  using kids_inv_start [of pid] by (simp add: stop_inv_def ct_start_def)

lemma stop_inv_run: "0 < pid \<Longrightarrow> run ct_timely (ct_start pid) as = Some s \<Longrightarrow> stop_inv s"
  using run_invariant [of ct_timely _ as s stop_inv] stop_inv_start stop_inv_next by blast

text \<open>How many steps are left once a stop was asked for.\<close>

fun kid_left :: "kid option \<Rightarrow> nat" where
  "kid_left (Some Kid_new) = 2" | "kid_left (Some Kid_grouped) = 1" | "kid_left (Some Kid_asked) = 1" | "kid_left _ = 0"

fun reaper_left :: "reaper_pc \<Rightarrow> nat" where
  "reaper_left (R_wait p) = 2" | "reaper_left R_check = 1" | "reaper_left R_backoff = 1"
| "reaper_left R_spawn = 7" | "reaper_left (R_publish p) = 4" | "reaper_left (R_undo p) = 3" | "reaper_left (R_undo_wait p) = 2"
| "reaper_left R_finish = 1" | "reaper_left R_ended = 0" | "reaper_left R_gone = 0"

fun main_left :: "main_pc \<Rightarrow> nat" where
  "main_left M_serving = 4" | "main_left (M_stop c) = 3" | "main_left M_wait = 2" | "main_left (M_join c) = 1" | "main_left (M_exit c) = 0"
| "main_left M_killed = 0"

definition kids_left :: "(int \<Rightarrow> kid option) \<Rightarrow> nat" where
  "kids_left kids = (\<Sum>p \<in> dom kids. kid_left (kids p))"

definition steps_left :: "ct_state \<Rightarrow> nat" where
  "steps_left s = reaper_left (ct_reaper s) + kids_left (ct_kids s) + main_left (ct_main_pc s)"

lemma kid_left_kill [simp]: "kid_left (kill_group p kids q) = kid_left (kids q)"
  by (simp add: kill_group_def)

lemma kids_left_kill [simp]: "kids_left (kill_group p kids) = kids_left kids"
  by (simp add: kids_left_def)

lemma kid_left_le: "kid_left k \<le> 2"
  by (cases k rule: kid_left.cases) auto

lemma kids_left_one: "dom kids \<subseteq> {p} \<Longrightarrow> kids_left kids = kid_left (kids p)"
  by (cases "kids p") (auto simp: kids_left_def subset_singleton_iff)

lemma kids_left_upd: "dom kids \<subseteq> {p} \<Longrightarrow> kids_left (kids(p := k)) = kid_left k"
  by (subst kids_left_one [of _ p]) auto

lemma kids_inv_one: "kids_inv s \<Longrightarrow> \<exists>p. dom (ct_kids s) \<subseteq> {p}"
  by (cases "kid_of (ct_reaper s)"; cases "gave_up (ct_reaper s)") (auto simp: kids_inv_def one_at_most_def)

lemma kids_left_le:
  assumes "kids_inv s"
  shows "reaper_left (ct_reaper s) + kids_left (ct_kids s) \<le> 7"
proof -
  from kids_inv_one [OF assms] kids_left_one kid_left_le have "kids_left (ct_kids s) \<le> 2" by metis
  moreover have "kids_left (ct_kids s) = 0" if "ct_reaper s = R_spawn"
    using assms that by (simp add: kids_inv_def kids_left_def)
  ultimately show ?thesis by (cases "ct_reaper s") auto
qed

lemma kids_inv_dom: "kids_inv s \<Longrightarrow> ct_kids s p = Some k \<Longrightarrow> dom (ct_kids s) \<subseteq> {p}"
  using kids_inv_one [of s] by (metis domI singletonD subsetD)

lemma stop_step:
  assumes i: "stop_inv s" "ct_stopping s" and n: "ct_next s a = Some s'"
  shows "ct_stopping s' \<and> steps_left s' < steps_left s"
proof -
  have m: "ct_main_pc s \<noteq> M_serving" using i by (auto simp: stop_inv_def)
  have k: "kids_inv s" using i by (simp add: stop_inv_def)
  note d = kids_inv_dom [OF k] and u = kids_left_upd [OF kids_inv_dom [OF k]] kids_left_one [OF kids_inv_dom [OF k]]
  show ?thesis
  proof (cases a)
    case (Kid_groups p)
    with n i(2) u [of p] show ?thesis by (auto simp: steps_left_def split: if_splits)
  next
    case (Kid_exits p)
    with n i(2) u [of p] show ?thesis by (auto simp: steps_left_def split: if_splits)
  next
    case Reap
    with n obtain p where "ct_reaper s = R_wait p" "ct_kids s p = Some Kid_zombie"
      "s' = s\<lparr>ct_kids := (ct_kids s)(p := None), ct_reaper := R_check\<rparr>" by (auto split: reaper_pc.splits if_splits)
    with i(2) u [of p] show ?thesis by (simp add: steps_left_def)
  next
    case Undo_reap
    with n obtain p where "ct_reaper s = R_undo_wait p" "ct_kids s p = Some Kid_zombie"
      "s' = s\<lparr>ct_kids := (ct_kids s)(p := None), ct_reaper := R_finish\<rparr>" by (auto split: reaper_pc.splits if_splits)
    with i(2) u [of p] show ?thesis by (simp add: steps_left_def)
  next
    case (Respawn p)
    with n have r: "ct_reaper s = R_spawn" "s' = s\<lparr>ct_kids := (ct_kids s)(p := Some Kid_new), ct_reaper := R_publish p\<rparr>"
      by (auto split: if_splits)
    with k have "dom (ct_kids s) = {}" by (simp add: kids_inv_def)
    then have "kids_left ((ct_kids s)(p := Some Kid_new)) = 2" by (subst kids_left_upd) auto
    with r i(2) show ?thesis by (simp add: steps_left_def)
  next
    case Stop_kill
    with n i(2) show ?thesis by (auto simp: steps_left_def split: main_pc.splits)
  next
    case Joined
    with n i(2) show ?thesis by (auto simp: steps_left_def split: main_pc.splits if_splits)
  next
    case Stop_done
    with n i(2) show ?thesis by (auto simp: steps_left_def split: if_splits)
  qed (use n m i(2) in \<open>auto simp: steps_left_def split: if_splits reaper_pc.splits\<close>)+
qed

lemma stop_run_short:
  assumes "stop_inv s" "ct_stopping s" "run ct_timely s bs = Some s'"
  shows "List.length bs \<le> steps_left s"
  using assms
proof (induction bs arbitrary: s)
  case Nil
  then show ?case by simp
next
  case (Cons b bs)
  then obtain s1 where s1: "ct_timely s b = Some s1" "run ct_timely s1 bs = Some s'" by (auto split: option.splits)
  then have n: "ct_next s b = Some s1" by (simp add: ct_timely_def split: if_splits)
  from stop_step [OF Cons.prems(1,2) n] Cons.IH [OF stop_inv_next [OF Cons.prems(1) s1(1)] _ s1(2)] show ?case by simp
qed

text \<open>The step that is there until the program has ended.\<close>

definition stop_helper :: "ct_state \<Rightarrow> ct_action" where
  "stop_helper s = (case ct_reaper s of
     R_wait p \<Rightarrow> if ct_kids s p = Some Kid_zombie then Reap else Kid_exits p
   | R_check \<Rightarrow> Check | R_backoff \<Rightarrow> Backoff_ends | R_spawn \<Rightarrow> Respawn 1 | R_publish _ \<Rightarrow> Publish
   | R_undo p \<Rightarrow> if ct_kids s p = Some Kid_new then Kid_groups p else Undo_kill
   | R_undo_wait p \<Rightarrow> if ct_kids s p = Some Kid_zombie then Undo_reap else Kid_exits p
   | R_finish \<Rightarrow> Finish | R_ended \<Rightarrow> if ct_main_pc s = M_wait then Stop_done else Joined | R_gone \<Rightarrow> Joined)"

lemma stop_progress:
  assumes i: "stop_inv s" "ct_stopping s"
  shows "ct_main_pc s = M_exit 0 \<or> (\<exists>a s'. ct_timely s a = Some s' \<and> \<not> unforced s a)"
proof -
  have kd: "ct_kids s p = None" if "ct_reaper s = R_spawn" for p
    using i that by (simp add: stop_inv_def kids_inv_def)
  have ks: "ct_kids s p \<noteq> None" if "kid_of (ct_reaper s) = Some p" for p
    using i that by (auto simp: stop_inv_def kids_inv_def)
  have r: "reaper_ok (ct_child s) (asked_kid s) (ct_reaper s)"
    and m: "main_ok True (ct_done s) (ct_child s) (asked_kid s) (ct_reaper s) (ct_main_pc s)"
    using i by (simp_all add: stop_inv_def)
  have dn: "(ct_done s \<longleftrightarrow> ct_reaper s = R_ended) \<and> ct_reaper s \<noteq> R_gone"
    using i m by (cases "ct_main_pc s") (auto simp: stop_inv_def kids_inv_def ends_inv_def)
  show ?thesis
  proof (cases "ct_main_pc s")
    case M_killed
    with m show ?thesis by simp
  next
    case M_serving
    with m show ?thesis by simp
  next
    case (M_stop c)
    let ?a = "if ct_kids s c = Some Kid_new then Kid_groups c else Stop_kill"
    from M_stop have "ct_timely s ?a \<noteq> None \<and> \<not> unforced s ?a"
      by (simp add: ct_timely_def kill_arrives_def unforced_def)
    then show ?thesis by blast
  next
    case M_wait
    with m have w: "case ct_reaper s of R_wait p \<Rightarrow> asked_kid s p | _ \<Rightarrow> True" by simp
    have "ct_timely s (stop_helper s) \<noteq> None \<and> \<not> unforced s (stop_helper s)"
    proof (cases "ct_reaper s")
      case (R_wait p)
      with w show ?thesis by (auto simp: stop_helper_def ct_timely_def kill_arrives_def unforced_def asked_kid_def)
    next
      case (R_undo_wait p)
      with r show ?thesis by (auto simp: stop_helper_def ct_timely_def kill_arrives_def unforced_def asked_kid_def)
    next
      case R_spawn
      with kd [OF R_spawn, of 1] show ?thesis by (simp add: stop_helper_def ct_timely_def kill_arrives_def unforced_def)
    qed (use dn M_wait in \<open>simp_all add: stop_helper_def ct_timely_def kill_arrives_def unforced_def\<close>)
    then show ?thesis by blast
  next
    case (M_join c)
    with m dn have "ct_timely s Joined \<noteq> None" by (simp add: ct_timely_def kill_arrives_def)
    then show ?thesis by (auto simp: unforced_def)
  next
    case (M_exit c)
    with m show ?thesis by simp
  qed
qed

text \<open>C34: A stop completes. In every interleaving in which the signals arrive and from the moment \<open>stopping\<close>
  is set, some thread, or a child that was asked to end, has a step to make until the program has ended
  with status 0; and at most ten steps can be made at all, wherever in the reaping, the back-off or a
  respawn the stop came.\<close>

theorem ct_stop_completes:
  assumes "0 < pid" "run ct_timely (ct_start pid) as = Some s" "ct_stopping s"
  shows "(ct_main_pc s = M_exit 0 \<or> (\<exists>a s'. ct_timely s a = Some s' \<and> \<not> unforced s a)) \<and>
    (\<forall>bs s'. run ct_timely s bs = Some s' \<longrightarrow> List.length bs \<le> 10)"
proof -
  note i = stop_inv_run [OF assms(1,2)]
  then have "main_left (ct_main_pc s) \<le> 3" using assms(3) by (cases "ct_main_pc s") (auto simp: stop_inv_def)
  moreover have "reaper_left (ct_reaper s) + kids_left (ct_kids s) \<le> 7" using i by (simp add: stop_inv_def kids_left_le)
  ultimately have "steps_left s \<le> 10" by (simp add: steps_left_def)
  with stop_run_short [OF i assms(3)] have "\<forall>bs s'. run ct_timely s bs = Some s' \<longrightarrow> List.length bs \<le> 10"
    by (blast intro: order_trans)
  with stop_progress [OF i assms(3)] show ?thesis by blast
qed

lemma ct_race_timely: "\<exists>s. run ct_timely (ct_start 5) (take 7 ct_race) = Some s \<and> ct_stopping s \<and> ct_reaper s = R_publish 6"
  by (simp add: ct_race_def ct_start_def ct_timely_def kill_arrives_def)

theorem ct_stop_completes_witness:
  "\<exists>s. run ct_timely (ct_start 5) (take 7 ct_race) = Some s \<and> ct_reaper s = R_publish 6 \<and>
     (\<forall>bs s'. run ct_timely s bs = Some s' \<longrightarrow> List.length bs \<le> 10)"
  using ct_race_timely ct_stop_completes [of 5 "take 7 ct_race"] by auto

section \<open>Two ways to hang\<close>

text \<open>The child is left alone and the reaper waits for it.\<close>

definition left_alone :: "int \<Rightarrow> ct_state \<Rightarrow> bool" where
  "left_alone c s \<longleftrightarrow> kids_inv s \<and> ct_main_pc s = M_wait \<and> ct_reaper s = R_wait c \<and> (ct_kids s c = Some Kid_new \<or> ct_kids s c = Some Kid_grouped)"

lemma left_alone_steps:
  assumes "left_alone c s" "ct_next s a = Some s'"
  shows "a \<in> {Kid_groups c, Kid_exits c, Reap_fails}"
proof -
  from assms(1) have r: "ct_reaper s = R_wait c" and k: "kids_inv s" by (simp_all add: left_alone_def)
  from k r have d: "\<not> ct_done s" "dom (ct_kids s) = {c}" by (simp_all add: kids_inv_def ends_inv_def)
  then have o: "ct_kids s p = None" if "p \<noteq> c" for p using that by blast
  from assms(1) have m: "ct_main_pc s = M_wait" by (simp add: left_alone_def)
  show ?thesis
  proof (cases a)
    case (Kid_groups p)
    with assms(2) o [of p] show ?thesis by (cases "p = c") simp_all
  next
    case (Kid_exits p)
    with assms(2) o [of p] show ?thesis by (cases "p = c") simp_all
  next
    case Reap
    with assms r show ?thesis by (auto simp: left_alone_def)
  qed (use assms(2) r m d(1) in simp_all)
qed

lemma left_alone_next:
  assumes "left_alone c s" "ct_next s a = Some s'" "a \<noteq> Kid_exits c" "a \<noteq> Reap_fails"
  shows "left_alone c s'"
proof -
  from left_alone_steps [OF assms(1,2)] assms(3,4) have "a = Kid_groups c" by blast
  with assms(1,2) kids_inv_next [of s a s'] show ?thesis by (auto simp: left_alone_def split: if_splits)
qed

lemma left_alone_run:
  assumes "run ct_next s bs = Some s'" "left_alone c s" "Kid_exits c \<notin> set bs" "Reap_fails \<notin> set bs"
  shows "left_alone c s'"
  using assms by (induction bs arbitrary: s) (auto split: option.splits dest: left_alone_next)

text \<open>C36: A stop that comes early is lost. The child's process group is made by the child alone, after the
  fork, so a stop whose signal is sent while the child the reaper waits for has not made it yet goes to a
  group that does not exist, and that failure is ignored. However the run goes on, the child is never
  asked to end and the supervisor stays in its wait, with nothing left for any party to do, until the
  child ends of its own accord or \<open>waitpid\<close> fails.\<close>

theorem ct_stop_hangs:
  assumes "run ct_next (ct_start pid) as = Some s" and "ct_main_pc s = M_stop c" and "ct_reaper s = R_wait c" and "ct_kids s c = Some Kid_new"
    and "run ct_next s (Stop_kill # bs) = Some s'" and "Kid_exits c \<notin> set bs" and "Reap_fails \<notin> set bs"
  shows "ct_main_pc s' = M_wait \<and> ct_kids s' c \<in> {Some Kid_new, Some Kid_grouped} \<and>
    {a. ct_next s' a \<noteq> None} \<subseteq> {Kid_groups c, Kid_exits c, Reap_fails}"
proof -
  from assms(5) obtain s1 where s1: "ct_next s Stop_kill = Some s1" "run ct_next s1 bs = Some s'" by (auto split: option.splits)
  have "kids_inv s1" using kids_inv_next [OF kids_inv_run [OF assms(1)] s1(1)] .
  with s1(1) assms(2-4) have "left_alone c s1" by (auto simp: left_alone_def kill_group_def)
  from left_alone_run [OF s1(2) this assms(6,7)] have l: "left_alone c s'" .
  then have "{a. ct_next s' a \<noteq> None} \<subseteq> {Kid_groups c, Kid_exits c, Reap_fails}" using left_alone_steps by blast
  with l show ?thesis by (auto simp: left_alone_def)
qed

theorem ct_stop_hangs_witness:
  "\<exists>s'. run ct_next (ct_start 5) ([Stop_cmd] @ [Stop_kill, Kid_groups 5]) = Some s' \<and> ct_main_pc s' = M_wait \<and>
     {a. ct_next s' a \<noteq> None} \<subseteq> {Kid_groups 5, Kid_exits 5, Reap_fails}"
proof -
  have "\<exists>s s'. run ct_next (ct_start 5) [Stop_cmd] = Some s \<and> ct_main_pc s = M_stop 5 \<and> ct_reaper s = R_wait 5 \<and>
      ct_kids s 5 = Some Kid_new \<and> run ct_next s [Stop_kill, Kid_groups 5] = Some s'"
    by (simp add: ct_start_def kill_group_def)
  then obtain s s' where r: "run ct_next (ct_start 5) [Stop_cmd] = Some s" "ct_main_pc s = M_stop 5" "ct_reaper s = R_wait 5"
    "ct_kids s 5 = Some Kid_new" "run ct_next s [Stop_kill, Kid_groups 5] = Some s'" by blast
  have "run ct_next (ct_start 5) ([Stop_cmd] @ [Stop_kill, Kid_groups 5]) = Some s'"
    by (simp only: run_append r(1,5) option.case)
  moreover have "Kid_exits 5 \<notin> set [Kid_groups 5]" "Reap_fails \<notin> set [Kid_groups 5]" by simp_all
  ultimately show ?thesis using ct_stop_hangs [OF r] by blast
qed

text \<open>As long as no fork and no wait has failed.\<close>

fun unhurt :: "reaper_pc \<Rightarrow> bool" where
  "unhurt R_finish \<longleftrightarrow> False" | "unhurt R_ended \<longleftrightarrow> False" | "unhurt (R_undo p) \<longleftrightarrow> False" | "unhurt (R_undo_wait p) \<longleftrightarrow> False"
| "unhurt _ \<longleftrightarrow> True"

fun code_ok :: "bool \<Rightarrow> main_pc \<Rightarrow> bool" where
  "code_ok stopping M_serving \<longleftrightarrow> \<not> stopping" | "code_ok stopping (M_join c) \<longleftrightarrow> c \<noteq> 0 \<longrightarrow> \<not> stopping"
| "code_ok stopping (M_exit c) \<longleftrightarrow> c = 0" | "code_ok stopping _ \<longleftrightarrow> True"

definition respawn_inv :: "ct_state \<Rightarrow> bool" where
  "respawn_inv s \<longleftrightarrow> (ct_stopping s \<or> unhurt (ct_reaper s)) \<and> code_ok (ct_stopping s) (ct_main_pc s)"

lemma respawn_inv_next:
  assumes i: "respawn_inv s" and n: "ct_next s a = Some s'" and f: "a \<noteq> Respawn_fails" "a \<noteq> Reap_fails"
  shows "respawn_inv s'"
proof (cases a)
  case Stop_kill
  with i n show ?thesis by (auto simp: respawn_inv_def split: main_pc.splits)
next
  case Joined
  with i n show ?thesis by (auto simp: respawn_inv_def split: main_pc.splits if_splits)
qed (use i n f in \<open>auto simp: respawn_inv_def split: if_splits reaper_pc.splits\<close>)+

lemma respawn_inv_run:
  assumes "run ct_next s as = Some s'" "respawn_inv s" "Respawn_fails \<notin> set as" "Reap_fails \<notin> set as"
  shows "respawn_inv s'"
  using assms by (induction as arbitrary: s) (auto split: option.splits dest: respawn_inv_next)

text \<open>An error of \<open>accept\<close> does not end the supervisor. It reports the error and returns 1 with \<open>stopping\<close>
  still false, so the destructor of the thread waits for a reaper that goes on restarting the child: in
  whatever way the program is scheduled, it has exited with 1 only if a fork or a wait of the reaper failed.\<close>

lemma ct_accept_error_stays:
  assumes "run ct_next (ct_start pid) as = Some s" "ct_main_pc s = M_exit 1"
  shows "Respawn_fails \<in> set as \<or> Reap_fails \<in> set as"
proof (rule ccontr)
  assume "\<not> ?thesis"
  then have "Respawn_fails \<notin> set as" "Reap_fails \<notin> set as" by simp_all
  moreover have "respawn_inv (ct_start pid)" by (simp add: respawn_inv_def ct_start_def)
  ultimately have "respawn_inv s" using respawn_inv_run assms(1) by blast
  with assms(2) show False by (simp add: respawn_inv_def)
qed

text \<open>The error, one restart of the child, and then a fork that fails.\<close>

definition accept_error :: "ct_action list" where
  "accept_error = [Accept_fails, Kid_exits 5, Reap, Check, Backoff_ends, Respawn 6, Publish, Kid_exits 6, Reap, Check, Backoff_ends,
     Respawn_fails, Finish, Joined]"

lemma accept_error_run: "\<exists>s. run ct_next (ct_start 5) accept_error = Some s \<and> ct_main_pc s = M_exit 1"
  by (simp add: accept_error_def ct_start_def)

section \<open>The log through a descriptor\<close>

text \<open>The lines the client cuts are those \<open>getline\<close> would give.\<close>

lemma getlines_newline: "getlines (s @ [CHR 0x0A]) = cut_lines s"
proof (induction s rule: cut_lines.induct)
  case (1 s)
  show ?case
  proof (cases "find_from (CHR 0x0A) s")
    case None
    then have "CHR 0x0A \<notin> set s" by (simp add: find_from_None)
    with None show ?thesis using getlines_line [of s "[]"] by (simp add: cut_lines.simps [of s])
  next
    case (Some nl)
    from find_from_Some [OF this] have "s = take nl s @ CHR 0x0A # drop (nl + 1) s" "CHR 0x0A \<notin> set (take nl s)"
      by (simp_all add: id_take_nth_drop [symmetric] flip: Suc_eq_plus1) (metis id_take_nth_drop)
    then have "getlines (s @ [CHR 0x0A]) = take nl s # getlines (drop (nl + 1) s @ [CHR 0x0A])"
      using getlines_line by (metis append_Cons append_assoc)
    with 1 [OF Some] Some show ?thesis by (simp add: cut_lines.simps [of s])
  qed
qed

lemma getlines_unended:
  assumes "s \<noteq> []" "last s \<noteq> CHR 0x0A"
  shows "getlines (s @ [CHR 0x0A]) = getlines s"
  using assms
proof (induction s rule: getlines.induct)
  case (1 s)
  let ?l = "takeWhile (\<lambda>c. c \<noteq> CHR 0x0A) s"
  have n: "CHR 0x0A \<notin> set ?l" using set_takeWhileD by fastforce
  show ?case
  proof (cases "CHR 0x0A \<in> set s")
    case False
    with "1.prems" show ?thesis using getlines_line [of s "[]"] getlines_last [of s] by simp
  next
    case True
    let ?r = "drop (Suc (List.length ?l)) s"
    from True obtain y zs where y: "s = y @ CHR 0x0A # zs" "CHR 0x0A \<notin> set y" by (meson split_list_first)
    have "?l = y" unfolding y(1) using y(2) by (subst takeWhile_append2) auto
    then have s: "s = ?l @ CHR 0x0A # ?r" using y(1) by simp
    have "?r \<noteq> []" using s "1.prems"(2) by (metis last_snoc)
    moreover have "last ?r = last s" using s calculation by (metis last.simps last_appendR list.distinct(1))
    ultimately have IH: "getlines (?r @ [CHR 0x0A]) = getlines ?r" using "1.IH" "1.prems" by simp
    have "getlines (s @ [CHR 0x0A]) = ?l # getlines (?r @ [CHR 0x0A])"
      by (subst s) (simp only: append_assoc append_Cons getlines_line [OF n])
    also have "\<dots> = getlines s" by (subst (3) s) (simp only: IH getlines_line [OF n])
    finally show ?thesis .
  qed
qed

lemma tail_lines_eq:
  "tail_lines n s = (if s = [CHR 0x0A] then [] else let ls = getlines s in drop (List.length ls - n) ls)"
proof -
  consider "s = []" | t where "s = t @ [CHR 0x0A]" | "s \<noteq> []" "last s \<noteq> CHR 0x0A"
    by (metis append_butlast_last_id)
  then show ?thesis
  proof cases
    case 1
    then show ?thesis by (simp add: tail_lines_def)
  next
    case 2
    then show ?thesis by (cases "t = []") (auto simp: tail_lines_def getlines_newline Let_def)
  next
    case 3
    then show ?thesis using getlines_unended [of s] getlines_newline [of s] by (auto simp: tail_lines_def Let_def)
  qed
qed

text \<open>What \<open>pread\<close> documents for a regular file with these bytes.\<close>

definition pread_event :: "byte list \<Rightarrow> int \<Rightarrow> call \<times> answer option \<Rightarrow> bool" where
  "pread_event F fd e = (case e of
     (Ctl (Cc_pread f n off), Some a) \<Rightarrow> f = fd \<longrightarrow> 0 \<le> rv a \<longrightarrow>
       rv a \<le> int n \<and> off + nat (rv a) \<le> max off (List.length F) \<and> filled a = take (nat (rv a)) (drop off F) \<and> (rv a = 0 \<longrightarrow> List.length F \<le> off)
   | _ \<Rightarrow> True)"

definition pread_file :: "byte list \<Rightarrow> int \<Rightarrow> (call \<times> answer option) list \<Rightarrow> bool" where
  "pread_file F fd = list_all (pread_event F fd)"

lemma log_read_loop:
  assumes "loop (log_read_turn fd) [] w = Some (r, w')"
  shows "later w w' \<and> (pread_file F fd (since w w') \<longrightarrow> (\<forall>d. r = Inr d \<longrightarrow>
    (\<exists>m \<le> List.length F. d = take m F \<and> m < kMaxLogRead + 4096 \<and> (m = List.length F \<or> kMaxLogRead \<le> m))))"
proof (rule loop_rule [OF assms, where I = "\<lambda>d v. later w v \<and> (pread_file F fd (since w v) \<longrightarrow>
      (\<exists>m \<le> List.length F. d = take m F \<and> m < kMaxLogRead + 4096))"], goal_cases)
  case 1
  show ?case by (auto intro!: exI [of _ 0])
next
  case (2 d v d' v')
  then obtain a where a: "sys (Ctl (Cc_pread fd 4096 (List.length d))) v = Some (a, v')" and "List.length d < kMaxLogRead"
    and o: "d' = d @ filled a \<and> 0 < rv a \<or> d' = d \<and> rv a < 0"
    by (auto simp: log_read_turn_def linorder_neq_iff split: if_splits)
  have l: "later w v'" and s: "since w v' = since w v @ [(Ctl (Cc_pread fd 4096 (List.length d)), Some a)]"
    using 2 sys_after [OF _ a, of w] by simp_all
  have "\<exists>m \<le> List.length F. d' = take m F \<and> m < kMaxLogRead + 4096" if p: "pread_file F fd (since w v')"
  proof -
    from 2 p obtain m where m: "m \<le> List.length F" "d = take m F" "m < kMaxLogRead + 4096" by (auto simp: s pread_file_def)
    from p o m have "d' = d \<or> d' = take (m + nat (rv a)) F \<and> m + nat (rv a) \<le> List.length F \<and> rv a \<le> 4096"
      by (auto simp: s pread_file_def pread_event_def take_add)
    with m \<open>List.length d < kMaxLogRead\<close> show ?thesis
      by (auto intro: exI [of _ m] exI [of _ "m + nat (rv a)"])
  qed
  with l show ?case by blast
next
  case (3 d v r v')
  show ?case
  proof (cases "List.length d < kMaxLogRead")
    case False
    with 3 show ?thesis by (fastforce simp: log_read_turn_def)
  next
    case True
    with 3 obtain a where a: "sys (Ctl (Cc_pread fd 4096 (List.length d))) v = Some (a, v')"
      and o: "(\<exists>e. r = Inl e) \<or> rv a = 0 \<and> r = Inr d"
      by (auto simp: log_read_turn_def split: if_splits)
    have l: "later w v'" and s: "since w v' = since w v @ [(Ctl (Cc_pread fd 4096 (List.length d)), Some a)]"
      using 3 sys_after [OF _ a, of w] by simp_all
    have "\<exists>m \<le> List.length F. d = take m F \<and> m < kMaxLogRead + 4096 \<and> (m = List.length F \<or> kMaxLogRead \<le> m)"
      if p: "pread_file F fd (since w v')" "rv a = 0"
    proof -
      from 3 p obtain m where m: "m \<le> List.length F" "d = take m F" "m < kMaxLogRead + 4096" by (auto simp: s pread_file_def)
      with p have "m = List.length F" by (auto simp: s pread_file_def pread_event_def)
      with m show ?thesis by blast
    qed
    with l o show ?thesis by auto
  qed
qed

text \<open>C37: Which lines \<open>pmctl logfd\<close> shows. Whatever pieces the kernel reads the log in and however often it
  interrupts, the lines are the last \<open>count\<close> of those \<open>getline\<close> gives on the first \<open>m\<close> bytes of the log, a
  last line without a newline and empty lines included, except that a lone newline shows no line. Here
  \<open>m\<close> is the whole log only below 1 MiB: of a longer one the lines are those around the first MiB, not
  its last.\<close>

theorem ct_log_tail:
  assumes "log_tail_via_fd fd count w = Some (Inr ls, w')" "pread_file F fd (since w w')"
  shows "\<exists>m \<le> List.length F. (if List.length F < kMaxLogRead then m = List.length F else kMaxLogRead \<le> m \<and> m < kMaxLogRead + 4096) \<and>
    ls = (let s = chars_of (take m F); all = getlines s in if s = [CHR 0x0A] then [] else drop (List.length all - count) all)"
proof -
  from assms(1) obtain d where d: "loop (log_read_turn fd) [] w = Some (Inr d, w')" "ls = tail_lines count (chars_of d)"
    by (auto simp: log_tail_via_fd_def io_try_Some)
  from log_read_loop [OF d(1), of F] assms(2) obtain m where "m \<le> List.length F" "d = take m F" "m < kMaxLogRead + 4096"
    "m = List.length F \<or> kMaxLogRead \<le> m" by blast
  then show ?thesis by (intro exI [of _ m]) (auto simp: d(2) tail_lines_eq Let_def)
qed

text \<open>Five lines read in two pieces, with an interruption between them.\<close>

definition five_lines :: "byte list" where
  "five_lines = bytes_of (''a'' @ [CHR 0x0A] @ ''b'' @ [CHR 0x0A, CHR 0x0A] @ ''c'' @ [CHR 0x0A] @ ''d'')"

definition five_reads :: "answer list" where
  "five_reads = [gave (take 3 five_lines), failed EINTR, gave (drop 3 five_lines), returned 0]"

lemma five_reads_run:
  "\<exists>w' ls. log_tail_via_fd 4 3 (answering five_reads) = Some (Inr ls, w') \<and> pread_file five_lines 4 (since (answering five_reads) w')"
  by (simp add: log_tail_via_fd_def log_read_turn_def five_reads_def five_lines_def loop.simps io_defs since_def pread_file_def pread_event_def filled_def)

lemma five_getlines: "getlines (chars_of five_lines) = [''a'', ''b'', [], ''c'', ''d'']"
  by (simp add: five_lines_def getlines.simps)

theorem ct_log_tail_witness:
  "\<exists>w'. log_tail_via_fd 4 3 (answering five_reads) = Some (Inr [[], ''c'', ''d''], w')"
proof -
  from five_reads_run obtain w' ls where r: "log_tail_via_fd 4 3 (answering five_reads) = Some (Inr ls, w')"
    "pread_file five_lines 4 (since (answering five_reads) w')" by blast
  have "List.length five_lines < kMaxLogRead" "chars_of five_lines \<noteq> [CHR 0x0A]" by (simp_all add: five_lines_def)
  with ct_log_tail [OF r] have "ls = [[], ''c'', ''d'']" by (auto simp: five_getlines)
  with r(1) show ?thesis by blast
qed

end
