(* ===== verification/Room.thy ===== *)
theory Room
  imports Streams Chatterd Refinement
begin

text \<open>
  The first chat room, \<open>main.cpp\<close> of \<open>examples/21-tcp-sockets\<close>: the frames, the hub, a thread for each
  connection, the accept loop that SIGINT ends, the client and the command line. Then the threads as a
  machine: a broadcast holds the mutex of the hub for all its writes. \<open>RoomProps\<close> has the theorems.
\<close>

section \<open>Frames\<close>

definition rm_read_turn :: "int \<Rightarrow> nat \<Rightarrow> byte list \<Rightarrow> world \<Rightarrow> ((byte list, unit + byte list) ctl \<times> world) option" where
  "rm_read_turn fd n buf w =
     (if List.length buf < n then do {
        (r, w) \<leftarrow> sys (Read fd (n - List.length buf)) w;
        if rv r < 0 then
          if eno r = EINTR then Some (Continue buf, w) else Some (Break (Inl ()), w)
        else if rv r = 0 then Some (Break (Inl ()), w)
        else Some (Continue (buf @ filled r), w) }
      else Some (Break (Inr buf), w))"

definition rm_read_full :: "int \<Rightarrow> nat \<Rightarrow> world \<Rightarrow> ((unit + byte list) \<times> world) option" where
  "rm_read_full fd n = loop (rm_read_turn fd n) []"

definition rm_write_turn :: "int \<Rightarrow> byte list \<Rightarrow> world \<Rightarrow> ((byte list, unit) ctl \<times> world) option" where
  "rm_write_turn fd left w =
     (if left \<noteq> [] then do {
        (n, w) \<leftarrow> sys (Write fd left) w;
        if rv n < 0 then
          if eno n = EINTR then Some (Continue left, w) else Some (Break (), w)
        else Some (Continue (drop (nat (rv n)) left), w) }
      else Some (Break (), w))"

definition rm_write_all :: "int \<Rightarrow> byte list \<Rightarrow> world \<Rightarrow> (unit \<times> world) option" where
  "rm_write_all fd = loop (rm_write_turn fd)"

text \<open>The length is cast to 16 bits before it is split into two bytes.\<close>

definition rm_build_frame :: "byte \<Rightarrow> byte list \<Rightarrow> byte list" where
  "rm_build_frame type p = (let n = unat (word_of_nat (List.length p) :: u16) in [67, 72, 1, type, be16_hi n, be16_lo n] @ p)"

definition rm_build_join :: "string \<Rightarrow> byte list" where
  "rm_build_join name = rm_build_frame 1 (bytes_of name)"

definition rm_build_msg :: "string \<Rightarrow> byte list" where
  "rm_build_msg line = rm_build_frame 2 (bytes_of line)"

definition rm_build_deliver :: "string \<Rightarrow> string \<Rightarrow> byte list" where
  "rm_build_deliver name line = rm_build_frame 3 (bytes_of (name @ [CHR 0x00] @ line))"

definition rm_read_frame :: "int \<Rightarrow> world \<Rightarrow> ((unit + byte \<times> byte list) \<times> world) option" where
  "rm_read_frame fd w = io_try (rm_read_full fd 6 w) (\<lambda>hdr w.
     if hdr ! 0 \<noteq> 67 \<or> hdr ! 1 \<noteq> 72 \<or> hdr ! 2 \<noteq> 1 then Some (Inl (), w)
     else let len = be16_value (hdr ! 4) (hdr ! 5)
          in if len > 0 then io_try (rm_read_full fd len w) (\<lambda>p w. Some (Inr (hdr ! 3, p), w))
             else Some (Inr (hdr ! 3, []), w))"

section \<open>The hub\<close>

record room_client =
  rc_id :: int
  rc_name :: string
  rc_fd :: int

definition rm_add :: "int \<Rightarrow> int \<Rightarrow> room_client list \<Rightarrow> room_client list" where
  "rm_add i fd cs = cs @ [\<lparr>rc_id = i, rc_name = [], rc_fd = fd\<rparr>]"

fun rm_set_name :: "int \<Rightarrow> string \<Rightarrow> room_client list \<Rightarrow> room_client list" where
  "rm_set_name i name [] = []"
| "rm_set_name i name (c # cs) = (if rc_id c = i then c\<lparr>rc_name := name\<rparr> # cs else c # rm_set_name i name cs)"

fun rm_remove :: "int \<Rightarrow> room_client list \<Rightarrow> string \<times> room_client list" where
  "rm_remove i [] = ([], [])"
| "rm_remove i (c # cs) = (if rc_id c = i then (rc_name c, cs) else (case rm_remove i cs of (n, ds) \<Rightarrow> (n, c # ds)))"

definition rm_targets :: "int \<Rightarrow> room_client list \<Rightarrow> room_client list" where
  "rm_targets ex cs = filter (\<lambda>c. rc_id c \<noteq> ex) cs"

fun rm_write_each :: "room_client list \<Rightarrow> byte list \<Rightarrow> world \<Rightarrow> (unit \<times> world) option" where
  "rm_write_each [] frame w = Some ((), w)"
| "rm_write_each (c # cs) frame w = do {
     (_, w) \<leftarrow> rm_write_all (rc_fd c) frame w;
     rm_write_each cs frame w }"

definition rm_broadcast :: "byte list \<Rightarrow> int \<Rightarrow> room_client list \<Rightarrow> world \<Rightarrow> (unit \<times> world) option" where
  "rm_broadcast frame ex cs = rm_write_each (rm_targets ex cs) frame"

section \<open>A connection\<close>

text \<open>One frame; the state is the name.\<close>

definition rm_serve_turn :: "int \<Rightarrow> int \<Rightarrow> string \<Rightarrow> world \<Rightarrow> ((string, unit) ctl \<times> world) option" where
  "rm_serve_turn i fd name w = do {
     (raw, w) \<leftarrow> rm_read_frame fd w;
     (case raw of
       Inl _ \<Rightarrow> Some (Break (), w)
     | Inr (type, p) \<Rightarrow>
         if type = 1 then
           if p = [] then Some (Break (), w)
           else (let name = chars_of p; w = emit (Room (Rc_set_name i name)) w;
                     w = println Stderr [Txt (''chatterd: '' @ name @ '' joined'')] w
                 in Some (Continue name, emit (Room (Rc_broadcast (rm_build_deliver ''server'' (name @ '' joined'')) (-1))) w))
         else if type = 2 then
           if name = [] then Some (Continue name, w)
           else Some (Continue name, emit (Room (Rc_broadcast (rm_build_deliver name (chars_of p)) i)) w)
         else Some (Continue name, w)) }"

text \<open>A stop requested before the callback is registered runs it at once.\<close>

definition rm_serve_client :: "int \<Rightarrow> int \<Rightarrow> world \<Rightarrow> (unit \<times> world) option" where
  "rm_serve_client i fd w = do {
     (st, w) \<leftarrow> sys (Load_flag ''stop_requested'') w;
     let w = (if rv st \<noteq> 0 then emit (Net (Net_shutdown fd)) w else w);
     let w = emit (Room (Rc_add i fd)) w;
     (_, w) \<leftarrow> loop (rm_serve_turn i fd) [] w;
     (r, w) \<leftarrow> sys (Room (Rc_remove i)) w;
     let name = chars_of (filled r);
     let w = (if name \<noteq> [] then
         emit (Room (Rc_broadcast (rm_build_deliver ''server'' (name @ '' left'')) (-1)))
           (println Stderr [Txt (''chatterd: '' @ name @ '' left'')] w)
       else w);
     Some ((), fd_reset fd w) }"

section \<open>The server\<close>

definition rm_listen_tcp :: "string \<Rightarrow> int \<Rightarrow> world \<Rightarrow> ((msg + int) \<times> world) option" where
  "rm_listen_tcp host port w = do {
     (s, w) \<leftarrow> sys Socket w;
     let fd = rv s;
     if fd < 0 then Some (Inl [Txt ''socket: '', StrError (eno s)], w)
     else do {
       let w = emit (Reuseaddr fd) w;
       (p, w) \<leftarrow> sys (Inet_pton host) w;
       if rv p \<noteq> 1 then Some (Inl [Txt (host @ '': not an IPv4 address'')], fd_reset fd w)
       else do {
         (b, w) \<leftarrow> sys (Bind fd host port) w;
         if rv b < 0 then Some (Inl [Txt (''bind '' @ host @ '':'' @ show_int port @ '': ''), StrError (eno b)], fd_reset fd w)
         else do {
           (l, w) \<leftarrow> sys (Listen fd 128) w;
           if rv l < 0 then Some (Inl [Txt ''listen: '', StrError (eno l)], fd_reset fd w)
           else Some (Inr fd, w) } } } }"

text \<open>The state is the last id given out; the result is the exit status of an error, if it was one.\<close>

definition rm_accept_turn :: "int \<Rightarrow> int \<Rightarrow> world \<Rightarrow> ((int, int \<times> int option) ctl \<times> world) option" where
  "rm_accept_turn lfd next_id w = do {
     (st, w) \<leftarrow> sys (Load_flag ''g_stop'') w;
     if rv st \<noteq> 0 then Some (Break (next_id, None), w)
     else do {
       (p, w) \<leftarrow> sys (Poll [(lfd, POLLIN)] 200) w;
       if rv p < 0 then
         if eno p = EINTR then Some (Continue next_id, w)
         else Some (Break (next_id, Some 1), println Stderr [Txt ''chatterd: error: poll: '', StrError (eno p)] w)
       else if rv p = 0 \<or> revents 0 p AND POLLIN = 0 then Some (Continue next_id, w)
       else do {
         (c, w) \<leftarrow> sys (Accept lfd) w;
         if rv c < 0 then
           if eno c = EINTR \<or> eno c = EAGAIN then Some (Continue next_id, w)
           else Some (Break (next_id, Some 1), println Stderr [Txt ''chatterd: error: accept: '', StrError (eno c)] w)
         else Some (Continue (next_id + 1), emit (Spawn ''serve_client'' [show_int (next_id + 1)] (rv c)) w) } } }"

definition rm_stop_each :: "int list \<Rightarrow> world \<Rightarrow> world" where
  "rm_stop_each = fold (\<lambda>i. emit (Room (Rc_request_stop i)))"

text \<open>The destructors of the threads: each is asked to stop and joined before the next.\<close>

fun rm_join_each :: "int list \<Rightarrow> world \<Rightarrow> (unit \<times> world) option" where
  "rm_join_each [] w = Some ((), w)"
| "rm_join_each (i # is) w = do {
     (_, w) \<leftarrow> sys (Proc (Proc_join (show_int i))) (emit (Room (Rc_request_stop i)) w);
     rm_join_each is w }"

definition rm_cmd_serve :: "string \<Rightarrow> int \<Rightarrow> world \<Rightarrow> (int \<times> world) option" where
  "rm_cmd_serve host port w = do {
     (l, w) \<leftarrow> rm_listen_tcp host port w;
     (case l of
       Inl e \<Rightarrow> Some (1, println Stderr ([Txt ''chatterd: error: ''] @ e) w)
     | Inr lfd \<Rightarrow> do {
         let w = emit Install_handlers w;
         let w = println Stderr [Txt (''chatterd: listening on '' @ host @ '':'' @ show_int port)] w;
         ((n, r), w) \<leftarrow> loop (rm_accept_turn lfd) 0 w;
         let ids = [1..n];
         let w = (if r = None then rm_stop_each ids (println Stderr [Txt ''chatterd: shutting down''] w) else w);
         (_, w) \<leftarrow> rm_join_each ids w;
         Some (case r of None \<Rightarrow> 0 | Some code \<Rightarrow> code, fd_reset lfd w) }) }"

section \<open>The client\<close>

definition rm_connect_tcp :: "string \<Rightarrow> int \<Rightarrow> world \<Rightarrow> ((msg + int) \<times> world) option" where
  "rm_connect_tcp host port w = do {
     (s, w) \<leftarrow> sys Socket w;
     let fd = rv s;
     if fd < 0 then Some (Inl [Txt ''socket: '', StrError (eno s)], w)
     else do {
       (p, w) \<leftarrow> sys (Inet_pton host) w;
       if rv p \<noteq> 1 then Some (Inl [Txt (host @ '': not an IPv4 address'')], fd_reset fd w)
       else do {
         (c, w) \<leftarrow> sys (Connect fd host port) w;
         if rv c < 0 then Some (Inl [Txt (''connect '' @ host @ '':'' @ show_int port @ '': ''), StrError (eno c)], fd_reset fd w)
         else Some (Inr fd, w) } } }"

definition rm_reader_turn :: "int \<Rightarrow> unit \<Rightarrow> world \<Rightarrow> ((unit, unit) ctl \<times> world) option" where
  "rm_reader_turn fd _ w = do {
     (raw, w) \<leftarrow> rm_read_frame fd w;
     (case raw of
       Inl _ \<Rightarrow> Some (Break (), w)
     | Inr (type, p) \<Rightarrow>
         if type \<noteq> 3 then Some (Continue (), w)
         else (case find_from (CHR 0x00) (chars_of p) of
           None \<Rightarrow> Some (Continue (), w)
         | Some nul \<Rightarrow> Some (Continue (), emit (Fflush Stdout)
             (println Stdout [Txt (take nul (chars_of p) @ '': '' @ drop (nul + 1) (chars_of p))] w)))) }"

definition rm_reader :: "int \<Rightarrow> world \<Rightarrow> (unit \<times> world) option" where
  "rm_reader fd = loop (rm_reader_turn fd) ()"

fun rm_send_lines :: "int \<Rightarrow> string list \<Rightarrow> world \<Rightarrow> (unit \<times> world) option" where
  "rm_send_lines fd [] w = Some ((), w)"
| "rm_send_lines fd (l # ls) w =
     (if l = [] then rm_send_lines fd ls w
      else do { (_, w) \<leftarrow> rm_write_all fd (rm_build_msg l) w; rm_send_lines fd ls w })"

text \<open>The lines are those of standard input, read to its end.\<close>

definition rm_cmd_chatctl :: "string \<Rightarrow> int \<Rightarrow> string \<Rightarrow> string list \<Rightarrow> world \<Rightarrow> (int \<times> world) option" where
  "rm_cmd_chatctl host port name input w = do {
     (c, w) \<leftarrow> rm_connect_tcp host port w;
     (case c of
       Inl e \<Rightarrow> Some (1, println Stderr ([Txt ''chatctl: error: ''] @ e) w)
     | Inr fd \<Rightarrow> do {
         (_, w) \<leftarrow> rm_write_all fd (rm_build_join name) w;
         let w = emit (Spawn ''reader'' [] fd) w;
         (_, w) \<leftarrow> rm_send_lines fd input w;
         let w = emit (Net (Net_shutdown fd)) w;
         (_, w) \<leftarrow> sys (Proc (Proc_join ''reader'')) w;
         Some (0, fd_reset fd w) }) }"

section \<open>The command line\<close>

definition rm_usage :: "world \<Rightarrow> world" where
  "rm_usage w = println Stderr [Txt ''       chatterd chatctl --port PORT --name NAME [--host HOST]'']
     (println Stderr [Txt ''usage: chatterd serve --port PORT [--host HOST]''] w)"

definition rm_parse_port :: "string \<Rightarrow> int option" where
  "rm_parse_port s = (case stoi s of
     Inl _ \<Rightarrow> None
   | Inr (v, pos) \<Rightarrow> if pos \<noteq> List.length s \<or> v < 1 \<or> v > 65535 then None else Some v)"

record rm_args =
  ra_host :: string
  ra_port :: string
  ra_name :: string

fun rm_parse_args :: "string list \<Rightarrow> rm_args \<Rightarrow> rm_args option" where
  "rm_parse_args [] r = Some r"
| "rm_parse_args [a] r = None"
| "rm_parse_args (a # v # rest) r =
     (if a = ''--port'' then rm_parse_args rest (r\<lparr>ra_port := v\<rparr>)
      else if a = ''--host'' then rm_parse_args rest (r\<lparr>ra_host := v\<rparr>)
      else if a = ''--name'' then rm_parse_args rest (r\<lparr>ra_name := v\<rparr>)
      else None)"

definition rm_main :: "string list \<Rightarrow> string list \<Rightarrow> world \<Rightarrow> (int \<times> world) option" where
  "rm_main args input w = (case args of
       [] \<Rightarrow> Some (2, rm_usage w)
     | sub # rest \<Rightarrow>
         if sub \<noteq> ''serve'' \<and> sub \<noteq> ''chatctl'' then Some (2, rm_usage w)
         else (case rm_parse_args rest \<lparr>ra_host = ''127.0.0.1'', ra_port = [], ra_name = []\<rparr> of
           None \<Rightarrow> Some (2, rm_usage w)
         | Some r \<Rightarrow>
             if ra_port r = [] then Some (2, rm_usage w)
             else (case rm_parse_port (ra_port r) of
               None \<Rightarrow> Some (2, rm_usage w)
             | Some port \<Rightarrow>
                 if sub = ''serve'' then rm_cmd_serve (ra_host r) port w
                 else if ra_name r = [] then Some (2, rm_usage w)
                 else rm_cmd_chatctl (ra_host r) port (ra_name r) input w)))"

section \<open>The threads\<close>

text \<open>
  Where a connection's thread is, with its descriptor: \<open>At_cast\<close> is before a broadcast and in it, with the
  frame and the id to leave out, and \<open>At_farewell\<close> the same for the notice at the end; from \<open>At_close\<close> on the
  callback is gone and the socket is about to be closed.
\<close>

datatype room_pc =
    At_add int
  | At_read int string
  | At_name int string
  | At_cast int string "byte list" int
  | At_remove int
  | At_farewell int "byte list"
  | At_close int
  | At_end

datatype room_main = Serving | Stopping "int list" | Joining | Exited

text \<open>
  The process. \<open>rm_cast\<close> is the broadcast that holds the mutex: whose it is, the clients still to write
  to, what is left to write to the first of them, and the frame. \<open>rm_fdtab\<close> says which connection a
  descriptor number denotes, \<open>rm_wire\<close> what reached a connection, \<open>rm_failed\<close> where a write failed, \<open>rm_shut\<close>
  which sockets a callback has shut down.
\<close>

record room =
  rm_clients :: "room_client list"
  rm_cast :: "(int \<times> room_client list \<times> byte list \<times> byte list) option"
  rm_pc :: "int \<Rightarrow> room_pc option"
  rm_next_id :: int
  rm_fdtab :: "int \<Rightarrow> int option"
  rm_wire :: "int \<Rightarrow> byte list"
  rm_failed :: "int set"
  rm_shut :: "int set"
  rm_at :: room_main
  rm_killed :: bool

definition room_start :: room where
  "room_start = \<lparr>rm_clients = [], rm_cast = None, rm_pc = (\<lambda>_. None), rm_next_id = 0, rm_fdtab = (\<lambda>_. None),
     rm_wire = (\<lambda>_. []), rm_failed = {}, rm_shut = {}, rm_at = Serving, rm_killed = False\<rparr>"

text \<open>
  The actions of the threads, of the main thread and of the broadcast in progress. \<open>Gets_join\<close>, \<open>Gets_msg\<close>
  and \<open>Read_ends\<close> are what \<open>read_frame\<close> brings; a frame of another type changes nothing. A write to a socket
  that was shut down raises SIGPIPE, which nothing in the program handles.
\<close>

datatype room_action =
    Accepts int int | Adds int | Gets_join int string | Names int | Gets_msg int string | Read_ends int | Removes int | Closes int
  | Locks int | Writes nat | Write_fails | Next_client | Dies | Unlocks
  | Sigint | Requests_stop | Joins_all

text \<open>Is the callback of the thread still registered?\<close>

fun can_stop :: "room_pc option \<Rightarrow> bool" where
  "can_stop None = False" | "can_stop (Some (At_close fd)) = False" | "can_stop (Some At_end) = False" | "can_stop _ = True"

fun room_move :: "room \<Rightarrow> room_action \<Rightarrow> room option" where
  "room_move s (Accepts i fd) = (if rm_at s = Serving \<and> i = rm_next_id s + 1 \<and> 0 \<le> fd \<and> rm_fdtab s fd = None then
     Some (s\<lparr>rm_next_id := i, rm_fdtab := (rm_fdtab s)(fd \<mapsto> i), rm_pc := (rm_pc s)(i \<mapsto> At_add fd)\<rparr>) else None)"
| "room_move s (Adds i) = (case rm_pc s i of
     Some (At_add fd) \<Rightarrow> if rm_cast s = None then
       Some (s\<lparr>rm_clients := rm_add i fd (rm_clients s), rm_pc := (rm_pc s)(i \<mapsto> At_read fd [])\<rparr>) else None
   | _ \<Rightarrow> None)"
| "room_move s (Gets_join i name) = (case rm_pc s i of
     Some (At_read fd old) \<Rightarrow> if name \<noteq> [] then Some (s\<lparr>rm_pc := (rm_pc s)(i \<mapsto> At_name fd name)\<rparr>) else None
   | _ \<Rightarrow> None)"
| "room_move s (Names i) = (case rm_pc s i of
     Some (At_name fd name) \<Rightarrow> if rm_cast s = None then
       Some (s\<lparr>rm_clients := rm_set_name i name (rm_clients s),
         rm_pc := (rm_pc s)(i \<mapsto> At_cast fd name (rm_build_deliver ''server'' (name @ '' joined'')) (-1))\<rparr>) else None
   | _ \<Rightarrow> None)"
| "room_move s (Gets_msg i line) = (case rm_pc s i of
     Some (At_read fd name) \<Rightarrow>
       Some (if name = [] then s else s\<lparr>rm_pc := (rm_pc s)(i \<mapsto> At_cast fd name (rm_build_deliver name line) i)\<rparr>)
   | _ \<Rightarrow> None)"
| "room_move s (Read_ends i) = (case rm_pc s i of
     Some (At_read fd name) \<Rightarrow> Some (s\<lparr>rm_pc := (rm_pc s)(i \<mapsto> At_remove fd)\<rparr>) | _ \<Rightarrow> None)"
| "room_move s (Removes i) = (case rm_pc s i of
     Some (At_remove fd) \<Rightarrow> if rm_cast s = None then (case rm_remove i (rm_clients s) of (name, cs) \<Rightarrow>
       Some (s\<lparr>rm_clients := cs, rm_pc := (rm_pc s)(i \<mapsto>
         (if name \<noteq> [] then At_farewell fd (rm_build_deliver ''server'' (name @ '' left'')) else At_close fd))\<rparr>)) else None
   | _ \<Rightarrow> None)"
| "room_move s (Closes i) = (case rm_pc s i of
     Some (At_close fd) \<Rightarrow> Some (s\<lparr>rm_fdtab := (rm_fdtab s)(fd := None), rm_pc := (rm_pc s)(i \<mapsto> At_end)\<rparr>) | _ \<Rightarrow> None)"
| "room_move s (Locks i) = (if rm_cast s \<noteq> None then None else (case rm_pc s i of
     Some (At_cast fd name frame ex) \<Rightarrow> Some (s\<lparr>rm_cast := Some (i, rm_targets ex (rm_clients s), frame, frame)\<rparr>)
   | Some (At_farewell fd frame) \<Rightarrow> Some (s\<lparr>rm_cast := Some (i, rm_targets (-1) (rm_clients s), frame, frame)\<rparr>)
   | _ \<Rightarrow> None))"
| "room_move s (Writes n) = (case rm_cast s of
     Some (i, c # cs, left, frame) \<Rightarrow> (case rm_fdtab s (rc_fd c) of
         Some d \<Rightarrow> if 0 < n \<and> n \<le> List.length left \<and> d \<notin> rm_shut s then
           Some (s\<lparr>rm_wire := (rm_wire s)(d := rm_wire s d @ take n left), rm_cast := Some (i, c # cs, drop n left, frame)\<rparr>) else None
       | None \<Rightarrow> None)
   | _ \<Rightarrow> None)"
| "room_move s Write_fails = (case rm_cast s of
     Some (i, c # cs, left, frame) \<Rightarrow> if left = [] then None else (case rm_fdtab s (rc_fd c) of
         Some d \<Rightarrow> if d \<notin> rm_shut s then
           Some (s\<lparr>rm_failed := insert d (rm_failed s), rm_cast := Some (i, cs, frame, frame)\<rparr>) else None
       | None \<Rightarrow> Some (s\<lparr>rm_cast := Some (i, cs, frame, frame)\<rparr>))
   | _ \<Rightarrow> None)"
| "room_move s Next_client = (case rm_cast s of
     Some (i, c # cs, left, frame) \<Rightarrow> if left = [] then Some (s\<lparr>rm_cast := Some (i, cs, frame, frame)\<rparr>) else None
   | _ \<Rightarrow> None)"
| "room_move s Dies = (case rm_cast s of
     Some (i, c # cs, left, frame) \<Rightarrow> (case rm_fdtab s (rc_fd c) of
         Some d \<Rightarrow> if left \<noteq> [] \<and> d \<in> rm_shut s then Some (s\<lparr>rm_killed := True\<rparr>) else None
       | None \<Rightarrow> None)
   | _ \<Rightarrow> None)"
| "room_move s Unlocks = (case rm_cast s of
     Some (i, [], left, frame) \<Rightarrow> (case rm_pc s i of
         Some (At_cast fd name f ex) \<Rightarrow> Some (s\<lparr>rm_cast := None, rm_pc := (rm_pc s)(i \<mapsto> At_read fd name)\<rparr>)
       | Some (At_farewell fd f) \<Rightarrow> Some (s\<lparr>rm_cast := None, rm_pc := (rm_pc s)(i \<mapsto> At_close fd)\<rparr>)
       | _ \<Rightarrow> None)
   | _ \<Rightarrow> None)"
| "room_move s Sigint = (if rm_at s = Serving then Some (s\<lparr>rm_at := Stopping [1..rm_next_id s]\<rparr>) else None)"
| "room_move s Requests_stop = (case rm_at s of
     Stopping (i # is) \<Rightarrow> Some (s\<lparr>rm_shut := (if can_stop (rm_pc s i) then insert i (rm_shut s) else rm_shut s), rm_at := Stopping is\<rparr>)
   | Stopping [] \<Rightarrow> Some (s\<lparr>rm_at := Joining\<rparr>)
   | _ \<Rightarrow> None)"
| "room_move s Joins_all = (if rm_at s = Joining \<and> (\<forall>i \<in> set [1..rm_next_id s]. rm_pc s i = Some At_end)
     then Some (s\<lparr>rm_at := Exited\<rparr>) else None)"

definition room_next :: "room \<Rightarrow> room_action \<Rightarrow> room option" where
  "room_next s a = (if rm_killed s then None else room_move s a)"

end
