(* ===== verification/RoomProps.thy ===== *)
theory RoomProps
  imports Room
begin

text \<open>
  What is proved of the first chat room: what the thread of a connection does with the frames it
  receives; every client gets the same sequence of frames, each of them whole, in every interleaving;
  a client that stops reading stops the room; and the notices of the threads that end when the server
  is stopped can kill it.
\<close>

section \<open>Frames\<close>

lemma rm_read_full_spec:
  assumes "rm_read_full fd n w = Some (r, w')"
  shows "later w w' \<and> (honest (since w w') \<longrightarrow>
    (case r of Inl e \<Rightarrow> List.length (received fd (since w w')) < n
     | Inr bs \<Rightarrow> received fd (since w w') = bs \<and> List.length bs = n))"
  using assms unfolding rm_read_full_def
proof (rule loop_rule [where I = "\<lambda>buf v. later w v \<and>
    (honest (since w v) \<longrightarrow> List.length buf \<le> n \<and> received fd (since w v) = buf)"], goal_cases)
  case 1
  show ?case by simp
next
  case (2 buf v buf' v')
  then obtain a where a: "sys (Read fd (n - List.length buf)) v = Some (a, v')"
    and "List.length buf < n" and o: "buf' = buf @ filled a"
    by (auto simp: rm_read_turn_def split: if_splits)
  have "later w v'" and "since w v' = since w v @ [(Read fd (n - List.length buf), Some a)]"
    using 2 sys_after [OF _ a, of w] by simp_all
  with 2 o \<open>List.length buf < n\<close> show ?case by auto
next
  case (3 buf v r v')
  show ?case
  proof (cases "List.length buf < n")
    case True
    with 3 obtain a where a: "sys (Read fd (n - List.length buf)) v = Some (a, v')" and r: "r = Inl ()" "rv a \<le> 0"
      by (auto simp: rm_read_turn_def split: if_splits)
    moreover have "later w v'" and "since w v' = since w v @ [(Read fd (n - List.length buf), Some a)]"
      using 3 sys_after [OF _ a, of w] by simp_all
    ultimately show ?thesis using 3 True by auto
  next
    case False
    with 3 show ?thesis by (auto simp: rm_read_turn_def)
  qed
qed

interpretation rm_r: exact_reader rm_read_full
  by unfold_locales (auto dest: rm_read_full_spec)

abbreviation rm_frame :: "byte \<times> byte list \<Rightarrow> byte list" where
  "rm_frame f \<equiv> proto_encode \<lparr>ftype = fst f, payload = snd f\<rparr>"

text \<open>A frame is built as the other versions of the server do, up to the longest payload.\<close>

lemma rm_build_frame_eq: "List.length p \<le> 0xFFFF \<Longrightarrow> rm_build_frame t p = rm_frame (t, p)"
  by (simp add: rm_build_frame_def proto_encode_bytes Let_def unat_of_nat)

lemma rm_header_of_bytes:
  assumes "List.length hdr = 6" and "\<not> (hdr ! 0 \<noteq> 67 \<or> hdr ! 1 \<noteq> 72 \<or> hdr ! 2 \<noteq> 1)"
    and "be16_value (hdr ! 4) (hdr ! 5) = List.length p"
  shows "rm_frame (hdr ! 3, p) = hdr @ p"
  using list6_eq [OF assms(1)] assms(2) by (simp add: proto_encode_bytes assms(3) [symmetric])

lemma rm_read_frame_spec:
  assumes "rm_read_frame fd w = Some (r, w')"
  shows "later w w'" and "r = Inr f \<Longrightarrow> honest (since w w') \<Longrightarrow>
    received fd (since w w') = rm_frame f \<and> List.length (snd f) \<le> 0xFFFF"
proof -
  obtain t p where f: "f = (t, p)" by (cases f)
  have "later w w' \<and> (r = Inr f \<longrightarrow> honest (since w w') \<longrightarrow> received fd (since w w') = rm_frame f \<and> List.length (snd f) \<le> 0xFFFF)"
  proof -
    from assms consider
        (stop) h where "rm_read_full fd 6 w = Some (h, w')" "\<forall>g. r \<noteq> Inr g"
      | (empty) hdr where "rm_read_full fd 6 w = Some (Inr hdr, w')" "\<not> (hdr ! 0 \<noteq> 67 \<or> hdr ! 1 \<noteq> 72 \<or> hdr ! 2 \<noteq> 1)"
          "be16_value (hdr ! 4) (hdr ! 5) = List.length ([] :: byte list)" "r = Inr (hdr ! 3, [])"
      | (body) hdr w1 q where "rm_read_full fd 6 w = Some (Inr hdr, w1)" "\<not> (hdr ! 0 \<noteq> 67 \<or> hdr ! 1 \<noteq> 72 \<or> hdr ! 2 \<noteq> 1)"
          "rm_read_full fd (be16_value (hdr ! 4) (hdr ! 5)) w1 = Some (q, w')"
          "r = (case q of Inl e \<Rightarrow> Inl e | Inr p \<Rightarrow> Inr (hdr ! 3, p))"
      by (auto simp: rm_read_frame_def io_try_Some Let_def split: if_splits)
    then show ?thesis
    proof cases
      case stop
      with rm_read_full_spec [OF stop(1)] show ?thesis by (simp add: f)
    next
      case empty
      with rm_read_full_spec [OF empty(1)] rm_header_of_bytes [OF _ empty(2,3)] show ?thesis by (auto simp: f)
    next
      case body
      note sh = rm_read_full_spec [OF body(1)] and sb = rm_read_full_spec [OF body(3)]
      moreover have "since w w' = since w w1 @ since w1 w'" using sh sb by (simp add: since_trans)
      moreover have "be16_value (hdr ! 4) (hdr ! 5) \<le> 0xFFFF" using be16_value_less [of "hdr ! 4" "hdr ! 5"] by simp
      ultimately show ?thesis using body(4) rm_header_of_bytes [OF _ body(2)]
        by (auto simp: f intro: later_trans split: sum.split_asm)
    qed
  qed
  then show "later w w'" and "r = Inr f \<Longrightarrow> honest (since w w') \<Longrightarrow>
    received fd (since w w') = rm_frame f \<and> List.length (snd f) \<le> 0xFFFF"
    by blast+
qed

text \<open>Where the reader fails, what it consumed starts with no complete frame.\<close>

lemma rm_read_frame_error:
  assumes "rm_read_frame fd w = Some (Inl e, w')" "honest (since w w')"
  shows "\<not> prefix (rm_frame f) (received fd (since w w'))"
proof -
  from assms(1) consider
      (short) e where "rm_read_full fd 6 w = Some (Inl e, w')"
    | (magic) hdr where "rm_read_full fd 6 w = Some (Inr hdr, w')" "hdr ! 0 \<noteq> 67 \<or> hdr ! 1 \<noteq> 72 \<or> hdr ! 2 \<noteq> 1"
    | (body) hdr w1 e where "rm_read_full fd 6 w = Some (Inr hdr, w1)" "rm_read_full fd (be16_value (hdr ! 4) (hdr ! 5)) w1 = Some (Inl e, w')"
    by (auto simp: rm_read_frame_def io_try_Some Let_def split: if_splits)
  then show ?thesis
  proof cases
    case short
    with rm_read_full_spec [OF short] assms(2) have "List.length (received fd (since w w')) < 6" by simp
    then show ?thesis by (auto dest: prefix_length_le simp: proto_encode_bytes)
  next
    case magic
    with rm_read_full_spec [OF magic(1)] assms(2) have "received fd (since w w') = hdr @ []" "List.length hdr = 6" by simp_all
    with magic(2) show ?thesis
      using prefix_encode_len(1) [of "\<lparr>ftype = fst f, payload = snd f\<rparr>" hdr "[]"]
      by (auto simp: proto_header_def kMagic0_def kMagic1_def kVersion_def)
  next
    case body
    have l: "since w w' = since w w1 @ since w1 w'"
      using rm_read_full_spec [OF body(1)] rm_read_full_spec [OF body(2)] by (simp add: since_trans)
    with rm_read_full_spec [OF body(1)] rm_read_full_spec [OF body(2)] assms(2)
    have "received fd (since w w1) = hdr" "List.length hdr = 6"
      "List.length (received fd (since w1 w')) < be16_value (hdr ! 4) (hdr ! 5)" by simp_all
    with l show ?thesis
      using prefix_encode_len(2) [of "\<lparr>ftype = fst f, payload = snd f\<rparr>" hdr "received fd (since w1 w')"] by auto
  qed
qed

section \<open>What a connection does\<close>

definition room_op :: "call \<Rightarrow> room_call list" where
  "room_op c = (case c of Room r \<Rightarrow> [r] | _ \<Rightarrow> [])"

abbreviation room_ops :: "(call \<times> answer option) list \<Rightarrow> room_call list" where
  "room_ops t \<equiv> proj room_op t"

lemma room_op_simps [simp]:
  "room_op (Room r) = [r]" "room_op (Read fd n) = []" "room_op (Print st m) = []" "room_op (Load_flag f) = []"
  "room_op (Net nc) = []" "room_op (Close fd) = []" "room_op (Write fd bs) = []"
  by (simp_all add: room_op_def)

lemma closed_fd_room [simp]: "closed_fd (Room rc) = []"
  by (simp add: closed_fd_def)

text \<open>The name after some frames, and the operations on the hub they cause.\<close>

fun rm_named :: "string \<Rightarrow> (byte \<times> byte list) list \<Rightarrow> string" where
  "rm_named name [] = name"
| "rm_named name ((t, p) # fs) = rm_named (if t = 1 then chars_of p else name) fs"

fun rm_ops :: "int \<Rightarrow> string \<Rightarrow> (byte \<times> byte list) list \<Rightarrow> room_call list" where
  "rm_ops i name [] = []"
| "rm_ops i name ((t, p) # fs) =
     (if t = 1 then [Rc_set_name i (chars_of p), Rc_broadcast (rm_build_deliver ''server'' (chars_of p @ '' joined'')) (-1)] @ rm_ops i (chars_of p) fs
      else if t = 2 \<and> name \<noteq> [] then Rc_broadcast (rm_build_deliver name (chars_of p)) i # rm_ops i name fs
      else rm_ops i name fs)"

lemma rm_ops_snoc:
  "rm_named name (fs @ [f]) = rm_named (rm_named name fs) [f]" "rm_ops i name (fs @ [f]) = rm_ops i name fs @ rm_ops i (rm_named name fs) [f]"
  by (induction fs arbitrary: name) (auto split: prod.splits)

lemma rm_read_frame_quiet:
  assumes "rm_read_frame fd w = Some (r, w')"
  shows "room_ops (since w w') = []" "closes (since w w') = []"
proof -
  have "keeps (\<lambda>c. room_op c = [] \<and> closed_fd c = []) w (rm_read_frame fd w)"
    unfolding rm_read_frame_def rm_read_full_def rm_read_turn_def by (intro keeps_intros; simp)
  from onlyD(2) [OF keepsD [OF this assms]] show "room_ops (since w w') = []" "closes (since w w') = []"
    by (auto intro!: proj_Nil simp: list_all_iff)
qed

text \<open>
  The frames the connection carried, and what was read after them: a JOIN without a name, or nothing that
  starts with a complete frame.
\<close>

definition talk :: "(byte \<times> byte list) list \<Rightarrow> byte list \<Rightarrow> byte list \<Rightarrow> bool" where
  "talk fs rest bs \<longleftrightarrow> bs = concat (List.map rm_frame fs) @ rest \<and> (1, []) \<notin> set fs \<and> (\<forall>f \<in> set fs. List.length (snd f) \<le> 0xFFFF) \<and>
     (rest = rm_frame (1, []) \<or> (\<forall>f. \<not> prefix (rm_frame f) rest))"

definition serving :: "int \<Rightarrow> int \<Rightarrow> world \<Rightarrow> string \<Rightarrow> (byte \<times> byte list) list \<Rightarrow> world \<Rightarrow> bool" where
  "serving i fd w name fs v \<longleftrightarrow> later w v \<and> name = rm_named [] fs \<and> (1, []) \<notin> set fs \<and> room_ops (since w v) = rm_ops i [] fs \<and>
     closes (since w v) = [] \<and>
     (honest (since w v) \<longrightarrow> received fd (since w v) = concat (List.map rm_frame fs) \<and> (\<forall>f \<in> set fs. List.length (snd f) \<le> 0xFFFF))"

lemma rm_serve_turn_Continue:
  assumes i: "serving i fd w name fs v" and t: "rm_serve_turn i fd name v = Some (Continue name', v')"
  shows "\<exists>f. serving i fd w name' (fs @ [f]) v'"
proof -
  from t obtain ty p v1 where f: "rm_read_frame fd v = Some (Inr (ty, p), v1)" and e: "\<not> (ty = 1 \<and> p = [])"
    and k: "name' = rm_named name [(ty, p)]" "later v1 v'" "room_ops (since v1 v') = rm_ops i name [(ty, p)]"
      "received fd (since v1 v') = []" "closes (since v1 v') = []"
    by (auto simp: rm_serve_turn_def run_cases Let_def println_def split: if_splits)
  have l: "later w v" "later v v1" "later v v'" using i rm_read_frame_spec(1) [OF f] later_trans [OF _ k(2)] by (auto simp: serving_def)
  have s: "since v v' = since v v1 @ since v1 v'" by (rule since_trans [OF l(2) k(2)])
  note r = rm_read_frame_spec(2) [OF f refl] rm_read_frame_quiet [OF f]
  show ?thesis
    using i e k r by (intro exI [of _ "(ty, p)"]) (auto simp: serving_def since_trans [OF l(1,3)] s rm_ops_snoc intro: later_trans [OF l(1,3)])
qed

lemma rm_serve_turn_Break:
  assumes i: "serving i fd w name fs v" and t: "rm_serve_turn i fd name v = Some (Break u, v')"
  shows "later w v' \<and> room_ops (since w v') = rm_ops i [] fs \<and> closes (since w v') = [] \<and> (honest (since w v') \<longrightarrow>
    (\<exists>rest. talk fs rest (received fd (since w v'))))"
proof -
  from t obtain r where f: "rm_read_frame fd v = Some (r, v')" and c: "(\<exists>e. r = Inl e) \<or> r = Inr (1, [])"
    by (auto simp: rm_serve_turn_def run_cases Let_def split: if_splits)
  have l: "later w v" "later v v'" using i rm_read_frame_spec(1) [OF f] by (auto simp: serving_def)
  have "received fd (since v v') = rm_frame (1, []) \<or> (\<forall>f. \<not> prefix (rm_frame f) (received fd (since v v')))" if "honest (since v v')"
    using c
  proof
    assume "\<exists>e. r = Inl e"
    with f rm_read_frame_error that show ?thesis by blast
  next
    assume "r = Inr (1, [])"
    with rm_read_frame_spec(2) [OF f this that] show ?thesis by simp
  qed
  with i rm_read_frame_quiet [OF f] show ?thesis
    by (auto simp: serving_def talk_def since_trans [OF l] intro: later_trans [OF l])
qed

lemma rm_serve_loop:
  assumes "loop (rm_serve_turn i fd) [] w = Some (u, w')"
  shows "\<exists>fs. later w w' \<and> room_ops (since w w') = rm_ops i [] fs \<and> closes (since w w') = [] \<and> (honest (since w w') \<longrightarrow>
    (\<exists>rest. talk fs rest (received fd (since w w'))))"
proof (rule loop_rule [OF assms, where I = "\<lambda>name v. \<exists>fs. serving i fd w name fs v"], goal_cases)
  case 1
  show ?case by (intro exI [of _ "[]"]) (simp add: serving_def)
next
  case (2 name v name' v')
  then show ?case using rm_serve_turn_Continue by blast
next
  case (3 name v r v')
  then obtain fs where "serving i fd w name fs v" by blast
  with rm_serve_turn_Break [OF this 3(2)] show ?case by blast
qed

text \<open>
  The list of clients is shared by the threads of all connections, each of which performs its operations
  under the mutex. What the removal of a client answers is what it finds on the list that some sequence of
  operations has made, those of the other threads among those of its own.
\<close>

fun room_apply :: "room_call \<Rightarrow> room_client list \<Rightarrow> room_client list" where
  "room_apply (Rc_add i fd) cs = rm_add i fd cs"
| "room_apply (Rc_set_name i n) cs = rm_set_name i n cs"
| "room_apply (Rc_remove i) cs = snd (rm_remove i cs)"
| "room_apply _ cs = cs"

fun concerns :: "int \<Rightarrow> room_call \<Rightarrow> bool" where
  "concerns i (Rc_add j fd) \<longleftrightarrow> j = i" | "concerns i (Rc_set_name j n) \<longleftrightarrow> j = i" | "concerns i (Rc_remove j) \<longleftrightarrow> j = i"
| "concerns i _ \<longleftrightarrow> False"

definition hub_answers :: "int \<Rightarrow> (call \<times> answer option) list \<Rightarrow> bool" where
  "hub_answers i t \<longleftrightarrow> (\<forall>r. (Room (Rc_remove i), Some r) \<in> set t \<longrightarrow>
     (\<exists>hs. filter (concerns i) hs = filter (concerns i) (takeWhile (\<lambda>h. h \<noteq> Rc_remove i) (room_ops t)) \<and>
       chars_of (filled r) = fst (rm_remove i (fold room_apply hs []))))"

text \<open>The name under which a client is on the list, if it is, depends on the operations that concern it.\<close>

fun name_on :: "int \<Rightarrow> room_client list \<Rightarrow> string option" where
  "name_on i [] = None" | "name_on i (c # cs) = (if rc_id c = i then Some (rc_name c) else name_on i cs)"

lemma name_on_remove: "fst (rm_remove i cs) = (case name_on i cs of None \<Rightarrow> [] | Some n \<Rightarrow> n)"
  by (induction cs) (auto split: prod.splits)

lemma name_on_add [simp]:
  "name_on i (rm_add j fd cs) = (case name_on i cs of None \<Rightarrow> if i = j then Some [] else None | Some n \<Rightarrow> Some n)"
  by (induction cs) (auto simp: rm_add_def)

lemma name_on_set [simp]: "name_on i (rm_set_name j n cs) = (if i = j then map_option (\<lambda>_. n) (name_on i cs) else name_on i cs)"
  by (induction cs) auto

lemma name_on_other: "\<not> concerns i h \<Longrightarrow> name_on i (room_apply h cs) = name_on i cs"
proof (cases h)
  case (Rc_remove j)
  moreover have "name_on i (snd (rm_remove j cs)) = name_on i cs" if "i \<noteq> j"
    using that by (induction cs) (auto split: prod.splits)
  moreover assume "\<not> concerns i h"
  ultimately show ?thesis by auto
qed (auto split: option.split)

text \<open>Operations that add the client and set its name a number of times.\<close>

lemma name_on_sets:
  assumes "filter (concerns i) hs = List.map (Rc_set_name i) ns" and "name_on i cs = Some n"
  shows "name_on i (fold room_apply hs cs) = Some (last (n # ns))"
  using assms
proof (induction hs arbitrary: cs n ns)
  case (Cons h hs)
  show ?case
  proof (cases "concerns i h")
    case True
    with Cons.prems(1) obtain m ms where "ns = m # ms" "h = Rc_set_name i m" "filter (concerns i) hs = List.map (Rc_set_name i) ms"
      by (cases ns) auto
    with Cons.IH [of ms "room_apply h cs" m] Cons.prems(2) show ?thesis by simp
  next
    case False
    with Cons.IH [of ns "room_apply h cs" n] Cons.prems name_on_other [OF False] show ?thesis by simp
  qed
qed simp

lemma name_on_thread:
  assumes "filter (concerns i) hs = Rc_add i fd # List.map (Rc_set_name i) ns" and "name_on i cs = None"
  shows "name_on i (fold room_apply hs cs) = Some (last ([] # ns))"
  using assms
proof (induction hs arbitrary: cs)
  case (Cons h hs)
  show ?case
  proof (cases "concerns i h")
    case True
    with Cons.prems(1) have "h = Rc_add i fd" "filter (concerns i) hs = List.map (Rc_set_name i) ns" by auto
    with name_on_sets [of i hs ns "room_apply h cs" "[]"] Cons.prems(2) show ?thesis by simp
  next
    case False
    with Cons.IH [of "room_apply h cs"] Cons.prems name_on_other [OF False] show ?thesis by simp
  qed
qed simp

text \<open>Those of one connection: the names of its JOINs, the last of which is its name.\<close>

lemma rm_ops_concern:
  "filter (concerns i) (rm_ops i name fs) = List.map (Rc_set_name i) (List.map (\<lambda>f. chars_of (snd f)) (filter (\<lambda>f. fst f = 1) fs))"
  by (induction i name fs rule: rm_ops.induct) auto

lemma rm_named_last: "rm_named name fs = last (name # List.map (\<lambda>f. chars_of (snd f)) (filter (\<lambda>f. fst f = 1) fs))"
  by (induction name fs rule: rm_named.induct) auto

lemma rm_ops_stay: "h \<in> set (rm_ops i name fs) \<Longrightarrow> h \<noteq> Rc_remove j"
  by (induction i name fs rule: rm_ops.induct) (auto split: if_splits)

text \<open>C39: What the thread of a connection does to the hub is decided by the bytes it receives. They are frames
  as far as they go, whatever pieces they come in, and then a JOIN without a name or nothing that starts
  with a complete frame. The thread adds the client; each JOIN sets the name and is announced to everybody;
  each MSG goes to everybody else under the last name, and is dropped before the first JOIN; frames of
  other types are passed over; then it removes the client and, where it ever joined, announces to everybody
  that it left, under its last name; and it closes the socket once.\<close>

theorem room_serve_ops:
  assumes "rm_serve_client i fd w = Some (u, w')" and "honest (since w w')" and "hub_answers i (since w w')"
  shows "\<exists>fs rest. received fd (since w w') = concat (List.map rm_frame fs) @ rest \<and> (1, []) \<notin> set fs \<and>
    (\<forall>f \<in> set fs. List.length (snd f) \<le> 0xFFFF) \<and> (rest = rm_frame (1, []) \<or> (\<forall>f. \<not> prefix (rm_frame f) rest)) \<and>
    room_ops (since w w') = Rc_add i fd # rm_ops i [] fs @ Rc_remove i #
      (if rm_named [] fs = [] then [] else [Rc_broadcast (rm_build_deliver ''server'' (rm_named [] fs @ '' left'')) (-1)]) \<and>
    closes (since w w') = (if 0 \<le> fd then [fd] else [])"
proof -
  from assms(1) obtain st w1 w2 v r v1 where st: "sys (Load_flag ''stop_requested'') w = Some (st, w1)"
    and w2: "w2 = emit (Room (Rc_add i fd)) (if rv st \<noteq> 0 then emit (Net (Net_shutdown fd)) w1 else w1)"
    and lp: "loop (rm_serve_turn i fd) [] w2 = Some ((), v)" and r: "sys (Room (Rc_remove i)) v = Some (r, v1)"
    and w': "w' = fd_reset fd (if chars_of (filled r) \<noteq> [] then
         emit (Room (Rc_broadcast (rm_build_deliver ''server'' (chars_of (filled r) @ '' left'')) (-1)))
           (println Stderr [Txt (''chatterd: '' @ chars_of (filled r) @ '' left'')] v1)
       else v1)"
    by (auto simp: rm_serve_client_def Let_def)
  let ?left = "\<lambda>n. if n = [] then [] else [Rc_broadcast (rm_build_deliver ''server'' (n @ '' left'')) (-1)]"
  from rm_serve_loop [OF lp] obtain fs where fs: "later w2 v" "room_ops (since w2 v) = rm_ops i [] fs" "closes (since w2 v) = []"
    "honest (since w2 v) \<Longrightarrow> \<exists>rest. talk fs rest (received fd (since w2 v))" by blast
  have a: "later w w2" "room_ops (since w w2) = [Rc_add i fd]" "received fd (since w w2) = []" "closes (since w w2) = []"
    using sys_SomeE [OF st] by (simp_all add: w2)
  have b: "later v w'" "room_ops (since v w') = Rc_remove i # ?left (chars_of (filled r))" "received fd (since v w') = []"
    "closes (since v w') = (if 0 \<le> fd then [fd] else [])" "(Room (Rc_remove i), Some r) \<in> set (since v w')"
    using sys_SomeE [OF r] by (simp_all add: w' println_def fd_reset_def)
  have s: "since w w' = since w w2 @ since w2 v @ since v w'"
    using since_trans [OF a(1) later_trans [OF fs(1) b(1)]] since_trans [OF fs(1) b(1)] by simp
  with assms(2) fs(4) obtain rest where t: "talk fs rest (received fd (since w2 v))" by auto
  have ops: "room_ops (since w w') = Rc_add i fd # rm_ops i [] fs @ Rc_remove i # ?left (chars_of (filled r))"
    by (simp add: s a(2) fs(2) b(2))
  have "takeWhile (\<lambda>h. h \<noteq> Rc_remove i) (room_ops (since w w')) = Rc_add i fd # rm_ops i [] fs"
    unfolding ops by (simp add: takeWhile_append2 rm_ops_stay)
  with assms(3) b(5) s obtain hs where hs: "filter (concerns i) hs = Rc_add i fd # filter (concerns i) (rm_ops i [] fs)"
    "chars_of (filled r) = fst (rm_remove i (fold room_apply hs []))" by (auto simp: hub_answers_def)
  from name_on_thread [OF hs(1) [unfolded rm_ops_concern], of "[]"] hs(2)
  have "chars_of (filled r) = rm_named [] fs" by (simp add: name_on_remove rm_named_last)
  with ops s a fs b t show ?thesis by (intro exI [of _ fs] exI [of _ rest]) (simp add: talk_def)
qed

text \<open>A name in two pieces with an interruption, a message, a frame of another type, and the end.\<close>

definition room_talk :: "answer list" where
  "room_talk = [returned 0, gave [67, 72, 1, 1, 0, 2], gave [97], failed EINTR, gave [98], gave [67, 72, 1, 2, 0, 1], gave [99],
     gave [67, 72, 1, 5, 0, 0], gave [], gave [97, 98]]"

lemma room_talk_run:
  "\<exists>w'. rm_serve_client 1 4 (answering room_talk) = Some ((), w') \<and> honest (since (answering room_talk) w') \<and>
     hub_answers 1 (since (answering room_talk) w') \<and> received 4 (since (answering room_talk) w') =
       [67, 72, 1, 1, 0, 2, 97, 98, 67, 72, 1, 2, 0, 1, 99, 67, 72, 1, 5, 0, 0]"
proof -
  let ?t = "[(Load_flag ''stop_requested'', Some (returned 0)), (Room (Rc_add 1 4), None), (Read 4 6, Some (gave [67, 72, 1, 1, 0, 2])),
    (Read 4 2, Some (gave [97])), (Read 4 1, Some (failed EINTR)), (Read 4 1, Some (gave [98])), (Room (Rc_set_name 1 ''ab''), None),
    (Print Stderr [Txt ''chatterd: ab joined''], None), (Room (Rc_broadcast (rm_build_deliver ''server'' ''ab joined'') (-1)), None),
    (Read 4 6, Some (gave [67, 72, 1, 2, 0, 1])), (Read 4 1, Some (gave [99])), (Room (Rc_broadcast (rm_build_deliver ''ab'' ''c'') 1), None),
    (Read 4 6, Some (gave [67, 72, 1, 5, 0, 0])), (Read 4 6, Some (gave [])), (Room (Rc_remove 1), Some (gave [97, 98])),
    (Print Stderr [Txt ''chatterd: ab left''], None), (Room (Rc_broadcast (rm_build_deliver ''server'' ''ab left'') (-1)), None), (Close 4, None)]"
  have run: "rm_serve_client 1 4 (answering room_talk) = Some ((), \<lparr>script = [], trace = ?t\<rparr>)"
    by (simp add: rm_serve_client_def rm_serve_turn_def rm_read_frame_def rm_read_full_def rm_read_turn_def room_talk_def loop.simps io_defs
      fd_reset_def be16_value_eq char_eval Let_def)
  have s: "since (answering room_talk) \<lparr>script = [], trace = ?t\<rparr> = ?t" by (simp add: since_def answering_def)
  have "hub_answers 1 ?t"
    unfolding hub_answers_def
    by (intro allI impI exI [of _ "[Rc_add 7 9, Rc_add 1 4, Rc_set_name 7 ''z'', Rc_set_name 1 ''ab'']"])
      (auto simp: rm_add_def char_eval)
  moreover have "honest ?t" "received 4 ?t = [67, 72, 1, 1, 0, 2, 97, 98, 67, 72, 1, 2, 0, 1, 99, 67, 72, 1, 5, 0, 0]"
    by (simp_all add: honest_event_def)
  ultimately show ?thesis using run by (intro exI [of _ "\<lparr>script = [], trace = ?t\<rparr>"]) (simp only: s simp_thms)
qed

theorem room_serve_ops_witness:
  "\<exists>w' fs. rm_serve_client 1 4 (answering room_talk) = Some ((), w') \<and>
     room_ops (since (answering room_talk) w') = Rc_add 1 4 # rm_ops 1 [] fs @ Rc_remove 1 #
       (if rm_named [] fs = [] then [] else [Rc_broadcast (rm_build_deliver ''server'' (rm_named [] fs @ '' left'')) (-1)])"
proof -
  from room_talk_run obtain w' where w: "rm_serve_client 1 4 (answering room_talk) = Some ((), w')" "honest (since (answering room_talk) w')"
    "hub_answers 1 (since (answering room_talk) w')" by blast
  from room_serve_ops [OF w] w(1) show ?thesis by blast
qed

section \<open>The threads\<close>

text \<open>The descriptor of a thread, and whether its client is on the list.\<close>

fun pc_fd_of :: "room_pc \<Rightarrow> int option" where
  "pc_fd_of (At_add fd) = Some fd" | "pc_fd_of (At_read fd name) = Some fd" | "pc_fd_of (At_name fd name) = Some fd"
| "pc_fd_of (At_cast fd name frame ex) = Some fd" | "pc_fd_of (At_remove fd) = Some fd" | "pc_fd_of (At_farewell fd frame) = Some fd"
| "pc_fd_of (At_close fd) = Some fd" | "pc_fd_of At_end = None"

fun is_member :: "room_pc \<Rightarrow> bool" where
  "is_member (At_read fd name) = True" | "is_member (At_name fd name) = True" | "is_member (At_cast fd name frame ex) = True"
| "is_member (At_remove fd) = True" | "is_member _ = False"

fun is_casting :: "room_pc \<Rightarrow> bool" where
  "is_casting (At_cast fd name frame ex) = True" | "is_casting (At_farewell fd frame) = True" | "is_casting _ = False"

definition fds_ok :: "(int \<Rightarrow> room_pc option) \<Rightarrow> (int \<Rightarrow> int option) \<Rightarrow> bool" where
  "fds_ok pc tab \<longleftrightarrow> (\<forall>i p fd. pc i = Some p \<longrightarrow> pc_fd_of p = Some fd \<longrightarrow> tab fd = Some i)"

definition members_ok :: "(int \<Rightarrow> room_pc option) \<Rightarrow> room_client list \<Rightarrow> bool" where
  "members_ok pc cs \<longleftrightarrow> (\<forall>c \<in> set cs. \<exists>p. pc (rc_id c) = Some p \<and> is_member p \<and> pc_fd_of p = Some (rc_fd c))"

fun cast_ok :: "(int \<Rightarrow> room_pc option) \<Rightarrow> room_client list \<Rightarrow> (int \<times> room_client list \<times> byte list \<times> byte list) option \<Rightarrow> bool" where
  "cast_ok pc cs None \<longleftrightarrow> True"
| "cast_ok pc cs (Some (i, ts, left, frame)) \<longleftrightarrow> subseq ts cs \<and> (\<exists>p. pc i = Some p \<and> is_casting p)"

definition room_inv :: "room \<Rightarrow> bool" where
  "room_inv s \<longleftrightarrow> fds_ok (rm_pc s) (rm_fdtab s) \<and> (\<forall>i. rm_next_id s < i \<longrightarrow> rm_pc s i = None) \<and>
     distinct (List.map rc_id (rm_clients s)) \<and> members_ok (rm_pc s) (rm_clients s) \<and> cast_ok (rm_pc s) (rm_clients s) (rm_cast s)"

text \<open>A thread that goes on keeps its descriptor.\<close>

lemma fds_ok_step:
  "fds_ok pc tab \<Longrightarrow> pc i = Some p \<Longrightarrow> pc_fd_of q = pc_fd_of p \<Longrightarrow> fds_ok (pc(i \<mapsto> q)) tab"
  by (auto simp: fds_ok_def)

lemma members_ok_step:
  "members_ok pc cs \<Longrightarrow> pc i = Some p \<Longrightarrow> pc_fd_of q = pc_fd_of p \<Longrightarrow> (is_member p \<Longrightarrow> is_member q) \<Longrightarrow> members_ok (pc(i \<mapsto> q)) cs"
  by (fastforce simp: members_ok_def)

lemma cast_ok_step:
  "cast_ok pc cs b \<Longrightarrow> pc i = Some p \<Longrightarrow> \<not> is_casting p \<Longrightarrow> cast_ok (pc(i \<mapsto> q)) cs b"
  by (cases b) auto

lemma members_other: "members_ok pc cs \<Longrightarrow> (\<And>c. c \<in> set cs \<Longrightarrow> rc_id c \<noteq> i) \<Longrightarrow> members_ok (pc(i := x)) cs"
  by (auto simp: members_ok_def)

text \<open>What the operations on the list keep.\<close>

lemma rm_set_name_ids [simp]: "List.map rc_id (rm_set_name i n cs) = List.map rc_id cs"
  by (induction cs) auto

lemma rm_set_name_mem: "c \<in> set (rm_set_name i n cs) \<Longrightarrow> \<exists>d \<in> set cs. rc_id d = rc_id c \<and> rc_fd d = rc_fd c"
  by (induction cs) (auto split: if_splits)

lemma rm_remove_subseq: "subseq (snd (rm_remove i cs)) cs"
  by (induction cs) (auto split: prod.splits)

lemma rm_remove_mem: "c \<in> set (snd (rm_remove i cs)) \<Longrightarrow> c \<in> set cs"
  by (induction cs) (auto split: prod.splits if_splits)

lemma rm_remove_gone: "distinct (List.map rc_id cs) \<Longrightarrow> c \<in> set (snd (rm_remove i cs)) \<Longrightarrow> rc_id c \<noteq> i"
proof (induction cs)
  case (Cons d cs)
  show ?case
  proof (cases "rc_id d = i")
    case True
    with Cons.prems show ?thesis by auto (metis image_eqI)
  next
    case False
    with Cons show ?thesis by (auto split: prod.splits)
  qed
qed simp

lemma rm_targets_subseq: "subseq (rm_targets ex cs) cs"
  by (simp add: rm_targets_def)

lemma subseq_mem: "subseq xs ys \<Longrightarrow> x \<in> set xs \<Longrightarrow> x \<in> set ys"
  by (auto dest: list_emb_set)

lemma subseq_distinct: "subseq xs ys \<Longrightarrow> distinct ys \<Longrightarrow> distinct xs"
  by (induction rule: list_emb.induct) (auto dest: subseq_mem)

lemma subseq_ids: "subseq cs ds \<Longrightarrow> distinct (List.map rc_id ds) \<Longrightarrow> distinct (List.map rc_id cs)"
  using subseq_map [of cs ds rc_id] by (auto dest: subseq_distinct)

lemma room_inv_next:
  assumes inv: "room_inv s" and n: "room_next s a = Some s'"
  shows "room_inv s'"
proof -
  from n have n: "room_move s a = Some s'" by (simp add: room_next_def split: if_splits)
  from inv have f: "fds_ok (rm_pc s) (rm_fdtab s)" and nx: "\<forall>i. rm_next_id s < i \<longrightarrow> rm_pc s i = None"
    and d: "distinct (List.map rc_id (rm_clients s))" and m: "members_ok (rm_pc s) (rm_clients s)"
    and c: "cast_ok (rm_pc s) (rm_clients s) (rm_cast s)" by (simp_all add: room_inv_def)
  have step: "room_inv (s\<lparr>rm_pc := (rm_pc s)(i \<mapsto> q)\<rparr>)"
    if "rm_pc s i = Some p" "pc_fd_of q = pc_fd_of p" "is_member p \<Longrightarrow> is_member q" "\<not> is_casting p" for i p q
    using that fds_ok_step [OF f that(1,2)] members_ok_step [OF m that(1,2)] cast_ok_step [OF c that(1)] nx d
    by (auto simp: room_inv_def)
  show ?thesis
  proof (cases a)
    case (Accepts i fd)
    with n have s': "s' = s\<lparr>rm_next_id := i, rm_fdtab := (rm_fdtab s)(fd \<mapsto> i), rm_pc := (rm_pc s)(i \<mapsto> At_add fd)\<rparr>"
      and i: "i = rm_next_id s + 1" "rm_fdtab s fd = None" by (auto split: if_splits)
    have new: "rm_pc s i = None" using nx i by simp
    have "rc_id x \<noteq> i" if "x \<in> set (rm_clients s)" for x using m that new by (force simp: members_ok_def)
    moreover have "fds_ok ((rm_pc s)(i \<mapsto> At_add fd)) ((rm_fdtab s)(fd \<mapsto> i))" using f i(2) by (fastforce simp: fds_ok_def)
    moreover have "cast_ok ((rm_pc s)(i \<mapsto> At_add fd)) (rm_clients s) (rm_cast s)" using c new by (cases "rm_cast s") auto
    ultimately show ?thesis using members_other [OF m, of i "Some (At_add fd)"] d nx i(1) by (simp add: room_inv_def s')
  next
    case (Adds i)
    with n obtain fd where p: "rm_pc s i = Some (At_add fd)" and k: "rm_cast s = None"
      and s': "s' = s\<lparr>rm_clients := rm_add i fd (rm_clients s), rm_pc := (rm_pc s)(i \<mapsto> At_read fd [])\<rparr>"
      by (auto split: option.splits room_pc.splits if_splits)
    have i: "rc_id x \<noteq> i" if "x \<in> set (rm_clients s)" for x using m that p by (force simp: members_ok_def)
    have "members_ok ((rm_pc s)(i \<mapsto> At_read fd [])) (rm_add i fd (rm_clients s))"
      using members_other [OF m, of i "Some (At_read fd [])"] i by (auto simp: members_ok_def rm_add_def)
    moreover have "i \<notin> rc_id ` set (rm_clients s)" using i by blast
    ultimately show ?thesis using fds_ok_step [OF f p, of "At_read fd []"] d nx p k by (auto simp: room_inv_def s' rm_add_def)
  next
    case (Gets_join i name)
    with n show ?thesis by (auto split: option.splits room_pc.splits if_splits intro: step)
  next
    case (Names i)
    with n obtain fd name where p: "rm_pc s i = Some (At_name fd name)" and k: "rm_cast s = None"
      and s': "s' = s\<lparr>rm_clients := rm_set_name i name (rm_clients s),
         rm_pc := (rm_pc s)(i \<mapsto> At_cast fd name (rm_build_deliver ''server'' (name @ '' joined'')) (-1))\<rparr>"
      by (auto split: option.splits room_pc.splits if_splits)
    let ?q = "At_cast fd name (rm_build_deliver ''server'' (name @ '' joined'')) (-1)"
    have "members_ok ((rm_pc s)(i \<mapsto> ?q)) (rm_set_name i name (rm_clients s))"
      using members_ok_step [OF m p, of ?q] rm_set_name_mem [of _ i name "rm_clients s"] by (fastforce simp: members_ok_def)
    with fds_ok_step [OF f p, of ?q] d nx p k show ?thesis by (auto simp: room_inv_def s')
  next
    case (Gets_msg i line)
    with n inv show ?thesis by (auto split: option.splits room_pc.splits if_splits intro: step)
  next
    case (Read_ends i)
    with n show ?thesis by (auto split: option.splits room_pc.splits if_splits intro: step)
  next
    case (Removes i)
    with n obtain fd name cs where p: "rm_pc s i = Some (At_remove fd)" and k: "rm_cast s = None"
      and r: "rm_remove i (rm_clients s) = (name, cs)"
      and s1: "s' = s\<lparr>rm_clients := cs, rm_pc := (rm_pc s)(i \<mapsto>
         (if name \<noteq> [] then At_farewell fd (rm_build_deliver ''server'' (name @ '' left'')) else At_close fd))\<rparr>"
      by (auto split: option.splits room_pc.splits if_split_asm prod.splits)
    define q where "q = (if name \<noteq> [] then At_farewell fd (rm_build_deliver ''server'' (name @ '' left'')) else At_close fd)"
    have q: "pc_fd_of q = Some fd" and s': "s' = s\<lparr>rm_clients := cs, rm_pc := (rm_pc s)(i \<mapsto> q)\<rparr>"
      by (simp_all add: q_def s1)
    have cs: "cs = snd (rm_remove i (rm_clients s))" by (simp add: r)
    have "members_ok (rm_pc s) cs" using m rm_remove_mem [of _ i "rm_clients s"] by (auto simp: members_ok_def cs)
    then have "members_ok ((rm_pc s)(i \<mapsto> q)) cs"
      by (rule members_other) (use rm_remove_gone [OF d, of _ i] cs in blast)
    moreover have "distinct (List.map rc_id cs)" unfolding cs by (rule subseq_ids [OF rm_remove_subseq d])
    ultimately show ?thesis using fds_ok_step [OF f p, of q] nx p k q by (auto simp: room_inv_def s')
  next
    case (Closes i)
    with n obtain fd where p: "rm_pc s i = Some (At_close fd)"
      and s': "s' = s\<lparr>rm_fdtab := (rm_fdtab s)(fd := None), rm_pc := (rm_pc s)(i \<mapsto> At_end)\<rparr>"
      by (auto split: option.splits room_pc.splits)
    have "rc_id x \<noteq> i" if "x \<in> set (rm_clients s)" for x using m that p by (force simp: members_ok_def)
    moreover have "fds_ok ((rm_pc s)(i \<mapsto> At_end)) ((rm_fdtab s)(fd := None))"
      using f p by (auto simp: fds_ok_def) (metis option.inject pc_fd_of.simps(7))
    ultimately show ?thesis using members_other [OF m, of i "Some At_end"] cast_ok_step [OF c p] d nx p by (auto simp: room_inv_def s')
  next
    case (Locks i)
    with n inv show ?thesis
      by (auto simp: room_inv_def rm_targets_subseq split: if_splits option.splits room_pc.splits)
  next
    case Unlocks
    have u: "room_inv (s\<lparr>rm_cast := None, rm_pc := (rm_pc s)(i \<mapsto> q)\<rparr>)"
      if "rm_pc s i = Some p" "pc_fd_of q = pc_fd_of p" "is_member p \<Longrightarrow> is_member q" for i p q
      using fds_ok_step [OF f that(1,2)] members_ok_step [OF m that(1,2)] that(1,3) nx d by (auto simp: room_inv_def)
    from Unlocks n consider
        (cast) i fd name g ex where "rm_pc s i = Some (At_cast fd name g ex)" "s' = s\<lparr>rm_cast := None, rm_pc := (rm_pc s)(i \<mapsto> At_read fd name)\<rparr>"
      | (bye) i fd g where "rm_pc s i = Some (At_farewell fd g)" "s' = s\<lparr>rm_cast := None, rm_pc := (rm_pc s)(i \<mapsto> At_close fd)\<rparr>"
      by (auto split: option.splits list.splits room_pc.splits)
    then show ?thesis
    proof cases
      case cast
      then show ?thesis using u [OF cast(1), of "At_read fd name"] by simp
    next
      case bye
      then show ?thesis using u [OF bye(1), of "At_close fd"] by simp
    qed
  next
    case (Writes k)
    with n obtain i t ts left frame x where k: "rm_cast s = Some (i, t # ts, left, frame)"
      and s': "s' = s\<lparr>rm_wire := x, rm_cast := Some (i, t # ts, drop k left, frame)\<rparr>"
      by (auto split: option.splits list.splits if_splits)
    from inv k show ?thesis by (simp add: room_inv_def s')
  next
    case Write_fails
    with n obtain i t ts left frame where k: "rm_cast s = Some (i, t # ts, left, frame)" "left \<noteq> []"
      by (auto split: option.splits list.splits if_splits)
    with n Write_fails have "rm_cast s' = Some (i, ts, frame, frame)" "rm_pc s' = rm_pc s" "rm_fdtab s' = rm_fdtab s"
      "rm_next_id s' = rm_next_id s" "rm_clients s' = rm_clients s" by (auto split: option.splits if_splits)
    with inv subseq_Cons' [of t ts "rm_clients s"] show ?thesis by (auto simp: room_inv_def k)
  next
    case Next_client
    with n obtain i t ts left frame where k: "rm_cast s = Some (i, t # ts, left, frame)"
      and s': "s' = s\<lparr>rm_cast := Some (i, ts, frame, frame)\<rparr>"
      by (auto split: option.splits list.splits if_splits)
    from inv subseq_Cons' [of t ts "rm_clients s"] show ?thesis by (auto simp: room_inv_def k s')
  next
    case Dies
    with n have "s' = s\<lparr>rm_killed := True\<rparr>" by (auto split: option.splits list.splits if_splits)
    with inv show ?thesis by (simp add: room_inv_def)
  next
    case Sigint
    with n have "s' = s\<lparr>rm_at := Stopping [1..rm_next_id s]\<rparr>" by (auto split: if_splits)
    with inv show ?thesis by (simp add: room_inv_def)
  next
    case Requests_stop
    with n obtain x y where "s' = s\<lparr>rm_shut := x, rm_at := y\<rparr> \<or> s' = s\<lparr>rm_at := y\<rparr>" by (auto split: room_main.splits list.splits)
    with inv show ?thesis by (auto simp: room_inv_def)
  next
    case Joins_all
    with n have "s' = s\<lparr>rm_at := Exited\<rparr>" by (auto split: if_splits)
    with inv show ?thesis by (simp add: room_inv_def)
  qed
qed

lemma room_inv_start: "room_inv room_start"
  by (simp add: room_inv_def room_start_def fds_ok_def members_ok_def)

section \<open>One order for everybody\<close>

text \<open>The broadcasts of a run, each with the clients it goes to, as they take the mutex.\<close>

definition cast_label :: "room \<Rightarrow> room_action \<Rightarrow> (byte list \<times> int list) option" where
  "cast_label s a = (case a of
     Locks i \<Rightarrow> (case room_next s a of Some s' \<Rightarrow> (case rm_cast s' of
         Some (j, cs, left, frame) \<Rightarrow> Some (frame, List.map rc_id cs) | None \<Rightarrow> None) | None \<Rightarrow> None)
   | _ \<Rightarrow> None)"

text \<open>Of those, what one client is to get; and what the broadcast in progress has still to write to it.\<close>

definition heard_by :: "int \<Rightarrow> (byte list \<times> int list) list \<Rightarrow> byte list" where
  "heard_by d casts = concat (List.map fst (filter (\<lambda>(frame, is). d \<in> set is) casts))"

fun due :: "int \<Rightarrow> (int \<times> room_client list \<times> byte list \<times> byte list) option \<Rightarrow> byte list" where
  "due d None = []"
| "due d (Some (i, [], left, frame)) = []"
| "due d (Some (i, c # cs, left, frame)) = (if rc_id c = d then left else if d \<in> rc_id ` set cs then frame else [])"

lemma due_fresh: "due d (Some (i, cs, frame, frame)) = (if d \<in> rc_id ` set cs then frame else [])"
  by (cases cs) auto

lemma heard_casts [simp]:
  "heard_by d [] = []" "heard_by d (x # xs) = (if d \<in> set (snd x) then fst x else []) @ heard_by d xs" "heard_by d (xs @ ys) = heard_by d xs @ heard_by d ys"
  by (auto simp: heard_by_def split: prod.splits)

lemma room_step_heard:
  assumes inv: "room_inv s" and n: "room_next s a = Some s'" and d: "d \<notin> rm_failed s'"
  shows "rm_wire s' d @ due d (rm_cast s') = rm_wire s d @ due d (rm_cast s) @ heard_by d (case cast_label s a of None \<Rightarrow> [] | Some b \<Rightarrow> [b])"
    and "rm_failed s \<subseteq> rm_failed s'"
proof -
  from n have m: "room_move s a = Some s'" by (simp add: room_next_def split: if_splits)
  have fd: "rm_fdtab s (rc_fd c) = Some (rc_id c)" "c \<in> set (rm_clients s)" if "rm_cast s = Some (i, c # cs, left, frame)" for i c cs left frame
    using inv that by (auto simp: room_inv_def members_ok_def fds_ok_def dest!: subseq_mem [of _ _ c])
  have ids: "rc_id c \<notin> rc_id ` set cs" if "rm_cast s = Some (i, c # cs, left, frame)" for i c cs left frame
    using inv that subseq_ids [of "c # cs" "rm_clients s"] by (auto simp: room_inv_def)
  have "rm_wire s' d @ due d (rm_cast s') = rm_wire s d @ due d (rm_cast s) @ heard_by d (case cast_label s a of None \<Rightarrow> [] | Some b \<Rightarrow> [b])
    \<and> rm_failed s \<subseteq> rm_failed s'"
  proof (cases a)
    case (Locks i)
    with m have k: "rm_cast s = None" by (cases "rm_cast s") auto
    from Locks m k obtain cs frame where "rm_cast s' = Some (i, cs, frame, frame)" by (auto split: option.splits room_pc.splits)
    moreover from Locks m k have "rm_wire s' = rm_wire s" "rm_failed s' = rm_failed s" by (auto split: option.splits room_pc.splits)
    moreover note k
    moreover have "cast_label s a = Some (frame, List.map rc_id cs)" using n Locks calculation(1) by (simp add: cast_label_def)
    ultimately show ?thesis by (simp add: due_fresh)
  next
    case (Writes k)
    with m obtain i c cs left frame x where r: "rm_cast s = Some (i, c # cs, left, frame)" "rm_fdtab s (rc_fd c) = Some x"
      "s' = s\<lparr>rm_wire := (rm_wire s)(x := rm_wire s x @ take k left), rm_cast := Some (i, c # cs, drop k left, frame)\<rparr>"
      by (auto split: option.splits list.splits if_splits)
    with fd [OF r(1)] Writes show ?thesis by (auto simp: cast_label_def)
  next
    case Write_fails
    with m obtain i c cs left frame where r: "rm_cast s = Some (i, c # cs, left, frame)" by (auto split: option.splits list.splits)
    with m Write_fails fd [OF r] have "s' = s\<lparr>rm_failed := insert (rc_id c) (rm_failed s), rm_cast := Some (i, cs, frame, frame)\<rparr>"
      by (auto split: if_splits)
    with d r Write_fails show ?thesis by (auto simp: cast_label_def due_fresh)
  next
    case Next_client
    with m obtain i c cs frame where r: "rm_cast s = Some (i, c # cs, [], frame)" "s' = s\<lparr>rm_cast := Some (i, cs, frame, frame)\<rparr>"
      by (auto split: option.splits list.splits if_splits)
    with ids [OF r(1)] Next_client show ?thesis by (auto simp: cast_label_def due_fresh)
  next
    case Unlocks
    with m obtain i left frame where r: "rm_cast s = Some (i, [], left, frame)" by (auto split: option.splits list.splits)
    with m Unlocks have "rm_cast s' = None" "rm_wire s' = rm_wire s" "rm_failed s' = rm_failed s" by (auto split: option.splits room_pc.splits)
    with r Unlocks show ?thesis by (simp add: cast_label_def)
  next
    case (Gets_msg i line)
    with m show ?thesis by (auto simp: cast_label_def split: option.splits room_pc.splits if_splits)
  next
    case (Removes i)
    with m show ?thesis by (auto simp: cast_label_def split: option.splits room_pc.splits if_split_asm prod.splits)
  next
    case Dies
    with m show ?thesis by (auto simp: cast_label_def split: option.splits list.splits if_splits)
  next
    case Requests_stop
    with m show ?thesis by (auto simp: cast_label_def split: room_main.splits list.splits)
  qed (use m in \<open>auto simp: cast_label_def split: option.splits room_pc.splits if_splits\<close>)+
  then show "rm_wire s' d @ due d (rm_cast s') = rm_wire s d @ due d (rm_cast s) @ heard_by d (case cast_label s a of None \<Rightarrow> [] | Some b \<Rightarrow> [b])"
    and "rm_failed s \<subseteq> rm_failed s'" by blast+
qed

lemma room_run_heard:
  assumes "run room_next s as = Some s'" "room_inv s" "d \<notin> rm_failed s'"
  shows "rm_wire s' d @ due d (rm_cast s') = rm_wire s d @ due d (rm_cast s) @ heard_by d (seen room_next cast_label s as) \<and> rm_failed s \<subseteq> rm_failed s'"
  using assms
proof (induction as arbitrary: s)
  case Nil
  then show ?case by simp
next
  case (Cons a as)
  then obtain s1 where s1: "room_next s a = Some s1" "run room_next s1 as = Some s'" by (auto split: option.splits)
  note IH = Cons.IH [OF s1(2) room_inv_next [OF Cons.prems(2) s1(1)] Cons.prems(3)]
  with Cons.prems(3) have "d \<notin> rm_failed s1" by auto
  from IH room_step_heard [OF Cons.prems(2) s1(1) this] s1(1) show ?case by auto
qed

text \<open>C38: Everybody in the room hears the same conversation. In every interleaving of the threads, what
  reached a client, until a write to it fails, is the frames of the broadcasts it was on the list for, in
  the order in which the broadcasts took the mutex, which is one order for all clients, and each frame
  whole; only of the last one a part may be due while its broadcast goes on. Joining and leaving
  clients, and descriptor numbers that are used again, do not change this.\<close>

theorem room_one_order:
  assumes "run room_next room_start as = Some s" "d \<notin> rm_failed s"
  shows "rm_wire s d @ due d (rm_cast s) = heard_by d (seen room_next cast_label room_start as)"
  using room_run_heard [OF assms(1) room_inv_start assms(2)] by (simp add: room_start_def)

text \<open>Two clients, the second of which joins while the first speaks.\<close>

definition two_clients :: "room_action list" where
  "two_clients = [Accepts 1 4, Adds 1, Gets_join 1 ''a'', Names 1, Accepts 2 5, Locks 1, Writes 21, Next_client, Unlocks, Adds 2,
     Gets_msg 1 ''x'', Gets_join 2 ''b'', Locks 1, Writes 2, Writes 7, Next_client, Unlocks, Names 2, Locks 2, Writes 21, Next_client, Writes 3]"

lemma two_clients_run:
  "\<exists>s. run room_next room_start two_clients = Some s \<and> rm_failed s = {} \<and> rm_shut s = {} \<and> rm_killed s = False \<and>
     rm_pc s = (\<lambda>_. None)(1 \<mapsto> At_read 4 ''a'', 2 \<mapsto> At_cast 5 ''b'' (rm_build_deliver ''server'' ''b joined'') (-1)) \<and>
     rm_cast s = Some (2, [\<lparr>rc_id = 2, rc_name = ''b'', rc_fd = 5\<rparr>], drop 3 (rm_build_deliver ''server'' ''b joined''), rm_build_deliver ''server'' ''b joined'') \<and>
     rm_at s = Serving \<and> rm_next_id s = 2 \<and> rm_fdtab s = (\<lambda>_. None)(4 \<mapsto> 1, 5 \<mapsto> 2)"
  by (simp add: two_clients_def room_start_def room_next_def rm_add_def rm_targets_def rm_build_deliver_def rm_build_frame_def Let_def)

theorem room_one_order_witness:
  "\<exists>s. run room_next room_start two_clients = Some s \<and>
     rm_wire s 1 @ due 1 (rm_cast s) = heard_by 1 (seen room_next cast_label room_start two_clients)"
  using two_clients_run room_one_order [of two_clients _ 1] by auto

section \<open>A client that does not read\<close>

definition mid_write :: "room \<Rightarrow> bool" where
  "mid_write s \<longleftrightarrow> (\<exists>i c cs left frame. rm_cast s = Some (i, c # cs, left, frame) \<and> left \<noteq> [])"

lemma mid_write_next:
  assumes "mid_write s" "room_next s a = Some s'" "\<forall>n. a \<noteq> Writes n" "a \<noteq> Write_fails"
  shows "rm_cast s' = rm_cast s \<and> rm_wire s' = rm_wire s \<and> rm_clients s' = rm_clients s"
proof -
  from assms(2) have m: "room_move s a = Some s'" by (simp add: room_next_def split: if_splits)
  from assms(1) obtain i c cs left frame where k: "rm_cast s = Some (i, c # cs, left, frame)" "left \<noteq> []" by (auto simp: mid_write_def)
  show ?thesis
  proof (cases a)
    case Requests_stop
    with m show ?thesis by (auto split: room_main.splits list.splits)
  next
    case Dies
    with m k show ?thesis by (auto split: option.splits if_splits)
  qed (use m k assms(3,4) in \<open>auto split: option.splits room_pc.splits if_splits\<close>)+
qed

text \<open>One client that stops reading stops the room. A broadcast holds the mutex of the hub while it
  writes, so as long as a write to one client neither takes bytes nor fails, nothing reaches anybody, no
  client is added and none removed, whatever the other threads do.\<close>

lemma room_stalls:
  assumes "run room_next s as = Some s'" "rm_cast s = Some (i, c # cs, left, frame)" "left \<noteq> []"
    and "\<forall>n. Writes n \<notin> set as" "Write_fails \<notin> set as"
  shows "rm_wire s' = rm_wire s \<and> rm_clients s' = rm_clients s \<and> rm_cast s' = rm_cast s"
proof -
  have "mid_write s" using assms(2,3) by (auto simp: mid_write_def)
  with assms(1,4,5) show ?thesis
  proof (induction as arbitrary: s)
    case Nil
    then show ?case by simp
  next
    case (Cons a as)
    then obtain s1 where s1: "room_next s a = Some s1" "run room_next s1 as = Some s'" by (auto split: option.splits)
    with Cons.prems have k: "rm_cast s1 = rm_cast s \<and> rm_wire s1 = rm_wire s \<and> rm_clients s1 = rm_clients s"
      by (intro mid_write_next [of s a]) auto
    with Cons.prems(4) have "mid_write s1" by (simp add: mid_write_def)
    with Cons.IH [OF s1(2)] Cons.prems(2,3) k show ?case by simp
  qed
qed

text \<open>The second client takes three bytes and no more: the first can send a message and leave, a third
  can connect, and nothing comes of it.\<close>

section \<open>Stopping the server\<close>

lemma pc_change:
  assumes "room_move s a = Some s'"
  shows "rm_pc s' = rm_pc s \<or> (\<exists>i fd. a = Accepts i fd) \<or> (\<exists>i p q. rm_pc s i = Some p \<and> p \<noteq> At_end \<and> rm_pc s' = (rm_pc s)(i \<mapsto> q))"
proof (cases a)
  case Requests_stop
  with assms show ?thesis by (auto split: room_main.splits list.splits)
next
  case (Removes i)
  with assms show ?thesis by (cases "rm_pc s i") (fastforce split: room_pc.splits if_splits prod.splits)+
next
  case (Locks i)
  with assms show ?thesis by (auto split: if_splits option.splits room_pc.splits)
next
  case (Writes n)
  with assms show ?thesis by (auto split: option.splits list.splits if_splits)
next
  case Write_fails
  with assms show ?thesis by (auto split: option.splits list.splits if_splits)
next
  case Next_client
  with assms show ?thesis by (auto split: option.splits list.splits if_splits)
next
  case Dies
  with assms show ?thesis by (auto split: option.splits list.splits if_splits)
next
  case Unlocks
  with assms obtain i left frame where k: "rm_cast s = Some (i, [], left, frame)" by (auto split: option.splits list.splits)
  with assms Unlocks show ?thesis by (cases "rm_pc s i") (fastforce split: room_pc.splits)+
next
  case (Adds i)
  with assms show ?thesis by (cases "rm_pc s i") (fastforce split: room_pc.splits if_splits)+
next
  case (Gets_join i n)
  with assms show ?thesis by (cases "rm_pc s i") (fastforce split: room_pc.splits if_splits)+
next
  case (Names i)
  with assms show ?thesis by (cases "rm_pc s i") (fastforce split: room_pc.splits if_splits)+
next
  case (Gets_msg i n)
  with assms show ?thesis by (cases "rm_pc s i") (fastforce split: room_pc.splits if_splits)+
next
  case (Read_ends i)
  with assms show ?thesis by (cases "rm_pc s i") (fastforce split: room_pc.splits)+
next
  case (Closes i)
  with assms show ?thesis by (cases "rm_pc s i") (fastforce split: room_pc.splits)+
qed (use assms in \<open>auto split: if_splits\<close>)+

text \<open>Once the main thread has left, every thread has ended.\<close>

definition exit_inv :: "room \<Rightarrow> bool" where
  "exit_inv s \<longleftrightarrow> 0 \<le> rm_next_id s \<and> (\<forall>i. rm_pc s i \<noteq> None \<longrightarrow> 1 \<le> i \<and> i \<le> rm_next_id s) \<and>
     (rm_at s = Exited \<longrightarrow> (\<forall>i p. rm_pc s i = Some p \<longrightarrow> p = At_end))"

lemma main_change:
  assumes "room_move s a = Some s'"
  shows "(rm_at s' = Exited \<longrightarrow> rm_at s = Exited \<or> a = Joins_all) \<and> (rm_next_id s' = rm_next_id s \<or> (\<exists>i fd. a = Accepts i fd))"
proof (cases a)
  case Requests_stop
  with assms show ?thesis by (auto split: room_main.splits list.splits)
next
  case (Removes i)
  with assms show ?thesis by (auto split: option.splits room_pc.splits if_split_asm prod.splits)
next
  case Unlocks
  with assms show ?thesis by (auto split: option.splits list.splits room_pc.splits)
qed (use assms in \<open>auto split: if_splits option.splits list.splits room_pc.splits\<close>)+

lemma exit_inv_next:
  assumes i: "exit_inv s" and n: "room_next s a = Some s'"
  shows "exit_inv s'"
proof -
  from n have m: "room_move s a = Some s'" by (simp add: room_next_def split: if_splits)
  from i have e: "rm_pc s i = Some p \<Longrightarrow> 1 \<le> i \<and> i \<le> rm_next_id s" "rm_at s = Exited \<Longrightarrow> rm_pc s i = Some p \<Longrightarrow> p = At_end" for i p
    by (auto simp: exit_inv_def)
  consider (new) j fd where "a = Accepts j fd" | (joins) "a = Joins_all" | (other) "a \<noteq> Joins_all" "\<forall>j fd. a \<noteq> Accepts j fd" by blast
  then show ?thesis
  proof cases
    case new
    with m have s': "s' = s\<lparr>rm_next_id := j, rm_fdtab := (rm_fdtab s)(fd \<mapsto> j), rm_pc := (rm_pc s)(j \<mapsto> At_add fd)\<rparr>"
      and j: "j = rm_next_id s + 1" "rm_at s = Serving" by (auto split: if_splits)
    have n: "0 \<le> rm_next_id s" using i by (simp add: exit_inv_def)
    have "1 \<le> k \<and> k \<le> j" if "rm_pc s' k = Some p" for k p
      using that e(1) [of k p] n j(1) by (cases "k = j") (auto simp: s')
    moreover have "rm_at s' = Serving" "rm_next_id s' = j" by (simp_all add: s' j(2))
    ultimately show ?thesis using n j(1) by (auto simp: exit_inv_def)
  next
    case joins
    with m have q: "rm_pc s k = Some At_end" if "1 \<le> k" "k \<le> rm_next_id s" for k
      using that by (auto split: if_splits)
    have s': "rm_pc s' = rm_pc s" "rm_next_id s' = rm_next_id s" using joins m by (auto split: if_splits)
    have p: "p = At_end" if "rm_pc s k = Some p" for k p using q e(1) [OF that] that by simp
    have n: "0 \<le> rm_next_id s" using i by (simp add: exit_inv_def)
    show ?thesis unfolding exit_inv_def s' using n e(1) p by blast
  next
    case other
    with main_change [OF m] have c: "rm_at s' = Exited \<Longrightarrow> rm_at s = Exited" "rm_next_id s' = rm_next_id s" by auto
    from other pc_change [OF m] consider "rm_pc s' = rm_pc s" | j p q where "rm_pc s j = Some p" "p \<noteq> At_end" "rm_pc s' = (rm_pc s)(j \<mapsto> q)" by blast
    then show ?thesis
    proof cases
      case 1
      with i c show ?thesis by (auto simp: exit_inv_def)
    next
      case (2 j p q)
      with e(2) [of j p] c(1) have "rm_at s' \<noteq> Exited" by blast
      with i e(1) [OF 2(1)] c 2(3) show ?thesis by (auto simp: exit_inv_def)
    qed
  qed
qed

lemma exit_inv_start: "exit_inv room_start"
  by (simp add: exit_inv_def room_start_def)

lemma cast_not_exited:
  assumes "room_inv s" "exit_inv s" "rm_cast s \<noteq> None"
  shows "rm_at s \<noteq> Exited"
proof -
  from assms(3) obtain i ts left frame where "rm_cast s = Some (i, ts, left, frame)" by (cases "rm_cast s") auto
  with assms(1) obtain p where "rm_pc s i = Some p" "is_casting p" by (auto simp: room_inv_def)
  then have "p \<noteq> At_end" "rm_pc s i = Some p" by auto
  with assms(2) show ?thesis unfolding exit_inv_def by blast
qed

text \<open>C40: Stopping the server can kill it. The stop requests shut the clients' sockets down one after the other
  and a thread that ends announces it to everybody still on the list. Once that notice has come to a
  client whose socket is shut down, the write can only raise SIGPIPE: whatever happens then, the program
  does not leave \<open>cmd_serve\<close>, and so does not return 0, and the only step left to the broadcast is to die.\<close>

theorem room_stop_dies:
  assumes "run room_next room_start as = Some s" "rm_cast s = Some (i, c # cs, left, frame)" "left \<noteq> []" "rc_id c \<in> rm_shut s"
    and "run room_next s bs = Some s'"
  shows "rm_at s' \<noteq> Exited \<and> rm_cast s' = rm_cast s"
proof -
  have i: "room_inv s" using run_invariant [of room_next _ as s room_inv] assms(1) room_inv_start room_inv_next by blast
  have e: "exit_inv s" using run_invariant [of room_next _ as s exit_inv] assms(1) exit_inv_start exit_inv_next by blast
  define I where "I v \<longleftrightarrow> room_inv v \<and> exit_inv v \<and> rm_cast v = rm_cast s \<and> rc_id c \<in> rm_shut v" for v
  have "I s'"
  proof (rule run_invariant [OF assms(5), where I = I])
    show "I s" using i e assms(4) by (simp add: I_def)
    fix v a v'
    assume v: "I v" and n: "room_next v a = Some v'"
    then have m: "room_move v a = Some v'" by (simp add: room_next_def split: if_splits)
    from v assms(2) have k: "rm_cast v = Some (i, c # cs, left, frame)" and sh: "rc_id c \<in> rm_shut v" by (simp_all add: I_def)
    from v k have tab: "rm_fdtab v (rc_fd c) = Some (rc_id c)"
      by (auto simp: I_def room_inv_def members_ok_def fds_ok_def dest!: subseq_mem [of _ _ c])
    have w: "\<forall>n. a \<noteq> Writes n" "a \<noteq> Write_fails" using m k tab sh by (auto split: if_splits)
    have "mid_write v" using k assms(3) by (simp add: mid_write_def)
    from mid_write_next [OF this n w] have "rm_cast v' = rm_cast v" by blast
    moreover have "rc_id c \<in> rm_shut v'"
    proof (cases a)
      case Requests_stop
      with m sh show ?thesis by (auto split: room_main.splits list.splits)
    qed (use m sh k in \<open>auto split: option.splits room_pc.splits if_splits prod.splits\<close>)+
    ultimately show "I v'" using v room_inv_next [OF _ n] exit_inv_next [OF _ n] by (simp add: I_def)
  qed
  then show ?thesis using cast_not_exited [of s'] assms(2) by (auto simp: I_def)
qed

text \<open>Two members; the server is stopped, the first thread wakes up and says that its client left.\<close>

definition stopped_room :: "room_action list" where
  "stopped_room = [Accepts 1 4, Adds 1, Gets_join 1 ''a'', Names 1, Locks 1, Writes 21, Next_client, Unlocks, Accepts 2 5, Adds 2,
     Sigint, Requests_stop, Requests_stop, Requests_stop, Read_ends 1, Removes 1, Locks 1]"

lemma stopped_room_run:
  "\<exists>s. run room_next room_start stopped_room = Some s \<and> rm_at s = Joining \<and> rm_shut s = {1, 2} \<and> rm_killed s = False \<and>
     rm_fdtab s = (\<lambda>_. None)(4 \<mapsto> 1, 5 \<mapsto> 2) \<and>
     rm_cast s = Some (1, [\<lparr>rc_id = 2, rc_name = [], rc_fd = 5\<rparr>], rm_build_deliver ''server'' ''a left'', rm_build_deliver ''server'' ''a left'')"
  by (auto simp: stopped_room_def room_start_def room_next_def rm_add_def rm_targets_def rm_build_deliver_def rm_build_frame_def Let_def upto.simps)

theorem room_stop_dies_witness:
  "\<exists>s s'. run room_next room_start stopped_room = Some s \<and> run room_next s [Dies] = Some s' \<and> rm_killed s' \<and> rm_at s' \<noteq> Exited"
proof -
  from stopped_room_run obtain s where s: "run room_next room_start stopped_room = Some s" "rm_shut s = {1, 2}" "rm_killed s = False"
    "rm_fdtab s = (\<lambda>_. None)(4 \<mapsto> 1, 5 \<mapsto> 2)"
    "rm_cast s = Some (1, [\<lparr>rc_id = 2, rc_name = [], rc_fd = 5\<rparr>], rm_build_deliver ''server'' ''a left'', rm_build_deliver ''server'' ''a left'')"
    by blast
  have l: "rm_build_deliver ''server'' ''a left'' \<noteq> []" by (simp add: rm_build_deliver_def rm_build_frame_def Let_def)
  with s have d: "run room_next s [Dies] = Some (s\<lparr>rm_killed := True\<rparr>)" by (simp add: room_next_def)
  from room_stop_dies [OF s(1,5) l _ d] s(1,2) d show ?thesis by auto
qed

end
