(* ===== verification/Spec2Isabelle.thy ===== *)
theory Spec2Isabelle
  imports Fleet ScalingProps HeartbeatProps Spsc ShmkvProps FastpathProps SandboxEvents WorkqProps DiscoverProps PipesProps PipesSup PipesTail ControlProps RoomProps
begin

text \<open>
  A verification development for the C++ programs of the repository, a book on Linux systems
  programming whose chapters each come with a program under \<open>src/examples\<close>. Modelled are the chat
  server the book builds up, in its versions of chapters 21, 22, 23, 24 and 41 with the fleet around it, the
  process supervisor in its versions of chapters 18 (pipes) and 19 (a control socket), and the programs
  of the chapters on shared memory (20), mutexes and condition variables (25), lock-free rings (26),
  sandboxing (33) and low latency (40).

  \<^bold>\<open>How a program is modelled.\<close> A C++ function is an Isabelle function of the same name where the name
  is free, with a prefix where several programs share it (\<open>proto_\<close> and \<open>chatterd_\<close> for chapter 41,
  \<open>pp_\<close> and \<open>sup_\<close> 18, \<open>ct_\<close> 19, \<open>rm_\<close> 21, \<open>sc_\<close> 22, \<open>dc_\<close> 23, \<open>hb_\<close> 24, \<open>wq_\<close> 25, \<open>sb_\<close> 33, \<open>fast_\<close> 40). The kernel, libseccomp and opentelemetry-cpp are not
  under \<open>src/\<close>: a system call takes the next answer of the \<open>script\<close> of a \<open>world\<close> and is recorded with it
  in the \<open>trace\<close> (theory \<open>Sys\<close>), so a theorem about all worlds is about every behaviour of the kernel.
  A run that still waits for an answer is \<open>None\<close>. What a theorem needs of the kernel is a hypothesis
  on the trace: \<open>honest\<close> (read and write report no more bytes than asked for), \<open>unfailed\<close>, \<open>delivers\<close>. A
  loop around system calls is \<open>loop\<close>, a partial function that unfolds as the C++ loop does; \<open>loop_rule\<close>
  gives its partial correctness and \<open>loop_returns\<close> its termination. Errors are the left side of a sum,
  printed text is a list of pieces in which \<open>strerror\<close> and the like stay symbolic. Functions that
  compute without the kernel are plain functions. Machine integers are words where they can wrap.

  \<^bold>\<open>Threads.\<close> A thread by itself is a run in which what other threads share is a call (\<open>Load_flag\<close>, \<open>Store\<close>,
  the \<open>Hub_\<close> calls). Where the interleaving matters there is a step relation or a step function of the
  shared state besides: the hub and its client threads (\<open>Hub\<close>), those of the first version (\<open>Room\<close>), the supervisor and its signal thread
  (\<open>Pmon\<close>), the reaper, the control loop and the children of chapter 19 (\<open>Control\<close>), the ring (\<open>Spsc\<close>), the sequence lock (\<open>ShmkvProps\<close>) and the job queue with its mutex and
  condition variables (\<open>Workq\<close>). The interleavings are sequentially
  consistent, which the acquire and release pairs and the fences of these programs are there to give.

  \<^bold>\<open>The theories.\<close>
  \<^item> \<open>Prelude\<close>: bytes, the 16-bit length field, decimal numbers, searching. \<open>Sys\<close>: the boundary, and the
    interfaces \<open>byte_writer\<close>, \<open>exact_reader\<close>, \<open>byte_reader\<close>. \<open>Streams\<close>: formatted input. \<open>Refinement\<close>: runs
    of a step function and the interface \<open>refinement\<close>. \<open>FrameStream\<close>: the interface \<open>frame_stream\<close> of an
    incremental frame reader. \<open>Std_Map\<close>: the interface \<open>ordered_map\<close> and \<open>std::map\<close> as a sorted list.
  \<^item> \<open>Proto\<close> (\<open>proto.cpp\<close> of 41): the frame codec; the reader undoes the writer whatever pieces the kernel
    makes, a failed write leaves a prefix of the frame.
  \<^item> \<open>Chatterd\<close> (\<open>chatterd.cpp\<close>): sockets, client and bridge threads, accept loop, test clients; which hub
    operations a stream of frames causes. \<open>Hub\<close>: the registry and its threads; frames to one
    connection never mix, everybody but the sender gets a message once, across two nodes too, and
    the two ways in which closing and resetting connections break this.
  \<^item> \<open>Fwatch\<close>, \<open>Pmon\<close>, \<open>Sysagent\<close>, \<open>Fleet\<close> (the other files of 41): the sandboxed watcher, the supervisor,
    the resource agent, the command line that ties them together.
  \<^item> \<open>Room\<close>, \<open>RoomProps\<close> (21): the first chat room, whose broadcasts hold the mutex of the hub. All clients hear
    one sequence of whole frames; a client that stops reading stops the room, and stopping the server
    can end in SIGPIPE.
  \<^item> \<open>Scaling\<close>, \<open>ScalingProps\<close> (22): the thread-per-connection server and the epoll server; both make
    the same messages of the bytes of a connection, and the epoll server, whatever the kernel reports, is
    where an abstract server with neither queues nor events is: every client gets the same messages in
    one order. What comes with a close, and payloads over 65535 bytes, go wrong.
  \<^item> \<open>Heartbeat\<close>, \<open>HeartbeatProps\<close> (24): a session ends as timed out exactly after a silence of the timeout,
    the reconnection delay keeps its bounds, parsed options are in range.
  \<^item> \<open>Discover\<close>, \<open>DiscoverProps\<close> (23): frames again, the beacon and which names it can carry, each peer
    dialled at its first beacon only, the two ends of a greeting composed over a network that cuts it
    into any pieces.
  \<^item> \<open>Workq\<close>, \<open>WorkqInv\<close>, \<open>WorkqProps\<close> (25): producers, consumers and the main thread over a monitor. The
    invariant counts the threads at each place; the queue refines a bounded queue, no wake-up is lost,
    every run ends, the report is the same for every schedule, and \<open>--buggy\<close> loses a job.
  \<^item> \<open>Spsc\<close> (26): the ring refines a bounded queue, the sum is right, some thread can always advance.
  \<^item> \<open>Shmkv\<close>, \<open>ShmkvProps\<close> (20): the sequence lock, with stores and loads byte by byte, refines an atomic
    register; which missed updates the ring of slots can still give back.
  \<^item> \<open>Fastpath\<close>, \<open>FastpathProps\<close> (40): the echo is exact while writes succeed; what goes wrong when the
    socket buffer of a busy-polling connection is full; what a measurement sent and measured.
  \<^item> \<open>Pipes\<close>, \<open>PipesLog\<close>, \<open>PipesProps\<close>, \<open>PipesSup\<close>, \<open>PipesTail\<close> (18): a child whose two output pipes are read by
    a \<open>poll\<close> loop, with a pidfd or with SIGCHLD through a signalfd; its output is in the log line by line,
    the restart policy decides what is printed and returned, no descriptor stays open, and what the
    FIFO takes of the log has no gap between its openings. A child that keeps writing escapes the timeout.
  \<^item> \<open>Control\<close>, \<open>ControlProps\<close> (19): the control socket, the reaper thread that restarts the child, the log's
    descriptor passed to the client. When the program has ended no child is left, as long as its waits succeed
    and no reply to a client that has gone kills it; a stop completes
    within ten steps of the threads and the child, unless it comes before the child made its process
    group, in which case it is lost; and which lines of the log the client shows.
  \<^item> \<open>Sandbox\<close>, \<open>SandboxProps\<close>, \<open>SandboxEvents\<close> (33): no system call outside the allow-list after the filter is
    loaded, the snapshot comparison, debouncing without loss.

  \<^bold>\<open>Bounds.\<close> No definition uses fuel. The sequence lock is proved for up to a million updates, the bound
  its command line imposes, which keeps the 32-bit sequence number from wrapping; the ring for
  every capacity of 64 bits and every number of items. A run of the job queue has at most 19 steps per
  item, 8 per consumer and 3 per producer, and 3 for each wake-up without a reason. In \<open>Control\<close> a child is
  the one process forked, not the processes it may fork itself, and a child that was asked to end is one
  that can: a program that ignores SIGTERM makes the supervisor wait.

  \<^bold>\<open>Left out or idealised.\<close> Floating-point results are exact rationals in \<open>Sysagent\<close> and \<open>Spsc\<close>, where they are
  only printed, and rounded by a parameter in \<open>Fastpath\<close>. Allocation does not fail. Weak memory beyond
  the argument above, the text of \<open>strerror\<close>, and the effect of a Landlock domain or a filter inside the
  kernel are not modelled: the theorems say which calls were made in which order. Directory
  iteration is a parameter. The C++ programs of the other chapters (each a demonstration of one kernel
  facility: memory mapping, io_uring, signals, namespaces, KVM, coroutine and fiber libraries,
  and so on) are not modelled; nor are the Go, Rust, Lua and shell versions.
\<close>

end
